(* ===== verification/Prelude.thy ===== *)
theory Prelude
  imports Main "HOL-Library.Word"
begin

unbundle bit_operations_syntax

text \<open>
  The prelude: the machine types of the C code, the collections the component
  theories put their facts into, and generic lemmas on bytes, lists and
  numbers that several components share.
\<close>

section \<open>Types\<close>

type_synonym u8 = "8 word"
type_synonym u16 = "16 word"
type_synonym u32 = "32 word"

named_theorems step_defs \<open>definitions of the operations of a component\<close>
named_theorems frame_facts \<open>what an operation leaves unchanged\<close>

section \<open>Bytes and bits\<close>

definition bits_of_byte :: "u8 \<Rightarrow> bool list" where
  "bits_of_byte b = map (bit b) [0..<8]"

text \<open>The byte whose bits, the least significant first, are the list.\<close>

fun byte_of_bits :: "bool list \<Rightarrow> u8" where
  "byte_of_bits [] = 0"
| "byte_of_bits (b # bs) = of_bool b + 2 * byte_of_bits bs"

lemma bits_of_byte_simps:
  "bits_of_byte b = [bit b 0, bit b 1, bit b 2, bit b 3, bit b 4, bit b 5, bit b 6, bit b 7]"
  by (simp add: bits_of_byte_def upt_rec numeral_eq_Suc)

lemma length_bits_of_byte [simp]: "length (bits_of_byte b) = 8"
  by (simp add: bits_of_byte_def)

lemma u8_bit_eqI: "(\<And>i. i < 8 \<Longrightarrow> bit (a :: u8) i = bit b i) \<Longrightarrow> a = b"
  by (rule bit_word_eqI) simp

lemma bits_of_byte_inj: "bits_of_byte a = bits_of_byte b \<Longrightarrow> a = b"
  by (rule u8_bit_eqI) (auto simp: bits_of_byte_def)

lemma high_bits: "unat w < 2 ^ k \<Longrightarrow> k \<le> n \<Longrightarrow> \<not> bit (w :: 'a :: len word) n"
proof -
  assume w: "unat w < 2 ^ k" and n: "k \<le> n"
  then have "take_bit k (unat w) = unat w" by (simp add: take_bit_nat_eq_self)
  then have "bit (unat w) n = bit (take_bit k (unat w)) n" by simp
  then show ?thesis using n by (simp add: bit_simps)
qed

section \<open>Lists\<close>

text \<open>Overwriting \<open>ys\<close> into \<open>xs\<close> at offset \<open>i\<close>: what \<open>memcpy\<close> does inside an array.\<close>

definition overwrite :: "nat \<Rightarrow> 'a list \<Rightarrow> 'a list \<Rightarrow> 'a list" where
  "overwrite i ys xs = take i xs @ ys @ drop (i + length ys) xs"

lemma length_overwrite [simp]:
  "i + length ys \<le> length xs \<Longrightarrow> length (overwrite i ys xs) = length xs"
  by (simp add: overwrite_def)

lemma take_overwrite [simp]: "i \<le> length xs \<Longrightarrow> take i (overwrite i ys xs) = take i xs"
  by (simp add: overwrite_def)

lemma overwrite_at:
  "i + length ys \<le> length xs \<Longrightarrow> take (length ys) (drop i (overwrite i ys xs)) = ys"
  by (simp add: overwrite_def)

section \<open>C strings and arrays\<close>

text \<open>Character literals as bytes, the string at an address, and the copies of string.h into an array
  of known size. A copy that does not fit, or that reads behind the source, is a fault.\<close>

definition ascii :: "string \<Rightarrow> u8 list" where
  "ascii s = map of_char s"

definition c_str :: "u8 list \<Rightarrow> u8 list" where
  "c_str m = takeWhile (\<lambda>b. b \<noteq> 0) m"

datatype fault = Overread | Overwrite | BadFormat | NullPointer | Overlap

type_synonym 'a res = "fault + 'a"

definition memcpy :: "u8 list \<Rightarrow> u8 list \<Rightarrow> int \<Rightarrow> u8 list res" where
  "memcpy dst src n =
     (if n < 0 \<or> int (length src) < n then Inl Overread
      else if int (length dst) < n then Inl Overwrite
      else Inr (overwrite 0 (take (nat n) src) dst))"

definition strcpy :: "u8 list \<Rightarrow> u8 list \<Rightarrow> u8 list res" where
  "strcpy dst src =
     (if length dst < Suc (length (c_str src)) then Inl Overwrite
      else Inr (overwrite 0 (c_str src @ [0]) dst))"

text \<open>\<open>strncpy\<close> pads with zeros.\<close>

definition strncpy :: "u8 list \<Rightarrow> u8 list \<Rightarrow> nat \<Rightarrow> u8 list res" where
  "strncpy dst src n =
     (if length dst < n then Inl Overwrite
      else Inr (overwrite 0 (take n (c_str src @ replicate n 0)) dst))"

text \<open>Sequencing of steps that may fault.\<close>

fun res_bind :: "'a res \<Rightarrow> ('a \<Rightarrow> 'b res) \<Rightarrow> 'b res" where
  "res_bind (Inl e) f = Inl e"
| "res_bind (Inr a) f = f a"

lemma length_ascii [simp]: "length (ascii s) = length s"
  by (simp add: ascii_def)

lemma unat_of_char: "unat (of_char c :: u8) = of_char c"
proof -
  have "(of_char c :: u8) = of_nat (of_char c)" by (simp only: of_nat_of_char)
  then have "unat (of_char c :: u8) = take_bit 8 (of_char c :: nat)"
    by (simp only: unsigned_of_nat) simp
  also have "\<dots> = of_char c mod 256" by (simp add: take_bit_eq_mod)
  finally show ?thesis by simp
qed

lemma of_char_u8_inj: "(of_char c :: u8) = of_char d \<longleftrightarrow> c = d"
  by (metis unat_of_char of_char_eq_iff)

lemma ascii_inj: "ascii s = ascii t \<longleftrightarrow> s = t"
  unfolding ascii_def by (rule inj_map_eq_map) (simp add: inj_def of_char_u8_inj)

lemma c_str_ascii: "CHR 0x00 \<notin> set t \<Longrightarrow> c_str (ascii t @ 0 # r) = ascii t"
proof -
  have z: "(of_char c :: u8) = 0 \<longleftrightarrow> c = CHR 0x00" for c
    using of_char_u8_inj [of c "CHR 0x00"] by simp
  assume "CHR 0x00 \<notin> set t"
  then show ?thesis unfolding c_str_def ascii_def
    by (induction t) (auto simp: z)
qed

lemma memcpy_Inr: "memcpy dst src n = Inr d \<Longrightarrow> length d = length dst"
  by (auto simp: memcpy_def overwrite_def split: if_splits)

lemma strcpy_Inr: "strcpy dst src = Inr d \<Longrightarrow> length d = length dst"
  by (auto simp: strcpy_def overwrite_def split: if_splits)

lemma strncpy_Inr: "strncpy dst src n = Inr d \<Longrightarrow> length d = length dst"
  by (auto simp: strncpy_def overwrite_def split: if_splits)

lemma memcpy_ok: "0 \<le> n \<Longrightarrow> n \<le> int (length src) \<Longrightarrow> n \<le> int (length dst) \<Longrightarrow>
    memcpy dst src n = Inr (overwrite 0 (take (nat n) src) dst)"
  by (simp add: memcpy_def)

lemma strcpy_ok: "length (c_str src) < length dst \<Longrightarrow> strcpy dst src = Inr (overwrite 0 (c_str src @ [0]) dst)"
  by (simp add: strcpy_def)

lemma length_c_str: "length (c_str m) \<le> length m"
  by (simp add: c_str_def length_takeWhile_le)

lemma res_bind_Inr: "res_bind r f = Inr b \<longleftrightarrow> (\<exists>a. r = Inr a \<and> f a = Inr b)"
  by (cases r) auto

section \<open>Checked driver calls\<close>

text \<open>
  Driver calls in order. A call is followed by \<open>APP_ERROR_CHECK\<close> when its flag is set; the
  error handler does not return, so the calls end there and the result is \<open>False\<close>.
\<close>

fun checked :: "('c \<Rightarrow> u32) \<Rightarrow> ('c \<times> bool) list \<Rightarrow> bool \<times> 'c list" where
  "checked env [] = (True, [])"
| "checked env ((c, check) # cs) =
     (if check \<and> env c \<noteq> 0 then (False, [c])
      else let (ok, done) = checked env cs in (ok, c # done))"

lemma checked_ok: "\<forall>(c, check) \<in> set cs. check \<longrightarrow> env c = 0 \<Longrightarrow> checked env cs = (True, map fst cs)"
  by (induction cs) (auto simp: split_beta)

lemma checked_prefix: "\<exists>rest. map fst cs = snd (checked env cs) @ rest"
  by (induction cs) (auto simp: split_beta)

end
