(* ===== verification/CFloat.thy ===== *)
theory CFloat
  imports Complex_Main Prelude
begin

text \<open>
  The floating point of the firmware: IEEE 754 single and double precision with rounding to
  nearest even, on the magnitudes the sensor code reaches. A finite value is the rational
  it stands for; \<open>rnd p\<close> rounds a rational to \<open>p\<close> significant bits (24 for \<open>float\<close>, 53 for
  \<open>double\<close>) and every operation rounds its exact result once, at the precision C gives it.
  Exponent overflow, subnormals and the sign of zero are left out: no formula of the
  firmware leaves the normal range. \<open>NaN\<close> is a value of its own, which the operations
  propagate. \<open>rnd_eval\<close> is the bundle with which the simplifier evaluates a rounding.
\<close>

section \<open>Binary lengths and rounding\<close>

fun blen :: "nat \<Rightarrow> nat" where
  "blen n = (if n = 0 then 0 else Suc (blen (n div 2)))"

declare blen.simps [simp del]

lemma blen_0 [simp]: "blen 0 = 0"
  by (simp add: blen.simps)

text \<open>On numerals \<open>blen\<close> counts the digits, so that the simplifier evaluates it.\<close>

lemma blen_numeral [simp]:
  "blen 1 = 1"
  "blen (Suc 0) = 1"
  "blen (numeral num.One) = 1"
  "blen (numeral (num.Bit0 n)) = Suc (blen (numeral n))"
  "blen (numeral (num.Bit1 n)) = Suc (blen (numeral n))"
proof -
  show "blen 1 = 1" "blen (Suc 0) = 1" "blen (numeral num.One) = 1"
    by (simp_all add: blen.simps [of 1] blen.simps [of "Suc 0"])
  have "numeral (num.Bit0 n) div 2 = (numeral n :: nat)" by simp
  then show "blen (numeral (num.Bit0 n)) = Suc (blen (numeral n))"
    by (subst blen.simps) simp
  have "numeral (num.Bit1 n) div 2 = (numeral n :: nat)" by simp
  then show "blen (numeral (num.Bit1 n)) = Suc (blen (numeral n))"
    by (subst blen.simps) simp
qed

lemma blen_upper: "n < 2 ^ blen n"
proof (induction n rule: blen.induct)
  case (1 n)
  show ?case
  proof (cases "n = 0")
    case False
    with 1 have "n div 2 < 2 ^ blen (n div 2)" by simp
    then have "n < 2 * 2 ^ blen (n div 2)" by linarith
    with False show ?thesis by (simp add: blen.simps [of n])
  qed simp
qed

lemma blen_lower: "0 < n \<Longrightarrow> 2 ^ (blen n - 1) \<le> n"
proof (induction n rule: blen.induct)
  case (1 n)
  show ?case
  proof (cases "n div 2 = 0")
    case True
    with "1.prems" show ?thesis by (simp add: blen.simps [of n])
  next
    case False
    with 1 have "2 ^ (blen (n div 2) - 1) \<le> n div 2" by simp
    moreover from False have "0 < blen (n div 2)" by (simp add: blen.simps [of "n div 2"])
    ultimately have "2 ^ blen (n div 2) \<le> n"
      using power_Suc [of "2::nat" "blen (n div 2) - 1"] by simp
    with "1.prems" show ?thesis by (simp add: blen.simps [of n])
  qed
qed

lemma of_nat_le_rat: "a \<le> b \<Longrightarrow> (of_nat a :: rat) \<le> of_nat b"
  by (simp only: of_nat_le_iff)

lemma blen_lower_rat: "0 < n \<Longrightarrow> (2 ^ (blen n - 1) :: rat) \<le> of_nat n"
  using of_nat_le_rat [OF blen_lower [of n]] by simp

lemma blen_upper_rat: "(of_nat n + 1 :: rat) \<le> 2 ^ blen n"
  using of_nat_le_rat [OF Suc_leI [OF blen_upper [of n]]] by (simp add: add.commute)

definition expo :: "rat \<Rightarrow> int" where
  "expo x = (if 1 \<le> x then int (blen (nat \<lfloor>x\<rfloor>)) - 1
             else - int (blen (nat (\<lceil>1 / x\<rceil> - 1))))"

lemma expo_lower:
  assumes "0 < x"
  shows "2 powi expo x \<le> x"
proof (cases "1 \<le> x")
  case True
  define n where "n = nat \<lfloor>x\<rfloor>"
  from True have n: "0 < n" "of_nat n \<le> x"
    unfolding n_def by (simp_all add: le_floor_iff) 
  have "(2 ^ (blen n - 1) :: rat) \<le> of_nat n"
    by (rule blen_lower_rat [OF n(1)])
  also note n(2)
  finally have *: "(2 ^ (blen n - 1) :: rat) \<le> x" .
  from n have "0 < blen n" by (simp add: blen.simps [of n])
  moreover have "expo x = int (blen n) - 1" using True by (simp add: expo_def n_def)
  ultimately have "expo x = int (blen n - 1)" by linarith
  with * show ?thesis by (simp only: power_int_of_nat)
next
  case False
  define m where "m = nat (\<lceil>1 / x\<rceil> - 1)"
  have "1 / x \<le> of_int \<lceil>1 / x\<rceil>" by simp
  moreover have "\<lceil>1 / x\<rceil> \<le> int m + 1" unfolding m_def by linarith
  ultimately have "1 / x \<le> of_nat m + 1"
    by (metis (no_types, opaque_lifting) of_int_1 of_int_add of_int_le_iff of_int_of_nat_eq order_trans)
  also have "(of_nat m + 1 :: rat) \<le> 2 ^ blen m"
    by (rule blen_upper_rat)
  finally have "1 \<le> x * 2 ^ blen m" using assms by (simp add: field_simps)
  then have "1 / 2 ^ blen m \<le> x" by (simp add: divide_le_eq mult.commute)
  with False show ?thesis
    by (simp add: expo_def m_def [symmetric] power_int_minus inverse_eq_divide)
qed

lemma expo_upper:
  assumes "0 < x"
  shows "x < 2 powi (expo x + 1)"
proof (cases "1 \<le> x")
  case True
  define n where "n = nat \<lfloor>x\<rfloor>"
  have "x < of_int \<lfloor>x\<rfloor> + 1" by linarith
  also have "\<dots> = of_nat n + 1" using True by (simp add: n_def)
  also have "(of_nat n + 1 :: rat) \<le> 2 ^ blen n"
    by (rule blen_upper_rat)
  finally show ?thesis using True by (simp add: expo_def n_def [symmetric])
next
  case False
  define m where "m = nat (\<lceil>1 / x\<rceil> - 1)"
  from False assms have "1 < 1 / x" by simp
  then have m: "0 < m" "int m = \<lceil>1 / x\<rceil> - 1" unfolding m_def by linarith+
  then have "0 < blen m" by (simp add: blen.simps [of m])
  have "(2 ^ (blen m - 1) :: rat) \<le> of_nat m"
    by (rule blen_lower_rat [OF m(1)])
  also have "of_nat m = (of_int \<lceil>1 / x\<rceil> - 1 :: rat)"
    using m(2) by (metis of_int_1 of_int_diff of_int_of_nat_eq)
  also have "\<dots> < 1 / x" by linarith
  finally have "x * 2 ^ (blen m - 1) < 1" using assms by (simp add: field_simps)
  then have "x < 1 / 2 ^ (blen m - 1)" by (simp add: less_divide_eq)
  moreover have "expo x + 1 = - int (blen m - 1)"
    using \<open>0 < blen m\<close> False by (simp add: expo_def m_def [symmetric])
  ultimately show ?thesis
    by (simp only: power_int_minus power_int_of_nat inverse_eq_divide)
qed

lemmas expo_bounds = expo_lower expo_upper

lemma expo_less_iff:
  assumes "0 < x" shows "expo x < k \<longleftrightarrow> x < 2 powi k"
proof
  assume "expo x < k"
  then have "(2::rat) powi (expo x + 1) \<le> 2 powi k" by (intro power_int_increasing) auto
  with expo_bounds(2) [OF assms] show "x < 2 powi k" by linarith
next
  assume "x < 2 powi k"
  with expo_bounds(1) [OF assms] have "(2::rat) powi expo x < 2 powi k" by linarith
  then show "expo x < k" using power_int_increasing [of k "expo x" "2::rat"] by linarith
qed

lemma expo_mono: "0 < x \<Longrightarrow> x \<le> y \<Longrightarrow> expo x \<le> expo y"
  using expo_less_iff [of x "expo y + 1"] expo_bounds(2) [of y] by simp

definition round_half_even :: "rat \<Rightarrow> int" where
  "round_half_even x =
     (let f = \<lfloor>x\<rfloor>; d = x - of_int f in
      if d < 1 / 2 then f else if 1 / 2 < d then f + 1 else if even f then f else f + 1)"

lemma round_half_even_of_int [simp]: "round_half_even (of_int k) = k"
  by (simp add: round_half_even_def)

lemma round_half_even_error: "\<bar>of_int (round_half_even x) - x\<bar> \<le> 1 / 2"
proof -
  have "of_int \<lfloor>x\<rfloor> \<le> x" "x < of_int \<lfloor>x\<rfloor> + 1" by (rule of_int_floor_le, linarith)
  then show ?thesis unfolding round_half_even_def Let_def by (auto simp: abs_le_iff)
qed

lemma round_half_even_mono:
  assumes "x \<le> y" shows "round_half_even x \<le> round_half_even y"
proof (cases "\<lfloor>x\<rfloor> = \<lfloor>y\<rfloor>")
  case True
  then show ?thesis using assms by (auto simp: round_half_even_def Let_def)
next
  case False
  with assms have "\<lfloor>x\<rfloor> + 1 \<le> \<lfloor>y\<rfloor>" using floor_mono [of x y] by linarith
  moreover have "round_half_even x \<le> \<lfloor>x\<rfloor> + 1" "\<lfloor>y\<rfloor> \<le> round_half_even y"
    by (simp_all add: round_half_even_def Let_def)
  ultimately show ?thesis by linarith
qed

lemma round_half_even_minus: "round_half_even (- x) = - round_half_even x"
proof (cases "of_int \<lfloor>x\<rfloor> = x")
  case True
  then obtain k where "x = of_int k" by metis
  then show ?thesis
    using round_half_even_of_int [of "- k"] by simp
next
  case False
  then have "of_int \<lfloor>x\<rfloor> < x" "x < of_int \<lfloor>x\<rfloor> + 1"
    using of_int_floor_le [of x] by (metis order_le_less, linarith)
  then have "\<lfloor>- x\<rfloor> = - \<lfloor>x\<rfloor> - 1" by (simp add: floor_eq_iff)
  then show ?thesis by (auto simp: round_half_even_def Let_def)
qed

text \<open>Rounding a rational to the nearest number with \<open>p\<close> significant bits, ties to even.\<close>

definition ulp :: "nat \<Rightarrow> rat \<Rightarrow> rat" where
  "ulp p x = 2 powi (expo \<bar>x\<bar> - int p + 1)"

definition rnd :: "nat \<Rightarrow> rat \<Rightarrow> rat" where
  "rnd p x = (if x = 0 then 0 else of_int (round_half_even (x / ulp p x)) * ulp p x)"

lemma ulp_pos [simp]: "0 < ulp p x"
  by (simp add: ulp_def)

lemma ulp_neq_0 [simp]: "ulp p x \<noteq> 0"
  using ulp_pos [of p x] by linarith

lemma rnd_0 [simp]: "rnd p 0 = 0"
  by (simp add: rnd_def)

lemma rnd_minus: "rnd p (- x) = - rnd p x"
  by (simp add: rnd_def ulp_def round_half_even_minus)

lemma rnd_error: "\<bar>rnd p x - x\<bar> \<le> ulp p x / 2"
proof (cases "x = 0")
  case False
  have "rnd p x - x = (of_int (round_half_even (x / ulp p x)) - x / ulp p x) * ulp p x"
    using False by (simp add: rnd_def algebra_simps)
  then have "\<bar>rnd p x - x\<bar> = \<bar>of_int (round_half_even (x / ulp p x)) - x / ulp p x\<bar> * ulp p x"
    by (simp only: abs_mult abs_of_pos [OF ulp_pos])
  also have "\<dots> \<le> 1 / 2 * ulp p x"
    by (rule mult_right_mono [OF round_half_even_error]) (use ulp_pos [of p x] in linarith)
  finally show ?thesis by simp
qed (simp add: ulp_def)

lemma ulp_le: "x \<noteq> 0 \<Longrightarrow> ulp p x \<le> \<bar>x\<bar> * 2 powi (1 - int p)"
proof -
  assume "x \<noteq> 0"
  have "ulp p x = 2 powi (expo \<bar>x\<bar>) * 2 powi (1 - int p)"
    by (simp add: ulp_def power_int_add [symmetric] algebra_simps)
  also have "\<dots> \<le> \<bar>x\<bar> * 2 powi (1 - int p)"
    using expo_bounds(1) [of "\<bar>x\<bar>"] \<open>x \<noteq> 0\<close> by (intro mult_right_mono) auto
  finally show ?thesis .
qed

text \<open>The relative error is at most \<open>2 ^ -p\<close>.\<close>

lemma rnd_relative_error: "\<bar>rnd p x - x\<bar> \<le> \<bar>x\<bar> / 2 ^ p"
proof (cases "x = 0")
  case False
  have "\<bar>rnd p x - x\<bar> \<le> ulp p x / 2" by (rule rnd_error)
  also have "\<dots> \<le> \<bar>x\<bar> * 2 powi (1 - int p) / 2"
    using ulp_le [OF False, of p] by simp
  also have "\<dots> = \<bar>x\<bar> / 2 ^ p"
    by (simp add: power_int_diff)
  finally show ?thesis .
qed simp

text \<open>A number with at most \<open>p\<close> significant bits is left as it is.\<close>

lemma rnd_exact:
  assumes "x = of_int k * 2 powi q" and "\<bar>k\<bar> < 2 ^ p"
  shows "rnd p x = x"
proof (cases "x = 0")
  case False
  then have "k \<noteq> 0" using assms(1) by auto
  have "\<bar>x\<bar> < 2 ^ p * 2 powi q"
  proof -
    have "(of_int \<bar>k\<bar> :: rat) < of_int (2 ^ p)" using assms(2) by (simp only: of_int_less_iff)
    then show ?thesis using assms(1) by (simp add: abs_mult)
  qed
  also have "(2::rat) ^ p * 2 powi q = 2 powi (int p + q)" by (simp add: power_int_add)
  finally have "expo \<bar>x\<bar> < int p + q" using False by (simp add: expo_less_iff)
  then have "0 \<le> q - (expo \<bar>x\<bar> - int p + 1)" by linarith
  then obtain d :: nat where "q - (expo \<bar>x\<bar> - int p + 1) = int d" by (rule nonneg_int_cases)
  then have d: "q = expo \<bar>x\<bar> - int p + 1 + int d" by linarith
  have "x = of_int (k * 2 ^ d) * ulp p x"
    using assms(1) by (simp add: ulp_def d power_int_add mult.commute)
  then have "x / ulp p x = of_int (k * 2 ^ d)"
    by (metis ulp_neq_0 nonzero_mult_div_cancel_right)
  then have "round_half_even (x / ulp p x) = k * 2 ^ d" by (simp only: round_half_even_of_int)
  then show ?thesis using False \<open>x = of_int (k * 2 ^ d) * ulp p x\<close> by (simp add: rnd_def)
qed simp

lemma ulp_factor: "p \<noteq> 0 \<Longrightarrow> (2::rat) powi expo \<bar>x\<bar> = of_int (2 ^ (p - 1)) * ulp p x"
proof -
  assume "p \<noteq> 0"
  then have "expo \<bar>x\<bar> = int (p - 1) + (expo \<bar>x\<bar> - int p + 1)" by linarith
  then show ?thesis
    by (metis (no_types, lifting) of_int_numeral of_int_power power_int_add power_int_of_nat ulp_def
        zero_neq_numeral)
qed

lemma rnd_ge_pow:
  assumes "0 < x" and "p \<noteq> 0" shows "2 powi expo x \<le> rnd p x"
proof -
  have "of_int (2 ^ (p - 1)) \<le> x / ulp p x"
    using expo_bounds(1) [OF assms(1)] ulp_factor [OF assms(2), of x] assms(1)
    by (simp add: le_divide_eq)
  then have "2 ^ (p - 1) \<le> round_half_even (x / ulp p x)"
    using round_half_even_mono round_half_even_of_int by metis
  then have "(of_int (2 ^ (p - 1)) :: rat) * ulp p x \<le> of_int (round_half_even (x / ulp p x)) * ulp p x"
    by (intro mult_right_mono less_imp_le [OF ulp_pos]) (simp only: of_int_le_iff)
  then show ?thesis
    using assms(1) ulp_factor [OF assms(2), of x] by (simp add: rnd_def)
qed

lemma rnd_le_pow:
  assumes "0 < x" and "p \<noteq> 0" shows "rnd p x \<le> 2 powi (expo x + 1)"
proof -
  have pow: "(2::rat) powi (expo x + 1) = of_int (2 ^ p) * ulp p x"
  proof -
    have "expo x + 1 = int p + (expo \<bar>x\<bar> - int p + 1)" using assms(1) by simp
    then show ?thesis
      by (metis of_int_numeral of_int_power power_int_add power_int_of_nat ulp_def zero_neq_numeral)
  qed
  have "x / ulp p x \<le> of_int (2 ^ p)"
    using expo_bounds(2) [OF assms(1)] pow by (simp add: divide_le_eq)
  then have "round_half_even (x / ulp p x) \<le> 2 ^ p"
    using round_half_even_mono round_half_even_of_int by metis
  then have "(of_int (round_half_even (x / ulp p x)) :: rat) * ulp p x \<le> of_int (2 ^ p) * ulp p x"
    by (intro mult_right_mono less_imp_le [OF ulp_pos]) (simp only: of_int_le_iff)
  then show ?thesis using assms(1) pow by (simp add: rnd_def)
qed

lemma rnd_mono_pos:
  assumes "0 < x" "x \<le> y" "p \<noteq> 0" shows "rnd p x \<le> rnd p y"
proof (cases "expo x = expo y")
  case True
  with assms have "ulp p x = ulp p y" by (simp add: ulp_def)
  with assms show ?thesis
    by (auto simp: rnd_def intro!: round_half_even_mono divide_right_mono less_imp_le [OF ulp_pos])
next
  case False
  with expo_mono assms have "expo x + 1 \<le> expo y" by fastforce
  then have "(2::rat) powi (expo x + 1) \<le> 2 powi expo y" by (intro power_int_increasing) auto
  with rnd_le_pow [of x p] rnd_ge_pow [of y p] assms show ?thesis by linarith
qed

lemma rnd_nonneg: "0 \<le> x \<Longrightarrow> p \<noteq> 0 \<Longrightarrow> 0 \<le> rnd p x"
proof (cases "x = 0")
  case False
  moreover assume "0 \<le> x" "p \<noteq> 0"
  moreover have "(0::rat) \<le> 2 powi expo x" by simp
  ultimately show ?thesis using rnd_ge_pow [of x p] by linarith
qed simp

lemma rnd_mono:
  assumes "x \<le> y" and "p \<noteq> 0" shows "rnd p x \<le> rnd p y"
proof -
  consider "0 < x" | "x \<le> 0" "0 \<le> y" | "y < 0" by linarith
  then show ?thesis
  proof cases
    case 1
    then show ?thesis using assms by (rule rnd_mono_pos)
  next
    case 2
    then have "0 \<le> rnd p (- x)" "0 \<le> rnd p y" using assms(2) by (auto intro: rnd_nonneg)
    then show ?thesis by (simp add: rnd_minus)
  next
    case 3
    then have "rnd p (- y) \<le> rnd p (- x)" using assms by (intro rnd_mono_pos) auto
    then show ?thesis by (simp add: rnd_minus)
  qed
qed

lemma rat_floor_eval:
  "\<lfloor>(numeral a :: rat) / numeral b\<rfloor> = numeral a div numeral b"
  "\<lfloor>1 / (numeral b :: rat)\<rfloor> = 1 div numeral b"
  "\<lfloor>- (numeral a :: rat) / numeral b\<rfloor> = - numeral a div numeral b"
  "\<lfloor>- 1 / (numeral b :: rat)\<rfloor> = - 1 div numeral b"
proof -
  note fl = floor_divide_of_int_eq [where ?'a = rat]
  show "\<lfloor>(numeral a :: rat) / numeral b\<rfloor> = numeral a div numeral b"
    by (metis fl of_int_numeral)
  show "\<lfloor>1 / (numeral b :: rat)\<rfloor> = 1 div numeral b"
    by (metis fl of_int_numeral of_int_1)
  show "\<lfloor>- (numeral a :: rat) / numeral b\<rfloor> = - numeral a div numeral b"
    by (metis fl of_int_numeral of_int_minus)
  show "\<lfloor>- 1 / (numeral b :: rat)\<rfloor> = - 1 div numeral b"
    by (metis fl of_int_numeral of_int_minus of_int_1)
qed

lemma power_int_neg_numeral: "(2::rat) powi (- numeral n) = 1 / 2 ^ numeral n"
  by (simp only: power_int_minus power_int_numeral inverse_eq_divide)

text \<open>Rewriting with these evaluates a rounding of a fraction of numerals.\<close>

lemmas rnd_eval = rnd_def ulp_def expo_def round_half_even_def Let_def rat_floor_eval
  power_int_neg_numeral ceiling_def

section \<open>The C types float and double\<close>

datatype cfloat = Fin rat | NaN

fun lift1 :: "(rat \<Rightarrow> rat) \<Rightarrow> cfloat \<Rightarrow> cfloat" where
  "lift1 f (Fin a) = Fin (f a)"
| "lift1 f NaN = NaN"

fun lift2 :: "(rat \<Rightarrow> rat \<Rightarrow> rat) \<Rightarrow> cfloat \<Rightarrow> cfloat \<Rightarrow> cfloat" where
  "lift2 f (Fin a) (Fin b) = Fin (f a b)"
| "lift2 f _ _ = NaN"

definition isnan :: "cfloat \<Rightarrow> bool" where
  "isnan x \<longleftrightarrow> x = NaN"

text \<open>Conversions: an int to float, a double stored in a float, a decimal literal of type double.\<close>

definition float_of_int :: "int \<Rightarrow> cfloat" where
  "float_of_int k = Fin (rnd 24 (of_int k))"

definition to_float :: "cfloat \<Rightarrow> cfloat" where
  "to_float = lift1 (rnd 24)"

definition dlit :: "rat \<Rightarrow> cfloat" where
  "dlit q = Fin (rnd 53 q)"

definition d_add :: "cfloat \<Rightarrow> cfloat \<Rightarrow> cfloat" where
  "d_add = lift2 (\<lambda>a b. rnd 53 (a + b))"

definition d_sub :: "cfloat \<Rightarrow> cfloat \<Rightarrow> cfloat" where
  "d_sub = lift2 (\<lambda>a b. rnd 53 (a - b))"

definition d_mul :: "cfloat \<Rightarrow> cfloat \<Rightarrow> cfloat" where
  "d_mul = lift2 (\<lambda>a b. rnd 53 (a * b))"

definition d_div :: "cfloat \<Rightarrow> cfloat \<Rightarrow> cfloat" where
  "d_div = lift2 (\<lambda>a b. rnd 53 (a / b))"

definition f_add :: "cfloat \<Rightarrow> cfloat \<Rightarrow> cfloat" where
  "f_add = lift2 (\<lambda>a b. rnd 24 (a + b))"

definition f_sub :: "cfloat \<Rightarrow> cfloat \<Rightarrow> cfloat" where
  "f_sub = lift2 (\<lambda>a b. rnd 24 (a - b))"

definition f_mul :: "cfloat \<Rightarrow> cfloat \<Rightarrow> cfloat" where
  "f_mul = lift2 (\<lambda>a b. rnd 24 (a * b))"

definition f_div :: "cfloat \<Rightarrow> cfloat \<Rightarrow> cfloat" where
  "f_div = lift2 (\<lambda>a b. rnd 24 (a / b))"

lemmas float_op_defs = float_of_int_def to_float_def dlit_def d_add_def d_sub_def d_mul_def
  d_div_def f_add_def f_sub_def f_mul_def f_div_def

lemma isnan_simps [simp]: "isnan NaN" "\<not> isnan (Fin q)"
  by (simp_all add: isnan_def)

lemma rnd_abs_error: "\<bar>x\<bar> \<le> B \<Longrightarrow> \<bar>rnd p x - x\<bar> \<le> B / 2 ^ p"
  by (rule order_trans [OF rnd_relative_error]) (simp add: divide_right_mono)

lemma rnd_int: "\<bar>k\<bar> < 2 ^ p \<Longrightarrow> rnd p (of_int k) = of_int k"
  by (rule rnd_exact [where k = k and q = 0]) simp_all

lemma rnd_sixteenth: "\<bar>k\<bar> < 2 ^ p \<Longrightarrow> rnd p (of_int k / 16) = of_int k / 16"
  by (rule rnd_exact [where k = k and q = "- 4"]) (simp_all add: power_int_minus)

lemma float_of_int_exact: "\<bar>k\<bar> < 2 ^ 24 \<Longrightarrow> float_of_int k = Fin (of_int k)"
  by (simp add: float_of_int_def rnd_int)

section \<open>Propagating errors\<close>

text \<open>
  \<open>near e x y\<close>: the computed \<open>x\<close> is within \<open>e\<close> of the exact \<open>y\<close>. The rules follow the
  operations of a formula; the bounds stay numerals, so that \<open>simp\<close> discharges the side conditions.
\<close>

definition near :: "rat \<Rightarrow> rat \<Rightarrow> rat \<Rightarrow> bool" where
  "near e x y \<longleftrightarrow> \<bar>x - y\<bar> \<le> e"

lemma near_refl: "0 \<le> e \<Longrightarrow> near e x x"
  by (simp add: near_def)

lemma near_weaken: "near d x y \<Longrightarrow> d \<le> e \<Longrightarrow> near e x y"
  by (simp add: near_def)

lemma near_bound: "near e x y \<Longrightarrow> \<bar>y\<bar> \<le> B \<Longrightarrow> \<bar>x\<bar> \<le> B + e"
  by (simp add: near_def)

lemma near_rnd: "near d x y \<Longrightarrow> \<bar>y\<bar> \<le> B \<Longrightarrow> d + (B + d) / 2 ^ p \<le> e \<Longrightarrow> near e (rnd p x) y"
  using rnd_abs_error [of x "B + d" p] near_bound [of d x y B] by (simp add: near_def)

lemma near_add: "near d x y \<Longrightarrow> near e a b \<Longrightarrow> d + e \<le> f \<Longrightarrow> near f (x + a) (y + b)"
  by (simp add: near_def)

lemma near_diff: "near d x y \<Longrightarrow> near e a b \<Longrightarrow> d + e \<le> f \<Longrightarrow> near f (x - a) (y - b)"
  by (simp add: near_def)

lemma near_mult:
  assumes "near d x y" "near e a b" "\<bar>y\<bar> \<le> Y" "\<bar>b\<bar> \<le> B" "(Y + d) * e + d * B \<le> f"
  shows "near f (x * a) (y * b)"
proof -
  have "x * a - y * b = x * (a - b) + (x - y) * b" by (simp add: algebra_simps)
  then have "\<bar>x * a - y * b\<bar> \<le> \<bar>x\<bar> * \<bar>a - b\<bar> + \<bar>x - y\<bar> * \<bar>b\<bar>"
    by (metis abs_mult abs_triangle_ineq)
  also have "\<dots> \<le> (Y + d) * e + d * B"
    using assms(1-4) near_bound [OF assms(1,3)]
    by (intro add_mono mult_mono) (auto simp: near_def)
  finally show ?thesis using assms(5) by (simp add: near_def)
qed

lemma near_quotient:
  assumes "near e a b" "1 \<le> b" "e \<le> b - 1" "\<bar>y\<bar> \<le> Y" "Y * e \<le> f"
  shows "near f (y / a) (y / b)"
proof -
  have "1 \<le> a" using assms(1,3) by (simp add: near_def)
  then have "y / a - y / b = y * (b - a) / (a * b)"
    using assms(2) by (simp add: field_simps)
  moreover have "1 \<le> a * b" using mult_mono [of 1 a 1 b] \<open>1 \<le> a\<close> assms(2) by simp
  then have "\<bar>y * (b - a) / (a * b)\<bar> \<le> \<bar>y * (b - a)\<bar> / 1"
    unfolding abs_divide by (intro divide_left_mono) auto
  moreover have "\<bar>y * (b - a)\<bar> \<le> Y * e"
    unfolding abs_mult using assms(1,4) by (intro mult_mono) (auto simp: near_def)
  ultimately show ?thesis using assms(5) by (simp add: near_def)
qed

end
