(* ===== verification/Sensors.thy ===== *)
theory Sensors
  imports CFloat
begin

text \<open>
  The shared sensor state: the packed structs \<open>sensors_state_t1\<close> to \<open>sensors_state_t4\<close> of
  tcptest.h and the globals \<open>sensors_state1\<close> to \<open>sensors_state4\<close> of tcptest.c that every
  sensor driver writes and the BLE and HTTP senders read; and \<open>init_keys\<close> of
  power_factor.c, which fills the key bytes of the packets.

  A packed struct is a list of pairs of a key byte and a float. The layout of each struct
  is the list of its pairs in declaration order: the number in the name of the key
  field (\<open>key12\<close> is 12) and the float field behind it. A packet maps the key numbers and
  the float fields to their values.
\<close>

section \<open>The packets\<close>

datatype sfield =
    rarh10 | radb10 | sarh10 | sadb10 | oarh10 | oadb10 | sltc11 | sltc21 | sltc31 | sltc41 |
    lltc11 | lltc21 | lltc31 | lltc41 | spc11 | spc21 | spc31 | spc41 | llpc11 | llpc21 |
    llpc31 | llpc41 | iUei1 | iUei2 | iUei3 | uUei1 | uUei2 | uUei3 | powerFactor |
    activeWatts | wire1_orange | wire2_white | wire3_yellow

definition layout_t4 :: "(nat \<times> sfield) list" where
  "layout_t4 = [
   (12, rarh10), (13, radb10), (10, sarh10), (11, sadb10), (8, oarh10), (9, oadb10),
   (16, sltc11), (21, sltc21), (26, sltc31), (31, sltc41), (17, lltc11), (22, lltc21),
   (27, lltc31), (32, lltc41), (14, spc11), (19, spc21), (24, spc31), (29, spc41),
   (15, llpc11), (20, llpc21), (25, llpc31), (30, llpc41), (3, iUei1), (4, iUei2), (5, iUei3),
   (0, uUei1), (1, uUei2), (2, uUei3), (6, powerFactor), (7, activeWatts), (34, wire1_orange),
   (35, wire2_white), (36, wire3_yellow)]"

definition layout_t3 :: "(nat \<times> sfield) list" where
  "layout_t3 = [
   (12, rarh10), (13, radb10), (10, sarh10), (11, sadb10), (8, oarh10), (9, oadb10),
   (16, sltc11), (21, sltc21), (26, sltc31), (17, lltc11), (22, lltc21), (27, lltc31),
   (14, spc11), (19, spc21), (24, spc31), (15, llpc11), (20, llpc21), (25, llpc31), (3, iUei1),
   (4, iUei2), (5, iUei3), (0, uUei1), (1, uUei2), (2, uUei3), (6, powerFactor),
   (7, activeWatts), (34, wire1_orange), (35, wire2_white), (36, wire3_yellow)]"

definition layout_t2 :: "(nat \<times> sfield) list" where
  "layout_t2 = [
   (12, rarh10), (13, radb10), (10, sarh10), (11, sadb10), (8, oarh10), (9, oadb10),
   (16, sltc11), (21, sltc21), (17, lltc11), (22, lltc21), (14, spc11), (19, spc21),
   (15, llpc11), (20, llpc21), (3, iUei1), (4, iUei2), (5, iUei3), (0, uUei1), (1, uUei2),
   (2, uUei3), (6, powerFactor), (7, activeWatts), (34, wire1_orange), (35, wire2_white),
   (36, wire3_yellow)]"

definition layout_t1 :: "(nat \<times> sfield) list" where
  "layout_t1 = [
   (12, rarh10), (13, radb10), (10, sarh10), (11, sadb10), (8, oarh10), (9, oadb10),
   (16, sltc11), (17, lltc11), (14, spc11), (15, llpc11), (3, iUei1), (4, iUei2), (5, iUei3),
   (0, uUei1), (1, uUei2), (2, uUei3), (6, powerFactor), (7, activeWatts), (34, wire1_orange),
   (35, wire2_white), (36, wire3_yellow)]"

record packet =
  pkey :: "nat \<Rightarrow> u8"
  pval :: "sfield \<Rightarrow> cfloat"

record sensors =
  sensors_state1 :: packet
  sensors_state2 :: packet
  sensors_state3 :: packet
  sensors_state4 :: packet

text \<open>Static storage starts as zero.\<close>

definition zero_packet :: packet where
  "zero_packet = \<lparr>pkey = (\<lambda>_. 0), pval = (\<lambda>_. Fin 0)\<rparr>"

definition init_sensors :: sensors where
  "init_sensors = \<lparr>sensors_state1 = zero_packet, sensors_state2 = zero_packet,
                   sensors_state3 = zero_packet, sensors_state4 = zero_packet\<rparr>"

definition put :: "sfield \<Rightarrow> cfloat \<Rightarrow> packet \<Rightarrow> packet" where
  "put f v p = p\<lparr>pval := (pval p)(f := v)\<rparr>"

definition put_key :: "nat \<Rightarrow> u8 \<Rightarrow> packet \<Rightarrow> packet" where
  "put_key n b p = p\<lparr>pkey := (pkey p)(n := b)\<rparr>"

text \<open>
  The drivers assign a reading to the structs of all systems that have the sensor: circuit
  \<open>n\<close>'s sensors are in the structs \<open>n\<close> to 4. \<open>store_from n\<close> is that block of assignments.
\<close>

definition store_from :: "nat \<Rightarrow> sfield \<Rightarrow> cfloat \<Rightarrow> sensors \<Rightarrow> sensors" where
  "store_from n f v s = s\<lparr>
     sensors_state1 := (if n \<le> 1 then put f v (sensors_state1 s) else sensors_state1 s),
     sensors_state2 := (if n \<le> 2 then put f v (sensors_state2 s) else sensors_state2 s),
     sensors_state3 := (if n \<le> 3 then put f v (sensors_state3 s) else sensors_state3 s),
     sensors_state4 := put f v (sensors_state4 s)\<rparr>"

fun state_of :: "nat \<Rightarrow> sensors \<Rightarrow> packet" where
  "state_of k s = (if k = 1 then sensors_state1 s else if k = 2 then sensors_state2 s
                   else if k = 3 then sensors_state3 s else sensors_state4 s)"

fun layout_of :: "nat \<Rightarrow> (nat \<times> sfield) list" where
  "layout_of k = (if k = 1 then layout_t1 else if k = 2 then layout_t2
                  else if k = 3 then layout_t3 else layout_t4)"

text \<open>\<open>sizeof\<close>: one key byte and four float bytes for each pair, no padding.\<close>

definition sizeof_state :: "nat \<Rightarrow> nat" where
  "sizeof_state k = 5 * length (layout_of k)"

text \<open>What the packet carries over the air: key and value pairs in struct order.\<close>

definition serialise :: "nat \<Rightarrow> packet \<Rightarrow> (u8 \<times> cfloat) list" where
  "serialise k p = map (\<lambda>(n, f). (pkey p n, pval p f)) (layout_of k)"

section \<open>Reading back what was stored\<close>

lemma put_simps [simp]:
  "pval (put f v p) g = (if g = f then v else pval p g)"
  "pkey (put f v p) = pkey p"
  "pval (put_key n b p) = pval p"
  "pkey (put_key n b p) m = (if m = n then b else pkey p m)"
  by (simp_all add: put_def put_key_def)

lemma store_from_val [simp]:
  "k \<in> {1..4} \<Longrightarrow> pval (state_of k (store_from n f v s)) g =
     (if n \<le> k \<and> g = f then v else pval (state_of k s) g)"
  if "n \<le> 4"
  using that by (auto simp: store_from_def)

lemma store_from_key [simp]: "pkey (state_of k (store_from n f v s)) = pkey (state_of k s)"
  by (simp add: store_from_def)

lemma store_from_states [simp]:
  "pval (sensors_state4 (store_from n f v s)) = (pval (sensors_state4 s))(f := v)"
  "n \<le> 3 \<Longrightarrow> pval (sensors_state3 (store_from n f v s)) = (pval (sensors_state3 s))(f := v)"
  "n \<le> 2 \<Longrightarrow> pval (sensors_state2 (store_from n f v s)) = (pval (sensors_state2 s))(f := v)"
  "n \<le> 1 \<Longrightarrow> pval (sensors_state1 (store_from n f v s)) = (pval (sensors_state1 s))(f := v)"
  by (simp_all add: store_from_def put_def)

section \<open>The keys\<close>

text \<open>
  The assignments of \<open>init_keys\<close> in source order: the struct, the number of the key field
  and the value.
\<close>

definition init_keys_table :: "(nat \<times> nat \<times> u8) list" where
  "init_keys_table = [
   (1, 0, 0), (2, 0, 0), (3, 0, 0), (4, 0, 0), (1, 1, 1), (2, 1, 1), (3, 1, 1), (4, 1, 1),
   (1, 2, 2), (2, 2, 2), (3, 2, 2), (4, 2, 2), (1, 3, 3), (2, 3, 3), (3, 3, 3), (4, 3, 3),
   (1, 4, 4), (2, 4, 4), (3, 4, 4), (4, 4, 4), (1, 5, 5), (2, 5, 5), (3, 5, 5), (4, 5, 5),
   (1, 6, 6), (2, 6, 6), (3, 6, 6), (4, 6, 6), (1, 7, 7), (2, 7, 7), (3, 7, 7), (4, 7, 7),
   (1, 8, 8), (2, 8, 8), (3, 8, 8), (4, 8, 8), (1, 9, 9), (2, 9, 9), (3, 9, 9), (4, 9, 9),
   (1, 10, 10), (2, 10, 10), (3, 10, 10), (4, 10, 10), (1, 11, 11), (2, 11, 11), (3, 11, 11),
   (4, 11, 11), (1, 12, 12), (2, 12, 12), (3, 12, 12), (4, 12, 12), (1, 13, 13), (2, 13, 13),
   (3, 13, 13), (4, 13, 13), (1, 14, 14), (2, 14, 14), (3, 14, 14), (4, 14, 14), (1, 15, 15),
   (2, 15, 15), (3, 15, 15), (4, 15, 15), (1, 16, 16), (2, 16, 16), (3, 16, 16), (4, 16, 16),
   (1, 17, 17), (2, 17, 17), (3, 17, 17), (4, 17, 17), (2, 19, 19), (3, 19, 19), (4, 19, 19),
   (2, 20, 20), (3, 20, 20), (4, 20, 20), (2, 21, 21), (3, 21, 21), (4, 21, 21), (2, 22, 22),
   (3, 22, 22), (4, 22, 22), (3, 24, 24), (4, 24, 24), (3, 25, 25), (4, 25, 25), (3, 26, 26),
   (4, 26, 26), (3, 27, 27), (4, 27, 27), (4, 29, 29), (4, 30, 30), (4, 31, 31), (4, 32, 32),
   (1, 34, 34), (1, 35, 35), (1, 36, 36), (2, 34, 34), (2, 35, 35), (2, 36, 36), (3, 34, 34),
   (3, 35, 35), (3, 36, 36), (4, 34, 34), (4, 35, 35), (4, 36, 36)]"

fun assign_key :: "nat \<times> nat \<times> u8 \<Rightarrow> sensors \<Rightarrow> sensors" where
  "assign_key (k, n, b) s =
     (if k = 1 then s\<lparr>sensors_state1 := put_key n b (sensors_state1 s)\<rparr>
      else if k = 2 then s\<lparr>sensors_state2 := put_key n b (sensors_state2 s)\<rparr>
      else if k = 3 then s\<lparr>sensors_state3 := put_key n b (sensors_state3 s)\<rparr>
      else s\<lparr>sensors_state4 := put_key n b (sensors_state4 s)\<rparr>)"

definition init_keys :: "sensors \<Rightarrow> sensors" where
  "init_keys s = fold assign_key init_keys_table s"

text \<open>The value the last assignment of a table gives to a key of struct \<open>k\<close>.\<close>

definition last_assign :: "nat \<Rightarrow> nat \<Rightarrow> (nat \<times> nat \<times> u8) list \<Rightarrow> u8 option" where
  "last_assign k n t = map_of (rev (map (\<lambda>(k, n, b). ((k, n), b)) t)) (k, n)"

lemma fold_assign_key:
  assumes "\<forall>(j, _, _) \<in> set t. j \<in> {1..4}" and "k \<in> {1..4}"
  shows "pkey (state_of k (fold assign_key t s)) n =
           (case last_assign k n t of None \<Rightarrow> pkey (state_of k s) n | Some b \<Rightarrow> b)"
  using assms(1)
proof (induction t rule: rev_induct)
  case (snoc x t)
  obtain j m b where x: "x = (j, m, b)" by (cases x)
  with snoc.prems assms(2) have "j \<in> {1..4}" by simp
  with assms(2) snoc show ?case by (auto simp: x last_assign_def)
qed (simp add: last_assign_def)

lemma fold_assign_val: "pval (state_of k (fold assign_key t s)) = pval (state_of k s)"
  by (induction t arbitrary: s) auto

lemma init_keys_val [simp]: "pval (state_of k (init_keys s)) = pval (state_of k s)"
  by (simp only: init_keys_def fold_assign_val)

definition struct_keys :: "nat \<Rightarrow> (nat \<times> nat \<times> u8) list \<Rightarrow> nat list" where
  "struct_keys k t = map (\<lambda>(_, n, _). n) (filter (\<lambda>(j, _, _). j = k) t)"

lemma last_assign_uniform:
  assumes "\<forall>(_, n, b) \<in> set t. b = of_nat n" and "n \<in> set (struct_keys k t)"
  shows "last_assign k n t = Some (of_nat n)"
proof -
  let ?l = "rev (map (\<lambda>(k, n, b). ((k, n), b)) t)"
  from assms(2) obtain b where "((k, n), b) \<in> set ?l"
    by (force simp: struct_keys_def)
  then obtain b' where b': "map_of ?l (k, n) = Some b'" by (metis weak_map_of_SomeI)
  then have "(k, n, b') \<in> set t" by (auto dest!: map_of_SomeD)
  with assms(1) b' show ?thesis by (auto simp: last_assign_def)
qed

lemma init_keys_uniform: "\<forall>(_, n, b) \<in> set init_keys_table. b = of_nat n"
  by (simp add: init_keys_table_def)

lemma init_keys_struct_keys:
  "struct_keys 1 init_keys_table = [0..<18] @ [34, 35, 36]"
  "struct_keys 2 init_keys_table = [0..<18] @ [19, 20, 21, 22, 34, 35, 36]"
  "struct_keys 3 init_keys_table = [0..<18] @ [19, 20, 21, 22, 24, 25, 26, 27, 34, 35, 36]"
  "struct_keys 4 init_keys_table = [0..<18] @ [19, 20, 21, 22, 24, 25, 26, 27, 29, 30, 31, 32, 34, 35, 36]"
  by (simp_all add: struct_keys_def init_keys_table_def upt_rec)

lemma init_keys_values:
  "\<forall>(n, f) \<in> set layout_t1. last_assign 1 n init_keys_table = Some (of_nat n)"
  "\<forall>(n, f) \<in> set layout_t2. last_assign 2 n init_keys_table = Some (of_nat n)"
  "\<forall>(n, f) \<in> set layout_t3. last_assign 3 n init_keys_table = Some (of_nat n)"
  "\<forall>(n, f) \<in> set layout_t4. last_assign 4 n init_keys_table = Some (of_nat n)"
  unfolding layout_t1_def layout_t2_def layout_t3_def layout_t4_def
  by (simp_all only: list.set ball_simps prod.case, simp_all only: simp_thms)
    (intro conjI last_assign_uniform [OF init_keys_uniform]; simp only: init_keys_struct_keys; simp)+

lemma init_keys_structs: "\<forall>(j, _, _) \<in> set init_keys_table. j \<in> {1..4}"
  by (simp add: init_keys_table_def)

lemma layout_distinct:
  "distinct (map fst layout_t1)" "distinct (map fst layout_t2)"
  "distinct (map fst layout_t3)" "distinct (map fst layout_t4)"
  by (simp_all add: layout_t1_def layout_t2_def layout_t3_def layout_t4_def)

lemma layout_keys_small:
  "\<forall>(n, f) \<in> set layout_t1. n < 37" "\<forall>(n, f) \<in> set layout_t2. n < 37"
  "\<forall>(n, f) \<in> set layout_t3. n < 37" "\<forall>(n, f) \<in> set layout_t4. n < 37"
  by (simp_all add: layout_t1_def layout_t2_def layout_t3_def layout_t4_def)

lemma struct_cases: "k \<in> {1..4} \<Longrightarrow> k = 1 \<or> k = 2 \<or> k = 3 \<or> k = (4 :: nat)"
  by auto

lemma layout_of_simps [simp]:
  "layout_of 1 = layout_t1" "layout_of (Suc 0) = layout_t1" "layout_of 2 = layout_t2"
  "layout_of 3 = layout_t3" "layout_of 4 = layout_t4"
  by simp_all

lemma init_keys_key:
  assumes "k \<in> {1..4}" and "(n, f) \<in> set (layout_of k)"
  shows "pkey (state_of k (init_keys s)) n = of_nat n"
proof -
  have "last_assign k n init_keys_table = Some (of_nat n)"
    using struct_cases [OF assms(1)] assms(2) init_keys_values by (auto simp del: layout_of.simps)
  then show ?thesis
    unfolding init_keys_def using fold_assign_key [OF init_keys_structs assms(1)] by simp
qed

lemma layout_of_distinct: "k \<in> {1..4} \<Longrightarrow> distinct (map fst (layout_of k))"
  using struct_cases [of k] layout_distinct by (auto simp del: layout_of.simps)

lemma layout_of_small: "k \<in> {1..4} \<Longrightarrow> (n, f) \<in> set (layout_of k) \<Longrightarrow> n < 37"
  using struct_cases [of k] layout_keys_small by (fastforce simp del: layout_of.simps)

section \<open>Properties\<close>

text \<open>
  After \<open>init_keys\<close> every packet carries, pair by pair in struct order, the number of the
  pair's key field and the float that was stored in it before; no two pairs of a packet carry
  the same key, so a receiver can tell the sensors apart whichever struct it is sent.
\<close>

lemma init_keys_layout:
  assumes "k \<in> {1..4}"
  shows "serialise k (state_of k (init_keys s)) =
           map (\<lambda>(n, f). (of_nat n, pval (state_of k s) f)) (layout_of k) \<and>
         distinct (map fst (serialise k (state_of k (init_keys s))))"
proof -
  have eq: "serialise k (state_of k (init_keys s)) =
      map (\<lambda>(n, f). (of_nat n, pval (state_of k s) f)) (layout_of k)"
    unfolding serialise_def
    by (rule map_cong) (auto simp: init_keys_key [OF assms] simp del: state_of.simps layout_of.simps)
  have keys: "map fst (serialise k (state_of k (init_keys s))) = map of_nat (map fst (layout_of k))"
    by (simp add: eq comp_def split_beta del: state_of.simps layout_of.simps)
  have "inj_on (of_nat :: nat \<Rightarrow> u8) (set (map fst (layout_of k)))"
  proof (rule inj_onI)
    fix a b assume "a \<in> set (map fst (layout_of k))" "b \<in> set (map fst (layout_of k))"
      and ab: "(of_nat a :: u8) = of_nat b"
    then have "a < 37" "b < 37" using layout_of_small [OF assms] by auto
    with ab show "a = b" by (simp add: word_of_nat_eq_iff take_bit_nat_eq_self)
  qed
  then have "distinct (map fst (serialise k (state_of k (init_keys s))))"
    unfolding keys using layout_of_distinct [OF assms] by (simp add: distinct_map del: map_map layout_of.simps)
  with eq show ?thesis by simp
qed

theorem init_keys_layout_witness:
  "map fst (serialise 1 (state_of 1 (init_keys init_sensors))) =
     [12, 13, 10, 11, 8, 9, 16, 17, 14, 15, 3, 4, 5, 0, 1, 2, 6, 7, 34, 35, 36]"
  using init_keys_layout [of 1 init_sensors] by (simp add: layout_t1_def)

end
