(* ===== verification/Crc.thy ===== *)
theory Crc
  imports Prelude
begin

text \<open>
  The two checksums of the sensor drivers: \<open>dsCRC8\<close> of temperature.c (Dallas one-wire
  CRC, least significant bit first) and \<open>checkCRC\<close> of htu21d.c (polynomial
  division, most significant bit first).
\<close>

section \<open>dsCRC8\<close>

text \<open>One round of the inner loop: \<open>mix = (crc ^ inbyte) & 1; crc >>= 1; if (mix) crc ^= 0x8C; inbyte >>= 1\<close>.\<close>

fun crc_round :: "u8 \<times> u8 \<Rightarrow> u8 \<times> u8" where
  "crc_round (crc, inbyte) =
     (let mix = (crc XOR inbyte) AND 1;
          crc1 = drop_bit 1 crc;
          crc2 = (if mix \<noteq> 0 then crc1 XOR 0x8C else crc1)
      in (crc2, drop_bit 1 inbyte))"

fun crc_loop :: "nat \<Rightarrow> u8 \<times> u8 \<Rightarrow> u8 \<times> u8" where
  "crc_loop 0 ci = ci"
| "crc_loop (Suc i) ci = crc_loop i (crc_round ci)"

fun dsCRC8_from :: "u8 \<Rightarrow> u8 list \<Rightarrow> u8" where
  "dsCRC8_from crc [] = crc"
| "dsCRC8_from crc (b # addr) = dsCRC8_from (fst (crc_loop 8 (crc, b))) addr"

definition dsCRC8 :: "u8 list \<Rightarrow> u8" where
  "dsCRC8 addr = dsCRC8_from 0 addr"

text \<open>The shift register on its own: the state after one round is a function of
  \<open>crc XOR inbyte\<close>.\<close>

definition lfsr :: "u8 \<Rightarrow> u8" where
  "lfsr x = (if bit x 0 then drop_bit 1 x XOR 0x8C else drop_bit 1 x)"

lemma and_1_eq_0_iff: "x AND 1 = 0 \<longleftrightarrow> \<not> bit x 0" for x :: "'a::len word"
  by (simp add: and_one_eq odd_iff_mod_2_eq_one bit_0)

lemma crc_round_xor:
  "fst (crc_round (c, b)) XOR snd (crc_round (c, b)) = lfsr (c XOR b)"
proof -
  have "(c XOR b) AND 1 \<noteq> 0 \<longleftrightarrow> bit (c XOR b) 0" by (simp only: and_1_eq_0_iff not_not)
  then show ?thesis
    by (simp only: crc_round.simps Let_def lfsr_def fst_conv snd_conv)
      (simp add: xor.assoc xor.commute [of _ "drop_bit (Suc 0) b"] xor.left_commute)
qed

lemma snd_crc_loop: "snd (crc_loop n (c, b)) = drop_bit n b"
proof (induction n arbitrary: c b)
  case (Suc n)
  have "snd (crc_loop (Suc n) (c, b)) = drop_bit n (drop_bit 1 b)"
    using Suc by (simp add: Let_def)
  then show ?case by (simp add: drop_bit_drop_bit add.commute)
qed simp

lemma crc_loop_xor:
  "fst (crc_loop n (c, b)) XOR snd (crc_loop n (c, b)) = (lfsr ^^ n) (c XOR b)"
proof (induction n arbitrary: c b)
  case (Suc n)
  obtain c' b' where cb: "crc_round (c, b) = (c', b')" by (meson surj_pair)
  then have "c' XOR b' = lfsr (c XOR b)" using crc_round_xor [of c b] by simp
  then show ?case using Suc [of c' b'] cb by (simp del: crc_round.simps add: funpow_swap1)
qed simp

lemma drop_bit_8_u8: "drop_bit 8 (b :: u8) = 0"
  by (rule bit_word_eqI) (simp add: bit_drop_bit_eq bit_imp_le_length)

lemma crc_byte: "fst (crc_loop 8 (c, b)) = (lfsr ^^ 8) (c XOR b)"
  using crc_loop_xor [of 8 c b] snd_crc_loop [of 8 c b] by (simp add: drop_bit_8_u8)

lemma dsCRC8_from_Cons: "dsCRC8_from c (b # bs) = dsCRC8_from ((lfsr ^^ 8) (c XOR b)) bs"
  using crc_byte [of c b] by simp

lemma dsCRC8_from_append: "dsCRC8_from c (xs @ ys) = dsCRC8_from (dsCRC8_from c xs) ys"
  by (induction xs arbitrary: c) auto

lemma xor_cancel: "a XOR c = b XOR c \<longleftrightarrow> a = b" for a b c :: "'a::len word"
proof
  assume "a XOR c = b XOR c"
  then have "(a XOR c) XOR c = (b XOR c) XOR c" by simp
  then show "a = b" by (simp add: xor.assoc)
qed simp

lemma lfsr_0 [simp]: "lfsr 0 = 0"
  by (simp add: lfsr_def)

lemma lfsr_pow_0 [simp]: "(lfsr ^^ n) 0 = 0"
  by (induction n) auto

lemma lfsr_bit_7: "bit (lfsr x) 7 = bit x 0"
proof -
  have "\<not> bit x 8" using bit_imp_le_length [of x 8] by auto
  then show ?thesis by (simp add: lfsr_def bit_xor_iff bit_drop_bit_eq)
qed

lemma lfsr_inj: "lfsr x = lfsr y \<Longrightarrow> x = y"
proof -
  assume eq: "lfsr x = lfsr y"
  then have b0: "bit x 0 = bit y 0" using lfsr_bit_7 by metis
  with eq have "drop_bit 1 x XOR 0x8C = drop_bit 1 y XOR 0x8C \<or> drop_bit 1 x = drop_bit 1 y"
    by (auto simp: lfsr_def split: if_splits)
  then have d: "drop_bit 1 x = drop_bit 1 y" by (auto simp: xor_cancel)
  show "x = y"
  proof (rule bit_word_eqI)
    fix n
    show "bit x n = bit y n"
      using b0 arg_cong [OF d, of "\<lambda>z. bit z (n - 1)"] by (cases n) (simp_all add: bit_drop_bit_eq)
  qed
qed

lemma lfsr_pow_inj: "(lfsr ^^ n) x = (lfsr ^^ n) y \<Longrightarrow> x = y"
  by (induction n) (auto dest: lfsr_inj)

lemma dsCRC8_from_inj: "dsCRC8_from c bs = dsCRC8_from d bs \<Longrightarrow> c = d"
proof (induction bs arbitrary: c d)
  case (Cons b bs)
  then have "(lfsr ^^ 8) (c XOR b) = (lfsr ^^ 8) (d XOR b)"
    by (simp only: dsCRC8_from_Cons)
  then have "c XOR b = d XOR b" by (rule lfsr_pow_inj)
  then show ?case by (simp add: xor_cancel)
qed simp

section \<open>checkCRC\<close>

text \<open>\<open>SHIFTED_DIVISOR\<close> is the polynomial 0x131 shifted to bit 23.\<close>

definition SHIFTED_DIVISOR :: u32 where
  "SHIFTED_DIVISOR = 0x988000"

text \<open>The loop from index \<open>i\<close> with \<open>n\<close> rounds left.\<close>

fun divide_loop :: "nat \<Rightarrow> nat \<Rightarrow> u32 \<Rightarrow> u32 \<Rightarrow> u32" where
  "divide_loop 0 i remainder divsor = remainder"
| "divide_loop (Suc n) i remainder divsor =
     (let remainder1 = (if remainder AND push_bit (23 - i) 1 \<noteq> 0 then remainder XOR divsor
                        else remainder)
      in divide_loop n (Suc i) remainder1 (drop_bit 1 divsor))"

definition crc_remainder :: "u16 \<Rightarrow> u8 \<Rightarrow> u32" where
  "crc_remainder message check_value =
     divide_loop 16 0 (push_bit 8 (ucast message) OR ucast check_value) SHIFTED_DIVISOR"

definition checkCRC :: "u16 \<Rightarrow> u8 \<Rightarrow> u8" where
  "checkCRC message check_value = ucast (crc_remainder message check_value)"

lemma and_push_bit_1: "r AND push_bit k 1 \<noteq> 0 \<longleftrightarrow> bit r k" if "k < 32" for r :: u32
proof -
  have "bit (r AND push_bit k 1) j \<longleftrightarrow> j = k \<and> bit r k" for j
    using that by (auto simp: bit_and_iff bit_push_bit_iff bit_1_iff simp del: push_bit_of_1)
  then show ?thesis by (metis bit_0_eq bot_apply bot_bool_def bit_word_eqI)
qed

lemma divide_loop_Suc:
  "i \<le> 23 \<Longrightarrow> divide_loop (Suc n) i r d =
     divide_loop n (Suc i) (if bit r (23 - i) then r XOR d else r) (drop_bit 1 d)"
  using and_push_bit_1 [of "23 - i" r] by (simp add: Let_def)

declare divide_loop.simps(2) [simp del]

text \<open>Division is linear in the dividend, and leaves bits below its window alone.\<close>

lemma divide_loop_low:
  "n + i \<le> 16 \<Longrightarrow> (\<And>j. bit c j \<Longrightarrow> j < 8) \<Longrightarrow> divide_loop n i c d = c"
proof (induction n arbitrary: i d)
  case (Suc n)
  then have "\<not> bit c (23 - i)" by fastforce
  with Suc show ?case by (simp add: divide_loop_Suc)
qed simp

lemma divide_loop_xor:
  "n + i \<le> 16 \<Longrightarrow>
     divide_loop n i (r XOR s) d = divide_loop n i r d XOR divide_loop n i s d"
proof (induction n arbitrary: i r s d)
  case (Suc n)
  have eq: "(if bit (r XOR s) (23 - i) then (r XOR s) XOR d else r XOR s) =
     (if bit r (23 - i) then r XOR d else r) XOR (if bit s (23 - i) then s XOR d else s)"
    by (auto simp: bit_xor_iff xor.assoc xor.left_commute xor.commute)
  from Suc show ?case by (simp only: divide_loop_Suc eq)
qed simp

lemma crc_remainder_split:
  "crc_remainder (m XOR e) c = crc_remainder m c XOR crc_remainder e 0"
proof -
  have "push_bit 8 (ucast (m XOR e)) OR (ucast c :: u32) =
      (push_bit 8 (ucast m) OR ucast c) XOR (push_bit 8 (ucast e) OR ucast (0 :: u8))"
    by (rule bit_word_eqI)
      (auto simp: bit_or_iff bit_xor_iff bit_push_bit_iff bit_ucast_iff dest: bit_imp_le_length)
  then show ?thesis by (simp only: crc_remainder_def) (simp add: divide_loop_xor)
qed

lemma crc_remainder_check: "crc_remainder m c = crc_remainder m 0 XOR ucast c"
proof -
  have "push_bit 8 (ucast m) OR (ucast c :: u32) =
      (push_bit 8 (ucast m) OR ucast (0 :: u8)) XOR ucast c"
    by (rule bit_word_eqI)
      (auto simp: bit_or_iff bit_xor_iff bit_push_bit_iff bit_ucast_iff dest: bit_imp_le_length)
  then have "crc_remainder m c = crc_remainder m 0 XOR divide_loop 16 0 (ucast c) SHIFTED_DIVISOR"
    by (simp only: crc_remainder_def) (simp add: divide_loop_xor)
  also have "divide_loop 16 0 (ucast c) SHIFTED_DIVISOR = ucast c"
    by (rule divide_loop_low) (auto simp: bit_ucast_iff dest: bit_imp_le_length)
  finally show ?thesis .
qed

lemma ucast_xor_u8: "(ucast (a XOR b) :: u8) = ucast a XOR ucast b" for a b :: u32
  by (rule bit_word_eqI) (auto simp: bit_xor_iff bit_ucast_iff)

lemma ucast_ucast_u8: "(ucast (ucast c :: u32) :: u8) = c" for c :: u8
  by (rule bit_word_eqI) (auto simp: bit_ucast_iff)

lemma checkCRC_xor: "checkCRC (m XOR e) c = checkCRC m c XOR checkCRC e 0"
  by (simp only: checkCRC_def crc_remainder_split ucast_xor_u8)

lemma checkCRC_check: "checkCRC m c = checkCRC m 0 XOR c"
  by (simp only: checkCRC_def crc_remainder_check [of m c] ucast_xor_u8 ucast_ucast_u8)

text \<open>The remainders of the 16 single bit errors are distinct and none is zero.\<close>

definition syndromes :: "u8 list" where
  "syndromes = map (\<lambda>k. checkCRC (2 ^ k) 0) [0..<16]"

lemma syndrome_values_1:
  "checkCRC 1 0 = 49"
  "checkCRC 2 0 = 98"
  "checkCRC 4 0 = 196"
  "checkCRC 8 0 = 185"
  by code_simp+

lemma syndrome_values_2:
  "checkCRC 16 0 = 67"
  "checkCRC 32 0 = 134"
  "checkCRC 64 0 = 61"
  "checkCRC 128 0 = 122"
  by code_simp+

lemma syndrome_values_3:
  "checkCRC 256 0 = 244"
  "checkCRC 512 0 = 217"
  "checkCRC 1024 0 = 131"
  "checkCRC 2048 0 = 55"
  by code_simp+

lemma syndrome_values_4:
  "checkCRC 4096 0 = 110"
  "checkCRC 8192 0 = 220"
  "checkCRC 16384 0 = 137"
  "checkCRC 32768 0 = 35"
  by code_simp+

lemmas syndrome_values = syndrome_values_1 syndrome_values_2 syndrome_values_3 syndrome_values_4

lemma syndromes_eq: "syndromes = [49, 98, 196, 185, 67, 134, 61, 122, 244, 217, 131, 55, 110, 220, 137, 35]"
  by (simp add: syndromes_def upt_rec syndrome_values)

lemma syndromes_distinct: "distinct (0 # syndromes)"
  by (simp add: syndromes_eq)

lemma syndrome_neq_0: "i < 16 \<Longrightarrow> checkCRC (2 ^ i) 0 \<noteq> 0"
  using syndromes_distinct by (auto simp: syndromes_def)

lemma syndrome_inj: "i < 16 \<Longrightarrow> j < 16 \<Longrightarrow> checkCRC (2 ^ i) 0 = checkCRC (2 ^ j) 0 \<Longrightarrow> i = j"
  using syndromes_distinct nth_eq_iff_index_eq [of syndromes i j] by (simp add: syndromes_def)

section \<open>Properties\<close>

text \<open>
  C30: Any change of exactly one byte of a message changes its \<open>dsCRC8\<close>, whatever the
  bytes before and after it, so \<open>Read_Temperature_*\<close> never accepts a scratchpad in which
  one byte was corrupted on the wire.
\<close>

theorem dsCRC8_detects_byte:
  assumes "b \<noteq> b'"
  shows "dsCRC8 (pre @ b # post) \<noteq> dsCRC8 (pre @ b' # post)"
proof
  assume "dsCRC8 (pre @ b # post) = dsCRC8 (pre @ b' # post)"
  then have "dsCRC8_from (dsCRC8 pre) [b] = dsCRC8_from (dsCRC8 pre) [b']"
    unfolding dsCRC8_def dsCRC8_from_append
    by (simp only: dsCRC8_from_Cons dsCRC8_from.simps) (rule dsCRC8_from_inj)
  then have "dsCRC8 pre XOR b = dsCRC8 pre XOR b'"
    by (simp only: dsCRC8_from_Cons dsCRC8_from.simps) (rule lfsr_pow_inj)
  with assms show False by (metis xor.commute xor_cancel)
qed

theorem dsCRC8_detects_byte_witness:
  "(0x50 :: u8) \<noteq> 0x51 \<and> dsCRC8 ([] @ 0x50 # [0x05, 0x4B]) \<noteq> dsCRC8 ([] @ 0x51 # [0x05, 0x4B])"
proof -
  have "(0x50 :: u8) \<noteq> 0x51" by simp
  then show ?thesis using dsCRC8_detects_byte [of "0x50" "0x51" "[]" "[0x05, 0x4B]"] by blast
qed

text \<open>
  A message followed by its own \<open>dsCRC8\<close> has \<open>dsCRC8\<close> zero: comparing the checksum of
  the first eight bytes with the ninth is the same as checking the residue of all nine.
\<close>

lemma dsCRC8_residue: "dsCRC8 (bs @ [c]) = 0 \<longleftrightarrow> dsCRC8 bs = c"
proof -
  have "dsCRC8 (bs @ [c]) = (lfsr ^^ 8) (dsCRC8 bs XOR c)"
    unfolding dsCRC8_def dsCRC8_from_append by (simp only: dsCRC8_from_Cons dsCRC8_from.simps)
  then have "dsCRC8 (bs @ [c]) = 0 \<longleftrightarrow> dsCRC8 bs XOR c = 0"
    by (metis lfsr_pow_0 lfsr_pow_inj)
  then show ?thesis by (metis xor_cancel xor_self_eq)
qed

text \<open>
  \<open>checkCRC\<close> returns zero exactly for the one check byte that belongs to the message,
  and on the three test cases its comment quotes from the data sheet it returns zero.
\<close>

lemma checkCRC_accepts:
  "(checkCRC m c = 0 \<longleftrightarrow> c = checkCRC m 0) \<and>
   checkCRC 0xDC 0x79 = 0 \<and> checkCRC 0x683A 0x7C = 0 \<and> checkCRC 0x4E85 0x6B = 0"
proof -
  have "checkCRC m c = 0 \<longleftrightarrow> c = checkCRC m 0"
    unfolding checkCRC_check [of m c] by (metis xor_cancel xor_self_eq)
  moreover have "checkCRC 0xDC 0x79 = 0" by code_simp
  moreover have "checkCRC 0x683A 0x7C = 0" by code_simp
  moreover have "checkCRC 0x4E85 0x6B = 0" by code_simp
  ultimately show ?thesis by simp
qed

text \<open>
  A reading that \<open>checkCRC\<close> accepts is no longer accepted after any one or two of the 16
  bits of the measurement have been flipped.
\<close>

lemma checkCRC_detects_two_bits:
  assumes "checkCRC m c = 0" and "i < 16" and "j < 16"
  shows "checkCRC (m XOR 2 ^ i) c \<noteq> 0 \<and>
         (i \<noteq> j \<longrightarrow> checkCRC (m XOR 2 ^ i XOR 2 ^ j) c \<noteq> 0)"
proof (intro conjI impI)
  show "checkCRC (m XOR 2 ^ i) c \<noteq> 0"
    unfolding checkCRC_xor using assms(1) syndrome_neq_0 [OF assms(2)] by simp
  assume "i \<noteq> j"
  then have "checkCRC (2 ^ i) 0 \<noteq> checkCRC (2 ^ j) 0" using syndrome_inj assms(2,3) by blast
  then show "checkCRC (m XOR 2 ^ i XOR 2 ^ j) c \<noteq> 0"
    unfolding checkCRC_xor using assms(1) by (metis xor.left_neutral xor_cancel xor_self_eq)
qed

theorem checkCRC_detects_two_bits_witness:
  "checkCRC (0x683A XOR 2 ^ 3 XOR 2 ^ 7) 0x7C \<noteq> 0 \<and> checkCRC (0x683A XOR 2 ^ 3) 0x7C \<noteq> 0"
proof -
  have m: "checkCRC 0x683A 0x7C = 0" by code_simp
  have b: "(3::nat) < 16" "(7::nat) < 16" "(3::nat) \<noteq> 7" by simp_all
  show ?thesis
    using checkCRC_detects_two_bits [OF m b(1,2)] b(3) by blast
qed

end
