(* ===== verification/OneWire_Bus.thy ===== *)
theory OneWire_Bus
  imports Prelude
begin

text \<open>
  The bit-banged one-wire master of temperature.c (lines 19 to 85): reset pulse, write and
  read slots. The GPIO and delay functions of the SDK are events appended to a trace; what
  a pin reads is a parameter of the model, a function of everything that has happened on
  the bus before. The observers at the end say what a device sees of such a trace.
\<close>

section \<open>Pins and delays\<close>

datatype pull = Nopull | Pullup

datatype gpio_ev =
    CfgOutput nat
  | CfgInput nat pull
  | PinWrite nat bool
  | DelayUs nat
  | PinRead nat

type_synonym trace = "gpio_ev list"
type_synonym gpio_env = "trace \<Rightarrow> bool"

section \<open>The master\<close>

definition init :: "nat \<Rightarrow> trace \<Rightarrow> trace" where
  "init m tr = tr @ [CfgOutput m, PinWrite m True, PinWrite m False, DelayUs 605,
     PinWrite m True, DelayUs 65, CfgInput m Pullup, DelayUs 520]"

definition write_bitt :: "u8 \<Rightarrow> nat \<Rightarrow> trace \<Rightarrow> trace" where
  "write_bitt v r tr =
     (let tr1 = tr @ [PinWrite r False];
          tr2 = (if v = 1 then tr1 @ [DelayUs 15, PinWrite r True] else tr1)
      in tr2 @ [DelayUs 70, PinWrite r True])"

text \<open>
  The loop \<open>for (bitMask = 0x01; bitMask; bitMask <<= 1)\<close> ends because the set bit moves out
  of the 8-bit mask: the places at or above the lowest set bit become fewer.
\<close>

definition mask_room :: "u8 \<Rightarrow> nat" where
  "mask_room m = card {i. i < 8 \<and> (\<exists>j \<le> i. bit m j)}"

lemma bit_shift_1: "bit (push_bit 1 m) j \<longleftrightarrow> 1 \<le> j \<and> j < 8 \<and> bit m (j - 1)" for m :: u8
  by (simp only: bit_push_bit_iff) (auto dest: bit_imp_le_length)

lemma mask_room_shift: "m \<noteq> 0 \<Longrightarrow> mask_room (push_bit 1 m) < mask_room m"
  unfolding mask_room_def
proof (rule psubset_card_mono)
  assume "m \<noteq> 0"
  then obtain k where k: "bit m k" by (metis bit_0_eq bot_apply bot_bool_def bit_word_eqI)
  define l where "l = (LEAST j. bit m j)"
  have l: "bit m l" "\<And>j. bit m j \<Longrightarrow> l \<le> j"
    unfolding l_def using k by (auto intro: LeastI Least_le)
  then have "l < 8" using bit_imp_le_length by fastforce
  have "l \<in> {i. i < 8 \<and> (\<exists>j \<le> i. bit m j)}" using l(1) \<open>l < 8\<close> by auto
  moreover have "l \<notin> {i. i < 8 \<and> (\<exists>j \<le> i. bit (push_bit 1 m) j)}"
  proof
    assume "l \<in> {i. i < 8 \<and> (\<exists>j \<le> i. bit (push_bit 1 m) j)}"
    then obtain j where "j \<le> l" "1 \<le> j" "bit m (j - 1)" by (simp only: bit_shift_1 mem_Collect_eq) blast
    with l(2) [of "j - 1"] show False by linarith
  qed
  moreover have "{i. i < 8 \<and> (\<exists>j \<le> i. bit (push_bit 1 m) j)} \<subseteq> {i. i < 8 \<and> (\<exists>j \<le> i. bit m j)}"
    by (simp only: bit_shift_1) (auto intro: order_trans [OF diff_le_self])
  ultimately show "{i. i < 8 \<and> (\<exists>j \<le> i. bit (push_bit 1 m) j)} \<subset> {i. i < 8 \<and> (\<exists>j \<le> i. bit m j)}"
    by blast
qed simp

function write_loop :: "u8 \<Rightarrow> u8 \<Rightarrow> nat \<Rightarrow> trace \<Rightarrow> trace" where
  "write_loop bitMask v n tr =
     (if bitMask = 0 then tr
      else write_loop (push_bit 1 bitMask) v n
             (write_bitt (if bitMask AND v \<noteq> 0 then 1 else 0) n tr))"
  by pat_completeness auto
termination
  by (relation "measure (\<lambda>(m, _). mask_room m)") (auto simp only: in_measure split_def fst_conv intro: mask_room_shift)

declare write_loop.simps [simp del]

definition write_byte :: "u8 \<Rightarrow> nat \<Rightarrow> trace \<Rightarrow> trace" where
  "write_byte v n tr = write_loop 1 v n (tr @ [CfgOutput n]) @ [DelayUs 104]"

definition read_bit :: "gpio_env \<Rightarrow> nat \<Rightarrow> trace \<Rightarrow> bool \<times> trace" where
  "read_bit env q tr =
     (let tr1 = tr @ [CfgOutput q, PinWrite q False, DelayUs 5, PinWrite q True,
                      CfgInput q Nopull, DelayUs 15]
      in (env tr1, tr1 @ [PinRead q]))"

text \<open>\<open>value |= 0x01 << i\<close> for \<open>i\<close> below 8.\<close>

function read_byte_loop :: "gpio_env \<Rightarrow> nat \<Rightarrow> nat \<Rightarrow> u8 \<Rightarrow> trace \<Rightarrow> u8 \<times> trace" where
  "read_byte_loop env s i value tr =
     (if i < 8 then
        let (b, tr1) = read_bit env s tr;
            value1 = (if b then value OR push_bit i 1 else value)
        in read_byte_loop env s (Suc i) value1 (tr1 @ [DelayUs 125])
      else (value, tr))"
  by pat_completeness auto
termination
  by (relation "measure (\<lambda>(env, s, i, _). 8 - i)") auto

declare read_byte_loop.simps [simp del]

definition read_byte :: "gpio_env \<Rightarrow> nat \<Rightarrow> trace \<Rightarrow> u8 \<times> trace" where
  "read_byte env s tr = read_byte_loop env s 0 0 tr"

text \<open>\<open>for (k = 0; k < 9; k++) get[k] = read_byte(x)\<close>, \<open>n\<close> bytes in general.\<close>

fun read_bytes :: "gpio_env \<Rightarrow> nat \<Rightarrow> nat \<Rightarrow> trace \<Rightarrow> u8 list \<times> trace" where
  "read_bytes env s 0 tr = ([], tr)"
| "read_bytes env s (Suc n) tr =
     (let (b, tr1) = read_byte env s tr; (bs, tr2) = read_bytes env s n tr1 in (b # bs, tr2))"

section \<open>What a device sees\<close>

text \<open>
  The lengths in microseconds of the phases in which the master holds the line low:
  at least 480 is a reset, at most 15 starts a 1 or a read slot, more is a 0. The first two
  arguments say whether the line is held now and for how long.
\<close>

fun low_pulses :: "bool \<Rightarrow> nat \<Rightarrow> trace \<Rightarrow> nat list" where
  "low_pulses low t [] = []"
| "low_pulses low t (PinWrite _ b # tr) =
     (if b then (if low then t # low_pulses False 0 tr else low_pulses False 0 tr)
      else if low then low_pulses True t tr else low_pulses True 0 tr)"
| "low_pulses low t (DelayUs d # tr) = low_pulses low (if low then t + d else t) tr"
| "low_pulses low t (_ # tr) = low_pulses low t tr"

datatype slot = ResetPulse | Slot bool

definition slot_of :: "nat \<Rightarrow> slot" where
  "slot_of t = (if 480 \<le> t then ResetPulse else Slot (t \<le> 15))"

definition slots :: "trace \<Rightarrow> slot list" where
  "slots tr = map slot_of (low_pulses False 0 tr)"

text \<open>A device that answers the read slots with the bits of a list, in order.\<close>

definition reads :: "trace \<Rightarrow> nat" where
  "reads tr = length (filter (\<lambda>e. case e of PinRead _ \<Rightarrow> True | _ \<Rightarrow> False) tr)"

definition answers :: "nat \<Rightarrow> bool list \<Rightarrow> gpio_env" where
  "answers n bs tr = (n \<le> reads tr \<and> reads tr < n + length bs \<and> bs ! (reads tr - n))"

section \<open>The master drives what it means\<close>

lemma write_loop_from:
  "i \<le> 8 \<Longrightarrow> write_loop (push_bit i 1) v n tr =
     foldl (\<lambda>tr i. write_bitt (if bit v i then 1 else 0) n tr) tr [i..<8]"
proof (induction "8 - i" arbitrary: i tr)
  case 0
  then have "i = 8" by simp
  then have "push_bit i 1 = (0 :: u8)" by simp
  with 0 show ?case by (simp add: write_loop.simps [of 0] del: push_bit_of_1)
next
  case (Suc k)
  then have i: "i < 8" by linarith
  then have "bit (push_bit i 1 :: u8) i" by (simp add: bit_push_bit_iff del: push_bit_of_1)
  then have nz: "(push_bit i 1 :: u8) \<noteq> 0" by (metis bit_0_eq bot_apply bot_bool_def)
  have b: "(push_bit i 1 :: u8) AND v \<noteq> 0 \<longleftrightarrow> bit v i"
    by (simp only: bit_iff_and_push_bit_not_eq_0 and.commute)
  have "write_loop (push_bit i 1) v n tr =
      write_loop (push_bit (Suc i) 1) v n (write_bitt (if bit v i then 1 else 0) n tr)"
    by (subst write_loop.simps) (simp only: nz b if_False push_bit_push_bit add.commute plus_1_eq_Suc)
  moreover have "write_loop (push_bit (Suc i) 1) v n t =
      foldl (\<lambda>tr i. write_bitt (if bit v i then 1 else 0) n tr) t [Suc i..<8]" for t
    using Suc i by (intro Suc.hyps(1)) auto
  ultimately show ?case by (simp only: upt_conv_Cons [OF i] foldl_Cons)
qed

lemma byte_masks: "write_loop 1 v n tr =
  foldl (\<lambda>tr i. write_bitt (if bit v i then 1 else 0) n tr) tr [0..<8]"
  using write_loop_from [of 0] by simp

text \<open>A trace that leaves the line released: what comes after is seen on its own.\<close>

definition released :: "trace \<Rightarrow> bool" where
  "released tr \<longleftrightarrow> (\<forall>es. slots (tr @ es) = slots tr @ slots es)"

lemma slots_append: "released tr \<Longrightarrow> slots (tr @ es) = slots tr @ slots es"
  by (simp add: released_def)

lemma released_Nil [simp]: "released []"
  by (simp add: released_def slots_def)

lemma released_append: "released tr \<Longrightarrow> released es \<Longrightarrow> released (tr @ es)"
  by (simp add: released_def)

lemma init_events: "init m tr = tr @ [CfgOutput m, PinWrite m True, PinWrite m False, DelayUs 605,
     PinWrite m True, DelayUs 65, CfgInput m Pullup, DelayUs 520]"
  by (simp add: init_def)

lemma released_init: "released tr \<Longrightarrow> released (init m tr)"
  unfolding init_def by (rule released_append) (simp_all add: released_def slots_def slot_of_def)

lemma slots_init [simp]: "released tr \<Longrightarrow> slots (init m tr) = slots tr @ [ResetPulse]"
  by (simp add: init_def slots_append) (simp add: slots_def slot_of_def)

lemma write_bitt_slots:
  assumes "released tr"
  shows "slots (write_bitt v r tr) = slots tr @ [Slot (v = 1)]" and "released (write_bitt v r tr)"
proof -
  define es where "es = [PinWrite r False] @ (if v = 1 then [DelayUs 15, PinWrite r True] else []) @
     [DelayUs 70, PinWrite r True]"
  have eq: "write_bitt v r tr = tr @ es" by (simp add: write_bitt_def es_def Let_def)
  have "slots es = [Slot (v = 1)]" by (simp add: es_def slots_def slot_of_def)
  then show "slots (write_bitt v r tr) = slots tr @ [Slot (v = 1)]"
    using assms by (simp add: eq slots_append)
  have "released es" by (simp add: es_def released_def slots_def slot_of_def)
  then show "released (write_bitt v r tr)" using assms by (simp add: eq released_append)
qed

lemma write_loop_slots:
  "released t \<Longrightarrow>
     slots (foldl (\<lambda>tr i. write_bitt (if bit v i then 1 else 0) n tr) t is) =
       slots t @ map Slot (map (bit v) is) \<and>
     released (foldl (\<lambda>tr i. write_bitt (if bit v i then 1 else 0) n tr) t is)"
  by (induction "is" arbitrary: t) (auto simp: write_bitt_slots)

lemma write_byte_slots:
  assumes "released tr"
  shows "slots (write_byte v n tr) = slots tr @ map Slot (bits_of_byte v)"
    and "released (write_byte v n tr)"
proof -
  have cfg: "released [CfgOutput n]" "slots [CfgOutput n] = []" "released [DelayUs 104]"
    "slots [DelayUs 104] = []"
    by (simp_all add: released_def slots_def)
  have start: "released (tr @ [CfgOutput n])" "slots (tr @ [CfgOutput n]) = slots tr"
    using assms cfg by (simp_all add: released_append slots_append)
  have loop: "slots (write_loop 1 v n t) = slots t @ map Slot (bits_of_byte v) \<and>
              released (write_loop 1 v n t)" if "released t" for t
    using that write_loop_slots by (simp add: byte_masks bits_of_byte_def)
  from start loop [OF start(1)] cfg
  show "slots (write_byte v n tr) = slots tr @ map Slot (bits_of_byte v)"
    "released (write_byte v n tr)"
    by (simp_all add: write_byte_def slots_append released_append)
qed

lemma read_bit_slots:
  assumes "released tr"
  shows "slots (snd (read_bit env q tr)) = slots tr @ [Slot True]"
    and "released (snd (read_bit env q tr))"
    and "reads (snd (read_bit env q tr)) = Suc (reads tr)"
    and "fst (read_bit (answers k bs) q tr) \<longleftrightarrow>
           k \<le> reads tr \<and> reads tr < k + length bs \<and> bs ! (reads tr - k)"
proof -
  define es where "es = [CfgOutput q, PinWrite q False, DelayUs 5, PinWrite q True,
     CfgInput q Nopull, DelayUs 15]"
  have "slots (es @ [PinRead q]) = [Slot True]" "released (es @ [PinRead q])"
    by (simp_all add: es_def released_def slots_def slot_of_def)
  moreover have "reads es = 0" by (simp add: es_def reads_def)
  moreover have "reads (tr @ x) = reads tr + reads x" for x by (simp add: reads_def)
  moreover have "reads (es @ [PinRead q]) = 1" by (simp add: es_def reads_def)
  moreover have "snd (read_bit e q tr) = tr @ (es @ [PinRead q])" for e
    by (simp add: read_bit_def Let_def es_def)
  moreover have "fst (read_bit e q tr) = e (tr @ es)" for e
    by (simp add: read_bit_def Let_def es_def)
  ultimately show "slots (snd (read_bit env q tr)) = slots tr @ [Slot True]"
    "released (snd (read_bit env q tr))" "reads (snd (read_bit env q tr)) = Suc (reads tr)"
    "fst (read_bit (answers k bs) q tr) \<longleftrightarrow>
       k \<le> reads tr \<and> reads tr < k + length bs \<and> bs ! (reads tr - k)"
    using assms by (simp_all add: slots_append released_append answers_def)
qed

lemma delay_slots [simp]:
  "released tr \<Longrightarrow> slots (tr @ [DelayUs d]) = slots tr"
  "released tr \<Longrightarrow> released (tr @ [DelayUs d])"
  "reads (tr @ [DelayUs d]) = reads tr"
  by (simp_all add: slots_append released_append) (simp_all add: released_def slots_def reads_def)

section \<open>Reading back what a device answers\<close>

lemma byte_of_bits_bit:
  "length bs \<le> 8 \<Longrightarrow> bit (byte_of_bits bs) i \<longleftrightarrow> i < length bs \<and> bs ! i"
proof (induction bs arbitrary: i)
  case (Cons b bs)
  have b0: "bit (of_bool b :: u8) j \<longleftrightarrow> b \<and> j = 0" for j by (simp add: bit_0 bit_1_iff)
  have "2 * byte_of_bits bs = push_bit 1 (byte_of_bits bs)" by (simp add: mult.commute)
  then have sh: "bit (2 * byte_of_bits bs) j \<longleftrightarrow> 1 \<le> j \<and> j < 8 \<and> bit (byte_of_bits bs) (j - 1)" for j
    by (simp only: bit_shift_1)
  have "of_bool b + 2 * byte_of_bits bs = of_bool b OR 2 * byte_of_bits bs"
    by (rule disjunctive_add) (auto simp only: b0 sh)
  then have "bit (byte_of_bits (b # bs)) i \<longleftrightarrow> b \<and> i = 0 \<or> 1 \<le> i \<and> i < 8 \<and> bit (byte_of_bits bs) (i - 1)"
    by (simp only: byte_of_bits.simps bit_or_iff b0 sh)
  also have "\<dots> \<longleftrightarrow> i < length (b # bs) \<and> (b # bs) ! i"
    using Cons.IH [of "i - 1"] Cons.prems by (cases i) auto
  finally show ?case .
qed simp

lemma byte_of_bits_of_byte [simp]: "byte_of_bits (bits_of_byte b) = b"
  by (rule u8_bit_eqI) (simp add: byte_of_bits_bit, simp add: bits_of_byte_def)

lemma bit_push_bit_iff_u8: "bit (push_bit k (w :: u8)) j \<longleftrightarrow> k \<le> j \<and> j < 8 \<and> bit w (j - k)"
  by (auto simp: bit_push_bit_iff)

text \<open>The loop collects the device's next bits into the byte.\<close>

lemma read_byte_loop_answers:
  assumes "i \<le> 8" "released tr" "reads tr = k" "n \<le> k" "k + (8 - i) \<le> n + length bs"
    and "\<And>j. i \<le> j \<Longrightarrow> \<not> bit value j"
  shows "\<exists>tr'. read_byte_loop (answers n bs) s i value tr = (
             value OR push_bit i (byte_of_bits (take (8 - i) (drop (k - n) bs))), tr') \<and>
           released tr' \<and> reads tr' = k + (8 - i) \<and> slots tr' = slots tr @ replicate (8 - i) (Slot True)"
  using assms
proof (induction "8 - i" arbitrary: i tr k "value")
  case 0
  then have "i = 8" by simp
  with 0 show ?case by (simp add: read_byte_loop.simps [of _ _ 8])
next
  case (Suc m)
  then have i: "i < 8" by linarith
  obtain b tr1 where rb: "read_bit (answers n bs) s tr = (b, tr1)" by (meson surj_pair)
  have tr1: "released tr1" "reads tr1 = Suc k" "slots tr1 = slots tr @ [Slot True]"
    using read_bit_slots(1-3) [OF Suc.prems(2), where env = "answers n bs" and q = s] Suc.prems(3) rb by simp_all
  have "k < n + length bs" using Suc.prems(5) i by linarith
  then have b: "b = bs ! (k - n)"
    using read_bit_slots(4) [OF Suc.prems(2), where k = n and bs = bs and q = s] rb Suc.prems(3-5) i by simp
  define v where "v = (if b then value OR push_bit i 1 else value)"
  have vbit: "bit v j \<longleftrightarrow> bit value j \<or> j = i \<and> b" for j
    using i by (auto simp: v_def bit_or_iff bit_push_bit_iff bit_1_iff simp del: push_bit_of_1)
  have hyp: "m = 8 - Suc i" "Suc i \<le> 8" "released (tr1 @ [DelayUs 125])"
    "reads (tr1 @ [DelayUs 125]) = Suc k" "n \<le> Suc k" "Suc k + (8 - Suc i) \<le> n + length bs"
    "\<And>j. Suc i \<le> j \<Longrightarrow> \<not> bit v j"
    using Suc.hyps(2) Suc.prems i tr1 by (auto simp: vbit)
  obtain tr' where tr': "read_byte_loop (answers n bs) s (Suc i) v (tr1 @ [DelayUs 125]) =
        (v OR push_bit (Suc i) (byte_of_bits (take (8 - Suc i) (drop (Suc k - n) bs))), tr')"
      "released tr'" "reads tr' = Suc k + (8 - Suc i)"
      "slots tr' = slots (tr1 @ [DelayUs 125]) @ replicate (8 - Suc i) (Slot True)"
    using Suc.hyps(1) [OF hyp] by blast
  have "k - n < length bs" using Suc.prems(4,5) i by linarith
  then have dr: "take (8 - i) (drop (k - n) bs) = b # take (8 - Suc i) (drop (Suc k - n) bs)"
    using i Suc.prems(4) b by (simp add: Cons_nth_drop_Suc [symmetric] Suc_diff_le take_Cons')
  define L where "L = take (8 - Suc i) (drop (Suc k - n) bs)"
  have L: "length L \<le> 7" by (simp add: L_def)
  have "v OR push_bit (Suc i) (byte_of_bits L) = value OR push_bit i (byte_of_bits (b # L))"
  proof (rule u8_bit_eqI)
    fix j assume "j < (8 :: nat)"
    have "bit (v OR push_bit (Suc i) (byte_of_bits L)) j \<longleftrightarrow>
        bit value j \<or> j = i \<and> b \<or> Suc i \<le> j \<and> bit (byte_of_bits L) (j - Suc i)"
      using \<open>j < 8\<close> by (simp only: bit_or_iff bit_push_bit_iff_u8 vbit) auto
    also have "\<dots> \<longleftrightarrow> bit value j \<or> i \<le> j \<and> j - i < Suc (length L) \<and> (b # L) ! (j - i)"
      using L by (cases "j = i") (auto simp: byte_of_bits_bit nth_Cons split: nat.splits simp flip: Suc_diff_Suc)
    also have "\<dots> \<longleftrightarrow> bit (value OR push_bit i (byte_of_bits (b # L))) j"
      using \<open>j < 8\<close> L by (simp only: bit_or_iff bit_push_bit_iff_u8 byte_of_bits_bit length_Cons) auto
    finally show "bit (v OR push_bit (Suc i) (byte_of_bits L)) j \<longleftrightarrow>
        bit (value OR push_bit i (byte_of_bits (b # L))) j" .
  qed
  then have "v OR push_bit (Suc i) (byte_of_bits (take (8 - Suc i) (drop (Suc k - n) bs))) =
      value OR push_bit i (byte_of_bits (take (8 - i) (drop (k - n) bs)))"
    unfolding dr L_def .
  moreover have "read_byte_loop (answers n bs) s i value tr =
      read_byte_loop (answers n bs) s (Suc i) v (tr1 @ [DelayUs 125])"
    using i by (subst read_byte_loop.simps) (simp add: rb v_def)
  moreover have "replicate (8 - i) (Slot True) = Slot True # replicate (8 - Suc i) (Slot True)"
    using i by (simp add: Suc_diff_Suc [symmetric] flip: replicate_Suc)
  ultimately show ?case using tr' tr1 i by auto
qed

lemma read_byte_answers:
  assumes "released tr" "reads tr = k" "n \<le> k" "k + 8 \<le> n + length bs"
  shows "\<exists>tr'. read_byte (answers n bs) s tr = (byte_of_bits (take 8 (drop (k - n) bs)), tr') \<and>
           released tr' \<and> reads tr' = k + 8 \<and> slots tr' = slots tr @ replicate 8 (Slot True)"
  using read_byte_loop_answers [of 0 tr k n bs 0 s] assms by (simp add: read_byte_def)

lemma drop_concat_bytes:
  "drop (8 * m) (concat (map bits_of_byte ds)) = concat (map bits_of_byte (drop m ds))"
  by (induction ds arbitrary: m) (auto simp: drop_Cons split: nat.splits)

lemma length_concat_bytes: "length (concat (map bits_of_byte ds)) = 8 * length ds"
  by (induction ds) auto

lemma read_bytes_answers:
  assumes "released tr" "reads tr = n + 8 * m" "m + l \<le> length ds"
  shows "\<exists>tr'. read_bytes (answers n (concat (map bits_of_byte ds))) s l tr = (take l (drop m ds), tr') \<and>
           released tr' \<and> slots tr' = slots tr @ replicate (8 * l) (Slot True)"
  using assms
proof (induction l arbitrary: m tr)
  case (Suc l)
  let ?bs = "concat (map bits_of_byte ds)"
  have m: "m < length ds" using Suc.prems(3) by simp
  have "reads tr + 8 \<le> n + length ?bs"
    using Suc.prems(2,3) by (simp add: length_concat_bytes)
  then obtain tr1 where tr1: "read_byte (answers n ?bs) s tr =
      (byte_of_bits (take 8 (drop (8 * m) ?bs)), tr1)"
    "released tr1" "reads tr1 = n + 8 * Suc m" "slots tr1 = slots tr @ replicate 8 (Slot True)"
    using read_byte_answers [OF Suc.prems(1) refl, of n ?bs s] Suc.prems(2) by auto
  have "take 8 (drop (8 * m) ?bs) = bits_of_byte (ds ! m)"
    using m by (simp add: drop_concat_bytes Cons_nth_drop_Suc [symmetric])
  moreover obtain tr2 where "read_bytes (answers n ?bs) s l tr1 = (take l (drop (Suc m) ds), tr2)"
    "released tr2" "slots tr2 = slots tr1 @ replicate (8 * l) (Slot True)"
    using Suc.IH [OF tr1(2,3)] Suc.prems(3) by auto
  ultimately show ?case
    using tr1 m by (simp add: Cons_nth_drop_Suc [symmetric] replicate_add)
qed auto

section \<open>Properties\<close>

text \<open>
  On the wire, \<open>write\<close> sends the eight bits of its argument, the least significant
  first, in eight write slots whose low phase a device reads as that bit (15 microseconds
  for a 1, 70 for a 0), and \<open>init\<close> sends one reset pulse.
\<close>

lemma write_byte_wire:
  "slots (init n (write_byte v n [])) = map Slot (bits_of_byte v) @ [ResetPulse]"
  using write_byte_slots [OF released_Nil, of v n]
  by (simp add: slots_def [of "[]"])

text \<open>
  C36: Round trip of the read slots: when a device answers the read slots that follow with
  the bits of the bytes \<open>ds\<close>, the least significant bit of each byte first, the nine calls
  of \<open>read_byte\<close> return exactly the first nine of \<open>ds\<close> and issue 72 read slots.
\<close>

theorem read_bytes_roundtrip:
  assumes "released tr" and "9 \<le> length ds"
  shows "fst (read_bytes (answers (reads tr) (concat (map bits_of_byte ds))) s 9 tr) = take 9 ds \<and>
         slots (snd (read_bytes (answers (reads tr) (concat (map bits_of_byte ds))) s 9 tr)) =
           slots tr @ replicate 72 (Slot True)"
  using read_bytes_answers [OF assms(1), of "reads tr" 0 9 ds s] assms(2) by auto

theorem read_bytes_roundtrip_witness:
  "fst (read_bytes (answers 0 (concat (map bits_of_byte [0x50, 5, 0x4B, 0x46, 0x7F, 0xFF, 0xC, 0x10, 0x1C])))
     33 9 (init 33 [])) = [0x50, 5, 0x4B, 0x46, 0x7F, 0xFF, 0xC, 0x10, 0x1C]"
proof -
  have r: "released (init 33 [])" by (simp add: released_init)
  have n: "reads (init 33 []) = 0" by (simp add: init_def reads_def)
  show ?thesis
    using read_bytes_roundtrip
        [OF r, of "[0x50, 5, 0x4B, 0x46, 0x7F, 0xFF, 0xC, 0x10, 0x1C]" 33]
    unfolding n by simp
qed

end
