(* ===== verification/Debounce.thy ===== *)
theory Debounce
  imports Sensors
begin

text \<open>
  The contract the sensor drivers share: a channel keeps a counter of rejected readings and
  shows the last accepted value until more than \<open>limit\<close> readings in a row were rejected,
  and a sentinel from then on. The locale states the contract of one reading; its lemmas
  say what a whole run of readings shows. Temperature and Htu21d interpret it on the
  code's definitions.
\<close>

section \<open>Runs of readings\<close>

text \<open>The value the drivers store for a lost sensor, -32.125, and their limit.\<close>

definition lost_value :: cfloat where
  "lost_value = to_float (dlit (- 257 / 8))"

definition reject_limit :: nat where
  "reject_limit = 500"

fun rejected_all :: "('r \<Rightarrow> 's \<Rightarrow> bool) \<Rightarrow> ('r \<Rightarrow> 's \<Rightarrow> 's) \<Rightarrow> 'r list \<Rightarrow> 's \<Rightarrow> bool" where
  "rejected_all ok step [] s \<longleftrightarrow> True"
| "rejected_all ok step (r # rs) s \<longleftrightarrow> \<not> ok r s \<and> rejected_all ok step rs (step r s)"

definition shows_from :: "nat \<Rightarrow> sfield \<Rightarrow> sensors \<Rightarrow> cfloat \<Rightarrow> bool" where
  "shows_from n f s v \<longleftrightarrow> (\<forall>k \<in> set [n..<5]. 0 < k \<longrightarrow> pval (state_of k s) f = v)"

lemma lost_value_eq: "lost_value = Fin (- 257 / 8)"
  by (simp add: lost_value_def to_float_def dlit_def rnd_eval)

lemma shows_from_store [simp]: "shows_from n f (store_from n f v s) v"
  by (auto simp: shows_from_def store_from_def)

lemma shows_from_store_other [simp]:
  "g \<noteq> f \<Longrightarrow> shows_from n f (store_from m g v s) w \<longleftrightarrow> shows_from n f s w"
  by (auto simp: shows_from_def store_from_def)

lemma shows_fromD: "shows_from n f s v \<Longrightarrow> k \<in> {n..4} \<Longrightarrow> 0 < k \<Longrightarrow> pval (state_of k s) f = v"
  by (simp add: shows_from_def del: state_of.simps)

text \<open>The 16-bit counters of the drivers, tested with \<open>> 500\<close> after the increment.\<close>

lemma word_count_below: "unat (b :: u16) < 500 \<Longrightarrow> \<not> 500 < b + 1 \<and> unat (b + 1) = Suc (unat b)"
  by (simp add: unat_word_ariths word_less_nat_alt)

lemma word_count_at: "unat (b :: u16) = 500 \<Longrightarrow> 500 < b + 1"
  by (simp add: unat_word_ariths word_less_nat_alt)

section \<open>The contract\<close>

locale debounced =
  fixes step :: "'r \<Rightarrow> 's \<Rightarrow> 's"
    and ok :: "'r \<Rightarrow> 's \<Rightarrow> bool"
    and val_of :: "'r \<Rightarrow> 'v"
    and count :: "'s \<Rightarrow> nat"
    and shows_val :: "'s \<Rightarrow> 'v \<Rightarrow> bool"
    and sentinel :: 'v
    and limit :: nat
  assumes accept: "ok r s \<Longrightarrow> count (step r s) = 0 \<and> shows_val (step r s) (val_of r)"
    and reject_below: "\<not> ok r s \<Longrightarrow> count s < limit \<Longrightarrow>
           count (step r s) = Suc (count s) \<and> (\<forall>v. shows_val s v \<longrightarrow> shows_val (step r s) v)"
    and reject_at: "\<not> ok r s \<Longrightarrow> count s = limit \<Longrightarrow>
           count (step r s) = 0 \<and> shows_val (step r s) sentinel"
begin

lemma count_bounded: "count s \<le> limit \<Longrightarrow> count (step r s) \<le> limit"
  by (cases "ok r s"; cases "count s = limit") (auto simp: accept reject_at reject_below)

lemma run_bounded: "count s \<le> limit \<Longrightarrow> count (fold step rs s) \<le> limit"
  by (induction rs arbitrary: s) (auto intro: count_bounded)

lemma run_keeps_sentinel:
  "rejected_all ok step rs s \<Longrightarrow> count s \<le> limit \<Longrightarrow> shows_val s sentinel \<Longrightarrow>
   shows_val (fold step rs s) sentinel"
proof (induction rs arbitrary: s)
  case (Cons r rs)
  then have "shows_val (step r s) sentinel"
    by (cases "count s = limit") (auto simp: reject_at reject_below)
  with Cons show ?case by (simp add: count_bounded)
qed simp

lemma run_below:
  "rejected_all ok step rs s \<Longrightarrow> count s + length rs \<le> limit \<Longrightarrow> shows_val s v \<Longrightarrow>
   shows_val (fold step rs s) v \<and> count (fold step rs s) = count s + length rs"
proof (induction rs arbitrary: s)
  case (Cons r rs)
  then have "count (step r s) = Suc (count s)" "shows_val (step r s) v"
    using reject_below [of r s] by auto
  with Cons show ?case by simp
qed simp

lemma run_beyond:
  "rejected_all ok step rs s \<Longrightarrow> count s \<le> limit \<Longrightarrow> limit < count s + length rs \<Longrightarrow>
   shows_val (fold step rs s) sentinel"
proof (induction rs arbitrary: s)
  case (Cons r rs)
  show ?case
  proof (cases "count s = limit")
    case True
    with Cons.prems have "shows_val (step r s) sentinel" "count (step r s) = 0"
      by (auto simp: reject_at)
    then show ?thesis using run_keeps_sentinel [of rs "step r s"] Cons.prems by simp
  next
    case False
    with Cons.prems have "count (step r s) = Suc (count s)" by (simp add: reject_below)
    with Cons False show ?thesis by simp
  qed
qed simp

text \<open>An accepted reading followed by \<open>n\<close> rejected ones.\<close>

lemma after_accept:
  assumes "ok r s" and "rejected_all ok step rs (step r s)"
  shows "shows_val (fold step rs (step r s)) (if length rs \<le> limit then val_of r else sentinel)"
  using assms accept [OF assms(1)] run_below [OF assms(2)] run_beyond [OF assms(2)] by auto

end

end
