(* ===== verification/Temperature.thy ===== *)
theory Temperature
  imports Debounce OneWire_Bus Crc
begin

text \<open>
  The DS18B20 readers of temperature.c: one record for the per-channel globals
  (\<open>bad_*\<close>, \<open>flag_*\<close> and the six bytes \<open>x1_*\<close> to \<open>x6_*\<close>), the decoding of a scratchpad, and the
  eight functions \<open>Read_Temperature_*\<close>, which differ only in the channel and in the structs
  the reading is stored in.
\<close>

section \<open>State\<close>

record tchan =
  bad :: u16
  flag :: u8
  xs :: "u8 list"

record temp_state =
  chan :: "sfield \<Rightarrow> tchan"
  out :: sensors

definition zero_chan :: tchan where
  "zero_chan = \<lparr>bad = 0, flag = 0, xs = replicate 6 0\<rparr>"

definition init_temp :: temp_state where
  "init_temp = \<lparr>chan = (\<lambda>_. zero_chan), out = init_sensors\<rparr>"

section \<open>Decoding\<close>

definition isKthBitSet :: "int \<Rightarrow> nat \<Rightarrow> int" where
  "isKthBitSet n k = (if n AND push_bit (k - 1) 1 \<noteq> 0 then 1 else 0)"

text \<open>\<open>i + k * w\<close> with a \<open>double\<close> weight: the running sum is converted to \<open>double\<close>.\<close>

definition int_d :: "int \<Rightarrow> cfloat" where
  "int_d i = Fin (rnd 53 (of_int i))"

definition add_bit :: "cfloat \<Rightarrow> int \<Rightarrow> rat \<Rightarrow> cfloat" where
  "add_bit acc b w = d_add acc (d_mul (int_d b) (dlit w))"

definition decode :: "u8 \<Rightarrow> u8 \<Rightarrow> cfloat" where
  "decode b0 b1 =
     (let g0 = isKthBitSet (uint b0); g1 = isKthBitSet (uint b1);
          fraction = (\<lambda>whole. add_bit (add_bit (add_bit (add_bit (int_d whole)
            (g0 4) (1/2)) (g0 3) (1/4)) (g0 2) (1/8)) (g0 1) (1/16))
      in if g1 4 = 1 \<and> g1 5 = 1 \<and> g1 6 = 1 \<and> g1 7 = 1 \<and> g1 8 = 1 then
           to_float (d_sub
             (fraction (g1 2 * 32 + g1 1 * 16 + g0 8 * 8 + g0 7 * 4 + g0 6 * 2 + g0 5 * 1))
             (int_d (g1 3 * 64)))
         else
           to_float
             (fraction (g1 3 * 64 + g1 2 * 32 + g1 1 * 16 + g0 8 * 8 + g0 7 * 4 + g0 6 * 2 + g0 5 * 1)))"

section \<open>Reading a sensor\<close>

text \<open>Once a reading was accepted, bytes 2 to 7 are replaced by those of that reading.\<close>

definition use_cache :: "tchan \<Rightarrow> u8 list \<Rightarrow> u8 list" where
  "use_cache c get =
     (if flag c = 1 then get[2 := xs c ! 0, 3 := xs c ! 1, 4 := xs c ! 2, 5 := xs c ! 3,
        6 := xs c ! 4, 7 := xs c ! 5] else get)"

text \<open>What happens to the nine bytes \<open>get\<close>, for the channel \<open>f\<close> of the structs from \<open>n\<close> on.\<close>

definition commit :: "nat \<Rightarrow> sfield \<Rightarrow> u8 list \<Rightarrow> temp_state \<Rightarrow> temp_state" where
  "commit n f get0 s =
     (let c = chan s f;
          get = use_cache c get0;
          crc1 = dsCRC8 (take 8 get);
          temp = decode (get ! 0) (get ! 1)
      in if crc1 = get ! 8 then
           s\<lparr>out := store_from n f temp (out s),
             chan := (chan s)(f := \<lparr>bad = 0, flag = 1, xs = [get ! 2, get ! 3, get ! 4, get ! 5, get ! 6, get ! 7]\<rparr>)\<rparr>
         else let b = bad c + 1
           in if 500 < b then
                s\<lparr>out := store_from n f lost_value (out s), chan := (chan s)(f := c\<lparr>bad := 0\<rparr>)\<rparr>
              else s\<lparr>chan := (chan s)(f := c\<lparr>bad := b\<rparr>)\<rparr>)"

definition send_request :: "nat \<Rightarrow> trace \<Rightarrow> trace" where
  "send_request x tr =
     (let tr1 = write_byte 0x44 x (write_byte 0xCC x (init x tr)) @ [DelayUs 104]
      in write_byte 0xBE x (write_byte 0xCC x (init x tr1)))"

definition read_temperature ::
  "nat \<Rightarrow> sfield \<Rightarrow> gpio_env \<Rightarrow> nat \<Rightarrow> trace \<times> temp_state \<Rightarrow> trace \<times> temp_state" where
  "read_temperature n f env x ts =
     (let (get, tr) = read_bytes env x 9 (send_request x (fst ts))
      in (tr, commit n f get (snd ts)))"

definition Read_Temperature_sltc11 where "Read_Temperature_sltc11 = read_temperature 1 sltc11"
definition Read_Temperature_lltc11 where "Read_Temperature_lltc11 = read_temperature 1 lltc11"
definition Read_Temperature_sltc21 where "Read_Temperature_sltc21 = read_temperature 2 sltc21"
definition Read_Temperature_lltc21 where "Read_Temperature_lltc21 = read_temperature 2 lltc21"
definition Read_Temperature_sltc31 where "Read_Temperature_sltc31 = read_temperature 3 sltc31"
definition Read_Temperature_lltc31 where "Read_Temperature_lltc31 = read_temperature 3 lltc31"
definition Read_Temperature_sltc41 where "Read_Temperature_sltc41 = read_temperature 4 sltc41"
definition Read_Temperature_lltc41 where "Read_Temperature_lltc41 = read_temperature 4 lltc41"

section \<open>The value of a scratchpad\<close>

lemma isKthBitSet_word: "0 < k \<Longrightarrow> isKthBitSet (uint (b :: u8)) k = of_bool (bit b (k - 1))"
proof -
  have "uint b AND push_bit j 1 \<noteq> 0 \<longleftrightarrow> bit b j" for j
  proof -
    have "uint b AND push_bit j 1 = (if bit (uint b) j then push_bit j 1 else 0)"
      by (rule bit_eqI) (auto simp: bit_and_iff bit_push_bit_iff bit_1_iff simp del: push_bit_of_1)
    then show ?thesis by (simp add: bit_uint_iff) (use bit_imp_le_length in fastforce)
  qed
  then show ?thesis by (simp add: isKthBitSet_def)
qed

lemma sixteenths:
  "\<bar>a\<bar> < 2 ^ 20 \<Longrightarrow> int_d a = Fin (of_int (16 * a) / 16)"
  "\<bar>a\<bar> < 2 ^ 20 \<Longrightarrow> \<bar>b\<bar> < 2 ^ 20 \<Longrightarrow>
     d_add (Fin (of_int a / 16)) (Fin (of_int b / 16)) = Fin (of_int (a + b) / 16)"
  "\<bar>a\<bar> < 2 ^ 20 \<Longrightarrow> \<bar>b\<bar> < 2 ^ 20 \<Longrightarrow>
     d_sub (Fin (of_int a / 16)) (Fin (of_int b / 16)) = Fin (of_int (a - b) / 16)"
  "\<bar>a\<bar> < 2 ^ 20 \<Longrightarrow> to_float (Fin (of_int a / 16)) = Fin (of_int a / 16)"
proof -
  show "int_d a = Fin (of_int (16 * a) / 16)" if "\<bar>a\<bar> < 2 ^ 20"
    using rnd_int [of a 53] that by (simp add: int_d_def)
  show "d_add (Fin (of_int a / 16)) (Fin (of_int b / 16)) = Fin (of_int (a + b) / 16)"
    if "\<bar>a\<bar> < 2 ^ 20" "\<bar>b\<bar> < 2 ^ 20"
    using rnd_sixteenth [of "a + b" 53] that by (simp add: d_add_def flip: add_divide_distrib)
  show "d_sub (Fin (of_int a / 16)) (Fin (of_int b / 16)) = Fin (of_int (a - b) / 16)"
    if "\<bar>a\<bar> < 2 ^ 20" "\<bar>b\<bar> < 2 ^ 20"
    using rnd_sixteenth [of "a - b" 53] that by (simp add: d_sub_def flip: diff_divide_distrib)
  show "to_float (Fin (of_int a / 16)) = Fin (of_int a / 16)" if "\<bar>a\<bar> < 2 ^ 20"
    using rnd_sixteenth [of a 24] that by (simp add: to_float_def)
qed

lemma weight_literals:
  "dlit (1/2) = Fin (1/2)" "dlit (1/4) = Fin (1/4)" "dlit (1/8) = Fin (1/8)" "dlit (1/16) = Fin (1/16)"
  by (simp_all add: dlit_def rnd_eval)

lemma int_d_01: "int_d 0 = Fin 0" "int_d 1 = Fin 1"
  using rnd_int [of 1 53] by (simp_all add: int_d_def)

lemma weight_products:
  "d_mul (Fin 1) (Fin (1/2)) = Fin (1/2)" "d_mul (Fin 1) (Fin (1/4)) = Fin (1/4)"
  "d_mul (Fin 1) (Fin (1/8)) = Fin (1/8)" "d_mul (Fin 1) (Fin (1/16)) = Fin (1/16)"
  "d_mul (Fin 0) w = (case w of NaN \<Rightarrow> NaN | _ \<Rightarrow> Fin 0)"
  by (simp_all add: d_mul_def rnd_eval split: cfloat.split)

lemma add_bit_sixteenths:
  assumes "\<bar>a\<bar> < 2 ^ 20" and "b \<in> {0, 1}"
  shows "add_bit (Fin (of_int a / 16)) b (1/2) = Fin (of_int (a + 8 * b) / 16)"
    "add_bit (Fin (of_int a / 16)) b (1/4) = Fin (of_int (a + 4 * b) / 16)"
    "add_bit (Fin (of_int a / 16)) b (1/8) = Fin (of_int (a + 2 * b) / 16)"
    "add_bit (Fin (of_int a / 16)) b (1/16) = Fin (of_int (a + b) / 16)"
proof -
  have b: "\<bar>k * b\<bar> < 2 ^ 20" if "k \<in> {1, 2, 4, 8}" for k using assms(2) that by auto
  have m: "d_mul (int_d b) (dlit (1/2)) = Fin (of_int (8 * b) / 16)"
    "d_mul (int_d b) (dlit (1/4)) = Fin (of_int (4 * b) / 16)"
    "d_mul (int_d b) (dlit (1/8)) = Fin (of_int (2 * b) / 16)"
    "d_mul (int_d b) (dlit (1/16)) = Fin (of_int (1 * b) / 16)"
    using assms(2) weight_products by (auto simp: weight_literals int_d_01)
  show "add_bit (Fin (of_int a / 16)) b (1/2) = Fin (of_int (a + 8 * b) / 16)"
    "add_bit (Fin (of_int a / 16)) b (1/4) = Fin (of_int (a + 4 * b) / 16)"
    "add_bit (Fin (of_int a / 16)) b (1/8) = Fin (of_int (a + 2 * b) / 16)"
    "add_bit (Fin (of_int a / 16)) b (1/16) = Fin (of_int (a + b) / 16)"
    unfolding add_bit_def m using sixteenths(2) [OF assms(1) b] by (force simp del: of_int_mult)+
qed

lemma fraction_sixteenths:
  assumes "\<bar>w\<bar> < 1000" "b3 \<in> {0, 1}" "b2 \<in> {0, 1}" "b1 \<in> {0, 1}" "b0 \<in> {0, 1}"
  shows "add_bit (add_bit (add_bit (add_bit (int_d w) b3 (1/2)) b2 (1/4)) b1 (1/8)) b0 (1/16) =
    Fin (of_int (16 * w + 8 * b3 + 4 * b2 + 2 * b1 + b0) / 16)"
proof -
  have i: "int_d w = Fin (of_int (16 * w) / 16)" by (rule sixteenths) (use assms in simp)
  have b: "0 \<le> b3" "b3 \<le> 1" "0 \<le> b2" "b2 \<le> 1" "0 \<le> b1" "b1 \<le> 1" using assms by auto
  have r: "\<bar>16 * w\<bar> < 2 ^ 20" "\<bar>16 * w + 8 * b3\<bar> < 2 ^ 20" "\<bar>16 * w + 8 * b3 + 4 * b2\<bar> < 2 ^ 20"
    "\<bar>16 * w + 8 * b3 + 4 * b2 + 2 * b1\<bar> < 2 ^ 20"
    using b assms(1) by simp_all
  show ?thesis
    unfolding i add_bit_sixteenths(1) [OF r(1) assms(2)] add_bit_sixteenths(2) [OF r(2) assms(3)]
      add_bit_sixteenths(3) [OF r(3) assms(4)] add_bit_sixteenths(4) [OF r(4) assms(5)] by (rule refl)
qed

lemma take_bit_uint_u8: "take_bit 8 (uint b) = uint b" for b :: u8
  using uint_lt2p [of b] by (simp add: take_bit_int_eq_self)

lemma uint_bits:
  "uint b = of_bool (bit b 0) + 2 * of_bool (bit b 1) + 4 * of_bool (bit b 2) + 8 * of_bool (bit b 3) +
     16 * of_bool (bit b 4) + 32 * of_bool (bit b 5) + 64 * of_bool (bit b 6) + 128 * of_bool (bit b 7)"
  for b :: u8
proof -
  have "take_bit 8 (uint b) = horner_sum of_bool 2 (map (bit (uint b)) [0..<8])"
    by (simp only: horner_sum_bit_eq_take_bit)
  also have "[0..<8] = [0, 1, 2, 3, 4, 5, 6, 7 :: nat]" by (simp add: upt_rec)
  finally show ?thesis by (simp only: take_bit_uint_u8 horner_sum_simps list.map bit_uint_iff) simp
qed

lemma sint_bits: "sint b = uint b - 256 * of_bool (bit b 7)" for b :: u8
proof -
  have "sint b = signed_take_bit 7 (uint b)" by (simp add: sint_uint)
  also have "\<dots> = take_bit 8 (uint b) - 256 * of_bool (bit (uint b) 7)"
    by (simp add: signed_take_bit_eq_take_bit_minus)
  finally show ?thesis by (simp add: take_bit_uint_u8 bit_uint_iff)
qed

text \<open>The 16-bit two's complement number in bytes 0 and 1, in sixteenths of a degree.\<close>

definition sixteenths_of :: "u8 \<Rightarrow> u8 \<Rightarrow> int" where
  "sixteenths_of b0 b1 = 256 * sint b1 + uint b0"

text \<open>A number between -1024 and 2047 in sixteen bits: the upper five are all set or all clear.\<close>

lemma sign_bits:
  fixes low :: int and h :: "nat \<Rightarrow> int"
  assumes "0 \<le> low" "low < 1024" and h: "\<And>i. h i \<in> {0, 1}"
    and v: "v = low + 1024 * h 2 + 2048 * h 3 + 4096 * h 4 + 8192 * h 5 + 16384 * h 6 - 32768 * h 7" "- 1024 \<le> v" "v < 2048"
    and "\<not> (h 3 = 1 \<and> h 4 = 1 \<and> h 5 = 1 \<and> h 6 = 1 \<and> h 7 = 1)"
  shows "h 3 = 0" "h 4 = 0" "h 5 = 0" "h 6 = 0" "h 7 = 0"
proof -
  have b: "0 \<le> h i" "h i \<le> 1" for i using h [of i] by auto
  note low = assms(1,2) and b2 = b [of 2] b [of 3] b [of 4] b [of 5] b [of 6]
  show h7: "h 7 = 0"
  proof (rule ccontr)
    assume "h 7 \<noteq> 0"
    then have h7: "h 7 = 1" using h [of 7] by simp
    have big: "31744 \<le> low + 1024 * h 2 + 2048 * h 3 + 4096 * h 4 + 8192 * h 5 + 16384 * h 6" using v h7 by simp
    have "0 < h 3" using big b2 low by linarith
    moreover have "0 < h 4" using big b2 low by linarith
    moreover have "0 < h 5" using big b2 low by linarith
    moreover have "0 < h 6" using big b2 low by linarith
    ultimately show False using assms(7) h7 b2 by auto
  qed
  have small: "low + 1024 * h 2 + 2048 * h 3 + 4096 * h 4 + 8192 * h 5 + 16384 * h 6 < 2048" using v h7 by simp
  show "h 3 = 0" using small low b2 by linarith
  show "h 4 = 0" using small low b2 by linarith
  show "h 5 = 0" using small low b2 by linarith
  show "h 6 = 0" using small low b2 by linarith
qed

lemma decode_correct:
  assumes "- 1024 \<le> sixteenths_of b0 b1" and "sixteenths_of b0 b1 < 2048"
  shows "decode b0 b1 = Fin (of_int (sixteenths_of b0 b1) / 16)"
proof -
  note bits = sixteenths_of_def sint_bits uint_bits [of b0] uint_bits [of b1]
  define h where "h i = (of_bool (bit b1 i) :: int)" for i
  define l where "l i = (of_bool (bit b0 i) :: int)" for i
  have hl: "h i \<in> {0, 1}" "l i \<in> {0, 1}" for i by (auto simp: h_def l_def)
  define low where "low = 512 * h 1 + 256 * h 0 + 128 * l 7 + 64 * l 6 + 32 * l 5 + 16 * l 4
    + 8 * l 3 + 4 * l 2 + 2 * l 1 + l 0"
  have val: "sixteenths_of b0 b1 = low + 1024 * h 2 + 2048 * h 3 + 4096 * h 4 + 8192 * h 5 + 16384 * h 6 - 32768 * h 7"
    by (simp add: bits low_def h_def l_def)
  have h01: "0 \<le> h i" "h i \<le> 1" "0 \<le> l i" "l i \<le> 1" for i by (auto simp: h_def l_def)
  note bounds = h01 [of 0] h01 [of 1] h01(3,4) [of 2] h01(3,4) [of 3] h01(3,4) [of 4]
    h01(3,4) [of 5] h01(3,4) [of 6] h01(3,4) [of 7]
  have low0: "0 \<le> low" unfolding low_def using bounds by linarith
  have low1: "low < 1024" unfolding low_def using bounds by linarith
  note low = low0 low1
  have g: "isKthBitSet (uint b1) 1 = h 0" "isKthBitSet (uint b1) 2 = h 1" "isKthBitSet (uint b1) 3 = h 2"
    "isKthBitSet (uint b1) 4 = h 3" "isKthBitSet (uint b1) 5 = h 4" "isKthBitSet (uint b1) 6 = h 5"
    "isKthBitSet (uint b1) 7 = h 6" "isKthBitSet (uint b1) 8 = h 7"
    "isKthBitSet (uint b0) 1 = l 0" "isKthBitSet (uint b0) 2 = l 1" "isKthBitSet (uint b0) 3 = l 2"
    "isKthBitSet (uint b0) 4 = l 3" "isKthBitSet (uint b0) 5 = l 4" "isKthBitSet (uint b0) 6 = l 5"
    "isKthBitSet (uint b0) 7 = l 6" "isKthBitSet (uint b0) 8 = l 7"
    by (simp_all add: isKthBitSet_word h_def l_def)
  show ?thesis
  proof (cases "h 3 = 1 \<and> h 4 = 1 \<and> h 5 = 1 \<and> h 6 = 1 \<and> h 7 = 1")
    case True
    then have "sixteenths_of b0 b1 = low + 1024 * h 2 - 2048" by (simp add: val)
    with assms low hl(1) [of 2] have h2: "h 2 = 1" by auto
    define w where "w = h 1 * 32 + h 0 * 16 + l 7 * 8 + l 6 * 4 + l 5 * 2 + l 4 * 1"
    have w: "\<bar>w\<bar> < 1000" unfolding w_def abs_less_iff by (rule conjI; use bounds h01(1,2) [of 2] in linarith)
    have i64: "int_d (h 2 * 64) = Fin (of_int 1024 / 16)" using h2 sixteenths(1) [of 64] by simp
    have lw: "16 * w + 8 * l 3 + 4 * l 2 + 2 * l 1 + l 0 = low" by (simp add: w_def low_def)
    have "decode b0 b1 = to_float (d_sub (Fin (of_int low / 16)) (Fin (of_int 1024 / 16)))"
      using True fraction_sixteenths [OF w hl(2) [of 3] hl(2) [of 2] hl(2) [of 1] hl(2) [of 0], unfolded lw]
      by (simp only: decode_def Let_def g w_def [symmetric] i64 simp_thms if_True)
    also have "\<dots> = Fin (of_int (low - 1024) / 16)"
      using low sixteenths(3) [of low 1024] sixteenths(4) [of "low - 1024"] by simp
    finally show ?thesis using True h2 by (simp add: val)
  next
    case False
    define w where "w = h 2 * 64 + h 1 * 32 + h 0 * 16 + l 7 * 8 + l 6 * 4 + l 5 * 2 + l 4 * 1"
    have w: "\<bar>w\<bar> < 1000" unfolding w_def abs_less_iff by (rule conjI; use bounds h01(1,2) [of 2] in linarith)
    note high = sign_bits [OF low hl(1) val assms False]
    have z: "sixteenths_of b0 b1 = 16 * w + 8 * l 3 + 4 * l 2 + 2 * l 1 + l 0"
      using high by (simp add: val w_def low_def)
    have "decode b0 b1 = to_float (Fin (of_int (16 * w + 8 * l 3 + 4 * l 2 + 2 * l 1 + l 0) / 16))"
      using False fraction_sixteenths [OF w hl(2) [of 3] hl(2) [of 2] hl(2) [of 1] hl(2) [of 0]]
      by (simp only: decode_def Let_def g w_def [symmetric] if_False)
    also have "\<dots> = Fin (of_int (sixteenths_of b0 b1) / 16)"
      unfolding z [symmetric] by (rule sixteenths(4)) (use assms in auto)
    finally show ?thesis .
  qed
qed

section \<open>The channel contract\<close>

definition temp_ok :: "sfield \<Rightarrow> u8 list \<Rightarrow> temp_state \<Rightarrow> bool" where
  "temp_ok f get s = (dsCRC8 (take 8 (use_cache (chan s f) get)) = use_cache (chan s f) get ! 8)"

lemma use_cache_nth [simp]:
  "use_cache c get ! 0 = get ! 0" "use_cache c get ! Suc 0 = get ! Suc 0" "use_cache c get ! 8 = get ! 8"
  by (simp_all add: use_cache_def)

lemma commit_other [frame_facts]:
  "g \<noteq> f \<Longrightarrow> chan (commit n f get s) g = chan s g"
  "g \<noteq> f \<Longrightarrow> pval (state_of k (out (commit n f get s))) g = pval (state_of k (out s)) g"
  by (simp_all add: commit_def Let_def store_from_def)

interpretation temp: debounced "commit n f" "temp_ok f" "\<lambda>get. decode (get ! 0) (get ! 1)"
    "\<lambda>s. unat (bad (chan s f))" "\<lambda>s v. shows_from n f (out s) v" lost_value 500
  for n f
proof (unfold_locales, goal_cases)
  case 1 then show ?case by (simp add: commit_def temp_ok_def Let_def)
next
  case 2 then show ?case using word_count_below by (simp add: commit_def temp_ok_def Let_def)
next
  case 3 then show ?case using word_count_at by (simp add: commit_def temp_ok_def Let_def)
qed

section \<open>What goes over the wire\<close>

lemma send_request_slots:
  "released tr \<Longrightarrow> released (send_request x tr) \<and>
   slots (send_request x tr) = slots tr @ ResetPulse # map Slot (bits_of_byte 0xCC) @
     map Slot (bits_of_byte 0x44) @ ResetPulse # map Slot (bits_of_byte 0xCC) @ map Slot (bits_of_byte 0xBE)"
  by (simp add: send_request_def Let_def write_byte_slots released_init slots_init)

lemma nine_bytes:
  assumes "length ds = 9"
  shows "ds = [ds ! 0, ds ! 1, ds ! 2, ds ! 3, ds ! 4, ds ! 5, ds ! 6, ds ! 7, ds ! 8]"
  using assms by (auto simp: list_eq_iff_nth_eq less_Suc_eq numeral_eq_Suc)

lemma use_cache_same:
  assumes "flag c = 1 \<longrightarrow> xs c = take 6 (drop 2 ds)" and "length ds = 9"
  shows "use_cache c ds = ds"
proof -
  obtain a b c d e f g h i where "ds = [a, b, c, d, e, f, g, h, i]" using nine_bytes [OF assms(2)] by blast
  with assms(1) show ?thesis by (simp add: use_cache_def)
qed

lemma read_temperature_answers:
  fixes x :: nat
  assumes "released tr" and "length ds = 9"
    and env: "env = answers (reads (send_request x tr)) (concat (map bits_of_byte ds))"
  shows "snd (read_temperature n f env x (tr, s)) = commit n f ds s \<and>
         slots (fst (read_temperature n f env x (tr, s))) = slots (send_request x tr) @ replicate 72 (Slot True)"
  using read_bytes_answers [of "send_request x tr" "reads (send_request x tr)" 0 9 ds x]
    send_request_slots [OF assms(1)] assms(2)
  by (auto simp: read_temperature_def env)

section \<open>A concrete sensor\<close>

text \<open>The scratchpad of a sensor at 25.0625 degrees, and the same with byte 0 corrupted.\<close>

definition pad_25 :: "u8 list" where
  "pad_25 = [0x91, 0x01, 0x4B, 0x46, 0x7F, 0xFF, 0x0C, 0x10, 0x70]"

definition pad_bad :: "u8 list" where
  "pad_bad = [0x92, 0x01, 0x4B, 0x46, 0x7F, 0xFF, 0x0C, 0x10, 0x70]"

lemma pad_25_crc: "dsCRC8 [0x91, 0x01, 0x4B, 0x46, 0x7F, 0xFF, 0x0C, 0x10] = 0x70"
  by code_simp

lemma pad_bad_crc: "dsCRC8 [0x92, 0x01, 0x4B, 0x46, 0x7F, 0xFF, 0x0C, 0x10] \<noteq> 0x70"
  by code_simp

lemma pad_25_value: "sixteenths_of 0x91 0x01 = 401"
  by code_simp

lemma pad_25_commit: "chan (commit 2 sltc21 pad_25 init_temp) sltc21 =
    \<lparr>bad = 0, flag = 1, xs = [0x4B, 0x46, 0x7F, 0xFF, 0x0C, 0x10]\<rparr>"
  by (simp add: commit_def Let_def use_cache_def init_temp_def zero_chan_def pad_25_def pad_25_crc)

lemma pad_ok: "temp_ok sltc21 pad_25 init_temp" "\<not> temp_ok sltc21 pad_bad (commit 2 sltc21 pad_25 init_temp)"
proof -
  show "temp_ok sltc21 pad_25 init_temp"
    by (simp add: temp_ok_def use_cache_def init_temp_def zero_chan_def pad_25_def pad_25_crc)
  show "\<not> temp_ok sltc21 pad_bad (commit 2 sltc21 pad_25 init_temp)"
    using pad_bad_crc by (simp add: temp_ok_def pad_25_commit use_cache_def pad_bad_def)
qed

section \<open>Properties\<close>

text \<open>
  For every temperature the DS18B20 can report from -64 degrees up to (not including) 128, the two
  branches of bit tests in \<open>Read_Temperature_*\<close> compute exactly the two's complement
  number of bytes 0 and 1 divided by 16, without any rounding.
\<close>

lemma decode_exact:
  assumes "- 1024 \<le> sixteenths_of b0 b1" and "sixteenths_of b0 b1 < 2048"
  shows "decode b0 b1 = Fin (of_int (sixteenths_of b0 b1) / 16)"
  by (rule decode_correct [OF assms])

theorem decode_exact_witness: "decode 0x5E 0xFF = Fin (- 162 / 16)"
proof -
  have "sixteenths_of 0x5E 0xFF = - 162" by code_simp
  then show ?thesis using decode_exact [of "0x5E" "0xFF"] by simp
qed

text \<open>
  C12: One call of a reader, from the pin to the packets: on the wire it is a reset, skip
  ROM, convert, a reset, skip ROM, read scratchpad and 72 read slots; and if the sensor
  answers with nine bytes whose last is the checksum of the others, in the configuration the
  channel has seen before, every struct from the channel's circuit on carries the sensor's
  temperature and the reject counter is zero.
\<close>

theorem read_temperature_end_to_end:
  assumes "released tr" and "length ds = 9" and "dsCRC8 (take 8 ds) = ds ! 8"
    and "- 1024 \<le> sixteenths_of (ds ! 0) (ds ! 1)" and "sixteenths_of (ds ! 0) (ds ! 1) < 2048"
    and "flag (chan s f) = 1 \<longrightarrow> xs (chan s f) = take 6 (drop 2 ds)"
    and "k \<in> {n..4}" and "0 < k"
  shows "let (tr', s') = read_temperature n f
                (answers (reads (send_request x tr)) (concat (map bits_of_byte ds))) x (tr, s)
         in pval (state_of k (out s')) f = Fin (of_int (sixteenths_of (ds ! 0) (ds ! 1)) / 16) \<and>
            bad (chan s' f) = 0 \<and>
            slots tr' = slots tr @ ResetPulse # map Slot (bits_of_byte 0xCC) @
              map Slot (bits_of_byte 0x44) @ ResetPulse # map Slot (bits_of_byte 0xCC) @
              map Slot (bits_of_byte 0xBE) @ replicate 72 (Slot True)"
proof -
  have ok: "temp_ok f ds s"
    using assms(3) use_cache_same [OF assms(6,2)] by (simp add: temp_ok_def)
  have "shows_from n f (out (commit n f ds s)) (decode (ds ! 0) (ds ! 1))"
    and bad: "unat (bad (chan (commit n f ds s) f)) = 0"
    using temp.accept [OF ok, where n = n] by simp_all
  then show ?thesis
    using read_temperature_answers [OF assms(1,2) refl, where x = x and n = n and f = f and s = s] send_request_slots [OF assms(1), of x]
      shows_fromD [OF _ assms(7,8)] decode_correct [OF assms(4,5)]
    by (auto simp: unat_eq_0 split_beta simp del: state_of.simps)
qed

theorem read_temperature_end_to_end_witness:
  "pval (state_of 3 (out (snd (Read_Temperature_sltc21
     (answers (reads (send_request 40 [])) (concat (map bits_of_byte pad_25))) 40 ([], init_temp))))) sltc21
   = Fin (401 / 16)"
  using read_temperature_end_to_end [of "[]" pad_25 init_temp sltc21 3 2 40]
  by (simp add: Read_Temperature_sltc21_def pad_25_value pad_25_crc split_beta Let_def init_temp_def
      zero_chan_def pad_25_def del: state_of.simps)

text \<open>
  C28: A lost or corrupted sensor: after an accepted reading, up to 500 rejected ones in a
  row leave the accepted value in the packets, and from the 501st on the packets carry the
  sentinel -32.125; the 16-bit reject counter never passes 500, so it never wraps.
\<close>

theorem temperature_debounce:
  assumes "temp_ok f get s" and "rejected_all (temp_ok f) (commit n f) gets (commit n f get s)"
    and "k \<in> {n..4}" and "0 < k"
  shows "pval (state_of k (out (fold (commit n f) gets (commit n f get s)))) f =
           (if length gets \<le> 500 then decode (get ! 0) (get ! 1) else Fin (- 257 / 8)) \<and>
         bad (chan (fold (commit n f) gets (commit n f get s)) f) \<le> 500"
  using shows_fromD [OF temp.after_accept [OF assms(1,2)] assms(3,4)]
    temp.run_bounded [where s = "commit n f get s" and rs = gets and n = n and f = f]
    temp.accept [OF assms(1), where n = n]
  by (simp add: lost_value_eq word_le_nat_alt del: state_of.simps)

theorem temperature_debounce_witness:
  "pval (state_of 2 (out (fold (commit 2 sltc21) [pad_bad] (commit 2 sltc21 pad_25 init_temp)))) sltc21
   = Fin (401 / 16)"
proof -
  have "rejected_all (temp_ok sltc21) (commit 2 sltc21) [pad_bad] (commit 2 sltc21 pad_25 init_temp)"
    by (simp add: pad_ok)
  moreover have "decode (pad_25 ! 0) (pad_25 ! 1) = Fin (401 / 16)"
    using decode_correct [of "0x91" "0x01"] by (simp add: pad_25_def pad_25_value)
  ultimately show ?thesis
    using temperature_debounce [OF pad_ok(1), of 2 "[pad_bad]" 2] by (simp del: state_of.simps)
qed

text \<open>
  Once a channel has accepted a reading, bytes 2 to 7 of every later scratchpad have no
  effect: only bytes 0, 1 and the checksum byte decide what is accepted and stored.
\<close>

lemma cached_bytes_decide:
  assumes "flag (chan s f) = 1" and "length get = 9" and "length get' = 9"
    and "get ! 0 = get' ! 0" and "get ! 1 = get' ! 1" and "get ! 8 = get' ! 8"
  shows "commit n f get s = commit n f get' s"
proof -
  obtain a0 a1 a2 a3 a4 a5 a6 a7 a8 where g: "get = [a0, a1, a2, a3, a4, a5, a6, a7, a8]" using nine_bytes [OF assms(2)] by blast
  obtain b0 b1 b2 b3 b4 b5 b6 b7 b8 where g': "get' = [b0, b1, b2, b3, b4, b5, b6, b7, b8]"
    using nine_bytes [OF assms(3)] by blast
  have "use_cache (chan s f) get = use_cache (chan s f) get'"
    using assms(1,4-6) by (simp add: use_cache_def g g')
  then show ?thesis by (simp only: commit_def Let_def)
qed

theorem cached_bytes_decide_witness:
  "commit 2 sltc21 [0x91, 0x01, 1, 2, 3, 4, 5, 6, 0x70] (commit 2 sltc21 pad_25 init_temp) =
   commit 2 sltc21 pad_25 (commit 2 sltc21 pad_25 init_temp)"
  using cached_bytes_decide [of "commit 2 sltc21 pad_25 init_temp" sltc21
      "[0x91, 0x01, 1, 2, 3, 4, 5, 6, 0x70]" pad_25 2]
  by (simp add: pad_25_commit) (simp add: pad_25_def)

end
