(* ===== verification/Htu21d.thy ===== *)
theory Htu21d
  imports Debounce Crc
begin

text \<open>
  The HTU21D humidity and temperature driver of htu21d.c: a TWI (I2C) master with a
  completion interrupt, behind the TCA multiplexer. The bus is a parameter: for the calls and ticks so
  far and the new call it says the driver's return code and, when the transfer is started,
  after how many ticks which event arrives with which bytes. The interrupt handler runs when a tick reaches
  that time, also when the waiting loop has given up before.
\<close>

section \<open>State\<close>

datatype twi_call = Tx u8 u8 | Rx u8 nat
datatype twi_evt = EvtDone | EvtOther
datatype twi_buf = NoBuf | TempBuf | HumBuf | TcaBuf
datatype bus_ev = Call twi_call | Tick

type_synonym twi_env = "bus_ev list \<Rightarrow> twi_call \<Rightarrow> u32 \<times> (nat \<times> twi_evt \<times> u8 list) option"

record htu =
  m_xfer_done :: bool
  returned_over_I2C :: "u8 list"
  returned1_over_I2C :: "u8 list"
  returned2_over_I2C :: "u8 list"
  rawTemperature :: cfloat
  rawHumidity :: cfloat
  tempTemperature :: cfloat
  humHumidity :: cfloat
  bad_count :: "sfield \<Rightarrow> u16"
  hout :: sensors
  pending :: "(nat \<times> twi_evt \<times> twi_buf \<times> u8 list) option"
  bus :: "bus_ev list"

definition init_htu :: htu where
  "init_htu = \<lparr>m_xfer_done = False, returned_over_I2C = [0, 0, 0], returned1_over_I2C = [0, 0, 0],
     returned2_over_I2C = [0], rawTemperature = Fin 0, rawHumidity = Fin 0,
     tempTemperature = Fin 0, humHumidity = Fin 0, bad_count = (\<lambda>_. 0), hout = init_sensors,
     pending = None, bus = []\<rparr>"

section \<open>Transfers\<close>

definition twi_handler :: "twi_evt \<Rightarrow> htu \<Rightarrow> htu" where
  "twi_handler e s = (case e of EvtDone \<Rightarrow> s\<lparr>m_xfer_done := True\<rparr> | EvtOther \<Rightarrow> s)"

fun fill_buf :: "twi_buf \<Rightarrow> u8 list \<Rightarrow> htu \<Rightarrow> htu" where
  "fill_buf NoBuf d s = s"
| "fill_buf TempBuf d s = s\<lparr>returned_over_I2C := d\<rparr>"
| "fill_buf HumBuf d s = s\<lparr>returned1_over_I2C := d\<rparr>"
| "fill_buf TcaBuf d s = s\<lparr>returned2_over_I2C := d\<rparr>"

text \<open>The interrupt of a transfer that is due.\<close>

definition deliver :: "htu \<Rightarrow> htu" where
  "deliver s = (case pending s of
     Some (0, e, b, d) \<Rightarrow> twi_handler e (fill_buf b d (s\<lparr>pending := None\<rparr>))
   | _ \<Rightarrow> s)"

text \<open>\<open>vTaskDelay(1)\<close>.\<close>

definition tick :: "htu \<Rightarrow> htu" where
  "tick s = deliver (s\<lparr>bus := bus s @ [Tick], pending := map_option (\<lambda>(n, x). (n - 1, x)) (pending s)\<rparr>)"

definition start_xfer :: "twi_env \<Rightarrow> twi_call \<Rightarrow> twi_buf \<Rightarrow> htu \<Rightarrow> u32 \<times> htu" where
  "start_xfer env c b s =
     (let (err, completion) = env (bus s) c;
          s1 = s\<lparr>bus := bus s @ [Call c]\<rparr>
      in if err \<noteq> 0 then (err, s1)
         else (0, deliver (s1\<lparr>pending := map_option (\<lambda>(n, e, d). (n, e, b, d)) completion\<rparr>)))"

text \<open>\<open>while (m_xfer_done == false && count < 200)\<close>\<close>

function wait_done :: "nat \<Rightarrow> htu \<Rightarrow> htu" where
  "wait_done count s =
     (if \<not> m_xfer_done s \<and> count < 200 then wait_done (count + 1) (tick s) else s)"
  by pat_completeness auto
termination
  by (relation "measure (\<lambda>(count, _). 200 - count)") auto

declare wait_done.simps [simp del]

definition TCAADDR :: u8 where "TCAADDR = 0x70"
definition HTU21D_ADDRESS :: u8 where "HTU21D_ADDRESS = 0x40"

text \<open>A one byte command and the wait for it; the flag is not cleared before.\<close>

definition command :: "twi_env \<Rightarrow> u8 \<Rightarrow> u8 \<Rightarrow> htu \<Rightarrow> htu" where
  "command env addr cmd s =
     (let (err, s1) = start_xfer env (Tx addr cmd) NoBuf s
      in if err \<noteq> 0 then s1 else wait_done 0 s1)"

definition tcaselect :: "twi_env \<Rightarrow> u8 \<Rightarrow> htu \<Rightarrow> htu" where
  "tcaselect env port s =
     (if 7 < port then s else command env TCAADDR (push_bit (unat port) 1) s)"

definition humRead_command :: "twi_env \<Rightarrow> htu \<Rightarrow> htu" where
  "humRead_command env s = command env HTU21D_ADDRESS 0xF5 s"

definition tempRead_command :: "twi_env \<Rightarrow> htu \<Rightarrow> htu" where
  "tempRead_command env s = command env HTU21D_ADDRESS 0xF3 s"

definition soft_reset_htu21 :: "twi_env \<Rightarrow> htu \<Rightarrow> htu" where
  "soft_reset_htu21 env s = command env HTU21D_ADDRESS 0xFE s"

definition tca_read :: "twi_env \<Rightarrow> htu \<Rightarrow> htu" where
  "tca_read env s =
     (let (err, s1) = start_xfer env (Rx TCAADDR 1) TcaBuf (s\<lparr>m_xfer_done := False\<rparr>);
          s2 = tick s1
      in if err \<noteq> 0 then s2 else wait_done 0 s2)"

section \<open>Readings\<close>

definition ERROR_BAD_CRC :: u32 where "ERROR_BAD_CRC = 999"

definition raw_value :: "u8 list \<Rightarrow> u16" where
  "raw_value b = push_bit 8 (ucast (b ! 0)) OR ucast (b ! 1)"

text \<open>Passing the \<open>float\<close> to the \<open>uint16_t\<close> parameter of \<open>checkCRC\<close>.\<close>

fun float_to_u16 :: "cfloat \<Rightarrow> u16" where
  "float_to_u16 (Fin q) = word_of_int (if 0 \<le> q then \<lfloor>q\<rfloor> else \<lceil>q\<rceil>)"
| "float_to_u16 NaN = 0"

definition temp_formula :: "cfloat \<Rightarrow> cfloat" where
  "temp_formula raw =
     (let t = to_float (d_mul (f_div raw (Fin 65536)) (dlit (17572 / 100)))
      in to_float (d_sub t (dlit (4685 / 100))))"

definition hum_formula :: "cfloat \<Rightarrow> cfloat" where
  "hum_formula raw = f_sub (f_mul (f_div raw (Fin 65536)) (Fin 125)) (Fin 6)"

definition temp_field :: "u8 \<Rightarrow> sfield option" where
  "temp_field p = (if p = 2 then Some oadb10 else if p = 4 then Some radb10
                   else if p = 6 then Some sadb10 else None)"

definition hum_field :: "u8 \<Rightarrow> sfield option" where
  "hum_field p = (if p = 2 then Some oarh10 else if p = 4 then Some rarh10
                  else if p = 6 then Some sarh10 else None)"

definition count_bad :: "sfield option \<Rightarrow> htu \<Rightarrow> htu" where
  "count_bad fo s = (case fo of None \<Rightarrow> s | Some f \<Rightarrow>
     (let b = bad_count s f + 1
      in if 500 < b then s\<lparr>hout := store_from 1 f lost_value (hout s), bad_count := (bad_count s)(f := 0)\<rparr>
         else s\<lparr>bad_count := (bad_count s)(f := b)\<rparr>))"

definition store_good :: "sfield option \<Rightarrow> cfloat \<Rightarrow> htu \<Rightarrow> htu" where
  "store_good fo v s = (case fo of None \<Rightarrow> s | Some f \<Rightarrow>
     s\<lparr>hout := store_from 1 f v (hout s), bad_count := (bad_count s)(f := 0)\<rparr>)"

text \<open>The part of \<open>read_sensor_data_temp\<close> after the wait: judge and store the buffer.\<close>

definition take_temp :: "u8 \<Rightarrow> htu \<Rightarrow> u32 option \<times> htu" where
  "take_temp port s0 =
     (let b = returned_over_I2C s0;
          raw = float_of_int (uint (raw_value b));
          s = s0\<lparr>rawTemperature := raw\<rparr>
      in if checkCRC (float_to_u16 raw) (b ! 2) \<noteq> 0 \<or> b ! 0 = 0 \<and> b ! 1 = 0
         then (Some ERROR_BAD_CRC, count_bad (temp_field port) s)
         else let t = temp_formula raw;
                  s1 = store_good (temp_field port) t (s\<lparr>tempTemperature := t\<rparr>)
              in (None, s1\<lparr>returned_over_I2C := b[1 := 0, 0 := 0]\<rparr>))"

definition take_hum :: "u8 \<Rightarrow> htu \<Rightarrow> u32 option \<times> htu" where
  "take_hum port s0 =
     (let b = returned1_over_I2C s0;
          raw = float_of_int (uint (raw_value b));
          s = s0\<lparr>rawHumidity := raw\<rparr>
      in if checkCRC (float_to_u16 raw) (b ! 2) \<noteq> 0 \<or> b ! 0 = 0 \<and> b ! 1 = 0
         then (Some ERROR_BAD_CRC, count_bad (hum_field port) s)
         else let h = hum_formula raw;
                  s1 = store_good (hum_field port) h (s\<lparr>humHumidity := h\<rparr>)
              in (None, s1\<lparr>returned1_over_I2C := b[1 := 0, 0 := 0]\<rparr>))"

text \<open>\<open>None\<close> is a return without a value.\<close>

definition read_sensor_data_temp :: "twi_env \<Rightarrow> u8 \<Rightarrow> htu \<Rightarrow> u32 option \<times> htu" where
  "read_sensor_data_temp env port s =
     (let (err, s1) = start_xfer env (Rx HTU21D_ADDRESS 3) TempBuf (s\<lparr>m_xfer_done := False\<rparr>)
      in if err \<noteq> 0 then (None, s1) else take_temp port (wait_done 0 s1))"

definition read_sensor_data_HUM :: "twi_env \<Rightarrow> u8 \<Rightarrow> htu \<Rightarrow> u32 option \<times> htu" where
  "read_sensor_data_HUM env port s =
     (let (err, s1) = start_xfer env (Rx HTU21D_ADDRESS 3) HumBuf (s\<lparr>m_xfer_done := False\<rparr>)
      in if err \<noteq> 0 then (None, s1) else take_hum port (wait_done 0 s1))"

section \<open>One port of the sensors task\<close>

fun delay :: "nat \<Rightarrow> htu \<Rightarrow> htu" where
  "delay 0 s = s"
| "delay (Suc n) s = delay n (tick s)"

text \<open>\<open>htu21d_hw_uninit\<close> and \<open>htu21d_hw_init\<close>: the driver drops a transfer under way.\<close>

definition hw_reinit :: "htu \<Rightarrow> htu" where
  "hw_reinit s = s\<lparr>pending := None\<rparr>"

definition sample_port :: "twi_env \<Rightarrow> u8 \<Rightarrow> htu \<Rightarrow> htu" where
  "sample_port env port s =
     (let s1 = hw_reinit (delay 200 s);
          s2 = delay 50 (tcaselect env port s1);
          s3 = delay 50 (soft_reset_htu21 env s2);
          s4 = delay 50 (tempRead_command env s3);
          s5 = delay 100 (snd (read_sensor_data_temp env port s4));
          s6 = delay 50 (humRead_command env s5)
      in snd (read_sensor_data_HUM env port s6))"

section \<open>Waiting\<close>

lemma tick_bus [simp]: "bus (tick s) = bus s @ [Tick]"
proof -
  have "bus (fill_buf b d r) = bus r" for b d r by (cases b) simp_all
  then show ?thesis
    by (simp add: tick_def deliver_def twi_handler_def split: option.splits prod.splits nat.splits twi_evt.splits)
qed

lemma wait_done_bus:
  "\<exists>n. bus (wait_done c s) = bus s @ replicate n Tick \<and> n \<le> 200 - c"
proof (induction c s rule: wait_done.induct)
  case (1 c s)
  show ?case
  proof (cases "\<not> m_xfer_done s \<and> c < 200")
    case True
    with 1 obtain n where "bus (wait_done (c + 1) (tick s)) = bus (tick s) @ replicate n Tick" "n \<le> 200 - (c + 1)"
      by blast
    then have "bus (wait_done c s) = bus s @ replicate (Suc n) Tick \<and> Suc n \<le> 200 - c"
      using True by (simp add: wait_done.simps [of c s]) linarith
    then show ?thesis by blast
  next
    case False
    then have "bus (wait_done c s) = bus s @ replicate 0 Tick" by (subst wait_done.simps) auto
    then show ?thesis by blast
  qed
qed

lemma wait_done_flag: "m_xfer_done s \<Longrightarrow> wait_done c s = s"
  by (simp add: wait_done.simps)

lemma fill_buf_frame [simp]:
  "fill_buf b d (s\<lparr>pending := p\<rparr>) = (fill_buf b d s)\<lparr>pending := p\<rparr>"
  "fill_buf b d (s\<lparr>bus := t\<rparr>) = (fill_buf b d s)\<lparr>bus := t\<rparr>"
  "fill_buf b d (s\<lparr>m_xfer_done := f\<rparr>) = (fill_buf b d s)\<lparr>m_xfer_done := f\<rparr>"
  "m_xfer_done (fill_buf b d s) = m_xfer_done s" "bus (fill_buf b d s) = bus s"
  "pending (fill_buf b d s) = pending s" "bad_count (fill_buf b d s) = bad_count s"
  "hout (fill_buf b d s) = hout s"
  by (cases b; simp)+

lemma wait_done_completes:
  "pending s = Some (Suc k, EvtDone, b, d) \<Longrightarrow> \<not> m_xfer_done s \<Longrightarrow> c + Suc k \<le> 200 \<Longrightarrow>
   wait_done c s = (fill_buf b d s)\<lparr>pending := None, m_xfer_done := True, bus := bus s @ replicate (Suc k) Tick\<rparr>"
proof (induction k arbitrary: c s)
  case 0
  then show ?case
    by (simp add: wait_done.simps [of c s] wait_done_flag tick_def deliver_def twi_handler_def)
next
  case (Suc k)
  then have "pending (tick s) = Some (Suc k, EvtDone, b, d)" "\<not> m_xfer_done (tick s)"
    by (simp_all add: tick_def deliver_def)
  then have "wait_done (c + 1) (tick s) = (fill_buf b d (tick s))\<lparr>pending := None, m_xfer_done := True,
      bus := bus (tick s) @ replicate (Suc k) Tick\<rparr>"
    using Suc by simp
  moreover have "fill_buf b d (tick s) = (fill_buf b d s)\<lparr>bus := bus s @ [Tick], pending := pending (tick s)\<rparr>"
    using Suc.prems by (simp add: tick_def deliver_def)
  ultimately show ?case
    using Suc.prems by (simp add: wait_done.simps [of c s])
qed

text \<open>A transfer that completes in time: the buffer is filled before the wait ends.\<close>

lemma xfer_completes:
  assumes "env (bus s) c = (0, Some (k, EvtDone, d))" and "k \<le> 200" and "\<not> m_xfer_done s"
  shows "fst (start_xfer env c b s) = 0 \<and> wait_done 0 (snd (start_xfer env c b s)) =
     (fill_buf b d s)\<lparr>pending := None, m_xfer_done := True, bus := bus s @ Call c # replicate k Tick\<rparr>"
proof (cases k)
  case 0
  then show ?thesis using assms
    by (simp add: start_xfer_def deliver_def twi_handler_def wait_done_flag)
next
  case (Suc j)
  then show ?thesis using assms wait_done_completes [of _ j b d 0]
    by (simp add: start_xfer_def deliver_def)
qed

lemma start_xfer_bus [simp]: "bus (snd (start_xfer env c b s)) = bus s @ [Call c]"
  by (simp add: start_xfer_def deliver_def twi_handler_def Let_def
      split: option.splits prod.splits nat.splits twi_evt.splits)

lemma take_bus [simp]: "bus (snd (take_temp p s)) = bus s" "bus (snd (take_hum p s)) = bus s"
  by (simp_all add: take_temp_def take_hum_def Let_def count_bad_def store_good_def split: option.splits)

section \<open>The channel contract\<close>

lemma raw_float [simp]: "float_to_u16 (float_of_int (uint r)) = r" for r :: u16
proof -
  have "\<bar>uint r\<bar> < 2 ^ 24" using uint_lt2p [of r] by simp
  then have "float_of_int (uint r) = Fin (of_int (uint r))" by (rule float_of_int_exact)
  then show ?thesis
    by (simp only: float_to_u16.simps floor_of_int ceiling_of_int if_cancel word_of_int_uint)
qed

definition htu_ok :: "u8 list \<Rightarrow> bool" where
  "htu_ok b \<longleftrightarrow> checkCRC (raw_value b) (b ! 2) = 0 \<and> \<not> (b ! 0 = 0 \<and> b ! 1 = 0)"

definition temp_reading :: "u8 list \<Rightarrow> cfloat" where
  "temp_reading b = temp_formula (float_of_int (uint (raw_value b)))"

definition hum_reading :: "u8 list \<Rightarrow> cfloat" where
  "hum_reading b = hum_formula (float_of_int (uint (raw_value b)))"

definition temp_step :: "u8 \<Rightarrow> u8 list \<Rightarrow> htu \<Rightarrow> htu" where
  "temp_step p b s = snd (take_temp p (s\<lparr>returned_over_I2C := b\<rparr>))"

definition hum_step :: "u8 \<Rightarrow> u8 list \<Rightarrow> htu \<Rightarrow> htu" where
  "hum_step p b s = snd (take_hum p (s\<lparr>returned1_over_I2C := b\<rparr>))"

lemma temp_fields: "temp_field 2 = Some oadb10" "temp_field 4 = Some radb10" "temp_field 6 = Some sadb10"
  and hum_fields: "hum_field 2 = Some oarh10" "hum_field 4 = Some rarh10" "hum_field 6 = Some sarh10"
  by (simp_all add: temp_field_def hum_field_def)

lemma take_temp_cases:
  assumes "temp_field p = Some f"
  shows "htu_ok b \<Longrightarrow> bad_count (temp_step p b s) f = 0 \<and> shows_from 1 f (hout (temp_step p b s)) (temp_reading b)"
    "\<not> htu_ok b \<Longrightarrow> bad_count (temp_step p b s) f = (if 500 < bad_count s f + 1 then 0 else bad_count s f + 1) \<and>
       hout (temp_step p b s) = (if 500 < bad_count s f + 1 then store_from 1 f lost_value (hout s) else hout s)"
  using assms
  by (auto simp: temp_step_def take_temp_def htu_ok_def temp_reading_def store_good_def count_bad_def Let_def)

lemma take_hum_cases:
  assumes "hum_field p = Some f"
  shows "htu_ok b \<Longrightarrow> bad_count (hum_step p b s) f = 0 \<and> shows_from 1 f (hout (hum_step p b s)) (hum_reading b)"
    "\<not> htu_ok b \<Longrightarrow> bad_count (hum_step p b s) f = (if 500 < bad_count s f + 1 then 0 else bad_count s f + 1) \<and>
       hout (hum_step p b s) = (if 500 < bad_count s f + 1 then store_from 1 f lost_value (hout s) else hout s)"
  using assms
  by (auto simp: hum_step_def take_hum_def htu_ok_def hum_reading_def store_good_def count_bad_def Let_def)

lemma bad_word_count:
  "c < 500 \<Longrightarrow> unat (b :: u16) = c \<Longrightarrow> \<not> 500 < b + 1 \<and> unat (b + 1) = Suc c"
  "unat (b :: u16) = 500 \<Longrightarrow> 500 < b + 1"
  using word_count_below word_count_at by auto

text \<open>The three sensors by name: their multiplexer ports and their fields.\<close>

datatype htu_port = Outdoor | ReturnAir | SupplyAir

primrec port_no :: "htu_port \<Rightarrow> u8" where
  "port_no Outdoor = 2" | "port_no ReturnAir = 4" | "port_no SupplyAir = 6"

primrec temp_of :: "htu_port \<Rightarrow> sfield" where
  "temp_of Outdoor = oadb10" | "temp_of ReturnAir = radb10" | "temp_of SupplyAir = sadb10"

primrec hum_of :: "htu_port \<Rightarrow> sfield" where
  "hum_of Outdoor = oarh10" | "hum_of ReturnAir = rarh10" | "hum_of SupplyAir = sarh10"

lemma port_fields [simp]:
  "temp_field (port_no p) = Some (temp_of p)" "hum_field (port_no p) = Some (hum_of p)"
  by (cases p; simp add: temp_field_def hum_field_def)+

lemmas temp_cases = take_temp_cases [OF port_fields(1)]
lemmas hum_cases = take_hum_cases [OF port_fields(2)]

interpretation htu_temp: debounced "temp_step (port_no p)" "\<lambda>b _. htu_ok b" temp_reading
    "\<lambda>s. unat (bad_count s (temp_of p))" "\<lambda>s. shows_from 1 (temp_of p) (hout s)" lost_value 500
  for p
proof (unfold_locales, goal_cases)
  case (1 r s)
  then show ?case using temp_cases(1) [of r p s] by (simp del: One_nat_def)
next
  case (2 r s)
  then show ?case using temp_cases(2) [of r p s] bad_word_count(1) [OF _ refl, of "bad_count s (temp_of p)"]
    by (simp del: One_nat_def)
next
  case (3 r s)
  then show ?case using temp_cases(2) [of r p s] bad_word_count(2) [of "bad_count s (temp_of p)"]
    by (simp del: One_nat_def)
qed

interpretation htu_hum: debounced "hum_step (port_no p)" "\<lambda>b _. htu_ok b" hum_reading
    "\<lambda>s. unat (bad_count s (hum_of p))" "\<lambda>s. shows_from 1 (hum_of p) (hout s)" lost_value 500
  for p
proof (unfold_locales, goal_cases)
  case (1 r s)
  then show ?case using hum_cases(1) [of r p s] by (simp del: One_nat_def)
next
  case (2 r s)
  then show ?case using hum_cases(2) [of r p s] bad_word_count(1) [OF _ refl, of "bad_count s (hum_of p)"]
    by (simp del: One_nat_def)
next
  case (3 r s)
  then show ?case using hum_cases(2) [of r p s] bad_word_count(2) [of "bad_count s (hum_of p)"]
    by (simp del: One_nat_def)
qed

section \<open>Accuracy of the formulas\<close>

definition temp_q :: "int \<Rightarrow> rat" where
  "temp_q n = rnd 24 (rnd 53 (rnd 24 (rnd 53 (of_int n / 65536 * rnd 53 (17572 / 100))) - rnd 53 (4685 / 100)))"

definition hum_q :: "int \<Rightarrow> rat" where
  "hum_q n = rnd 24 (rnd 24 (of_int n / 65536 * 125) - 6)"

lemma rnd_65536th: "\<bar>k\<bar> < 2 ^ p \<Longrightarrow> rnd p (of_int k / 65536) = of_int k / 65536"
  by (rule rnd_exact [where k = k and q = "- 16"]) (simp_all add: power_int_minus)

lemma raw_scaled:
  assumes "0 \<le> n" "n < 65536"
  shows "f_div (float_of_int n) (Fin 65536) = Fin (of_int n / 65536)"
proof -
  have "float_of_int n = Fin (of_int n)" using assms by (simp add: float_of_int_exact)
  then show ?thesis using rnd_65536th [of n 24] assms by (simp add: f_div_def)
qed

lemma uint_u16: "0 \<le> uint (w :: u16)" "uint w < 65536"
  using uint_lt2p [of w] by simp_all

lemma readings_q:
  "temp_reading b = Fin (temp_q (uint (raw_value b)))"
  "hum_reading b = Fin (hum_q (uint (raw_value b)))"
  unfolding temp_reading_def hum_reading_def temp_formula_def hum_formula_def temp_q_def hum_q_def Let_def
    raw_scaled [OF uint_u16]
  by (simp_all only: dlit_def d_mul_def d_sub_def f_mul_def f_sub_def to_float_def lift1.simps lift2.simps)

lemma temp_q_mono: "m \<le> n \<Longrightarrow> temp_q m \<le> temp_q n"
  unfolding temp_q_def
  by (intro rnd_mono diff_right_mono mult_right_mono rnd_nonneg divide_right_mono)
    (simp_all add: rnd_nonneg)

lemma hum_q_mono: "m \<le> n \<Longrightarrow> hum_q m \<le> hum_q n"
  unfolding hum_q_def by (intro rnd_mono diff_right_mono mult_right_mono divide_right_mono) simp_all

lemma abs_near: "\<bar>y - x\<bar> \<le> e \<Longrightarrow> \<bar>x\<bar> \<le> B \<Longrightarrow> \<bar>y\<bar> \<le> B + (e :: rat)"
  by arith

lemma error_chain:
  fixes v u t d :: rat
  assumes "\<bar>v - u\<bar> \<le> e1" "\<bar>u - (t - d)\<bar> \<le> e2" "\<bar>t - t1\<bar> \<le> e3" "\<bar>t1 - y\<bar> \<le> e4" "\<bar>y - y0\<bar> \<le> e5"
    "\<bar>d - d0\<bar> \<le> e6"
  shows "\<bar>v - (y0 - d0)\<bar> \<le> e1 + e2 + e3 + e4 + e5 + e6"
  using assms unfolding abs_le_iff by (intro conjI; (elim conjE, linarith))

lemma unit_scaled:
  fixes x c :: rat
  assumes "0 \<le> x" "x \<le> 1" "\<bar>c\<bar> \<le> B"
  shows "\<bar>x * c\<bar> \<le> B"
proof -
  have "x * \<bar>c\<bar> \<le> 1 * \<bar>c\<bar>" using assms by (intro mult_right_mono) simp_all
  then show ?thesis using assms by (simp add: abs_mult)
qed

lemma temp_q_error:
  assumes "0 \<le> n" "n < 65536"
  shows "\<bar>temp_q n - (17572 / 100 * (of_int n / 65536) - 4685 / 100)\<bar> \<le> 1 / 10000"
proof -
  define x :: rat where "x = of_int n / 65536"
  have "(of_int n :: rat) \<le> of_int 65536" using assms by (simp only: of_int_le_iff)
  then have x: "0 \<le> x" "x \<le> 1" using assms by (simp_all add: x_def)
  define c :: rat where "c = rnd 53 (17572 / 100)"
  define d :: rat where "d = rnd 53 (4685 / 100)"
  have c: "\<bar>c - 17572 / 100\<bar> \<le> 176 / 2 ^ 53" unfolding c_def by (rule rnd_abs_error) simp
  have d: "\<bar>d - 4685 / 100\<bar> \<le> 47 / 2 ^ 53" unfolding d_def by (rule rnd_abs_error) simp
  have xc: "\<bar>x * (c - 17572 / 100)\<bar> \<le> 176 / 2 ^ 53" by (rule unit_scaled [OF x c])
  have "\<bar>c\<bar> \<le> 177" using abs_near [OF c, of 176] by simp
  then have xc177: "\<bar>x * c\<bar> \<le> 177" by (rule unit_scaled [OF x])
  define t1 where "t1 = rnd 53 (x * c)"
  have t1: "\<bar>t1 - x * c\<bar> \<le> 177 / 2 ^ 53" unfolding t1_def by (rule rnd_abs_error [OF xc177])
  have t1b: "\<bar>t1\<bar> \<le> 178" using abs_near [OF t1 xc177] by simp
  define t where "t = rnd 24 t1"
  have t: "\<bar>t - t1\<bar> \<le> 178 / 2 ^ 24" unfolding t_def by (rule rnd_abs_error [OF t1b])
  have tb: "\<bar>t - d\<bar> \<le> 228"
    using abs_near [OF t t1b] abs_near [OF d, of 47] by (simp add: abs_le_iff) linarith
  define u where "u = rnd 53 (t - d)"
  have u: "\<bar>u - (t - d)\<bar> \<le> 228 / 2 ^ 53" unfolding u_def by (rule rnd_abs_error [OF tb])
  have ub: "\<bar>u\<bar> \<le> 229" using abs_near [OF u tb] by simp
  have v: "\<bar>rnd 24 u - u\<bar> \<le> 229 / 2 ^ 24" by (rule rnd_abs_error [OF ub])
  have "temp_q n = rnd 24 u" by (simp only: temp_q_def u_def t_def t1_def c_def d_def x_def)
  then show ?thesis
    using error_chain [OF v u t t1 xc [unfolded right_diff_distrib] d]
    by (simp add: x_def mult.commute)
qed

lemma hum_q_error:
  assumes "0 \<le> n" "n < 65536"
  shows "\<bar>hum_q n - (125 * (of_int n / 65536) - 6)\<bar> \<le> 1 / 10000"
proof -
  define x :: rat where "x = of_int n / 65536"
  have "(of_int n :: rat) \<le> of_int 65536" using assms by (simp only: of_int_le_iff)
  then have x: "0 \<le> x" "x \<le> 1" using assms by (simp_all add: x_def)
  have x125: "\<bar>x * 125\<bar> \<le> 125" by (rule unit_scaled [OF x]) simp
  define t where "t = rnd 24 (x * 125)"
  have t: "\<bar>t - x * 125\<bar> \<le> 125 / 2 ^ 24" unfolding t_def by (rule rnd_abs_error [OF x125])
  have tb: "\<bar>t - 6\<bar> \<le> 132" using abs_near [OF t x125] abs_triangle_ineq4 [of t 6] by simp
  have v: "\<bar>rnd 24 (t - 6) - (t - 6)\<bar> \<le> 132 / 2 ^ 24" by (rule rnd_abs_error [OF tb])
  have "hum_q n = rnd 24 (t - 6)" by (simp only: hum_q_def t_def x_def)
  then show ?thesis
    using error_chain [OF v, of t 6 0 t 0 t 0 "x * 125" "125 / 2 ^ 24" 6 0] t
    by (simp add: x_def mult.commute)
qed

section \<open>Properties\<close>

text \<open>
  C37: A reading is accurate: for every raw value the driver can receive the stored
  temperature is within 0.0001 of 175.72 * raw / 65536 - 46.85 and the stored humidity within 0.0001
  of 125 * raw / 65536 - 6, all roundings included, and a larger raw value never gives a smaller reading.
\<close>

theorem formulas_accurate:
  "(\<exists>q. temp_reading b = Fin q \<and>
      \<bar>q - (17572 / 100 * (of_int (uint (raw_value b)) / 65536) - 4685 / 100)\<bar> \<le> 1 / 10000) \<and>
   (\<exists>q. hum_reading b = Fin q \<and>
      \<bar>q - (125 * (of_int (uint (raw_value b)) / 65536) - 6)\<bar> \<le> 1 / 10000) \<and>
   (raw_value b \<le> raw_value b' \<longrightarrow>
      (\<exists>q q'. temp_reading b = Fin q \<and> temp_reading b' = Fin q' \<and> q \<le> q') \<and>
      (\<exists>q q'. hum_reading b = Fin q \<and> hum_reading b' = Fin q' \<and> q \<le> q'))"
  using temp_q_error [OF uint_u16, of "raw_value b"] hum_q_error [OF uint_u16, of "raw_value b"]
    temp_q_mono [of "uint (raw_value b)" "uint (raw_value b')"]
    hum_q_mono [of "uint (raw_value b)" "uint (raw_value b')"]
  by (simp add: readings_q word_le_def)

theorem formulas_accurate_witness:
  "\<exists>q q'. temp_reading [0x68, 0x3A, 0x7C] = Fin q \<and> temp_reading [0x6B, 0x3A, 0] = Fin q' \<and> q \<le> q'"
proof -
  have "raw_value [0x68, 0x3A, 0x7C] \<le> raw_value [0x6B, 0x3A, 0]" by code_simp
  then show ?thesis using formulas_accurate [of "[0x68, 0x3A, 0x7C]" "[0x6B, 0x3A, 0]"] by blast
qed

text \<open>
  When the measurement transfer starts and its interrupt arrives within 200 ticks with
  bytes the checks accept, \<open>read_sensor_data_temp\<close> stores the converted temperature in all four
  packets, resets the reject counter, zeroes the two data bytes of the buffer and has waited
  exactly until the interrupt.
\<close>

lemma read_temp_stores:
  assumes "env (bus s) (Rx HTU21D_ADDRESS 3) = (0, Some (k, EvtDone, b))" and "k \<le> 200"
    and "htu_ok b" and "length b = 3" and "j \<in> {1..4}"
  shows "let (r, s') = read_sensor_data_temp env (port_no p) s
         in r = None \<and> pval (state_of j (hout s')) (temp_of p) = temp_reading b \<and>
            bad_count s' (temp_of p) = 0 \<and> returned_over_I2C s' = [0, 0, b ! 2] \<and>
            bus s' = bus s @ Call (Rx HTU21D_ADDRESS 3) # replicate k Tick"
proof -
  let ?s = "s\<lparr>m_xfer_done := False\<rparr>"
  have x: "fst (start_xfer env (Rx HTU21D_ADDRESS 3) TempBuf ?s) = 0"
    "wait_done 0 (snd (start_xfer env (Rx HTU21D_ADDRESS 3) TempBuf ?s)) =
       s\<lparr>returned_over_I2C := b, pending := None, m_xfer_done := True,
         bus := bus s @ Call (Rx HTU21D_ADDRESS 3) # replicate k Tick\<rparr>"
    using xfer_completes [of env ?s "Rx HTU21D_ADDRESS 3" k b TempBuf] assms(1,2) by simp_all
  have b: "b[Suc 0 := 0, 0 := 0] = [0, 0, b ! 2]"
    using assms(4) by (auto simp: list_eq_iff_nth_eq numeral_eq_Suc less_Suc_eq)
  show ?thesis
    using assms(3,5)
    by (simp add: read_sensor_data_temp_def split_beta x take_temp_def Let_def store_good_def
        temp_reading_def b flip: htu_ok_def del: state_of.simps)
      (simp add: htu_ok_def store_from_def)
qed

theorem read_temp_stores_witness:
  "pval (state_of 2 (hout (snd (read_sensor_data_temp
     (\<lambda>_ _. (0, Some (16, EvtDone, [0x68, 0x3A, 0x7C]))) 2 init_htu)))) oadb10 = temp_reading [0x68, 0x3A, 0x7C]"
proof -
  have "htu_ok [0x68, 0x3A, 0x7C]" unfolding htu_ok_def by code_simp
  then show ?thesis
    using read_temp_stores [of "\<lambda>_ _. (0, Some (16, EvtDone, [0x68, 0x3A, 0x7C]))" init_htu 16
        "[0x68, 0x3A, 0x7C]" 2 Outdoor] by (simp add: split_beta Let_def del: state_of.simps)
qed

text \<open>
  C38: No call blocks: whatever the bus does, each of the driver's calls, the choice of a port
  of the multiplexer included, starts at most one transfer and waits at most 200 ticks (201 for \<open>tca_read\<close>; none for a port above 7), so the task that calls them never hangs.
\<close>

theorem waits_bounded:
  "(\<exists>n \<le> 200. bus (snd (read_sensor_data_temp env p s)) = bus s @ Call (Rx HTU21D_ADDRESS 3) # replicate n Tick) \<and>
   (\<exists>n \<le> 200. bus (snd (read_sensor_data_HUM env p s)) = bus s @ Call (Rx HTU21D_ADDRESS 3) # replicate n Tick) \<and>
   (\<exists>n \<le> 200. bus (tempRead_command env s) = bus s @ Call (Tx HTU21D_ADDRESS 0xF3) # replicate n Tick) \<and>
   (\<exists>n \<le> 200. bus (humRead_command env s) = bus s @ Call (Tx HTU21D_ADDRESS 0xF5) # replicate n Tick) \<and>
   (\<exists>n \<le> 200. bus (soft_reset_htu21 env s) = bus s @ Call (Tx HTU21D_ADDRESS 0xFE) # replicate n Tick) \<and>
   (\<exists>n \<le> 201. bus (tca_read env s) = bus s @ Call (Rx TCAADDR 1) # replicate n Tick) \<and>
   (if 7 < port then tcaselect env port s = s
    else \<exists>n \<le> 200. bus (tcaselect env port s) = bus s @ Call (Tx TCAADDR (push_bit (unat port) 1)) # replicate n Tick)"
proof -
  have wait: "\<exists>n \<le> 200. bus (wait_done 0 r) = bus r @ replicate n Tick" for r
    using wait_done_bus [of 0 r] by auto
  have cmd: "\<exists>n \<le> 200. bus (command env a c s) = bus s @ Call (Tx a c) # replicate n Tick" for a c
    using wait [of "snd (start_xfer env (Tx a c) NoBuf s)"]
    by (auto simp: command_def split_beta intro: exI [of _ 0])
  let ?x = "snd (start_xfer env (Rx HTU21D_ADDRESS 3) TempBuf (s\<lparr>m_xfer_done := False\<rparr>))"
  let ?y = "snd (start_xfer env (Rx HTU21D_ADDRESS 3) HumBuf (s\<lparr>m_xfer_done := False\<rparr>))"
  let ?z = "snd (start_xfer env (Rx TCAADDR 1) TcaBuf (s\<lparr>m_xfer_done := False\<rparr>))"
  have "\<exists>n \<le> 200. bus (snd (read_sensor_data_temp env p s)) = bus s @ Call (Rx HTU21D_ADDRESS 3) # replicate n Tick"
    using wait [of ?x] by (auto simp: read_sensor_data_temp_def split_beta intro: exI [of _ 0])
  moreover have "\<exists>n \<le> 200. bus (snd (read_sensor_data_HUM env p s)) = bus s @ Call (Rx HTU21D_ADDRESS 3) # replicate n Tick"
    using wait [of ?y] by (auto simp: read_sensor_data_HUM_def split_beta intro: exI [of _ 0])
  moreover have "\<exists>n \<le> 201. bus (tca_read env s) = bus s @ Call (Rx TCAADDR 1) # replicate n Tick"
  proof (cases "fst (start_xfer env (Rx TCAADDR 1) TcaBuf (s\<lparr>m_xfer_done := False\<rparr>)) = 0")
    case True
    obtain n where "n \<le> 200" "bus (wait_done 0 (tick ?z)) = bus (tick ?z) @ replicate n Tick"
      using wait by blast
    then show ?thesis using True by (intro exI [of _ "Suc n"]) (simp add: tca_read_def split_beta)
  next
    case False
    then show ?thesis by (intro exI [of _ 1]) (simp add: tca_read_def split_beta)
  qed
  ultimately show ?thesis
    using cmd unfolding tempRead_command_def humRead_command_def soft_reset_htu21_def tcaselect_def by simp
qed

text \<open>
  The commands do not clear the completion flag: as soon as an earlier transfer has set
  it, the commands that follow start their transfer and return without waiting for it, and
  the flag that \<open>read_sensor_data_temp\<close> leaves after a stored reading is such a flag.
\<close>

lemma stale_completion_flag:
  assumes "m_xfer_done s"
  shows "bus (humRead_command env s) = bus s @ [Call (Tx HTU21D_ADDRESS 0xF5)] \<and>
         bus (tempRead_command env s) = bus s @ [Call (Tx HTU21D_ADDRESS 0xF3)] \<and>
         bus (soft_reset_htu21 env s) = bus s @ [Call (Tx HTU21D_ADDRESS 0xFE)] \<and>
         m_xfer_done (humRead_command env s)"
proof -
  have f: "m_xfer_done (snd (start_xfer env c NoBuf s))" for c
    using assms by (simp add: start_xfer_def deliver_def twi_handler_def Let_def
        split: option.splits prod.splits nat.splits twi_evt.splits)
  have "bus (command env a c s) = bus s @ [Call (Tx a c)] \<and> m_xfer_done (command env a c s)" for a c
    using f by (simp add: command_def split_beta wait_done_flag)
  then show ?thesis by (simp add: humRead_command_def tempRead_command_def soft_reset_htu21_def)
qed

theorem stale_completion_flag_witness:
  "bus (humRead_command (\<lambda>_ _. (0, None)) (init_htu\<lparr>m_xfer_done := True\<rparr>)) = [Call (Tx HTU21D_ADDRESS 0xF5)]"
  using stale_completion_flag [of "init_htu\<lparr>m_xfer_done := True\<rparr>" "\<lambda>_ _. (0, None)"]
  by (simp add: init_htu_def)

text \<open>
  After an accepted reading up to 500 rejected ones in a row keep it in all four packets and the
  501st replaces it by the sentinel -32.125, for the temperature and the humidity of each of the three
  sensors; the counters stay at most 500.
\<close>

lemma htu_debounce:
  assumes "htu_ok b" and "\<forall>b' \<in> set bs. \<not> htu_ok b'" and "k \<in> {1..4}"
  shows "pval (state_of k (hout (fold (temp_step (port_no p)) bs (temp_step (port_no p) b s)))) (temp_of p) =
           (if length bs \<le> 500 then temp_reading b else Fin (- 257 / 8)) \<and>
         pval (state_of k (hout (fold (hum_step (port_no p)) bs (hum_step (port_no p) b s)))) (hum_of p) =
           (if length bs \<le> 500 then hum_reading b else Fin (- 257 / 8)) \<and>
         unat (bad_count (fold (temp_step (port_no p)) bs (temp_step (port_no p) b s)) (temp_of p)) \<le> 500"
proof -
  have rej: "rejected_all (\<lambda>b _. htu_ok b) st bs r" for st :: "u8 list \<Rightarrow> htu \<Rightarrow> htu" and r
    using assms(2) by (induction bs arbitrary: r) auto
  have "unat (bad_count (temp_step (port_no p) b s) (temp_of p)) = 0"
    using htu_temp.accept [OF assms(1), where p = p] by simp
  then show ?thesis
    using shows_fromD [OF htu_temp.after_accept [OF assms(1) rej] assms(3)]
      shows_fromD [OF htu_hum.after_accept [OF assms(1) rej] assms(3)] assms(3)
      htu_temp.run_bounded [where s = "temp_step (port_no p) b s" and rs = bs and p = p]
    by (simp add: lost_value_eq del: state_of.simps)
qed

lemma htu_debounce_witness:
  "pval (state_of 3 (hout (fold (hum_step 4) (replicate 501 [0, 0, 0]) (hum_step 4 [0x68, 0x3A, 0x7C] init_htu)))) rarh10
   = Fin (- 257 / 8)"
proof -
  have "htu_ok [0x68, 0x3A, 0x7C]" unfolding htu_ok_def by code_simp
  moreover have "\<not> htu_ok [0, 0, 0]" by (simp add: htu_ok_def)
  ultimately show ?thesis
    using htu_debounce [of "[0x68, 0x3A, 0x7C]" "replicate 501 [0, 0, 0]" 3 ReturnAir init_htu]
    by (simp del: state_of.simps)
qed

end
