(* ===== verification/Analog.thy ===== *)
theory Analog
  imports Sensors
begin

text \<open>
  The pressure channels of analog.c: the set-up calls of the converter, each followed by
  \<open>APP_ERROR_CHECK\<close>, and \<open>saadc_callback\<close>, which turns eight samples into pressures and
  stores them in the packets.
\<close>

section \<open>Set-up\<close>

datatype ain = AIN0 | AIN1 | AIN2 | AIN3 | AIN4 | AIN5 | AIN6 | AIN7

datatype saadc_call =
    PpiInit
  | TimerInit
  | TimerCompare nat
  | TimerEnable
  | PpiChannelAlloc
  | PpiChannelAssign
  | SaadcInit
  | ChannelInit nat ain
  | BufferConvert nat

definition saadc_sampling_event_init :: "(saadc_call \<Rightarrow> u32) \<Rightarrow> bool \<times> saadc_call list" where
  "saadc_sampling_event_init env = checked env
     [(PpiInit, True), (TimerInit, True), (TimerCompare 400, False), (TimerEnable, False),
      (PpiChannelAlloc, True), (PpiChannelAssign, True)]"

definition saadc_inputs :: "ain list" where
  "saadc_inputs = [AIN3, AIN2, AIN7, AIN6, AIN5, AIN4, AIN0, AIN1]"

definition saadc_init :: "(saadc_call \<Rightarrow> u32) \<Rightarrow> bool \<times> saadc_call list" where
  "saadc_init env = checked env
     ((SaadcInit, True) # map (\<lambda>i. (ChannelInit i (saadc_inputs ! i), True)) [0..<8] @ [(BufferConvert 8, True)])"

section \<open>The callback\<close>

text \<open>\<open>P = adc / 1252.59; P = (P - 0.8) * gain; P = P * 14.5038 + offset\<close>, each line rounded to a \<open>float\<close>.\<close>

definition pressure :: "rat \<Rightarrow> rat \<Rightarrow> cfloat \<Rightarrow> cfloat" where
  "pressure gain offset adc =
     (let p1 = to_float (d_div adc (dlit (125259 / 100)));
          p2 = to_float (d_mul (d_sub p1 (dlit (8 / 10))) (Fin gain))
      in to_float (d_add (d_mul p2 (dlit (145038 / 10000))) (dlit offset)))"

definition suction :: "cfloat \<Rightarrow> cfloat" where "suction = pressure 10 (22 / 10)"
definition liquid :: "cfloat \<Rightarrow> cfloat" where "liquid = pressure 20 (37 / 10)"

definition store_unless_nan :: "nat \<Rightarrow> sfield \<Rightarrow> cfloat \<Rightarrow> sensors \<Rightarrow> sensors" where
  "store_unless_nan n f p s = (if isnan p then s else store_from n f p s)"

text \<open>The eight samples are 16-bit signed integers, copied to \<open>float\<close>.\<close>

definition saadc_callback :: "bool \<Rightarrow> 16 word list \<Rightarrow> sensors \<Rightarrow> sensors" where
  "saadc_callback is_done buffer s =
     (if \<not> is_done then s
      else let adc = map (\<lambda>i. float_of_int (sint (buffer ! i))) [0..<8] in
        store_unless_nan 4 llpc41 (liquid (adc ! 7))
       (store_unless_nan 4 spc41 (suction (adc ! 6))
       (store_unless_nan 3 llpc31 (liquid (adc ! 5))
       (store_unless_nan 3 spc31 (suction (adc ! 4))
       (store_unless_nan 2 llpc21 (liquid (adc ! 3))
       (store_unless_nan 2 spc21 (suction (adc ! 2))
       (store_unless_nan 1 llpc11 (liquid (adc ! 1))
       (store_unless_nan 1 spc11 (suction (adc ! 0)) s))))))))"

section \<open>Accuracy\<close>

definition pressure_q :: "rat \<Rightarrow> rat \<Rightarrow> int \<Rightarrow> rat" where
  "pressure_q gain offset n =
     rnd 24 (rnd 53 (rnd 53 (rnd 24 (rnd 53 (rnd 53 (rnd 24 (rnd 53 (of_int n / rnd 53 (125259 / 100)))
       - rnd 53 (8 / 10)) * gain)) * rnd 53 (145038 / 10000)) + rnd 53 offset))"

lemma near_literal: "0 \<le> x \<Longrightarrow> x \<le> B \<Longrightarrow> near (B / 2 ^ 53) (rnd 53 x) x"
  unfolding near_def by (rule rnd_abs_error) simp

definition pressure_exact :: "rat \<Rightarrow> rat \<Rightarrow> int \<Rightarrow> rat" where
  "pressure_exact gain offset n = (of_int n / (125259 / 100) - 8 / 10) * gain * (145038 / 10000) + offset"

text \<open>The three assignments of a channel, one lemma each.\<close>

lemma volts_near:
  assumes "\<bar>y\<bar> \<le> 32768"
  shows "near (17 / 10 ^ 7) (rnd 24 (rnd 53 (y / rnd 53 (125259 / 100)))) (y / (125259 / 100))"
    and "\<bar>y / (125259 / 100)\<bar> \<le> 27"
proof -
  have c: "near (1253 / 2 ^ 53) (rnd 53 (125259 / 100)) (125259 / 100)" by (rule near_literal) simp_all
  have q: "near (1 / 10 ^ 8) (y / rnd 53 (125259 / 100)) (y / (125259 / 100))"
    by (rule near_quotient [OF c _ _ assms]) simp_all
  show yb: "\<bar>y / (125259 / 100)\<bar> \<le> 27" using assms by simp
  have "near (2 / 10 ^ 8) (rnd 53 (y / rnd 53 (125259 / 100))) (y / (125259 / 100))"
    by (rule near_rnd [OF q yb]) simp
  then show "near (17 / 10 ^ 7) (rnd 24 (rnd 53 (y / rnd 53 (125259 / 100)))) (y / (125259 / 100))"
    by (rule near_rnd [OF _ yb]) simp
qed

lemma bar_near:
  assumes v: "near (17 / 10 ^ 7) v w" "\<bar>w\<bar> \<le> 27" and g: "\<bar>gain\<bar> \<le> 20"
  shows "near (7 / 10 ^ 5) (rnd 24 (rnd 53 (rnd 53 (v - rnd 53 (8 / 10)) * gain))) ((w - 8 / 10) * gain)"
    and "\<bar>(w - 8 / 10) * gain\<bar> \<le> 560"
proof -
  have o: "near (1 / 2 ^ 53) (rnd 53 (8 / 10)) (8 / 10)" by (rule near_literal) simp_all
  have z: "\<bar>w - 8 / 10\<bar> \<le> 28" using v(2) abs_triangle_ineq4 [of w "8 / 10"] by simp
  have "near (171 / 10 ^ 8) (v - rnd 53 (8 / 10)) (w - 8 / 10)" by (rule near_diff [OF v(1) o]) simp
  then have d: "near (172 / 10 ^ 8) (rnd 53 (v - rnd 53 (8 / 10))) (w - 8 / 10)"
    by (rule near_rnd [OF _ z]) simp
  have m: "near (344 / 10 ^ 7) (rnd 53 (v - rnd 53 (8 / 10)) * gain) ((w - 8 / 10) * gain)"
    by (rule near_mult [OF d near_refl [OF order_refl] z g]) simp_all
  show zg: "\<bar>(w - 8 / 10) * gain\<bar> \<le> 560"
    unfolding abs_mult using mult_mono [OF z g] by simp
  have "near (345 / 10 ^ 7) (rnd 53 (rnd 53 (v - rnd 53 (8 / 10)) * gain)) ((w - 8 / 10) * gain)"
    by (rule near_rnd [OF m zg]) simp
  then show "near (7 / 10 ^ 5) (rnd 24 (rnd 53 (rnd 53 (v - rnd 53 (8 / 10)) * gain))) ((w - 8 / 10) * gain)"
    by (rule near_rnd [OF _ zg]) simp
qed

lemma psi_near:
  assumes v: "near (7 / 10 ^ 5) v w" "\<bar>w\<bar> \<le> 560" and off: "0 \<le> offset" "offset \<le> 4"
  shows "near (1 / 500) (rnd 24 (rnd 53 (rnd 53 (v * rnd 53 (145038 / 10000)) + rnd 53 offset)))
           (w * (145038 / 10000) + offset)"
proof -
  have k: "near (15 / 2 ^ 53) (rnd 53 (145038 / 10000)) (145038 / 10000)" by (rule near_literal) simp_all
  have n: "near (1051 / 10 ^ 6) (v * rnd 53 (145038 / 10000)) (w * (145038 / 10000))"
    by (rule near_mult [OF v(1) k v(2), of 15]) simp_all
  have w: "\<bar>w * (145038 / 10000)\<bar> \<le> 8400"
    unfolding abs_mult using mult_mono [OF v(2), of "145038 / 10000" 15] by simp
  have "near (1052 / 10 ^ 6) (rnd 53 (v * rnd 53 (145038 / 10000))) (w * (145038 / 10000))"
    by (rule near_rnd [OF n w]) simp
  moreover have "near (4 / 2 ^ 53) (rnd 53 offset) offset" by (rule near_literal [OF off])
  ultimately have s: "near (1053 / 10 ^ 6) (rnd 53 (v * rnd 53 (145038 / 10000)) + rnd 53 offset) (w * (145038 / 10000) + offset)"
    by (rule near_add) simp
  have e: "\<bar>w * (145038 / 10000) + offset\<bar> \<le> 8404"
    using w off abs_triangle_ineq [of "w * (145038 / 10000)" offset] by simp
  have "near (1054 / 10 ^ 6) (rnd 53 (rnd 53 (v * rnd 53 (145038 / 10000)) + rnd 53 offset)) (w * (145038 / 10000) + offset)"
    by (rule near_rnd [OF s e]) simp
  then show ?thesis by (rule near_rnd [OF _ e]) simp
qed

lemma pressure_near:
  assumes "\<bar>n\<bar> \<le> 32768" and "0 \<le> gain" "gain \<le> 20" and "0 \<le> offset" "offset \<le> 4"
  shows "near (1 / 500) (pressure_q gain offset n) (pressure_exact gain offset n)"
proof -
  have "(of_int \<bar>n\<bar> :: rat) \<le> of_int 32768" using assms(1) by (simp only: of_int_le_iff)
  then have y: "\<bar>of_int n :: rat\<bar> \<le> 32768" by simp
  have g: "\<bar>gain\<bar> \<le> 20" using assms by simp
  show ?thesis
    unfolding pressure_q_def pressure_exact_def
    by (rule psi_near [OF bar_near [OF volts_near [OF y] g] assms(4,5)])
qed

lemma pressure_value:
  "\<bar>n\<bar> < 2 ^ 24 \<Longrightarrow> pressure gain offset (float_of_int n) = Fin (pressure_q gain offset n)"
  unfolding pressure_def pressure_q_def Let_def float_of_int_exact
  by (simp only: dlit_def d_div_def d_mul_def d_sub_def d_add_def to_float_def lift1.simps lift2.simps)

lemma rnd53_pos: "0 \<le> x \<Longrightarrow> 0 \<le> rnd 53 x"
  by (rule rnd_nonneg) simp_all

lemma pressure_q_mono: "0 \<le> gain \<Longrightarrow> m \<le> n \<Longrightarrow> pressure_q gain offset m \<le> pressure_q gain offset n"
  unfolding pressure_q_def
  by (intro rnd_mono add_right_mono diff_right_mono mult_right_mono divide_right_mono rnd53_pos) simp_all

section \<open>Properties\<close>

text \<open>The eight channels: the field, the first circuit that has it, gain and offset.\<close>

definition channels :: "(sfield \<times> nat \<times> rat \<times> rat) list" where
  "channels =
     [(spc11, 1, 10, 22 / 10), (llpc11, 1, 20, 37 / 10), (spc21, 2, 10, 22 / 10), (llpc21, 2, 20, 37 / 10),
      (spc31, 3, 10, 22 / 10), (llpc31, 3, 20, 37 / 10), (spc41, 4, 10, 22 / 10), (llpc41, 4, 20, 37 / 10)]"

lemma sint_u16: "\<bar>sint (w :: 16 word)\<bar> \<le> 32768"
  using sint_ge [of w] sint_lt [of w] by simp

lemma upt_8: "[0..<8] = [0, 1, 2, 3, 4, 5, 6, 7 :: nat]"
  by (simp add: upt_rec)

lemma store_unless_nan_Fin: "store_unless_nan n f (Fin q) s = store_from n f (Fin q) s"
  by (simp add: store_unless_nan_def)

lemma callback_stores:
  assumes "i < 8" and "channels ! i = (f, n, gain, offset)" and "k \<in> {n..4}"
  shows "pval (state_of k (saadc_callback True b s)) f = Fin (pressure_q gain offset (sint (b ! i)))"
proof -
  have p: "pressure g off (float_of_int (sint w)) = Fin (pressure_q g off (sint w))" for g off and w :: "16 word"
    using pressure_value [of "sint w" g off] sint_u16 [of w] by simp
  have k: "k \<in> {1..4}" using assms by (auto simp: channels_def less_Suc_eq numeral_eq_Suc)
  have "i \<in> {0, 1, 2, 3, 4, 5, 6, 7}" using assms(1) by auto
  then have "fst (snd (channels ! i)) \<le> k \<longrightarrow> pval (state_of k (saadc_callback True b s)) (fst (channels ! i)) =
      Fin (pressure_q (fst (snd (snd (channels ! i)))) (snd (snd (snd (channels ! i)))) (sint (b ! i)))"
    by (elim insertE emptyE)
      (simp_all add: channels_def saadc_callback_def upt_8 suction_def liquid_def p store_unless_nan_Fin
        store_from_val [OF _ k] del: state_of.simps)
  then show ?thesis using assms by simp
qed

text \<open>
  C39: One conversion: for each of the eight channels every struct that has the sensor gets a pressure
  within 0.002 psi of the formula of the code evaluated without rounding, whatever the
  16-bit sample is; the pressure never falls when the sample rises, 
\<close>

theorem saadc_callback_pressures:
  assumes "i < 8" and "channels ! i = (f, n, gain, offset)" and "k \<in> {n..4}"
  shows "\<exists>q. pval (state_of k (saadc_callback True b s)) f = Fin q \<and>
           \<bar>q - ((of_int (sint (b ! i)) / (125259 / 100) - 8 / 10) * gain * (145038 / 10000) + offset)\<bar> \<le> 1 / 500 \<and>
           (sint (b ! i) \<le> sint (b' ! i) \<longrightarrow>
              (\<exists>q'. pval (state_of k (saadc_callback True b' s')) f = Fin q' \<and> q \<le> q'))"
proof -
  have g: "0 \<le> gain" "gain \<le> 20" "0 \<le> offset" "offset \<le> 4"
    using assms(1,2) by (auto simp: channels_def less_Suc_eq numeral_eq_Suc)
  show ?thesis
    using pressure_near [OF sint_u16 g, of "b ! i"] pressure_q_mono [OF g(1)]
    by (simp only: callback_stores [OF assms] near_def pressure_exact_def cfloat.inject) blast
qed

theorem saadc_callback_pressures_witness:
  "\<exists>q. pval (state_of 3 (saadc_callback True [0, 0, 0, 2505, 0, 0, 0, 0] init_sensors)) llpc21 = Fin q \<and>
     \<bar>q - ((2505 / (125259 / 100) - 8 / 10) * 20 * (145038 / 10000) + 37 / 10)\<bar> \<le> 1 / 500"
proof -
  have "channels ! 3 = (llpc21, 2, 20, 37 / 10)" by (simp add: channels_def)
  moreover have "sint (2505 :: 16 word) = 2505" by code_simp
  ultimately show ?thesis
    using saadc_callback_pressures [of 3 llpc21 2 20 "37 / 10" 3 "[0, 0, 0, 2505, 0, 0, 0, 0]" init_sensors "[]" init_sensors]
    by (auto simp del: state_of.simps)
qed

end
