(* ===== verification/Power_Meter.thy ===== *)
theory Power_Meter
  imports Sensors "HOL-Library.Monad_Syntax"
begin

text \<open>
  power_factor.c: the energy meter on SPI (\<open>energy_measurement\<close>: ten configuration writes, eight
  register reads and a last command, each a four byte transfer) and the thermostat wires
  (\<open>thermostat_signals\<close>). What the meter answers and what the pins read are parameters. A transfer
  that fails ends in \<open>APP_ERROR_CHECK\<close>, which does not return: the model's result is then \<open>None\<close>.
\<close>

section \<open>The energy meter\<close>

datatype meter_cmd =
    config_start | cal_start | adj_start | harm_start | mmode0_single | mmode0 | vgainA | vgainC
  | igainA_new | igainB_new | igainC_new
  | urmsA | urmsB | urmsC | irmsA | irmsB | irmsC | pf | active_power | IoffsetN

text \<open>
  The variables of power_factor.h as the bytes at their addresses (little endian). The first eleven are 32-bit, the
  others 16-bit: a transfer of four bytes from these also sends the two bytes behind the variable.
\<close>

fun cmd_bytes :: "meter_cmd \<Rightarrow> u8 list" where
  "cmd_bytes config_start = [0x00, 0x30, 0x56, 0x78]"
| "cmd_bytes cal_start = [0x00, 0x40, 0x56, 0x78]"
| "cmd_bytes harm_start = [0x00, 0x50, 0x56, 0x78]"
| "cmd_bytes adj_start = [0x00, 0x60, 0x56, 0x78]"
| "cmd_bytes mmode0 = [0x00, 0x33, 0x10, 0x87]"
| "cmd_bytes mmode0_single = [0x00, 0x33, 0x10, 0x86]"
| "cmd_bytes vgainA = [0x00, 0x61, 0xCC, 0x3C]"
| "cmd_bytes vgainC = [0x00, 0x69, 0xCB, 0xE5]"
| "cmd_bytes igainA_new = [0x00, 0x62, 0x78, 0x15]"
| "cmd_bytes igainB_new = [0x00, 0x66, 0x78, 0x15]"
| "cmd_bytes igainC_new = [0x00, 0x6A, 0x77, 0x75]"
| "cmd_bytes urmsA = [0x80, 0xD9]"
| "cmd_bytes urmsB = [0x80, 0xDA]"
| "cmd_bytes urmsC = [0x80, 0xDB]"
| "cmd_bytes irmsA = [0x80, 0xDD]"
| "cmd_bytes irmsB = [0x80, 0xDE]"
| "cmd_bytes irmsC = [0x80, 0xDF]"
| "cmd_bytes pf = [0x80, 0xBC]"
| "cmd_bytes active_power = [0x80, 0xB0]"
| "cmd_bytes IoffsetN = [0x80, 0x6E]"

definition sends :: "(meter_cmd \<Rightarrow> u8 list) \<Rightarrow> meter_cmd \<Rightarrow> u8 list" where
  "sends behind c = take 4 (cmd_bytes c @ behind c)"

datatype pf_ev = Transfer "u8 list" | Delay nat

record meter =
  m_rx_buf :: "u8 list"
  m_rx_buf2 :: "u8 list"
  pout :: sensors
  spi_log :: "pf_ev list"

type_synonym spi_env = "pf_ev list \<Rightarrow> u8 list \<Rightarrow> u32 \<times> u8 list"

definition xfer :: "spi_env \<Rightarrow> (meter_cmd \<Rightarrow> u8 list) \<Rightarrow> bool \<Rightarrow> meter_cmd \<Rightarrow> meter \<Rightarrow> meter option" where
  "xfer env behind second c s =
     (let tx = sends behind c; (err, rx) = env (spi_log s) tx;
          s1 = s\<lparr>spi_log := spi_log s @ [Transfer tx, Delay 20]\<rparr>
      in if err \<noteq> 0 then None
         else Some (if second then s1\<lparr>m_rx_buf2 := rx\<rparr> else s1\<lparr>m_rx_buf := rx\<rparr>))"

definition clear_buf :: "bool \<Rightarrow> meter \<Rightarrow> meter" where
  "clear_buf second s = (if second then s\<lparr>m_rx_buf2 := replicate 4 0\<rparr> else s\<lparr>m_rx_buf := replicate 4 0\<rparr>)"

text \<open>A configuration command: transfer, delay, clear the receive buffer.\<close>

definition configure :: "spi_env \<Rightarrow> (meter_cmd \<Rightarrow> u8 list) \<Rightarrow> meter_cmd \<Rightarrow> meter \<Rightarrow> meter option" where
  "configure env behind c s = do { s1 \<leftarrow> xfer env behind False c s; Some (clear_buf False s1) }"

text \<open>A measurement: transfer, read bytes 2 and 3, store in the four packets, clear the buffer.\<close>

definition measure_reg ::
  "spi_env \<Rightarrow> (meter_cmd \<Rightarrow> u8 list) \<Rightarrow> bool \<Rightarrow> meter_cmd \<Rightarrow> sfield \<Rightarrow> (cfloat \<Rightarrow> cfloat) \<Rightarrow> meter \<Rightarrow> meter option" where
  "measure_reg env behind second c f conv s = do {
     s1 \<leftarrow> xfer env behind second c s;
     let buf = (if second then m_rx_buf2 s1 else m_rx_buf s1);
     let num = float_of_int (uint ((push_bit 8 (ucast (buf ! 2)) OR ucast (buf ! 3)) :: u32));
     Some (clear_buf second (s1\<lparr>pout := store_from 1 f (conv num) (pout s1)\<rparr>)) }"

definition per_100 :: "cfloat \<Rightarrow> cfloat" where "per_100 num = f_div num (Fin 100)"
definition per_1000 :: "cfloat \<Rightarrow> cfloat" where "per_1000 num = f_div num (Fin 1000)"
definition amps :: "cfloat \<Rightarrow> cfloat" where "amps num = f_mul (f_div num (Fin 1000)) (Fin 3)"
definition watts :: "cfloat \<Rightarrow> cfloat" where "watts num = f_mul (f_mul num (Fin 4)) (Fin 3)"

text \<open>
  \<open>strcmp(config_string1[23], 0x31)\<close> gets two characters as addresses: \<open>same_string a b\<close> says
  whether the strings at the addresses \<open>a\<close> and \<open>b\<close> are equal.
\<close>

definition energy_measurement ::
  "spi_env \<Rightarrow> (meter_cmd \<Rightarrow> u8 list) \<Rightarrow> (u8 \<Rightarrow> u8 \<Rightarrow> bool) \<Rightarrow> u8 list \<Rightarrow> meter \<Rightarrow> meter option" where
  "energy_measurement env behind same_string config_string1 s0 = do {
     s1 \<leftarrow> configure env behind config_start s0;
     s2 \<leftarrow> configure env behind cal_start s1;
     s3 \<leftarrow> configure env behind adj_start s2;
     s4 \<leftarrow> configure env behind harm_start s3;
     s5 \<leftarrow> (if same_string (config_string1 ! 23) 0x31 then configure env behind mmode0_single s4
           else configure env behind mmode0 s4);
     s6 \<leftarrow> configure env behind vgainA s5;
     s7 \<leftarrow> configure env behind vgainC s6;
     s8 \<leftarrow> configure env behind igainA_new s7;
     s9 \<leftarrow> configure env behind igainB_new s8;
     s10 \<leftarrow> configure env behind igainC_new s9;
     s11 \<leftarrow> measure_reg env behind True urmsA uUei1 per_100 s10;
     s12 \<leftarrow> measure_reg env behind False urmsB uUei2 per_100 s11;
     s13 \<leftarrow> measure_reg env behind False urmsC uUei3 per_100 s12;
     s14 \<leftarrow> measure_reg env behind False irmsA iUei1 amps s13;
     s15 \<leftarrow> measure_reg env behind False irmsB iUei2 amps s14;
     s16 \<leftarrow> measure_reg env behind False irmsC iUei3 amps s15;
     s17 \<leftarrow> measure_reg env behind False pf powerFactor per_1000 s16;
     s18 \<leftarrow> measure_reg env behind False active_power activeWatts watts s17;
     configure env behind IoffsetN s18 }"

text \<open>\<open>pf_spim_init\<close>: the pins, the frequency in kHz, and the driver's error check.\<close>

record spim_config =
  ss_pin :: nat
  miso_pin :: nat
  mosi_pin :: nat
  sck_pin :: nat
  frequency_khz :: nat

definition pin_map :: "nat \<Rightarrow> nat \<Rightarrow> nat" where
  "pin_map port pin = 32 * port + pin"

definition pf_spim_init :: "(spim_config \<Rightarrow> u32) \<Rightarrow> spim_config option" where
  "pf_spim_init spim_init =
     (let c = \<lparr>ss_pin = pin_map 1 15, miso_pin = pin_map 1 11, mosi_pin = pin_map 1 14,
               sck_pin = pin_map 1 10, frequency_khz = 500\<rparr>
      in if spim_init c \<noteq> 0 then None else Some c)"

section \<open>The thermostat wires\<close>

datatype wire_ev = CfgIn nat bool | ReadPin nat | Wait nat

type_synonym wire_env = "wire_ev list \<Rightarrow> nat \<Rightarrow> bool"

definition wire :: "wire_env \<Rightarrow> nat \<Rightarrow> sfield \<Rightarrow> wire_ev list \<times> sensors \<Rightarrow> wire_ev list \<times> sensors" where
  "wire env p f ts =
     (let (tr, s) = ts; tr1 = tr @ [ReadPin p]
      in if \<not> env tr p then (tr1, store_from 1 f (Fin 1) s)
         else let tr2 = tr1 @ [Wait 1]; tr3 = tr2 @ [ReadPin p]
           in if env tr2 p then (tr3, store_from 1 f (Fin 0) s)
              else (tr3, store_from 1 f (Fin 1) s))"

definition thermostat_signals :: "wire_env \<Rightarrow> wire_ev list \<times> sensors \<Rightarrow> wire_ev list \<times> sensors" where
  "thermostat_signals env ts =
     wire env 39 wire3_yellow (wire env 10 wire2_white (wire env 25 wire1_orange
       (fst ts @ [CfgIn 10 False, CfgIn 39 False, CfgIn 25 True], snd ts)))"

section \<open>Running against a meter\<close>

text \<open>A meter that accepts every transfer and answers with the register the second byte names.\<close>

definition meter_answers :: "(u8 \<Rightarrow> u16) \<Rightarrow> spi_env" where
  "meter_answers regs hist tx = (0, [0xFF, 0xFF, ucast (drop_bit 8 (regs (tx ! 1))), ucast (regs (tx ! 1))])"

lemma two_bytes: "push_bit 8 (ucast (ucast (drop_bit 8 w) :: u8)) OR (ucast (ucast w :: u8) :: u32) = ucast w"
  for w :: u16
proof (rule bit_word_eqI)
  fix n assume "n < LENGTH(32)"
  then show "bit (push_bit 8 (ucast (ucast (drop_bit 8 w) :: u8)) OR (ucast (ucast w :: u8) :: u32)) n = bit (ucast w :: u32) n"
    using bit_imp_le_length [of w n]
    by (auto simp: bit_or_iff bit_push_bit_iff bit_ucast_iff bit_drop_bit_eq)
qed

lemma configure_ok [step_defs]:
  "configure (meter_answers regs) behind c s =
     Some (s\<lparr>m_rx_buf := replicate 4 0, spi_log := spi_log s @ [Transfer (sends behind c), Delay 20]\<rparr>)"
  by (simp add: configure_def xfer_def clear_buf_def meter_answers_def Let_def)

lemma measure_reg_ok [step_defs]:
  "measure_reg (meter_answers regs) behind second c f conv s =
     Some (clear_buf second (s\<lparr>pout := store_from 1 f (conv (float_of_int (uint (regs (sends behind c ! 1))))) (pout s),
       spi_log := spi_log s @ [Transfer (sends behind c), Delay 20]\<rparr>))"
proof -
  have u: "uint (ucast w :: u32) = uint w" for w :: u16
    using uint_lt2p [of w] by (simp add: unsigned_ucast_eq take_bit_int_eq_self)
  show ?thesis
    by (cases second) (simp_all add: measure_reg_def xfer_def clear_buf_def meter_answers_def Let_def two_bytes u)
qed

lemma clear_buf_frame [simp]:
  "pout (clear_buf b s) = pout s" "spi_log (clear_buf b s) = spi_log s"
  by (simp_all add: clear_buf_def)

lemma sends_reg [simp]:
  "sends behind urmsA ! Suc 0 = 0xD9" "sends behind urmsB ! Suc 0 = 0xDA" "sends behind urmsC ! Suc 0 = 0xDB"
  "sends behind irmsA ! Suc 0 = 0xDD" "sends behind irmsB ! Suc 0 = 0xDE" "sends behind irmsC ! Suc 0 = 0xDF"
  "sends behind pf ! Suc 0 = 0xBC" "sends behind active_power ! Suc 0 = 0xB0"
  by (simp_all add: sends_def)

text \<open>The exact rational results of the conversions.\<close>

lemma conversions:
  fixes w :: u16
  defines "n \<equiv> of_int (uint w) :: rat"
  shows "per_100 (float_of_int (uint w)) = Fin (rnd 24 (n / 100))"
    "per_1000 (float_of_int (uint w)) = Fin (rnd 24 (n / 1000))"
    "amps (float_of_int (uint w)) = Fin (rnd 24 (rnd 24 (n / 1000) * 3))"
    "watts (float_of_int (uint w)) = Fin (n * 12)"
proof -
  have r: "0 \<le> uint w" "uint w < 65536" using uint_lt2p [of w] by simp_all
  then have f: "float_of_int (uint w) = Fin n"
    unfolding n_def by (intro float_of_int_exact) simp
  show "per_100 (float_of_int (uint w)) = Fin (rnd 24 (n / 100))"
    "per_1000 (float_of_int (uint w)) = Fin (rnd 24 (n / 1000))"
    "amps (float_of_int (uint w)) = Fin (rnd 24 (rnd 24 (n / 1000) * 3))"
    by (simp_all add: f per_100_def per_1000_def amps_def f_div_def f_mul_def)
  have "rnd 24 (n * 4) = n * 4" "rnd 24 (n * 12) = n * 12"
    using rnd_int [of "uint w * 4" 24] rnd_int [of "uint w * 12" 24] r by (simp_all add: n_def)
  then show "watts (float_of_int (uint w)) = Fin (n * 12)"
    by (simp add: f watts_def f_mul_def mult.assoc)
qed

definition meter_script :: "bool \<Rightarrow> meter_cmd list" where
  "meter_script single =
     [config_start, cal_start, adj_start, harm_start, if single then mmode0_single else mmode0,
      vgainA, vgainC, igainA_new, igainB_new, igainC_new,
      urmsA, urmsB, urmsC, irmsA, irmsB, irmsC, pf, active_power, IoffsetN]"

section \<open>What a wire shows\<close>

definition wire_trace :: "wire_env \<Rightarrow> nat \<Rightarrow> wire_ev list \<Rightarrow> wire_ev list" where
  "wire_trace env p t = t @ ReadPin p # (if env t p then [Wait 1, ReadPin p] else [])"

definition seen_low :: "wire_env \<Rightarrow> nat \<Rightarrow> wire_ev list \<Rightarrow> bool" where
  "seen_low env p t \<longleftrightarrow> \<not> env t p \<or> \<not> env (t @ [ReadPin p, Wait 1]) p"

lemma wire_spec [step_defs]:
  "wire env p f (t, s) = (wire_trace env p t, store_from 1 f (Fin (of_bool (seen_low env p t))) s)"
  by (simp add: wire_def wire_trace_def seen_low_def Let_def)

section \<open>Properties\<close>

text \<open>
  C40: One round of \<open>energy_measurement\<close> against a meter that answers every transfer: the
  nineteen commands go out in this order, 20 ms apart, and afterwards every packet carries the eight
  registers in volts, amperes, power factor and watts, each with the roundings of the code's \<open>float\<close>
  expression.
\<close>

theorem energy_measurement_registers:
  assumes "k \<in> {1..4}"
  shows "\<exists>s'. energy_measurement (meter_answers regs) behind same config s = Some s' \<and>
    spi_log s' = spi_log s @ concat (map (\<lambda>c. [Transfer (sends behind c), Delay 20])
      (meter_script (same (config ! 23) 0x31))) \<and>
    (\<forall>(f, r) \<in> {(uUei1, 0xD9), (uUei2, 0xDA), (uUei3, 0xDB)}.
       pval (state_of k (pout s')) f = Fin (rnd 24 (of_int (uint (regs r)) / 100))) \<and>
    (\<forall>(f, r) \<in> {(iUei1, 0xDD), (iUei2, 0xDE), (iUei3, 0xDF)}.
       pval (state_of k (pout s')) f = Fin (rnd 24 (rnd 24 (of_int (uint (regs r)) / 1000) * 3))) \<and>
    pval (state_of k (pout s')) powerFactor = Fin (rnd 24 (of_int (uint (regs 0xBC)) / 1000)) \<and>
    pval (state_of k (pout s')) activeWatts = Fin (of_int (uint (regs 0xB0)) * 12)"
  using assms
  by (cases "same (config ! 23) 0x31")
    (simp_all add: energy_measurement_def step_defs meter_script_def conversions del: state_of.simps of_int_uint)

theorem energy_measurement_registers_witness:
  "\<exists>s'. energy_measurement (meter_answers (\<lambda>r. if r = 0xD9 then 12000 else 0)) (\<lambda>_. [0, 0]) (=)
       (replicate 23 0 @ [0x31]) \<lparr>m_rx_buf = [], m_rx_buf2 = [], pout = init_sensors, spi_log = []\<rparr> = Some s' \<and>
     pval (state_of 2 (pout s')) uUei1 = Fin (rnd 24 (12000 / 100)) \<and> Transfer [0, 0x33, 0x10, 0x86] \<in> set (spi_log s')"
proof -
  have "uint (12000 :: u16) = 12000" by code_simp
  then show ?thesis
    using energy_measurement_registers [of 2 "\<lambda>r. if r = 0xD9 then 12000 else 0" "\<lambda>_. [0, 0]" "(=)"
        "replicate 23 0 @ [0x31]" "\<lparr>m_rx_buf = [], m_rx_buf2 = [], pout = init_sensors, spi_log = []\<rparr>"]
    by (auto simp: meter_script_def sends_def nth_append simp del: state_of.simps of_int_uint)
qed

text \<open>
  Each thermostat wire is reported off (0) exactly when its pin reads high twice, one millisecond apart, and
  on (1) otherwise, in all four packets; the wires are sampled in the order orange, white, yellow.
\<close>

lemma thermostat_wires:
  fixes tr :: "wire_ev list" and env :: wire_env
  assumes "k \<in> {1..4}"
  defines "t1 \<equiv> tr @ [CfgIn 10 False, CfgIn 39 False, CfgIn 25 True]"
  defines "t2 \<equiv> wire_trace env 25 t1"
  defines "t3 \<equiv> wire_trace env 10 t2"
  shows "let (tr', s') = thermostat_signals env (tr, s)
         in pval (state_of k s') wire1_orange = Fin (of_bool (seen_low env 25 t1)) \<and>
            pval (state_of k s') wire2_white = Fin (of_bool (seen_low env 10 t2)) \<and>
            pval (state_of k s') wire3_yellow = Fin (of_bool (seen_low env 39 t3)) \<and>
            tr' = wire_trace env 39 t3"
  using assms(1)
  by (simp add: thermostat_signals_def step_defs t1_def t2_def t3_def del: state_of.simps)

theorem thermostat_wires_witness:
  "let (tr', s') = thermostat_signals (\<lambda>t p. p = 10) ([], init_sensors)
   in pval (state_of 1 s') wire1_orange = Fin 1 \<and> pval (state_of 1 s') wire2_white = Fin 0"
  using thermostat_wires [where k = 1 and tr = "[]" and env = "\<lambda>t p. p = 10" and s = init_sensors]
  by (simp add: split_beta Let_def seen_low_def del: state_of.simps)

end
