(* ===== verification/Cmd.thy ===== *)
theory Cmd
  imports Prelude
begin

text \<open>
  The command line of cmd.c, which serves the BLE UART: \<open>cmd_feed\<close> collects bytes in
  \<open>cmd_buff\<close> and runs \<open>cmd_parse\<close> at every carriage return or line feed. Pointers into the
  buffer are offsets; array copies that leave an array are faults. What the handlers ask of
  other modules (BLE, network, reset) is appended to \<open>outbox\<close>.
\<close>

section \<open>State\<close>

datatype iface = IFACE_NONE | IFACE_ETH | IFACE_WLAN

record ipconfig =
  ip_dhcp :: bool
  ip_iface :: iface
  ip_addr :: u32
  ip_gw :: u32
  ip_mask :: u32

datatype cmd_out =
    BleSend "u8 list"
  | MsgIpconfig ipconfig
  | WifiConnect "u8 list" u8 u8 "u8 list" nat
  | WifiConnectDefault
  | WifiDisconnect
  | WifiScan
  | ShowSettings
  | ShowSettingsWifi
  | SystemReset

definition CMD_BUFF_LEN :: nat where "CMD_BUFF_LEN = 256"
definition SSID_MAX_LEN :: nat where "SSID_MAX_LEN = 32"
definition KEY_MAX_LEN :: nat where "KEY_MAX_LEN = 64"
definition M2M_1X_USR_NAME_MAX :: nat where "M2M_1X_USR_NAME_MAX = 21"

record wifi_param =
  ssid_saved :: "u8 list"
  ssid_saved_len :: u8
  wkey :: "u8 list"
  key_ind :: u8
  login :: "u8 list"

record cmd_state =
  buf_p :: "u8 list"
  buf_len :: nat
  times_count :: u32
  config_string :: "u8 list"
  API_token_first :: "u8 list"
  API_token :: "u8 list"
  is_internet_first :: "u8 list"
  is_internet :: "u8 list"
  reset_pulse :: "u8 list"
  API_link_first :: "u8 list"
  API_link :: "u8 list"
  update :: "u8 list"
  dhcp_check_eth :: "u8 list"
  dhcp_check_wifi :: "u8 list"
  dhcp_check_changed :: "u8 list"
  ipaddress_changed :: "u8 list"
  ipaddr :: u32
  gwaddr :: u32
  netmask :: u32
  test_internet :: bool
  keyflag :: bool
  keyconnect :: bool
  try_connect :: bool
  ssid_changed :: bool
  key_changed :: bool
  ssid_saved_copy :: "u8 list"
  key_copy :: "u8 list"
  wifi_param :: wifi_param
  sensors_timer_active :: bool
  sensors_timer_tick :: u32
  outbox :: "cmd_out list"

definition emit :: "cmd_out \<Rightarrow> cmd_state \<Rightarrow> cmd_state" where
  "emit m s = s\<lparr>outbox := outbox s @ [m]\<rparr>"

text \<open>The C initialisers: arrays of 240 bytes, zero filled behind the text.\<close>

definition array_of :: "nat \<Rightarrow> string \<Rightarrow> u8 list" where
  "array_of n t = ascii t @ replicate (n - length t) 0"

definition init_cmd :: cmd_state where
  "init_cmd = \<lparr>buf_p = replicate 256 0, buf_len = 0, times_count = 2,
     config_string = array_of 240 ''z'', API_token_first = replicate 240 0, API_token = replicate 240 0,
     is_internet_first = replicate 240 0, is_internet = replicate 240 0, reset_pulse = replicate 30 0,
     API_link_first = replicate 240 0, API_link = replicate 240 0, update = array_of 6 ''false'',
     dhcp_check_eth = array_of 50 ''true'', dhcp_check_wifi = array_of 50 ''true'',
     dhcp_check_changed = array_of 50 ''false'', ipaddress_changed = replicate 50 0,
     ipaddr = 0, gwaddr = 0, netmask = 0, test_internet = False, keyflag = False, keyconnect = False,
     try_connect = False, ssid_changed = False, key_changed = False,
     ssid_saved_copy = replicate 80 0, key_copy = replicate 80 0,
     wifi_param = \<lparr>ssid_saved = replicate 33 0, ssid_saved_len = 0, wkey = replicate 65 0, key_ind = 0,
       login = replicate 21 0\<rparr>,
     sensors_timer_active = False, sensors_timer_tick = 0, outbox = []\<rparr>"

section \<open>Comparing commands\<close>

text \<open>
  \<open>cmd_cmp(str, len, cmd, &arg, &arglen)\<close> with \<open>str\<close> an offset into the buffer: the result and the
  new values of \<open>arg\<close> and \<open>arglen\<close>, which are set as soon as the prefix matches.
\<close>

definition cmd_cmp :: "u8 list \<Rightarrow> nat \<Rightarrow> nat \<Rightarrow> string \<Rightarrow> nat \<times> nat \<Rightarrow> bool \<times> nat \<times> nat" where
  "cmd_cmp p str len cmd arg =
     (let l = length cmd
      in if 0 < l \<and> take l (drop str p) = ascii cmd then
           ((if last cmd = CHR '' '' then l < len else len = l), str + l, len - l)
         else (False, arg))"

text \<open>The test alone and the argument behind it, as most callers use them.\<close>

definition is_cmd :: "cmd_state \<Rightarrow> nat \<Rightarrow> nat \<Rightarrow> string \<Rightarrow> bool" where
  "is_cmd s str len cmd = fst (cmd_cmp (buf_p s) str len cmd (0, 0))"

section \<open>Addresses\<close>

text \<open>
  One number of \<open>ip_to_int\<close>: an \<open>int16_t\<close> that wraps, digits until a stop. \<open>None\<close> in the result is
  \<open>INVALID\<close>.
\<close>

fun ip_byte :: "nat \<Rightarrow> bool \<Rightarrow> u16 \<Rightarrow> u8 list \<Rightarrow> (u16 \<times> u8 list) option res" where
  "ip_byte i l n [] = Inl Overread"
| "ip_byte i l n (c # cs) =
     (if 0x30 \<le> c \<and> c \<le> 0x39 then ip_byte i True (n * 10 + (ucast c - 0x30)) cs
      else if (i < 3 \<and> c = 0x2E \<or> i = 3) \<and> l then Inr (Some (n, cs))
      else Inr None)"

fun ip_bytes :: "nat \<Rightarrow> nat \<Rightarrow> u32 \<Rightarrow> u8 list \<Rightarrow> (u32 \<times> u8 list) option res" where
  "ip_bytes 0 i v cs = Inr (Some (v, cs))"
| "ip_bytes (Suc k) i v cs = res_bind (ip_byte i False 0 cs) (\<lambda>r. case r of
       None \<Rightarrow> Inr None
     | Some (n, cs') \<Rightarrow> if 256 \<le> sint n then Inr None else ip_bytes k (Suc i) (v * 256 + scast n) cs')"

definition swap32 :: "u32 \<Rightarrow> u32" where
  "swap32 v = push_bit 24 (v AND 0xFF) OR push_bit 8 (v AND 0xFF00) OR
              drop_bit 8 (v AND 0xFF0000) OR drop_bit 24 (v AND 0xFF000000)"

text \<open>The value and what \<open>*ip\<close> points at afterwards; \<open>INVALID\<close> is 0 and leaves \<open>*ip\<close> alone.\<close>

definition ip_to_int :: "u8 list \<Rightarrow> (u32 \<times> u8 list) res" where
  "ip_to_int ip = res_bind (ip_bytes 4 0 0 ip) (\<lambda>r. case r of
       None \<Rightarrow> Inr (0, ip)
     | Some (v, rest) \<Rightarrow> Inr (swap32 v, rest))"

section \<open>The handlers\<close>

definition set_str :: "(u8 list \<Rightarrow> cmd_state \<Rightarrow> cmd_state) \<Rightarrow> u8 list \<Rightarrow> string \<Rightarrow> cmd_state \<Rightarrow> cmd_state res" where
  "set_str upd old t s = res_bind (strcpy old (ascii t)) (\<lambda>a. Inr (upd a s))"

definition set_eth :: "string \<Rightarrow> cmd_state \<Rightarrow> cmd_state res" where
  "set_eth t s = set_str (\<lambda>a s. s\<lparr>dhcp_check_eth := a\<rparr>) (dhcp_check_eth s) t s"

definition set_wifi :: "string \<Rightarrow> cmd_state \<Rightarrow> cmd_state res" where
  "set_wifi t s = set_str (\<lambda>a s. s\<lparr>dhcp_check_wifi := a\<rparr>) (dhcp_check_wifi s) t s"

definition set_changed :: "cmd_state \<Rightarrow> cmd_state res" where
  "set_changed s = set_str (\<lambda>a s. s\<lparr>dhcp_check_changed := a\<rparr>) (dhcp_check_changed s) ''true'' s"

text \<open>The fixed address case: three addresses, then the flags and the message.\<close>

definition cmd_ipconfig_static :: "iface \<Rightarrow> u8 list \<Rightarrow> cmd_state \<Rightarrow> cmd_state res" where
  "cmd_ipconfig_static ifc ptr s0 =
     res_bind (ip_to_int ptr) (\<lambda>(a, ptr1). let s1 = s0\<lparr>ipaddr := a\<rparr> in if a = 0 then Inr s1 else
     res_bind (ip_to_int ptr1) (\<lambda>(g, ptr2). let s2 = s1\<lparr>gwaddr := g\<rparr> in if g = 0 then Inr s2 else
     res_bind (ip_to_int ptr2) (\<lambda>(m, ptr3). let s3 = s2\<lparr>netmask := m\<rparr> in if m = 0 then Inr s3 else
     res_bind (if ifc = IFACE_WLAN
               then res_bind (set_wifi ''false'' s3) (\<lambda>s. res_bind (set_eth ''true'' s) set_changed)
               else res_bind (set_eth ''false'' s3) (\<lambda>s. res_bind (set_wifi ''true'' s) set_changed)) (\<lambda>s4.
     res_bind (set_str (\<lambda>x s. s\<lparr>ipaddress_changed := x\<rparr>) (ipaddress_changed s4) ''changed'' s4) (\<lambda>s5.
     Inr (emit (MsgIpconfig \<lparr>ip_dhcp = False, ip_iface = ifc, ip_addr = a, ip_gw = g, ip_mask = m\<rparr>) s5))))))"

definition cmd_ipconfig :: "nat \<Rightarrow> nat \<Rightarrow> cmd_state \<Rightarrow> cmd_state res" where
  "cmd_ipconfig str len s =
     (let p = buf_p s;
          (wlan, str1, len1) = cmd_cmp p str len ''wlan '' (0, 0);
          (eth, str2, len2) = (if wlan then (False, str1, len1) else cmd_cmp p str len ''eth '' (str1, len1))
      in if \<not> wlan \<and> \<not> eth then Inr s
         else let ifc = (if wlan then IFACE_WLAN else IFACE_ETH);
                  (dhcp, ptr, _) = cmd_cmp p str2 len2 ''dhcp'' (str2, len2)
           in if dhcp then
                res_bind (if ifc = IFACE_WLAN
                  then res_bind (set_wifi ''true'' s) (\<lambda>s. res_bind (set_eth ''false'' s) set_changed)
                  else res_bind (set_eth ''true'' s) (\<lambda>s. res_bind (set_wifi ''false'' s) set_changed))
                (\<lambda>s1. Inr (emit (MsgIpconfig \<lparr>ip_dhcp = True, ip_iface = ifc, ip_addr = 0, ip_gw = 0, ip_mask = 0\<rparr>) s1))
              else cmd_ipconfig_static ifc (drop ptr p) s)"

definition cmd_sensors :: "u32 \<Rightarrow> nat \<Rightarrow> nat \<Rightarrow> cmd_state \<Rightarrow> cmd_state" where
  "cmd_sensors tick str len s =
     (if is_cmd s str len ''cont'' then s\<lparr>sensors_timer_active := True, sensors_timer_tick := tick\<rparr>
      else if is_cmd s str len ''stop'' then s\<lparr>sensors_timer_active := False\<rparr> else s)"

text \<open>\<open>prepare_data_string_circuit1\<close> fills the global buffer with \<open>text\<close>; an empty text is not sent.\<close>

definition send_text :: "u8 list \<Rightarrow> cmd_state \<Rightarrow> cmd_state" where
  "send_text text s = (if 0 < length text then emit (BleSend text) s else s)"

definition cmd_sensors_timer :: "u32 \<Rightarrow> u8 list \<Rightarrow> cmd_state \<Rightarrow> cmd_state" where
  "cmd_sensors_timer tick text s =
     (if sensors_timer_active s \<and> 30000 < tick - sensors_timer_tick s
      then send_text text (s\<lparr>sensors_timer_tick := tick\<rparr>) else s)"

section \<open>WiFi\<close>

definition SEC_OPEN :: u8 where "SEC_OPEN = 1"
definition SEC_WPA_PSK :: u8 where "SEC_WPA_PSK = 2"
definition SEC_WEP :: u8 where "SEC_WEP = 3"
definition SEC_802_1X :: u8 where "SEC_802_1X = 4"

text \<open>
  \<open>auth_buff\<close> for a security type. WEP parameters are the key index, the key length and the key from byte 2 on;
  the 802.1x user name starts at byte 0 and is copied from the key.
\<close>

definition auth_buff :: "u8 \<Rightarrow> wifi_param \<Rightarrow> u8 list res" where
  "auth_buff sectype w =
     (let zero = replicate 128 0
      in if sectype = SEC_WPA_PSK then strncpy zero (wkey w) 65
         else if sectype = SEC_WEP then
           res_bind (strncpy (drop 2 zero) (wkey w) 65)
             (\<lambda>k. Inr (key_ind w # of_nat (length (c_str (wkey w))) # k))
         else if sectype = SEC_802_1X then strncpy zero (wkey w) M2M_1X_USR_NAME_MAX
         else Inr zero)"

definition sectype_of :: "cmd_state \<Rightarrow> nat \<Rightarrow> nat \<Rightarrow> u8 option" where
  "sectype_of s str len =
     (if is_cmd s str len ''wpa'' then Some SEC_WPA_PSK
      else if is_cmd s str len ''wep'' then Some SEC_WEP
      else if is_cmd s str len ''802_1x'' then Some SEC_802_1X
      else if is_cmd s str len ''open'' then Some SEC_OPEN
      else None)"

definition cmd_wifi_connect :: "nat \<Rightarrow> nat \<Rightarrow> cmd_state \<Rightarrow> cmd_state res" where
  "cmd_wifi_connect str len s = (case sectype_of s str len of
       None \<Rightarrow> if is_cmd s str len ''default'' then Inr (emit WifiConnectDefault s) else Inr s
     | Some sectype \<Rightarrow> res_bind (auth_buff sectype (wifi_param s)) (\<lambda>auth.
         Inr (emit (WifiConnect (ssid_saved (wifi_param s)) (ssid_saved_len (wifi_param s))
                SEC_WPA_PSK auth 255) (s\<lparr>try_connect := True\<rparr>))))"

text \<open>
  \<open>sprintf(str, text)\<close> inside \<open>cmd_wifi\<close>, where \<open>str\<close> is the handler's argument: it writes the text and
  its terminating zero into the command buffer, and the text is sent.
\<close>

definition answer_in_place :: "nat \<Rightarrow> string \<Rightarrow> cmd_state \<Rightarrow> cmd_state res" where
  "answer_in_place str text s =
     (if length (buf_p s) < str + length text + 1 then Inl Overwrite
      else Inr (emit (BleSend (ascii text)) (s\<lparr>buf_p := overwrite str (ascii text @ [0]) (buf_p s)\<rparr>)))"

definition cmd_wifi_ssid :: "nat \<Rightarrow> nat \<Rightarrow> nat \<Rightarrow> cmd_state \<Rightarrow> cmd_state res" where
  "cmd_wifi_ssid str ptr arglen s =
     (if SSID_MAX_LEN < arglen then Inr s
      else let w = wifi_param s in
        res_bind (memcpy (ssid_saved w) (drop ptr (buf_p s)) (int arglen)) (\<lambda>d0.
        let d = d0[arglen := 0]; s1 = s\<lparr>wifi_param := w\<lparr>ssid_saved := d, ssid_saved_len := of_nat arglen\<rparr>\<rparr> in
        res_bind (strcpy (ssid_saved_copy s1) d) (\<lambda>c.
        answer_in_place str ''success ssid\<newline>'' (s1\<lparr>ssid_saved_copy := c, ssid_changed := True\<rparr>))))"

definition cmd_wifi_key :: "nat \<Rightarrow> nat \<Rightarrow> nat \<Rightarrow> cmd_state \<Rightarrow> cmd_state res" where
  "cmd_wifi_key str ptr arglen s =
     (if KEY_MAX_LEN < arglen then Inr s
      else let w = wifi_param s in
        res_bind (memcpy (wkey w) (drop ptr (buf_p s)) (int arglen)) (\<lambda>d0.
        let d = d0[arglen := 0]; s1 = s\<lparr>wifi_param := w\<lparr>wkey := d\<rparr>\<rparr> in
        res_bind (strcpy (key_copy s1) d) (\<lambda>c.
        answer_in_place str ''success key\<newline>'' (s1\<lparr>key_copy := c, key_changed := True, keyflag := True\<rparr>))))"

definition cmd_wifi_login :: "nat \<Rightarrow> nat \<Rightarrow> cmd_state \<Rightarrow> cmd_state res" where
  "cmd_wifi_login ptr arglen s =
     (if M2M_1X_USR_NAME_MAX \<le> arglen then Inr s
      else let w = wifi_param s in
        res_bind (memcpy (login w) (drop ptr (buf_p s)) (int arglen)) (\<lambda>d.
        if length (buf_p s) \<le> ptr + arglen then Inl Overwrite
        else Inr (s\<lparr>wifi_param := w\<lparr>login := d\<rparr>, buf_p := (buf_p s)[ptr + arglen := 0]\<rparr>)))"

definition cmd_wifi :: "nat \<Rightarrow> nat \<Rightarrow> cmd_state \<Rightarrow> cmd_state res" where
  "cmd_wifi str len s =
     (if is_cmd s str len ''ssid '' then cmd_wifi_ssid str (str + 5) (len - 5) s
      else if is_cmd s str len ''key '' then cmd_wifi_key str (str + 4) (len - 4) s
      else if is_cmd s str len ''keyind '' then
        (let ind = buf_p s ! (str + 7) - 0x30
         in if len - 7 = 1 \<and> ind < 4 then Inr (s\<lparr>wifi_param := (wifi_param s)\<lparr>key_ind := ind\<rparr>\<rparr>) else Inr s)
      else if is_cmd s str len ''login '' then cmd_wifi_login (str + 6) (len - 6) s
      else if is_cmd s str len ''connect '' then cmd_wifi_connect (str + 8) (len - 8) (s\<lparr>keyconnect := True\<rparr>)
      else if is_cmd s str len ''disconnect'' then Inr (emit WifiDisconnect s)
      else if is_cmd s str len ''scan'' then Inr (emit WifiScan s)
      else Inr s)"

section \<open>The command line\<close>

definition cmd_internet :: "cmd_state \<Rightarrow> cmd_state res" where
  "cmd_internet s =
     res_bind (memcpy (is_internet_first s) (buf_p s) 240) (\<lambda>a.
     res_bind (memcpy (is_internet s) (drop 9 (buf_p s)) 240) (\<lambda>b.
     let s1 = s\<lparr>is_internet_first := a, is_internet := b\<rparr> in
     res_bind (if take 4 (is_internet s1) = ascii ''wifi'' then set_eth ''true'' s1 else set_wifi ''true'' s1)
       set_changed))"

definition cmd_link :: "nat \<Rightarrow> cmd_state \<Rightarrow> cmd_state res" where
  "cmd_link len s =
     res_bind (memcpy (API_link_first s) (buf_p s) 4) (\<lambda>a.
     res_bind (memcpy (API_link s) (drop 5 (buf_p s)) (int len - 5)) (\<lambda>b.
     Inr (s\<lparr>API_link_first := a, API_link := b\<rparr>)))"

definition cmd_token :: "cmd_state \<Rightarrow> cmd_state res" where
  "cmd_token s =
     res_bind (memcpy (API_token_first s) (buf_p s) 5) (\<lambda>a.
     res_bind (memcpy (API_token s) (drop 6 (buf_p s)) 240) (\<lambda>b.
     Inr (s\<lparr>API_token_first := a, API_token := b\<rparr>)))"

text \<open>A comparison whose length argument is the length of the command itself.\<close>

definition starts :: "cmd_state \<Rightarrow> string \<Rightarrow> bool" where
  "starts s cmd = is_cmd s 0 (length cmd) cmd"

definition cmd_parse :: "u32 \<Rightarrow> u8 list \<Rightarrow> nat \<Rightarrow> cmd_state \<Rightarrow> cmd_state res" where
  "cmd_parse tick text len s0 =
     (let s = s0\<lparr>times_count := times_count s0 + 1\<rparr>
      in if is_cmd s 0 len ''wifi '' then cmd_wifi 5 (len - 5) s
         else if is_cmd s 0 len ''sensors '' then Inr (cmd_sensors tick 8 (len - 8) (send_text text s))
         else if starts s ''config'' then
           res_bind (memcpy (config_string s) (buf_p s) 240) (\<lambda>a. Inr (s\<lparr>config_string := a\<rparr>))
         else if starts s ''token'' then cmd_token s
         else if starts s ''internet'' then cmd_internet s
         else if starts s ''reset_pulse!'' then
           res_bind (memcpy (reset_pulse s) (buf_p s) 12) (\<lambda>a. Inr (s\<lparr>reset_pulse := a\<rparr>))
         else if starts s ''link'' then cmd_link len s
         else if starts s ''test internet'' then Inr (s\<lparr>test_internet := True\<rparr>)
         else if starts s ''test ethernet'' then
           (if times_count s mod 2 = 0 then Inr s else Inr (emit (BleSend (ascii ''success ethernet\<newline>'')) s))
         else if starts s ''get version'' then Inr (emit (BleSend (ascii ''success version_1.1.4\<newline>'')) s)
         else if starts s ''activate dfutarg'' then set_str (\<lambda>a s. s\<lparr>update := a\<rparr>) (update s) ''true'' s
         else if starts s ''restart pulse'' then Inr (emit SystemReset s)
         else if starts s ''get mac'' then Inr (emit ShowSettings s)
         else if starts s ''get wifimac'' then Inr (emit ShowSettingsWifi s)
         else if is_cmd s 0 len ''ipconfig '' then cmd_ipconfig 9 (len - 9) s
         else Inr s)"

text \<open>\<open>cmd_feed\<close>: the result -1 drops the rest of the chunk.\<close>

fun cmd_feed :: "u32 \<Rightarrow> u8 list \<Rightarrow> u8 list \<Rightarrow> cmd_state \<Rightarrow> (int \<times> cmd_state) res" where
  "cmd_feed tick text [] s = Inr (0, s)"
| "cmd_feed tick text (b # bs) s =
     (if b = 0x0D \<or> b = 0x0A then
        res_bind (cmd_parse tick text (buf_len s) s) (\<lambda>s1. cmd_feed tick text bs (s1\<lparr>buf_len := 0\<rparr>))
      else if buf_len s < CMD_BUFF_LEN then
        cmd_feed tick text bs (s\<lparr>buf_p := (buf_p s)[buf_len s := b], buf_len := buf_len s + 1\<rparr>)
      else Inr (-1, s\<lparr>buf_len := 0\<rparr>))"

section \<open>Array sizes\<close>

text \<open>The size of every array of the module: no command may change it.\<close>

definition sizes :: "cmd_state \<Rightarrow> nat list" where
  "sizes s = map length [buf_p s, config_string s, API_token_first s, API_token s, is_internet_first s,
     is_internet s, reset_pulse s, API_link_first s, API_link s, update s, dhcp_check_eth s,
     dhcp_check_wifi s, dhcp_check_changed s, ipaddress_changed s, ssid_saved_copy s, key_copy s,
     ssid_saved (wifi_param s), wkey (wifi_param s), login (wifi_param s)]"

definition cmd_inv :: "cmd_state \<Rightarrow> bool" where
  "cmd_inv s \<longleftrightarrow> sizes s = [256, 240, 240, 240, 240, 240, 30, 240, 240, 6, 50, 50, 50, 50, 80, 80, 33, 65, 21] \<and>
     buf_len s \<le> 256"

lemmas inv_defs = cmd_inv_def sizes_def

definition safe :: "cmd_state res \<Rightarrow> bool" where
  "safe r \<longleftrightarrow> (\<exists>s. r = Inr s \<and> cmd_inv s)"

lemma safe_Inr [simp]: "safe (Inr s) \<longleftrightarrow> cmd_inv s"
  by (simp add: safe_def)


lemma init_inv: "cmd_inv init_cmd"
  by (simp add: inv_defs init_cmd_def array_of_def)












lemma safe_cmd_link: "cmd_inv s \<Longrightarrow> 5 \<le> len \<Longrightarrow> len \<le> 245 \<Longrightarrow> safe (cmd_link len s)"
  by (simp add: cmd_link_def memcpy_def inv_defs)

lemma cmd_link_fault: "cmd_inv s \<Longrightarrow> len < 5 \<or> 245 < len \<Longrightarrow> len \<le> 256 \<Longrightarrow> \<exists>e. cmd_link len s = Inl e"
  by (auto simp: cmd_link_def memcpy_def inv_defs)

section \<open>Parsing addresses\<close>









lemma inv_simps [simp]:
  "cmd_inv (s\<lparr>times_count := t\<rparr>) = cmd_inv s"
  "cmd_inv (s\<lparr>test_internet := b\<rparr>) = cmd_inv s"
  "cmd_inv (s\<lparr>sensors_timer_active := b\<rparr>) = cmd_inv s"
  "cmd_inv (s\<lparr>sensors_timer_tick := t\<rparr>) = cmd_inv s"
  "buf_p (s\<lparr>times_count := t\<rparr>) = buf_p s"
  by (simp_all add: inv_defs)

lemma is_cmd_times [simp]: "is_cmd (s\<lparr>times_count := t\<rparr>) str len c = is_cmd s str len c"
    "starts (s\<lparr>times_count := t\<rparr>) c = starts s c"
  by (simp_all add: is_cmd_def starts_def)


section \<open>Lines\<close>

text \<open>What a whole line does: it lies at the start of the buffer, over the bytes of earlier lines, and is parsed.\<close>

definition run_line :: "u32 \<Rightarrow> u8 list \<Rightarrow> u8 list \<Rightarrow> cmd_state \<Rightarrow> cmd_state res" where
  "run_line tick text l s =
     res_bind (cmd_parse tick text (length l) (s\<lparr>buf_p := overwrite 0 l (buf_p s), buf_len := length l\<rparr>))
       (\<lambda>s1. Inr (s1\<lparr>buf_len := 0\<rparr>))"

fun run_lines :: "u32 \<Rightarrow> u8 list \<Rightarrow> u8 list list \<Rightarrow> cmd_state \<Rightarrow> cmd_state res" where
  "run_lines tick text [] s = Inr s"
| "run_lines tick text (l # ls) s = res_bind (run_line tick text l s) (run_lines tick text ls)"

definition is_line :: "u8 list \<Rightarrow> bool" where
  "is_line l \<longleftrightarrow> (\<forall>b \<in> set l. b \<noteq> 0x0D \<and> b \<noteq> 0x0A) \<and> length l \<le> 256"

definition keeps :: "cmd_state \<Rightarrow> cmd_state res \<Rightarrow> bool" where
  "keeps s r \<longleftrightarrow> (\<forall>s'. r = Inr s' \<longrightarrow> length (buf_p s') = length (buf_p s))"

lemma keeps_bind:
  assumes "keeps s r" and "\<And>t. length (buf_p t) = length (buf_p s) \<Longrightarrow> keeps s (f t)"
  shows "keeps s (res_bind r f)"
proof (cases r)
  case (Inr t)
  with assms(1) have "length (buf_p t) = length (buf_p s)" by (simp add: keeps_def)
  from assms(2) [OF this] Inr show ?thesis by simp
qed (simp add: keeps_def)

text \<open>A step that only computes bytes or an address.\<close>

lemma keeps_value: "(\<And>a. keeps s (f a)) \<Longrightarrow> keeps s (res_bind r f)" for r :: "'a res"
  by (cases r) (simp_all add: keeps_def)

lemmas keeps_bytes = keeps_value [where 'a = "u8 list"]
lemmas keeps_addr = keeps_value [where 'a = "u32 \<times> u8 list"]

lemma keeps_Inr [simp]: "keeps s (Inr t) \<longleftrightarrow> length (buf_p t) = length (buf_p s)" "keeps s (Inl e)"
  by (simp_all add: keeps_def)

lemma buf_p_emit [simp]: "buf_p (emit m s) = buf_p s"
  by (simp add: emit_def)

lemma keeps_strings:
  "length (buf_p t) = length (buf_p s) \<Longrightarrow> keeps s (set_eth v t)"
  "length (buf_p t) = length (buf_p s) \<Longrightarrow> keeps s (set_wifi v t)"
  "length (buf_p t) = length (buf_p s) \<Longrightarrow> keeps s (set_changed t)"
  by (auto simp: set_eth_def set_wifi_def set_changed_def set_str_def intro!: keeps_bytes)

lemma keeps_answer: "length (buf_p t) = length (buf_p s) \<Longrightarrow> keeps s (answer_in_place str v t)"
  by (simp add: answer_in_place_def)

lemma keeps_answer_bytes: "(\<And>a. length (buf_p (t a)) = length (buf_p s)) \<Longrightarrow>
    keeps s (res_bind r (\<lambda>a. answer_in_place str v (t a)))" for r :: "u8 list res"
  by (intro keeps_bytes keeps_answer)

lemma keeps_wifi_parts:
  "keeps s (cmd_wifi_ssid str ptr n s)" "keeps s (cmd_wifi_key str ptr n s)" "keeps s (cmd_wifi_login ptr n s)"
  unfolding cmd_wifi_ssid_def cmd_wifi_key_def cmd_wifi_login_def Let_def
  by (simp_all add: keeps_bytes keeps_answer_bytes)

lemma keeps_wifi_connect: "length (buf_p t) = length (buf_p s) \<Longrightarrow> keeps s (cmd_wifi_connect str n t)"
  unfolding cmd_wifi_connect_def by (simp add: keeps_bytes split: option.split)

lemma keeps_wifi: "keeps s (cmd_wifi str len s)"
  unfolding cmd_wifi_def Let_def by (simp add: keeps_wifi_parts keeps_wifi_connect)

lemma keeps_ipconfig: "keeps s (cmd_ipconfig str len s)"
proof -
  have "keeps s (cmd_ipconfig_static i m s)" for i m
    unfolding cmd_ipconfig_static_def Let_def
    by (auto simp: set_str_def intro!: keeps_bytes keeps_addr keeps_bind keeps_strings split: prod.splits)
  then show ?thesis
    by (auto simp: cmd_ipconfig_def Let_def intro!: keeps_bind keeps_strings split: prod.splits)
qed

lemma keeps_times: "keeps (s\<lparr>times_count := t\<rparr>) r = keeps s r"
  by (simp add: keeps_def)

lemma keeps_parse: "keeps s (cmd_parse tick text len s)"
proof -
  let ?s = "s\<lparr>times_count := times_count s + 1\<rparr>"
  have "keeps s (cmd_wifi str l ?s)" "keeps s (cmd_ipconfig str l ?s)" for str l
    using keeps_wifi [of ?s] keeps_ipconfig [of ?s] unfolding keeps_times by simp_all
  moreover have "length (buf_p (cmd_sensors tick 8 l (send_text text ?s))) = length (buf_p s)" for l
    by (simp add: cmd_sensors_def send_text_def)
  moreover have "keeps s (cmd_internet ?s)"
    unfolding cmd_internet_def Let_def by (auto intro!: keeps_bytes keeps_bind keeps_strings)
  moreover have "keeps s (cmd_link l ?s)" "keeps s (cmd_token ?s)" for l
    by (auto simp: cmd_link_def cmd_token_def intro!: keeps_bytes)
  moreover have "keeps s (res_bind r (\<lambda>a. Inr (?s\<lparr>config_string := a\<rparr>)))"
    "keeps s (res_bind r (\<lambda>a. Inr (?s\<lparr>reset_pulse := a\<rparr>)))"
    "keeps s (res_bind r (\<lambda>a. Inr (?s\<lparr>update := a\<rparr>)))" for r :: "u8 list res"
    by (auto intro!: keeps_bytes)
  ultimately show ?thesis
    unfolding cmd_parse_def Let_def is_cmd_times set_str_def by simp
qed

text \<open>Bytes without a terminator are collected.\<close>

lemma feed_collect:
  "\<forall>b \<in> set l. b \<noteq> 0x0D \<and> b \<noteq> 0x0A \<Longrightarrow> buf_len s + length l \<le> 256 \<Longrightarrow> length (buf_p s) = 256 \<Longrightarrow>
   cmd_feed tick text (l @ bs) s =
     cmd_feed tick text bs (s\<lparr>buf_p := overwrite (buf_len s) l (buf_p s), buf_len := buf_len s + length l\<rparr>)"
proof (induction l arbitrary: s)
  case Nil
  then show ?case by (simp add: overwrite_def)
next
  case (Cons b l)
  have "take (Suc (buf_len s)) ((buf_p s)[buf_len s := b]) = take (buf_len s) (buf_p s) @ [b]"
    using Cons.prems(2,3) by (simp add: take_Suc_conv_app_nth)
  then have "overwrite (Suc (buf_len s)) l ((buf_p s)[buf_len s := b]) = overwrite (buf_len s) (b # l) (buf_p s)"
    by (simp add: overwrite_def)
  with Cons show ?case by (simp add: CMD_BUFF_LEN_def)
qed

lemma feed_line:
  assumes "is_line l" "buf_len s = 0" "length (buf_p s) = 256" "t = 0x0D \<or> t = 0x0A"
  shows "cmd_feed tick text (l @ t # bs) s = res_bind (run_line tick text l s) (cmd_feed tick text bs)"
proof -
  have b: "res_bind (res_bind r (\<lambda>s. Inr (g s))) f = res_bind r (\<lambda>s. f (g s))" for r :: "cmd_state res" and g f
    by (cases r) simp_all
  show ?thesis
    using assms feed_collect [of l s tick "text" "t # bs"] by (auto simp: is_line_def run_line_def b)
qed

lemma run_line_buf:
  assumes "run_line tick text l s = Inr s'" "length (buf_p s) = 256" "length l \<le> 256"
  shows "buf_len s' = 0 \<and> length (buf_p s') = 256"
proof -
  let ?s = "s\<lparr>buf_p := overwrite 0 l (buf_p s), buf_len := length l\<rparr>"
  obtain s1 where "cmd_parse tick text (length l) ?s = Inr s1" "s' = s1\<lparr>buf_len := 0\<rparr>"
    using assms(1) by (auto simp: run_line_def res_bind_Inr)
  then show ?thesis using keeps_parse [of ?s tick "text" "length l"] assms(2,3) by (simp add: keeps_def)
qed

lemma feed_lines:
  assumes "\<forall>l \<in> set ls. is_line l" "buf_len s = 0" "length (buf_p s) = 256"
  shows "cmd_feed tick text (concat (map (\<lambda>l. l @ [0x0A]) ls)) s =
           res_bind (run_lines tick text ls s) (\<lambda>s'. Inr (0, s'))"
  using assms
proof (induction ls arbitrary: s)
  case (Cons l ls)
  show ?case
  proof (cases "run_line tick text l s")
    case (Inr s1)
    then have "buf_len s1 = 0" "length (buf_p s1) = 256"
      using run_line_buf [OF Inr] Cons.prems by (simp_all add: is_line_def)
    with Cons Inr show ?thesis by (simp add: feed_line)
  qed (use Cons.prems in \<open>simp add: feed_line\<close>)
qed simp

text \<open>Chunks: the radio may cut the stream anywhere.\<close>

lemma feed_chunks:
  "cmd_feed tick text (xs @ ys) s = res_bind (cmd_feed tick text xs s)
     (\<lambda>(r, s1). if r = 0 then cmd_feed tick text ys s1 else Inr (r, s1))"
proof (induction xs arbitrary: s)
  case (Cons b xs)
  have b: "res_bind (res_bind r f) g = res_bind r (\<lambda>x. res_bind (f x) g)" for r :: "cmd_state res" and f :: "cmd_state \<Rightarrow> (int \<times> cmd_state) res" and g
    by (cases r) simp_all
  from Cons show ?case by (auto simp: b)
qed simp

section \<open>The link command\<close>

lemma link_dispatch:
  assumes "buf_p s = ascii ''link'' @ r"
  shows "cmd_parse tick text n s = cmd_link n (s\<lparr>times_count := times_count s + 1\<rparr>)"
proof -
  have no: "\<not> is_cmd s 0 n ''wifi ''" "\<not> is_cmd s 0 n ''sensors ''" "\<not> starts s ''config''" "\<not> starts s ''token''"
    "\<not> starts s ''internet''" "\<not> starts s ''reset_pulse!''"
    using assms by (simp_all add: starts_def is_cmd_def cmd_cmp_def Let_def ascii_def)
  have yes: "starts s ''link''"
    using assms by (simp add: starts_def is_cmd_def cmd_cmp_def Let_def ascii_def)
  show ?thesis by (simp only: cmd_parse_def Let_def is_cmd_times no yes if_True if_False)
qed

section \<open>Writing addresses\<close>

function decimal :: "nat \<Rightarrow> u8 list" where
  "decimal n = (if n < 10 then [0x30 + of_nat n] else decimal (n div 10) @ [0x30 + of_nat (n mod 10)])"
  by pat_completeness auto
termination
  by (relation "measure id") auto

declare decimal.simps [simp del]

lemma digit_byte:
  assumes "d < 10"
  shows "(0x30 :: u8) \<le> 0x30 + of_nat d" "(0x30 :: u8) + of_nat d \<le> 0x39"
    "ucast ((0x30 :: u8) + of_nat d) - 0x30 = (of_nat d :: u16)"
proof -
  have "d \<in> {0, 1, 2, 3, 4, 5, 6, 7, 8, 9}" using assms by auto
  then show "(0x30 :: u8) \<le> 0x30 + of_nat d" "(0x30 :: u8) + of_nat d \<le> 0x39"
    "ucast ((0x30 :: u8) + of_nat d) - 0x30 = (of_nat d :: u16)"
    by auto
qed

lemma ip_byte_decimal: "\<exists>m. ip_byte i l a (decimal n @ cs) = ip_byte i True (a * m + of_nat n) cs"
proof (induction n arbitrary: a l cs rule: decimal.induct)
  case (1 n)
  show ?case
  proof (cases "n < 10")
    case True
    then show ?thesis using digit_byte [of n] by (simp add: decimal.simps [of n] exI [of _ 10])
  next
    case False
    let ?d = "0x30 + of_nat (n mod 10) :: u8"
    obtain m where m: "ip_byte i l a (decimal (n div 10) @ ?d # cs) = ip_byte i True (a * m + of_nat (n div 10)) (?d # cs)"
      using 1 [OF False] by blast
    have d: "ip_byte i True x (?d # cs) = ip_byte i True (x * 10 + of_nat (n mod 10)) cs" for x
      using digit_byte [of "n mod 10"] by simp
    have "(of_nat n :: u16) = of_nat (n div 10 * 10 + n mod 10)" by simp
    then have n: "(of_nat n :: u16) = of_nat (n div 10) * 10 + of_nat (n mod 10)"
      by (simp only: of_nat_add of_nat_mult of_nat_numeral)
    have "ip_byte i l a (decimal n @ cs) = ip_byte i True (a * (m * 10) + of_nat n) cs"
      using False by (simp add: decimal.simps [of n] m d n algebra_simps del: ip_byte.simps)
    then show ?thesis by blast
  qed
qed

lemma ip_byte_number:
  assumes "t < 0x30 \<or> 0x39 < t" "i < 3 \<longrightarrow> t = 0x2E" "i \<le> 3"
  shows "ip_byte i False 0 (decimal n @ t # rest) = Inr (Some (of_nat n, rest))"
proof -
  obtain m where "ip_byte i False 0 (decimal n @ t # rest) = ip_byte i True (0 * m + of_nat n) (t # rest)"
    using ip_byte_decimal by blast
  then show ?thesis using assms by auto
qed

lemma sint_byte: "n < 256 \<Longrightarrow> sint (of_nat n :: u16) = int n"
proof -
  assume n: "n < 256"
  have u: "uint (of_nat n :: u16) = int n"
    using n by (simp add: uint_nat unat_of_nat take_bit_nat_eq_self)
  have "sint (of_nat n :: u16) = signed_take_bit 15 (int n)"
    by (simp only: sint_uint u) simp
  then show ?thesis using n by (simp add: signed_take_bit_int_eq_self)
qed

lemma scast_byte: "n < 256 \<Longrightarrow> scast (of_nat n :: u16) = (of_nat n :: u32)"
proof -
  assume n: "n < 256"
  have "scast (of_nat n :: u16) = (word_of_int (sint (of_nat n :: u16)) :: u32)" by (simp only: of_int_sint)
  then show ?thesis by (simp only: sint_byte [OF n]) simp
qed

lemma ip_bytes_step:
  assumes "n < 256" "t < 0x30 \<or> 0x39 < t" "i < 3 \<longrightarrow> t = 0x2E" "i \<le> 3"
  shows "ip_bytes (Suc k) i v (decimal n @ t # rest) = ip_bytes k (Suc i) (v * 256 + of_nat n) rest"
  using assms(1) by (simp add: ip_byte_number [OF assms(2-4)] sint_byte scast_byte)

lemma ip_bytes_four:
  assumes "a < 256" "b < 256" "c < 256" "d < 256" "t < 0x30 \<or> 0x39 < t"
  shows "ip_bytes 4 0 0 (decimal a @ 0x2E # decimal b @ 0x2E # decimal c @ 0x2E # decimal d @ t # rest) =
     Inr (Some (((of_nat a * 256 + of_nat b) * 256 + of_nat c) * 256 + of_nat d, rest))"
proof -
  have four: "(4 :: nat) = Suc (Suc (Suc (Suc 0)))" by simp
  show ?thesis
    unfolding four using assms by (simp add: ip_bytes_step del: ip_bytes.simps(2))
qed

text \<open>Byte order: four bytes in a 32-bit word and their reversal.\<close>

lemma mask_values: "(0xFF :: u32) = mask 8" "(0xFF00 :: u32) = push_bit 8 (mask 8)" "(0xFF0000 :: u32) = push_bit 16 (mask 8)"
    "(0xFF000000 :: u32) = push_bit 24 (mask 8)"
  by (simp_all add: mask_eq_exp_minus_1 push_bit_eq_mult)

definition pack :: "u32 \<Rightarrow> u32 \<Rightarrow> u32 \<Rightarrow> u32 \<Rightarrow> u32" where
  "pack a b c d = push_bit 24 a OR push_bit 16 b OR push_bit 8 c OR d"

lemma bit_pack:
  assumes "\<And>k. bit a k \<Longrightarrow> k < 8" "\<And>k. bit b k \<Longrightarrow> k < 8" "\<And>k. bit c k \<Longrightarrow> k < 8" "\<And>k. bit d k \<Longrightarrow> k < 8"
  shows "bit (pack a b c d) k \<longleftrightarrow> (if k < 8 then bit d k else if k < 16 then bit c (k - 8) else if k < 24 then bit b (k - 16) else k < 32 \<and> bit a (k - 24))"
  unfolding pack_def bit_or_iff bit_push_bit_iff using assms(1) [of "k - 24"] assms(2) [of "k - 16"] assms(3) [of "k - 8"] assms(4) [of k]
  by auto

lemma swap32_pack:
  assumes "\<And>k. bit a k \<Longrightarrow> k < 8" "\<And>k. bit b k \<Longrightarrow> k < 8" "\<And>k. bit c k \<Longrightarrow> k < 8" "\<And>k. bit d k \<Longrightarrow> k < 8"
  shows "swap32 (pack a b c d) = pack d c b a"
proof (rule bit_word_eqI)
  fix k assume k: "k < LENGTH(32)"
  note [simp] = bit_pack [OF assms] bit_pack [OF assms(4,3,2,1)]
  consider "k < 8" | "8 \<le> k" "k < 16" | "16 \<le> k" "k < 24" | "24 \<le> k" "k < 32" using k by fastforce
  then show "bit (swap32 (pack a b c d)) k \<longleftrightarrow> bit (pack d c b a) k"
    unfolding swap32_def mask_values
    by cases (auto simp: bit_or_iff bit_and_iff bit_push_bit_iff bit_drop_bit_eq bit_mask_iff simp del: mask_eq_exp_minus_1)
qed

lemma byte_bits: "n < 256 \<Longrightarrow> bit (of_nat n :: u32) k \<Longrightarrow> k < 8"
proof -
  assume n: "n < 256" "bit (of_nat n :: u32) k"
  have "take_bit 8 (of_nat n :: u32) = of_nat n" using n(1) by (simp add: take_bit_of_nat take_bit_nat_eq_self)
  then have "bit (take_bit 8 (of_nat n :: u32)) k" using n(2) by simp
  then show ?thesis by (simp add: bit_take_bit_iff)
qed

lemma pack_sum:
  assumes "\<And>k. bit a k \<Longrightarrow> k < 8" "\<And>k. bit b k \<Longrightarrow> k < 8" "\<And>k. bit c k \<Longrightarrow> k < 8" "\<And>k. bit d k \<Longrightarrow> k < 8"
  shows "((a * 256 + b) * 256 + c) * 256 + d = pack a b c d"
proof -
  have or: "v * 256 + w = push_bit 8 v OR w" if "\<And>k. bit w k \<Longrightarrow> k < 8" for v w :: u32
  proof -
    have "v * 256 = push_bit 8 v" by (simp add: push_bit_eq_mult)
    moreover have "push_bit 8 v + w = push_bit 8 v OR w"
      by (rule disjunctive_add) (auto simp: bit_push_bit_iff dest: that)
    ultimately show ?thesis by simp
  qed
  have "v * 256 + b = push_bit 8 v OR b" "v * 256 + c = push_bit 8 v OR c" "v * 256 + d = push_bit 8 v OR d" for v
    by (rule or, erule assms)+
  then show ?thesis
    by (simp only: push_bit_or push_bit_push_bit pack_def) (simp add: or.assoc)
qed

lemma pack_numbers:
  assumes "a < 256" "b < 256" "c < 256" "d < 256"
  shows "((of_nat a * 256 + of_nat b) * 256 + of_nat c) * 256 + of_nat d =
    pack (of_nat a) (of_nat b) (of_nat c) (of_nat d)"
  by (rule pack_sum) (use byte_bits assms in blast)+

section \<open>Properties\<close>

text \<open>
  C24: Framing: starting with an empty line buffer, a stream of lines of at most 256 bytes, each ended by a line feed, runs
  \<open>cmd_parse\<close> once for every line in order, on a buffer that starts with exactly that line; nothing
  of the framing depends on how the radio cuts the stream into chunks.
\<close>

theorem feed_runs_lines:
  assumes "cmd_inv s" and "buf_len s = 0" and "\<forall>l \<in> set ls. is_line l"
    and "xs @ ys = concat (map (\<lambda>l. l @ [0x0A]) ls)"
  shows "res_bind (cmd_feed tick text xs s)
           (\<lambda>(r, s1). if r = 0 then cmd_feed tick text ys s1 else Inr (r, s1)) =
         res_bind (run_lines tick text ls s) (\<lambda>s'. Inr (0, s'))"
  using feed_lines [OF assms(3,2)] assms(1,4) unfolding feed_chunks [symmetric] by (simp add: inv_defs)

theorem feed_runs_lines_witness:
  "cmd_feed 0 [] (ascii ''config1'' @ [0x0A]) init_cmd = res_bind (run_lines 0 [] [ascii ''config1''] init_cmd) (\<lambda>s'. Inr (0, s'))"
proof -
  have "is_line (ascii ''config1'')" by code_simp
  then show ?thesis
    using feed_runs_lines [OF init_inv, of "[ascii ''config1'']" "ascii ''config1'' @ [0x0A]" "[]" 0 "[]"]
    by (simp add: init_cmd_def feed_chunks [symmetric])
qed



text \<open>
  Reading an address back: the four decimal numbers of an address, separated by dots and
  ended by any byte that is not a digit, give the address in network byte order, and the pointer is
  left behind the ending byte. The address 0.0.0.0 therefore yields \<open>INVALID\<close>.
\<close>

lemma ip_to_int_roundtrip:
  assumes "a < 256" "b < 256" "c < 256" "d < 256" and "t < 0x30 \<or> 0x39 < t"
  shows "ip_to_int (decimal a @ 0x2E # decimal b @ 0x2E # decimal c @ 0x2E # decimal d @ t # rest) =
     Inr (of_nat (a + 256 * b + 65536 * c + 16777216 * d), rest)"
proof -
  have "swap32 (((of_nat a * 256 + of_nat b) * 256 + of_nat c) * 256 + of_nat d) =
      ((of_nat d * 256 + of_nat c) * 256 + of_nat b) * 256 + of_nat a"
    unfolding pack_numbers [OF assms(1-4)] pack_numbers [OF assms(4,3,2,1)]
    by (rule swap32_pack) (use byte_bits assms in blast)+
  also have "\<dots> = of_nat (a + 256 * b + 65536 * c + 16777216 * d)" by (simp add: algebra_simps)
  finally show ?thesis unfolding ip_to_int_def ip_bytes_four [OF assms] by simp
qed

lemma ip_to_int_roundtrip_witness:
  "ip_to_int (ascii ''192.168.1.10'' @ [0]) = Inr (0x0A01A8C0, [])"
proof -
  have d: "decimal 192 = [0x31, 0x39, 0x32]" "decimal 168 = [0x31, 0x36, 0x38]" "decimal 1 = [0x31]" "decimal 10 = [0x31, 0x30]"
    by (simp_all add: decimal.simps del: One_nat_def)
  have "ascii ''192.168.1.10'' @ [0] = decimal 192 @ 0x2E # decimal 168 @ 0x2E # decimal 1 @ 0x2E # decimal 10 @ 0 # []"
    by (simp add: d ascii_def del: One_nat_def)
  then show ?thesis using ip_to_int_roundtrip [of 192 168 1 10 0 "[]"] by simp
qed

text \<open>
  The carriage return and line feed that terminals send after a \<open>link\<close> line run the command
  twice: the second, empty line finds \<open>link\<close> still in the buffer and asks \<open>memcpy\<close> for a negative
  number of bytes.
\<close>

lemma link_crlf_faults:
  assumes "cmd_inv s" and "buf_len s = 0" and "is_line u" and "length u \<le> 240"
  shows "cmd_feed tick text (ascii ''link '' @ u @ [0x0D, 0x0A]) s = Inl Overread"
proof -
  let ?l = "ascii ''link '' @ u"
  have line: "is_line ?l" using assms(3,4) by (simp add: is_line_def ascii_def)
  have p: "length (buf_p s) = 256" using assms(1) by (simp add: inv_defs)
  define s1 where "s1 = s\<lparr>buf_p := overwrite 0 ?l (buf_p s), buf_len := length ?l\<rparr>"
  have inv1: "cmd_inv (s1\<lparr>times_count := t\<rparr>)" for t
    using assms(1,4) by (simp add: s1_def inv_defs)
  have "buf_p s1 = ascii ''link'' @ (0x20 # u @ drop (length ?l) (buf_p s))"
    by (simp add: s1_def overwrite_def ascii_def)
  note d1 = link_dispatch [OF this, of tick "text" "length ?l"]
  obtain s2 where link: "cmd_link (length ?l) (s1\<lparr>times_count := times_count s1 + 1\<rparr>) = Inr s2" "cmd_inv s2"
    using safe_cmd_link [OF inv1, of "length ?l" "times_count s1 + 1"] assms(4) by (auto simp: safe_def)
  have parse: "cmd_parse tick text (length ?l) s1 = Inr s2" unfolding d1 by (rule link(1))
  have "buf_p s2 = buf_p s1" using link(1) by (auto simp: cmd_link_def res_bind_Inr)
  note s2 = parse this link(2)
  have "buf_p (s2\<lparr>buf_len := 0\<rparr>) = ascii ''link'' @ (0x20 # u @ drop (length ?l) (buf_p s))"
    using s2(2) by (simp add: s1_def overwrite_def ascii_def)
  note d2 = link_dispatch [OF this, of tick "text" 0]
  have "cmd_link 0 ((s2\<lparr>buf_len := 0\<rparr>)\<lparr>times_count := t\<rparr>) = Inl Overread" for t
    using s2(3) by (simp add: cmd_link_def memcpy_def inv_defs)
  then show ?thesis
    using feed_line [OF line assms(2) p, of "0x0D" tick "text" "[0x0A]"] d2
    unfolding run_line_def s1_def [symmetric] s2(1) by simp
qed

theorem link_crlf_faults_witness:
  "cmd_feed 0 [] (ascii ''link '' @ ascii ''a.b'' @ [0x0D, 0x0A]) init_cmd = Inl Overread"
proof -
  have "is_line (ascii ''a.b'')" by code_simp
  then show ?thesis
    using link_crlf_faults [OF init_inv, of "ascii ''a.b''" 0 "[]"] by (simp add: init_cmd_def)
qed

text \<open>
  Every \<open>wifi connect\<close> with one of the four security types asks the network task for a WPA/PSK
  connection to the saved access point, on any channel; the type only decides how \<open>auth_buff\<close> is filled.
\<close>

lemma wifi_connect_always_wpa:
  assumes "sectype_of s str len = Some sectype"
  shows "\<exists>auth s'. auth_buff sectype (wifi_param s) = Inr auth \<and> length auth = 128 \<and>
           cmd_wifi_connect str len s = Inr s' \<and>
           outbox s' = outbox s @ [WifiConnect (ssid_saved (wifi_param s)) (ssid_saved_len (wifi_param s)) SEC_WPA_PSK auth 255]"
proof -
  have "\<exists>auth. auth_buff sectype (wifi_param s) = Inr auth \<and> length auth = 128"
    by (simp add: auth_buff_def strncpy_def Let_def M2M_1X_USR_NAME_MAX_def overwrite_def)
  then obtain auth where auth: "auth_buff sectype (wifi_param s) = Inr auth" "length auth = 128" by blast
  then show ?thesis using assms by (simp add: cmd_wifi_connect_def emit_def)
qed

theorem wifi_connect_always_wpa_witness:
  "\<exists>s'. cmd_wifi_connect 0 4 (init_cmd\<lparr>buf_p := ascii ''open'' @ replicate 252 0\<rparr>) = Inr s' \<and>
     (\<exists>auth. outbox s' = [WifiConnect (replicate 33 0) 0 SEC_WPA_PSK auth 255])"
proof -
  have "sectype_of (init_cmd\<lparr>buf_p := ascii ''open'' @ replicate 252 0\<rparr>) 0 4 = Some SEC_OPEN"
    by (simp add: sectype_of_def is_cmd_def cmd_cmp_def Let_def ascii_def)
  from wifi_connect_always_wpa [OF this] show ?thesis by (auto simp: init_cmd_def)
qed

end
