(* ===== verification/Ble_Serial.thy ===== *)
theory Ble_Serial
  imports Cmd "HOL-Library.Sublist"
begin

text \<open>
  The BLE side of the command line, ble.c: the transmit queue of the Nordic UART service
  (\<open>ble_serial_send\<close>, the serial task, the handler of service events), the connection
  state kept by the event handlers, and the device name. The radio is a parameter: for the payloads sent so
  far and the bytes offered it says the error code and how many bytes it took.
\<close>

section \<open>The transmit queue\<close>

record serial =
  sem :: bool
  sbuf :: "u8 list"
  sent :: "u8 list list"

type_synonym nus = "u8 list list \<Rightarrow> u8 list \<Rightarrow> u32 \<times> nat"

definition BUFF_SIZE :: nat where "BUFF_SIZE = 2048"

text \<open>The largest MTU of the configuration, 247, less opcode and handle.\<close>

definition BLE_NUS_MAX_DATA_LEN :: nat where "BLE_NUS_MAX_DATA_LEN = 244"

definition init_serial :: serial where
  "init_serial = \<lparr>sem = True, sbuf = [], sent = []\<rparr>"

text \<open>\<open>ble_nus_data_send\<close>: the error code, the updated length, and what went out.\<close>

definition nus_send :: "nus \<Rightarrow> u8 list \<Rightarrow> serial \<Rightarrow> u32 \<times> nat \<times> serial" where
  "nus_send nus d s = (let (err, l) = nus (sent s) d
     in (err, l, if err = 0 then s\<lparr>sent := sent s @ [take l d]\<rparr> else s))"

definition enqueue :: "u8 list \<Rightarrow> serial \<Rightarrow> bool \<times> serial" where
  "enqueue d s =
     (if length d = 0 then (True, s)
      else if length d < BUFF_SIZE - length (sbuf s) then (True, s\<lparr>sbuf := sbuf s @ d\<rparr>)
      else (False, s))"

text \<open>The result is -1 or the last status, which is 0 whenever it is not -1.\<close>

definition ble_serial_send :: "nus \<Rightarrow> u8 list \<Rightarrow> serial \<Rightarrow> int \<times> serial" where
  "ble_serial_send nus d s =
     (if sem s then
        (let l = min (length d) BLE_NUS_MAX_DATA_LEN;
             (err, l', s1) = nus_send nus (take l d) (s\<lparr>sem := False\<rparr>)
         in if err = 0 then
              (let (ok, s2) = enqueue (drop l' d) s1 in (if ok then 0 else -1, s2))
            else (-1, s1\<lparr>sem := True\<rparr>))
      else (let (ok, s2) = enqueue d s in (if ok then 0 else -1, s2)))"

text \<open>
  One round of \<open>ble_serial_task_fn\<close>; without the semaphore it waits. The rest of a long queue is moved to the front by \<open>memcpy\<close>, which must not be
  used on regions that overlap, as they do when more bytes stay than go.
\<close>

definition ble_serial_task :: "nus \<Rightarrow> serial \<Rightarrow> serial res" where
  "ble_serial_task nus s =
     (if \<not> sem s then Inr s
      else if sbuf s = [] then Inr s
      else if length (sbuf s) < BLE_NUS_MAX_DATA_LEN then
        (let (err, _, s1) = nus_send nus (sbuf s) (s\<lparr>sem := False\<rparr>)
         in Inr (s1\<lparr>sbuf := [], sem := (err \<noteq> 0)\<rparr>))
      else
        (let (err, l', s1) = nus_send nus (take BLE_NUS_MAX_DATA_LEN (sbuf s)) (s\<lparr>sem := False\<rparr>);
             n = (if err = 0 then l' else BLE_NUS_MAX_DATA_LEN)
         in if n < length (sbuf s) - n then Inl Overlap
            else Inr (s1\<lparr>sbuf := drop n (sbuf s), sem := (err \<noteq> 0)\<rparr>)))"

datatype serial_act = Send "u8 list" | Task | TxRdy | CommStarted

fun perform :: "nus \<Rightarrow> serial_act \<Rightarrow> serial \<Rightarrow> serial res" where
  "perform nus (Send d) s = Inr (snd (ble_serial_send nus d s))"
| "perform nus Task s = ble_serial_task nus s"
| "perform nus TxRdy s = Inr (s\<lparr>sem := True\<rparr>)"
| "perform nus CommStarted s = Inr (s\<lparr>sbuf := [], sem := True\<rparr>)"

text \<open>The queue as a transition system: any interleaving of the senders, the task and the radio's events, each as one step.\<close>

inductive serial_step :: "nus \<Rightarrow> serial \<Rightarrow> serial_act \<Rightarrow> serial \<Rightarrow> bool" for nus where
  do_send: "serial_step nus s (Send d) (snd (ble_serial_send nus d s))"
| do_task: "sem s \<Longrightarrow> ble_serial_task nus s = Inr t \<Longrightarrow> serial_step nus s Task t"
| do_ready: "serial_step nus s TxRdy (s\<lparr>sem := True\<rparr>)"
| do_started: "serial_step nus s CommStarted (s\<lparr>sbuf := [], sem := True\<rparr>)"

inductive serial_reach :: "nus \<Rightarrow> serial \<Rightarrow> serial_act list \<Rightarrow> serial \<Rightarrow> bool" for nus where
  start: "serial_reach nus s [] s"
| next_step: "serial_reach nus s as t \<Longrightarrow> serial_step nus t a u \<Longrightarrow> serial_reach nus s (as @ [a]) u"

inductive_cases serial_stepE: "serial_step nus s a t"
inductive_simps serial_step_simps:
  "serial_step nus s (Send d) t" "serial_step nus s Task t" "serial_step nus s TxRdy t" "serial_step nus s CommStarted t"

lemma step_act: "serial_step nus s a t \<Longrightarrow> perform nus a s = Inr t"
  by (erule serial_stepE) simp_all

section \<open>Connection state\<close>

definition BLE_CONN_HANDLE_INVALID :: u16 where "BLE_CONN_HANDLE_INVALID = 0xFFFF"

datatype ble_evt =
    GapConnected u16 | GapDisconnected | GapPhyUpdateRequest u16 | GapSecParamsRequest
  | GattsSysAttrMissing | GattcTimeout u16 | GattsTimeout u16 | OtherEvt

datatype ble_call =
    QwrAssign u16 | PhyUpdate u16 | SecParamsReply u16 | SysAttrSet u16 | GapDisconnect u16 u8

record conn =
  m_conn_handle :: u16
  is_ble_on :: bool
  m_ble_nus_max_data_len :: u16
  calls :: "ble_call list"

text \<open>A SoftDevice call with its error check: a failing call does not return.\<close>

definition sd_call :: "(ble_call \<Rightarrow> u32) \<Rightarrow> ble_call \<Rightarrow> conn \<Rightarrow> conn option" where
  "sd_call sd c s = (if sd c \<noteq> 0 then None else Some (s\<lparr>calls := calls s @ [c]\<rparr>))"

fun ble_evt_handler :: "(ble_call \<Rightarrow> u32) \<Rightarrow> ble_evt \<Rightarrow> conn \<Rightarrow> conn option" where
  "ble_evt_handler sd (GapConnected h) s = sd_call sd (QwrAssign h) (s\<lparr>is_ble_on := True, m_conn_handle := h\<rparr>)"
| "ble_evt_handler sd GapDisconnected s = Some (s\<lparr>is_ble_on := False, m_conn_handle := BLE_CONN_HANDLE_INVALID\<rparr>)"
| "ble_evt_handler sd (GapPhyUpdateRequest h) s = sd_call sd (PhyUpdate h) s"
| "ble_evt_handler sd GapSecParamsRequest s = sd_call sd (SecParamsReply (m_conn_handle s)) s"
| "ble_evt_handler sd GattsSysAttrMissing s = sd_call sd (SysAttrSet (m_conn_handle s)) s"
| "ble_evt_handler sd (GattcTimeout h) s = sd_call sd (GapDisconnect h 0x13) s"
| "ble_evt_handler sd (GattsTimeout h) s = sd_call sd (GapDisconnect h 0x13) s"
| "ble_evt_handler sd OtherEvt s = Some s"

text \<open>\<open>gatt_evt_handler\<close> for an MTU update of a connection: the effective MTU less 3.\<close>

definition gatt_evt_handler :: "u16 \<Rightarrow> bool \<Rightarrow> u16 \<Rightarrow> conn \<Rightarrow> conn" where
  "gatt_evt_handler h mtu_updated mtu s =
     (if m_conn_handle s = h \<and> mtu_updated then s\<lparr>m_ble_nus_max_data_len := mtu - 1 - 2\<rparr> else s)"

text \<open>The connection parameters could not be negotiated: hang up.\<close>

definition on_conn_params_evt :: "(ble_call \<Rightarrow> u32) \<Rightarrow> bool \<Rightarrow> conn \<Rightarrow> conn option" where
  "on_conn_params_evt sd failed s =
     (if failed then sd_call sd (GapDisconnect (m_conn_handle s) 0x3B) s else Some s)"

datatype bsp_evt = BspSleep | BspDisconnect | BspWhitelistOff | BspOther

definition NRF_ERROR_INVALID_STATE :: u32 where "NRF_ERROR_INVALID_STATE = 8"

definition bsp_event_handler :: "(ble_call \<Rightarrow> u32) \<Rightarrow> u32 \<Rightarrow> bsp_evt \<Rightarrow> conn \<Rightarrow> conn option" where
  "bsp_event_handler sd restart e s = (case e of
       BspDisconnect \<Rightarrow> let c = GapDisconnect (m_conn_handle s) 0x13; err = sd c
         in if err \<noteq> NRF_ERROR_INVALID_STATE \<and> err \<noteq> 0 then None else Some (s\<lparr>calls := calls s @ [c]\<rparr>)
     | BspWhitelistOff \<Rightarrow>
         if m_conn_handle s = BLE_CONN_HANDLE_INVALID \<and> restart \<noteq> NRF_ERROR_INVALID_STATE \<and> restart \<noteq> 0
         then None else Some s
     | _ \<Rightarrow> Some s)"

section \<open>The device name\<close>

text \<open>
  \<open>gap_params_init\<close> appends the identifier to the array \<open>"iM-Pulse : "\<close>, which has room for
  its own twelve bytes; \<open>adv_name\<close> is a zeroed array of twelve bytes whose first six are copied from flash.
\<close>

definition strcat :: "u8 list \<Rightarrow> u8 list \<Rightarrow> u8 list res" where
  "strcat dst src =
     (if length dst < Suc (length (c_str dst) + length (c_str src)) then Inl Overwrite
      else Inr (overwrite (length (c_str dst)) (c_str src @ [0]) dst))"

definition gap_name :: "u8 list \<Rightarrow> u8 list res" where
  "gap_name flash_id = strcat (ascii ''iM-Pulse : '' @ [0]) (take 6 flash_id @ replicate 6 0)"

section \<open>Start-up\<close>

datatype ble_init_call =
    SdhEnableRequest | BleCfgSet | SdhBleEnable | RegisterObserver
  | RadioNotificationInit nat nat
  | DeviceNameSet nat
  | PpcpSet nat nat nat nat
  | GattInit | AttMtuPeriphSet nat
  | QwrInit | NusInit | SensorsInit
  | CreateSemaphore string
  | CreateTask string
  | AdvertisingInit nat | ConnCfgTagSet | ConnParamsInit nat nat nat
  | AdvertisingStart

definition ble_stack_init :: "(ble_init_call \<times> bool) list" where
  "ble_stack_init = [(SdhEnableRequest, True), (BleCfgSet, True), (SdhBleEnable, True), (RegisterObserver, False)]"

text \<open>The intervals in units of 1.25 ms, the supervision timeout in units of 10 ms.\<close>

definition gap_params_init :: "(ble_init_call \<times> bool) list" where
  "gap_params_init = [(DeviceNameSet 17, True), (PpcpSet 16 60 0 400, True)]"

definition gatt_init :: "(ble_init_call \<times> bool) list" where
  "gatt_init = [(GattInit, True), (AttMtuPeriphSet 247, True)]"

definition services_init :: "(ble_init_call \<times> bool) list" where
  "services_init = [(QwrInit, True), (NusInit, True), (SensorsInit, True)]"

text \<open>The delays in milliseconds and the number of attempts.\<close>

definition conn_params_init :: "(ble_init_call \<times> bool) list" where
  "conn_params_init = [(ConnParamsInit 5000 30000 3, True)]"

definition advertising_init :: "nat \<Rightarrow> (ble_init_call \<times> bool) list" where
  "advertising_init interval = [(AdvertisingInit interval, True), (ConnCfgTagSet, False)]"

definition ble_init :: "nat \<Rightarrow> (ble_init_call \<Rightarrow> u32) \<Rightarrow> bool \<times> ble_init_call list" where
  "ble_init adv_interval env = checked env
     (ble_stack_init @ [(RadioNotificationInit 2 3620, True)] @ gap_params_init @ gatt_init @ services_init @
      [(CreateSemaphore ''ble_serial_semp'', False), (CreateSemaphore ''ble_serial_buff_semp'', False),
       (CreateSemaphore ''ble_radio_semp'', True), (CreateTask ''ble_serial'', False)] @
      advertising_init adv_interval @ conn_params_init @ [(AdvertisingStart, True)])"

section \<open>Service events\<close>

text \<open>
  \<open>nus_data_handler\<close>: received data is fed to the command line, and what the command line sends
  goes to the queue, in order.
\<close>

definition route :: "nus \<Rightarrow> cmd_out list \<Rightarrow> serial \<Rightarrow> serial" where
  "route nus out s = fold (\<lambda>m s. case m of BleSend d \<Rightarrow> snd (ble_serial_send nus d s) | _ \<Rightarrow> s) out s"

definition nus_rx :: "nus \<Rightarrow> u32 \<Rightarrow> u8 list \<Rightarrow> u8 list \<Rightarrow> cmd_state \<times> serial \<Rightarrow> (cmd_state \<times> serial) res" where
  "nus_rx nus tick text d cs =
     res_bind (cmd_feed tick text d ((fst cs)\<lparr>outbox := []\<rparr>))
       (\<lambda>(_, c). Inr (c, route nus (outbox c) (snd cs)))"

section \<open>Invariants of the queue\<close>

lemma enqueue_bound: "length (sbuf s) < BUFF_SIZE \<Longrightarrow> length (sbuf (snd (enqueue d s))) < BUFF_SIZE"
  by (auto simp: enqueue_def)

lemma nus_send_frame: "nus_send nus d s = (e, l, s1) \<Longrightarrow> sbuf s1 = sbuf s \<and> sem s1 = sem s"
  by (auto simp: nus_send_def Let_def split: prod.splits if_splits)

lemma perform_bound:
  assumes "length (sbuf s) < BUFF_SIZE" "perform nus a s = Inr t"
  shows "length (sbuf t) < BUFF_SIZE"
proof (cases a)
  case (Send d)
  obtain e l s1 where n: "nus_send nus (take (min (length d) BLE_NUS_MAX_DATA_LEN) d) (s\<lparr>sem := False\<rparr>) = (e, l, s1)"
    by (metis prod_cases3)
  from nus_send_frame [OF n] have "length (sbuf s1) < BUFF_SIZE" using assms by simp
  then show ?thesis
    using assms Send n enqueue_bound [of s1] enqueue_bound [of s]
    by (auto simp: ble_serial_send_def Let_def split_beta split: if_splits)
next
  case Task
  then show ?thesis
    using assms by (auto simp: ble_serial_task_def Let_def split_beta BUFF_SIZE_def split: if_splits)
qed (use assms in \<open>auto simp: BUFF_SIZE_def\<close>)

lemma reach_bound: "serial_reach nus s as t \<Longrightarrow> length (sbuf s) < BUFF_SIZE \<Longrightarrow> length (sbuf t) < BUFF_SIZE"
  by (induction rule: serial_reach.induct) (auto dest: step_act intro: perform_bound)

section \<open>Order of the bytes\<close>

definition on_air :: "serial \<Rightarrow> u8 list" where
  "on_air s = concat (sent s) @ sbuf s"

text \<open>The bytes an action adds: those of a send that was not refused, and of a refused one those that went out nevertheless.\<close>

fun accepted :: "nus \<Rightarrow> serial_act \<Rightarrow> serial \<Rightarrow> u8 list" where
  "accepted nus (Send d) s =
     (let (result, t) = ble_serial_send nus d s in if result = 0 then d else concat (drop (length (sent s)) (sent t)))"
| "accepted nus _ s = []"

text \<open>The condition under which the queue keeps the order: nothing is queued while the semaphore is free.\<close>

definition drained :: "serial \<Rightarrow> bool" where
  "drained s \<longleftrightarrow> (sem s \<longrightarrow> sbuf s = [])"

text \<open>A run, the bytes accepted in it, and that the queue is drained whenever a send happens.\<close>

fun run :: "nus \<Rightarrow> serial_act list \<Rightarrow> serial \<Rightarrow> serial res" where
  "run nus [] s = Inr s"
| "run nus (a # as) s = res_bind (perform nus a s) (run nus as)"

fun stream :: "nus \<Rightarrow> serial_act list \<Rightarrow> serial \<Rightarrow> u8 list" where
  "stream nus [] s = []"
| "stream nus (a # as) s = accepted nus a s @ (case perform nus a s of Inl e \<Rightarrow> [] | Inr t \<Rightarrow> stream nus as t)"

fun orderly :: "nus \<Rightarrow> serial_act list \<Rightarrow> serial \<Rightarrow> bool" where
  "orderly nus [] s \<longleftrightarrow> True"
| "orderly nus (a # as) s \<longleftrightarrow> (case a of Send _ \<Rightarrow> drained s | _ \<Rightarrow> True) \<and>
     (case perform nus a s of Inl e \<Rightarrow> True | Inr t \<Rightarrow> orderly nus as t)"

text \<open>Where the task's copy overlaps.\<close>

definition task_overlaps :: "nus \<Rightarrow> serial \<Rightarrow> bool" where
  "task_overlaps nus s \<longleftrightarrow> sem s \<and> BLE_NUS_MAX_DATA_LEN \<le> length (sbuf s) \<and>
     (let (err, l) = nus (sent s) (take BLE_NUS_MAX_DATA_LEN (sbuf s)); n = (if err = 0 then l else BLE_NUS_MAX_DATA_LEN)
      in n < length (sbuf s) - n)"

lemma task_fault: "ble_serial_task nus s = Inl e \<Longrightarrow> e = Overlap \<and> task_overlaps nus s"
  by (auto simp: ble_serial_task_def task_overlaps_def nus_send_def Let_def not_less split: if_splits prod.splits)

lemma perform_fault: "perform nus a s = Inl e \<Longrightarrow> e = Overlap \<and> a = Task \<and> task_overlaps nus s"
  by (cases a) (auto dest: task_fault)

lemma run_fault:
  assumes "run nus as s = Inl e"
  shows "e = Overlap \<and> (\<exists>bs cs t. as = bs @ Task # cs \<and> run nus bs s = Inr t \<and> task_overlaps nus t)"
  using assms
proof (induction as arbitrary: s)
  case (Cons a as)
  show ?case
  proof (cases "perform nus a s")
    case (Inl f)
    then have "e = Overlap" "a = Task" "task_overlaps nus s" using Cons.prems perform_fault [OF Inl] by simp_all
    then have "a # as = [] @ Task # as \<and> run nus [] s = Inr s \<and> task_overlaps nus s" by simp
    then show ?thesis using \<open>e = Overlap\<close> by blast
  next
    case (Inr u)
    then have "run nus as u = Inl e" using Cons.prems by simp
    from Cons.IH [OF this] obtain bs cs t where "e = Overlap" "as = bs @ Task # cs" "run nus bs u = Inr t" "task_overlaps nus t" by blast
    then have "a # as = (a # bs) @ Task # cs \<and> run nus (a # bs) s = Inr t \<and> task_overlaps nus t" using Inr by simp
    then show ?thesis using \<open>e = Overlap\<close> by blast
  qed
qed simp

lemma take_drop_subseq: "n \<le> m \<Longrightarrow> subseq (take n xs @ drop m xs) xs"
proof -
  assume "n \<le> m"
  then have "drop m xs = drop (m - n) (drop n xs)" by simp
  then have "subseq (drop m xs) (drop n xs)" by (metis suffix_drop suffix_imp_subseq)
  then have "subseq (take n xs @ drop m xs) (take n xs @ drop n xs)" by (rule list_emb_append_mono [OF subseq_order.order_refl])
  then show ?thesis by simp
qed

text \<open>
  A send on a drained queue: what it puts on the air and into the queue is, in order, part of what it accepts; all of it if the radio
  takes all it is offered. (A radio never reports more bytes than it was offered.)
\<close>

definition sane :: "nus \<Rightarrow> bool" where
  "sane nus \<longleftrightarrow> (\<forall>hist d. snd (nus hist d) \<le> length d)"

definition takes_all :: nus where
  "takes_all hist d = (0, length d)"

lemma send_on_air:
  assumes "drained s" "sane nus"
  shows "on_air (snd (ble_serial_send nus d s)) = on_air s @ accepted nus (Send d) s"
proof (cases "sem s")
  case True
  obtain e l where n: "nus (sent s) (take (min (length d) BLE_NUS_MAX_DATA_LEN) d) = (e, l)" by fastforce
  have l: "l \<le> min (length d) BLE_NUS_MAX_DATA_LEN" using assms(2) n unfolding sane_def by (metis length_take min.idem min.commute min.left_idem snd_conv)
  have e: "sbuf s = []" using assms(1) True by (simp add: drained_def)
  show ?thesis
    using True e n l by (auto simp: ble_serial_send_def on_air_def enqueue_def nus_send_def Let_def min_def)
next
  case False
  then show ?thesis by (simp add: ble_serial_send_def on_air_def enqueue_def Let_def)
qed

text \<open>The task and the events only take bytes away, and the task takes none from a radio that takes all.\<close>

lemma task_on_air:
  assumes "ble_serial_task nus s = Inr t" "sane nus"
  shows "subseq (on_air t) (on_air s)" and "nus = takes_all \<Longrightarrow> on_air t = on_air s"
proof -
  have l: "snd (nus h d) \<le> length d" for h d using assms(2) by (simp add: sane_def)
  have q: "subseq (take n (take m xs) @ drop n xs) xs" for n m and xs :: "u8 list"
    using take_drop_subseq [of "min n m" n xs] by simp
  have "\<exists>q. on_air t = concat (sent s) @ q \<and> subseq q (sbuf s)"
    using assms(1) l [of "sent s" "take BLE_NUS_MAX_DATA_LEN (sbuf s)"] q prefix_imp_subseq [OF take_is_prefix, of _ "sbuf s"]
      suffix_imp_subseq [OF suffix_drop, of _ "sbuf s"]
    by (auto simp: ble_serial_task_def on_air_def nus_send_def Let_def split: if_splits prod.splits)
  then show "subseq (on_air t) (on_air s)" unfolding on_air_def [of s] by (auto intro: list_emb_append_mono)
  show "nus = takes_all \<Longrightarrow> on_air t = on_air s"
    using assms(1) by (auto simp: ble_serial_task_def on_air_def nus_send_def takes_all_def Let_def min_def split: if_splits)
qed

lemma perform_on_air:
  assumes "perform nus a s = Inr t" "case a of Send _ \<Rightarrow> drained s | _ \<Rightarrow> True" "sane nus"
  shows "subseq (on_air t) (on_air s @ accepted nus a s)"
    and "nus = takes_all \<Longrightarrow> a \<noteq> CommStarted \<Longrightarrow> on_air t = on_air s @ accepted nus a s"
proof -
  have "on_air t = on_air s @ accepted nus a s \<or> (a = Task \<and> ble_serial_task nus s = Inr t) \<or> (a = CommStarted \<and> on_air t = concat (sent s))"
  proof (cases a)
    case (Send d)
    then show ?thesis using assms send_on_air [of s nus d] by (simp del: accepted.simps)
  qed (use assms(1) in \<open>auto simp: on_air_def\<close>)
  then show "subseq (on_air t) (on_air s @ accepted nus a s)"
    "nus = takes_all \<Longrightarrow> a \<noteq> CommStarted \<Longrightarrow> on_air t = on_air s @ accepted nus a s"
    using task_on_air [OF _ assms(3), of s t] by (auto simp: on_air_def)
qed

lemma run_on_air:
  assumes "run nus as s = Inr t" "orderly nus as s" "sane nus"
  shows "subseq (on_air t) (on_air s @ stream nus as s)"
    and "nus = takes_all \<Longrightarrow> CommStarted \<notin> set as \<Longrightarrow> on_air t = on_air s @ stream nus as s"
proof -
  show "subseq (on_air t) (on_air s @ stream nus as s)"
    using assms
  proof (induction as arbitrary: s)
    case (Cons a as)
    obtain u where u: "perform nus a s = Inr u" using Cons.prems(1) by (cases "perform nus a s") auto
    have "subseq (on_air t) (on_air u @ stream nus as u)" using Cons u by auto
    also have "subseq \<dots> ((on_air s @ accepted nus a s) @ stream nus as u)"
      by (rule list_emb_append_mono [OF perform_on_air(1) [OF u _ assms(3)]]) (use Cons.prems(2) in simp_all)
    finally show ?case by (simp add: u)
  qed simp
  show "on_air t = on_air s @ stream nus as s" if "nus = takes_all" "CommStarted \<notin> set as"
    using assms that(2)
  proof (induction as arbitrary: s)
    case (Cons a as)
    obtain u where u: "perform nus a s = Inr u" using Cons.prems(1) by (cases "perform nus a s") auto
    have "on_air t = on_air u @ stream nus as u" using Cons u by auto
    also have "on_air u = on_air s @ accepted nus a s"
      using perform_on_air(2) [OF u _ assms(3) that(1)] Cons.prems(2,4) by auto
    finally show ?case by (simp add: u)
  qed simp
qed

lemma drained_init: "drained init_serial"
  by (simp add: drained_def init_serial_def)

lemma takes_all_sane: "sane takes_all"
  by (simp add: sane_def takes_all_def)

section \<open>Properties\<close>

text \<open>
  In every reachable state, whatever the radio answers and however senders, task and radio events
  interleave, the queue holds fewer than 2048 bytes, so no copy leaves \<open>ble_serial_buff\<close>.
\<close>

lemma serial_queue_bounded:
  assumes "serial_reach nus init_serial as s"
  shows "length (sbuf s) < 2048"
  using reach_bound [OF assms] by (simp add: init_serial_def BUFF_SIZE_def)

theorem serial_queue_bounded_witness:
  "length (sbuf (snd (ble_serial_send takes_all (replicate 300 7) init_serial))) < 2048"
proof -
  have "serial_reach takes_all init_serial ([] @ [Send (replicate 300 7)])
      (snd (ble_serial_send takes_all (replicate 300 7) init_serial))"
    by (rule serial_reach.next_step [OF serial_reach.start do_send])
  then show ?thesis by (rule serial_queue_bounded)
qed

text \<open>
  C27: As long as every send finds the queue empty or the semaphore taken, the bytes on the air followed by those still queued are a subsequence of the
  bytes accepted: nothing is duplicated or reordered by the 244 byte packets, whatever the radio answers (it only never reports more bytes than it was offered)
  and whenever a session starts. Bytes are lost in the
  two ways the code has: the task drops what a failing radio did not take, and a new session empties the queue. With a radio that takes
  all it is offered and no new session they are exactly the bytes accepted. The only fault is the task's overlapping copy of a queue that was
  more than twice the packet.
\<close>

theorem serial_fifo:
  assumes "orderly nus as init_serial" "sane nus"
  shows "case run nus as init_serial of
      Inl e \<Rightarrow> e = Overlap \<and> (\<exists>bs cs t. as = bs @ Task # cs \<and> run nus bs init_serial = Inr t \<and> task_overlaps nus t)
    | Inr t \<Rightarrow> subseq (concat (sent t) @ sbuf t) (stream nus as init_serial) \<and>
        (nus = takes_all \<and> CommStarted \<notin> set as \<longrightarrow> concat (sent t) @ sbuf t = stream nus as init_serial)"
proof (cases "run nus as init_serial")
  case (Inl e)
  then show ?thesis using run_fault [OF Inl] by simp
next
  case (Inr t)
  then show ?thesis using run_on_air [OF Inr assms] by (simp add: on_air_def init_serial_def)
qed

text \<open>A long message in two packets, and one that a failing radio cuts.\<close>

definition deaf :: nus where
  "deaf hist d = (if hist = [] then (0, length d) else (1, 0))"

lemma serial_fifo_witness:
  "(\<exists>t. run takes_all [Send (replicate 300 1), TxRdy, Task] init_serial = Inr t \<and> concat (sent t) = replicate 300 1) \<and>
   (\<exists>t. run deaf [Send (replicate 300 1), TxRdy, Task] init_serial = Inr t \<and> subseq (concat (sent t)) (replicate 300 1))"
proof -
  note defs = init_serial_def ble_serial_send_def enqueue_def BLE_NUS_MAX_DATA_LEN_def BUFF_SIZE_def ble_serial_task_def nus_send_def Let_def
  have o: "orderly takes_all [Send (replicate 300 1), TxRdy, Task] init_serial" "orderly deaf [Send (replicate 300 1), TxRdy, Task] init_serial"
    by (simp_all add: drained_init split: sum.split)
  obtain t where t: "run takes_all [Send (replicate 300 1), TxRdy, Task] init_serial = Inr t" "sbuf t = []"
    by (simp add: defs takes_all_def)
  obtain u where u: "run deaf [Send (replicate 300 1), TxRdy, Task] init_serial = Inr u" "sbuf u = []"
    by (simp add: defs deaf_def)
  have s: "stream takes_all [Send (replicate 300 1), TxRdy, Task] init_serial = replicate 300 1"
    "stream deaf [Send (replicate 300 1), TxRdy, Task] init_serial = replicate 300 1"
    by (simp_all add: defs takes_all_def deaf_def)
  have "sane deaf" by (simp add: sane_def deaf_def)
  then show ?thesis
    using serial_fifo [OF o(1) takes_all_sane, unfolded t(1) s(1) sum.case] serial_fifo [OF o(2), unfolded u(1) s(2) sum.case] t u
    by (simp del: run.simps)
qed

text \<open>A radio that takes all leaves the copy its room up to 488 queued bytes.\<close>

lemma overlap_length: "task_overlaps takes_all s \<longleftrightarrow> sem s \<and> 488 < length (sbuf s)"
  by (auto simp: task_overlaps_def takes_all_def BLE_NUS_MAX_DATA_LEN_def)

text \<open>A packet the radio refuses takes the whole queue with it, so the bytes of a later send follow a gap.\<close>

lemma serial_drops:
  assumes "length b = 244" "0 < length c" "length c < 244"
  shows "run deaf [Send (b @ c), TxRdy, Task] init_serial = Inr \<lparr>sem = True, sbuf = [], sent = [b]\<rparr>"
  using assms by (simp add: init_serial_def ble_serial_send_def enqueue_def BLE_NUS_MAX_DATA_LEN_def BUFF_SIZE_def
      ble_serial_task_def nus_send_def deaf_def Let_def)

text \<open>
  The condition matters: when the radio reports ready while bytes are queued, the next send overtakes
  them, for any bytes \<open>b\<close> and \<open>c\<close>.
\<close>

lemma serial_overtakes:
  assumes "length b = 244" "0 < length c" "length c < 244" "0 < length d" "length d < 244"
  shows "\<exists>t. run takes_all [Send (b @ c), TxRdy, Send d, TxRdy, Task] init_serial = Inr t \<and> concat (sent t) = b @ d @ c"
  using assms by (simp add: init_serial_def ble_serial_send_def enqueue_def BLE_NUS_MAX_DATA_LEN_def BUFF_SIZE_def
      ble_serial_task_def nus_send_def takes_all_def Let_def)

lemma serial_overtakes_witness:
  "\<exists>t. run takes_all [Send (replicate 244 1 @ [2]), TxRdy, Send [3], TxRdy, Task] init_serial = Inr t \<and>
     concat (sent t) = replicate 244 1 @ [3, 2]"
  using serial_overtakes [of "replicate 244 1" "[2]" "[3]"] by simp

end
