(* ===== verification/Ble_Sensors.thy ===== *)
theory Ble_Sensors
  imports Debounce
begin

text \<open>
  ble_sensors.c: the GATT characteristic for the sensor packets and \<open>ble_sensors_update\<close>, which
  picks the packet of the configured system, blanks the phases it does not have, and
  notifies it. The SoftDevice is a parameter: the error code of each call.
\<close>

section \<open>The service\<close>

datatype gatts_call =
    UuidVsAdd
  | ServiceAdd u16
  | CharacteristicAdd u16 nat nat
  | DescriptorAdd nat

definition BLE_UUID_SENSORS_SERVICE :: u16 where "BLE_UUID_SENSORS_SERVICE = 0x11"
definition BLE_UUID_SENSORS_CHARACTERISTIC :: u16 where "BLE_UUID_SENSORS_CHARACTERISTIC = 0x12"

definition BLE_SENSORS_DESCRIPTOR_STR :: string where
  "BLE_SENSORS_DESCRIPTOR_STR = ''rarh10;radb10;sarh10;sadb10;oarh10;oadb10;dlt10;dlt20;dlt30;dlt40;sltc11;sltc21;sltc31;sltc41;lltc11;lltc21;lltc31;lltc41;spc11;spc21;spc31;spc41;llpc11;llpc21;llpc31;llpc41;iUei1;iUei2;iUei3;uUei1;uUei2;uUei3;powerFactor;activeWatts;apparentWatts;reactiveWatts;atmpres;''"

text \<open>The value starts with the size of the largest packet and may not grow.\<close>

definition sensors_char_add :: "(gatts_call \<Rightarrow> u32) \<Rightarrow> u32 \<times> gatts_call list" where
  "sensors_char_add sd =
     (let n = sizeof_state 4;
          c = CharacteristicAdd BLE_UUID_SENSORS_CHARACTERISTIC n n;
          d = DescriptorAdd (length BLE_SENSORS_DESCRIPTOR_STR + 1)
      in if sd c \<noteq> 0 then (sd c, [c]) else (sd d, [c, d]))"

text \<open>The error of \<open>sd_ble_uuid_vs_add\<close> is overwritten by the next call's.\<close>

definition ble_sensors_init :: "(gatts_call \<Rightarrow> u32) \<Rightarrow> u32 \<times> gatts_call list" where
  "ble_sensors_init sd =
     (let s = ServiceAdd BLE_UUID_SENSORS_SERVICE
      in if sd s \<noteq> 0 then (sd s, [UuidVsAdd, s])
         else let (err, cs) = sensors_char_add sd in (err, [UuidVsAdd, s] @ cs))"

section \<open>The update\<close>

definition str_is :: "u8 list \<Rightarrow> string \<Rightarrow> bool" where
  "str_is a t \<longleftrightarrow> c_str a = ascii t"

definition set_state :: "nat \<Rightarrow> (packet \<Rightarrow> packet) \<Rightarrow> sensors \<Rightarrow> sensors" where
  "set_state k g s =
     (if k = 1 then s\<lparr>sensors_state1 := g (sensors_state1 s)\<rparr>
      else if k = 2 then s\<lparr>sensors_state2 := g (sensors_state2 s)\<rparr>
      else if k = 3 then s\<lparr>sensors_state3 := g (sensors_state3 s)\<rparr>
      else s\<lparr>sensors_state4 := g (sensors_state4 s)\<rparr>)"

definition blank :: "sfield list \<Rightarrow> packet \<Rightarrow> packet" where
  "blank fs p = fold (\<lambda>f. put f lost_value) fs p"

text \<open>Blank fields of packet \<open>k\<close> and notify it; without a packet the parameters stay zero.\<close>

definition notify :: "nat \<Rightarrow> sfield list \<Rightarrow> sensors \<Rightarrow> (nat \<times> (u8 \<times> cfloat) list) option \<times> sensors" where
  "notify k fs s = (let s1 = set_state k (blank fs) s in (Some (sizeof_state k, serialise k (state_of k s1)), s1))"

definition ble_sensors_update ::
  "u8 list \<Rightarrow> u8 list \<Rightarrow> sensors \<Rightarrow> (nat \<times> (u8 \<times> cfloat) list) option \<times> sensors" where
  "ble_sensors_update reset_pulse config s =
     (let is = str_is config in
      if str_is reset_pulse ''reset_pulse!'' then (None, s)
      else if is ''config[circuit:1,phase:1,voltage:120,frequen:60]'' then notify 1 [uUei2, uUei3, iUei2, iUei3] s
      else if is ''config[circuit:1,phase:1,voltage:240,frequen:60]'' \<or> is ''config[circuit:1,phase:1,voltage:460,frequen:60]'' \<or>
              is ''config[circuit:1,phase:1,voltage:240,frequen:50]'' then notify 1 [uUei3, iUei3] s
      else if is ''config[circuit:1,phase:3,voltage:240,frequen:60]'' \<or> is ''config[circuit:1,phase:3,voltage:460,frequen:60]'' \<or>
              is ''config[circuit:1,phase:3,voltage:460,frequen:50]'' then notify 1 [] s
      else if is ''config[circuit:2,phase:1,voltage:120,frequen:60]'' then notify 2 [uUei2, uUei3, iUei2, iUei3] s
      else if is ''config[circuit:2,phase:1,voltage:240,frequen:60]'' \<or> is ''config[circuit:2,phase:1,voltage:460,frequen:60]'' \<or>
              is ''config[circuit:2,phase:1,voltage:240,frequen:50]'' then notify 2 [uUei3, iUei3] s
      else if is ''config[circuit:2,phase:3,voltage:240,frequen:60]'' \<or> is ''config[circuit:2,phase:3,voltage:460,frequen:60]'' \<or>
              is ''config[circuit:2,phase:3,voltage:460,frequen:50]'' then notify 2 [] s
      else if is ''config[circuit:3,phase:1,voltage:120,frequen:60]'' then notify 3 [uUei2, uUei3, iUei2, iUei3] s
      else if is ''config[circuit:3,phase:1,voltage:240,frequen:60]'' \<or> is ''config[circuit:3,phase:1,voltage:460,frequen:60]'' \<or>
              is ''config[circuit:3,phase:1,voltage:240,frequen:50]'' then notify 3 [uUei3, iUei3] s
      else if is ''config[circuit:3,phase:3,voltage:240,frequen:60]'' \<or> is ''config[circuit:3,phase:3,voltage:460,frequen:60]'' \<or>
              is ''config[circuit:3,phase:3,voltage:460,frequen:50]'' then notify 3 [] s
      else if is ''config[circuit:4,phase:1,voltage:120,frequen:60]'' then notify 4 [uUei2, uUei3, iUei2, iUei3] s
      else if is ''config[circuit:4,phase:1,voltage:240,frequen:60]'' \<or> is ''config[circuit:4,phase:1,voltage:460,frequen:60]'' \<or>
              is ''config[circuit:4,phase:1,voltage:240,frequen:50]'' then notify 4 [uUei3, iUei3] s
      else if is ''config[circuit:4,phase:3,voltage:240,frequen:60]'' \<or> is ''config[circuit:4,phase:3,voltage:460,frequen:60]'' \<or>
              is ''config[circuit:4,phase:3,voltage:460,frequen:50]'' then notify 4 [] s
      else (None, s))"

section \<open>Configurations\<close>

text \<open>The configuration string of a system with \<open>k\<close> circuits, and the phases it does not have.\<close>

definition digits3 :: "nat \<Rightarrow> string" where
  "digits3 n = (if n = 120 then ''120'' else if n = 240 then ''240'' else ''460'')"

definition config_text :: "nat \<Rightarrow> nat \<Rightarrow> nat \<Rightarrow> nat \<Rightarrow> string" where
  "config_text k phase voltage freq =
     ''config[circuit:'' @ (if k = 1 then ''1'' else if k = 2 then ''2'' else if k = 3 then ''3'' else ''4'') @
     '',phase:'' @ (if phase = 1 then ''1'' else ''3'') @ '',voltage:'' @ digits3 voltage @
     '',frequen:'' @ (if freq = 50 then ''50'' else ''60'') @ '']''"

definition missing_phases :: "(nat \<times> nat \<times> nat \<times> sfield list) list" where
  "missing_phases =
     [(1, 120, 60, [uUei2, uUei3, iUei2, iUei3]),
      (1, 240, 60, [uUei3, iUei3]), (1, 460, 60, [uUei3, iUei3]), (1, 240, 50, [uUei3, iUei3]),
      (3, 240, 60, []), (3, 460, 60, []), (3, 460, 50, [])]"

lemma str_is_text: "CHR 0x00 \<notin> set t \<Longrightarrow> str_is (ascii t @ 0 # r) u \<longleftrightarrow> t = u"
  by (simp add: str_is_def c_str_ascii ascii_inj)

text \<open>The branch of the code that a text selects.\<close>

definition selected :: "string \<Rightarrow> (nat \<times> sfield list) option" where
  "selected t =
     (if t = ''config[circuit:1,phase:1,voltage:120,frequen:60]'' then Some (1, [uUei2, uUei3, iUei2, iUei3])
      else if t = ''config[circuit:1,phase:1,voltage:240,frequen:60]'' \<or> t = ''config[circuit:1,phase:1,voltage:460,frequen:60]'' \<or>
              t = ''config[circuit:1,phase:1,voltage:240,frequen:50]'' then Some (1, [uUei3, iUei3])
      else if t = ''config[circuit:1,phase:3,voltage:240,frequen:60]'' \<or> t = ''config[circuit:1,phase:3,voltage:460,frequen:60]'' \<or>
              t = ''config[circuit:1,phase:3,voltage:460,frequen:50]'' then Some (1, [])
      else if t = ''config[circuit:2,phase:1,voltage:120,frequen:60]'' then Some (2, [uUei2, uUei3, iUei2, iUei3])
      else if t = ''config[circuit:2,phase:1,voltage:240,frequen:60]'' \<or> t = ''config[circuit:2,phase:1,voltage:460,frequen:60]'' \<or>
              t = ''config[circuit:2,phase:1,voltage:240,frequen:50]'' then Some (2, [uUei3, iUei3])
      else if t = ''config[circuit:2,phase:3,voltage:240,frequen:60]'' \<or> t = ''config[circuit:2,phase:3,voltage:460,frequen:60]'' \<or>
              t = ''config[circuit:2,phase:3,voltage:460,frequen:50]'' then Some (2, [])
      else if t = ''config[circuit:3,phase:1,voltage:120,frequen:60]'' then Some (3, [uUei2, uUei3, iUei2, iUei3])
      else if t = ''config[circuit:3,phase:1,voltage:240,frequen:60]'' \<or> t = ''config[circuit:3,phase:1,voltage:460,frequen:60]'' \<or>
              t = ''config[circuit:3,phase:1,voltage:240,frequen:50]'' then Some (3, [uUei3, iUei3])
      else if t = ''config[circuit:3,phase:3,voltage:240,frequen:60]'' \<or> t = ''config[circuit:3,phase:3,voltage:460,frequen:60]'' \<or>
              t = ''config[circuit:3,phase:3,voltage:460,frequen:50]'' then Some (3, [])
      else if t = ''config[circuit:4,phase:1,voltage:120,frequen:60]'' then Some (4, [uUei2, uUei3, iUei2, iUei3])
      else if t = ''config[circuit:4,phase:1,voltage:240,frequen:60]'' \<or> t = ''config[circuit:4,phase:1,voltage:460,frequen:60]'' \<or>
              t = ''config[circuit:4,phase:1,voltage:240,frequen:50]'' then Some (4, [uUei3, iUei3])
      else if t = ''config[circuit:4,phase:3,voltage:240,frequen:60]'' \<or> t = ''config[circuit:4,phase:3,voltage:460,frequen:60]'' \<or>
              t = ''config[circuit:4,phase:3,voltage:460,frequen:50]'' then Some (4, [])
      else None)"

lemma update_selected:
  assumes "CHR 0x00 \<notin> set t" and "\<not> str_is reset ''reset_pulse!''"
  shows "ble_sensors_update reset (ascii t @ 0 # r) s =
     (case selected t of None \<Rightarrow> (None, s) | Some (k, fs) \<Rightarrow> notify k fs s)"
  unfolding ble_sensors_update_def selected_def Let_def str_is_text [OF assms(1)] if_not_P [OF assms(2)]
  by (simp only: if_distrib [of "case_option _ _"] option.case prod.case cong: if_cong)

lemma selected_configs:
  "\<forall>(p, v, q, fs) \<in> set missing_phases. selected (config_text 1 p v q) = Some (1, fs)"
  "\<forall>(p, v, q, fs) \<in> set missing_phases. selected (config_text 2 p v q) = Some (2, fs)"
  "\<forall>(p, v, q, fs) \<in> set missing_phases. selected (config_text 3 p v q) = Some (3, fs)"
  "\<forall>(p, v, q, fs) \<in> set missing_phases. selected (config_text 4 p v q) = Some (4, fs)"
  by code_simp+

lemma config_selected:
  assumes "k \<in> {1..4}" and "(p, v, q, fs) \<in> set missing_phases"
  shows "selected (config_text k p v q) = Some (k, fs)"
  using struct_cases [OF assms(1)] assms(2) selected_configs by fastforce

lemma config_no_nul: "CHR 0x00 \<notin> set (config_text k p v q)"
  by (simp add: config_text_def digits3_def)

lemma blank_simps [simp]:
  "pval (blank fs p) g = (if g \<in> set fs then lost_value else pval p g)" "pkey (blank fs p) = pkey p"
  unfolding blank_def by (induction fs arbitrary: p) auto

lemma set_state_simps:
  "k \<in> {1..4} \<Longrightarrow> j \<in> {1..4} \<Longrightarrow> state_of j (set_state k g s) = (if j = k then g (state_of j s) else state_of j s)"
  by (auto simp: set_state_def)

section \<open>Properties\<close>

text \<open>
  For each of the 28 configurations the app can send, \<open>ble_sensors_update\<close> notifies the packet of the
  configured number of circuits in struct order, with exactly the phases the system lacks
  replaced by the sentinel, and changes no other packet.
\<close>

lemma ble_update_configured:
  assumes "k \<in> {1..4}" and "(p, v, q, fs) \<in> set missing_phases"
    and "config = ascii (config_text k p v q) @ 0 # r" and "\<not> str_is reset ''reset_pulse!''"
  shows "let (payload, s') = ble_sensors_update reset config s
         in payload = Some (5 * length (layout_of k),
              map (\<lambda>(n, f). (pkey (state_of k s) n, if f \<in> set fs then lost_value else pval (state_of k s) f)) (layout_of k)) \<and>
            (\<forall>j \<in> {1..4}. j \<noteq> k \<longrightarrow> state_of j s' = state_of j s)"
proof -
  have "ble_sensors_update reset config s = notify k fs s"
    unfolding assms(3) update_selected [OF config_no_nul assms(4)] config_selected [OF assms(1,2)] by simp
  then show ?thesis
    using assms(1)
    by (simp add: notify_def Let_def sizeof_state_def serialise_def set_state_simps del: state_of.simps layout_of.simps)
qed

theorem ble_update_configured_witness:
  "fst (the (fst (ble_sensors_update (replicate 30 0)
     (ascii ''config[circuit:2,phase:1,voltage:240,frequen:60]'' @ 0 # replicate 191 0) init_sensors))) = 125"
proof -
  have "config_text 2 1 240 60 = ''config[circuit:2,phase:1,voltage:240,frequen:60]''" by code_simp
  moreover have "(1, 240, 60, [uUei3, iUei3]) \<in> set missing_phases" by (simp add: missing_phases_def)
  moreover have "\<not> str_is (replicate 30 0) ''reset_pulse!''" by (simp add: str_is_def c_str_def ascii_def)
  ultimately show ?thesis
    using ble_update_configured [of 2 1 240 60 "[uUei3, iUei3]" _ "replicate 191 0" "replicate 30 0" init_sensors]
    by (simp add: split_beta Let_def layout_t2_def del: state_of.simps layout_of.simps)
qed

end
