(* ===== verification/Request.thy ===== *)
theory Request
  imports Ble_Sensors
begin

text \<open>
  The HTTP request: the format strings and \<open>prepare_data_string_*\<close> functions of tcptest.c and the part of
  \<open>socket_test_task\<close> in socket_test.c that builds the header and chooses the body for the
  configured system. Text is a \<open>string\<close>; the printing of floats follows \<open>%0.nf\<close>.
\<close>

section \<open>Printing\<close>

fun show_nat :: "nat \<Rightarrow> string" where
  "show_nat n = (if n < 10 then [char_of (48 + n)] else show_nat (n div 10) @ [char_of (48 + n mod 10)])"

declare show_nat.simps [simp del]

text \<open>The last \<open>n\<close> decimal digits.\<close>

fun last_digits :: "nat \<Rightarrow> nat \<Rightarrow> string" where
  "last_digits 0 m = []"
| "last_digits (Suc n) m = last_digits n (m div 10) @ [char_of (48 + m mod 10 :: nat)]"

text \<open>\<open>%0.nf\<close>: the exact value rounded to \<open>n\<close> decimals, ties to even; the sign of a negative value is kept.\<close>

fun fmt_f :: "nat \<Rightarrow> cfloat \<Rightarrow> string" where
  "fmt_f n NaN = ''nan''"
| "fmt_f n (Fin q) =
     (let m = nat (round_half_even (\<bar>q\<bar> * 10 ^ n))
      in (if q < 0 then ''-'' else []) @ show_nat (m div 10 ^ n) @ ''.'' @ last_digits n m)"

definition tab :: string where "tab = [CHR 0x09]"
definition nl :: string where "nl = [CHR 0x0A]"
definition quoted :: "string \<Rightarrow> string" where "quoted s = CHR 0x22 # s @ [CHR 0x22]"

text \<open>One line \<open>\t\t"name": %0.2f,\n\<close> of the data object.\<close>

definition field_line :: "string \<Rightarrow> cfloat \<Rightarrow> string" where
  "field_line name v = tab @ tab @ quoted name @ '': '' @ fmt_f 2 v @ '','' @ nl"

section \<open>The parts of the body\<close>

text \<open>Token and pulse number are given as the texts their arrays hold; \<open>make_request\<close> below takes them from the arrays.\<close>

definition prepare_data_string_circuit1 :: "string \<Rightarrow> string \<Rightarrow> (sfield \<Rightarrow> cfloat) \<Rightarrow> string" where
  "prepare_data_string_circuit1 token pulse st =
     ''{'' @ nl @ tab @ quoted ''token'' @ '':'' @ quoted token @ '','' @ nl @
     tab @ quoted ''pulseID'' @ '': '' @ quoted pulse @ '','' @ nl @
     tab @ quoted ''data'' @ '':{'' @ nl @
     field_line ''rarh-1'' (st rarh10) @ field_line ''radb-1'' (st radb10) @
     field_line ''sarh-1'' (st sarh10) @ field_line ''sadb-1'' (st sadb10) @
     field_line ''oarh-1'' (st oarh10) @ field_line ''oadb-1'' (st oadb10) @
     field_line ''spc-1'' (st spc11) @ field_line ''llpc-1'' (st llpc11) @
     field_line ''sltc-1'' (st sltc11) @ field_line ''lltc-1'' (st lltc11) @
     field_line ''to'' (st wire1_orange) @ field_line ''tw'' (st wire2_white) @ field_line ''ty'' (st wire3_yellow)"

definition prepare_data_string_circuit2 :: "(sfield \<Rightarrow> cfloat) \<Rightarrow> string" where
  "prepare_data_string_circuit2 st =
     field_line ''spc-2'' (st spc21) @ field_line ''llpc-2'' (st llpc21) @
     field_line ''sltc-2'' (st sltc21) @ field_line ''lltc-2'' (st lltc21)"

definition prepare_data_string_circuit3 :: "(sfield \<Rightarrow> cfloat) \<Rightarrow> string" where
  "prepare_data_string_circuit3 st =
     field_line ''spc-3'' (st spc31) @ field_line ''llpc-3'' (st llpc31) @
     field_line ''sltc-3'' (st sltc31) @ field_line ''lltc-3'' (st lltc31)"

definition prepare_data_string_circuit4 :: "(sfield \<Rightarrow> cfloat) \<Rightarrow> string" where
  "prepare_data_string_circuit4 st =
     field_line ''spc-4'' (st spc41) @ field_line ''llpc-4'' (st llpc41) @
     field_line ''sltc-4'' (st sltc41) @ field_line ''lltc-4'' (st lltc41)"

definition prepare_data_string_phase1 :: "(sfield \<Rightarrow> cfloat) \<Rightarrow> string" where
  "prepare_data_string_phase1 st = field_line ''volts-1'' (st uUei1) @ field_line ''amps-1'' (st iUei1)"

definition prepare_data_string_phase2 :: "(sfield \<Rightarrow> cfloat) \<Rightarrow> string" where
  "prepare_data_string_phase2 st = field_line ''volts-2'' (st uUei2) @ field_line ''amps-2'' (st iUei2)"

definition prepare_data_string_phase3 :: "(sfield \<Rightarrow> cfloat) \<Rightarrow> string" where
  "prepare_data_string_phase3 st = field_line ''volts-3'' (st uUei3) @ field_line ''amps-3'' (st iUei3)"

definition prepare_data_string_last :: "(sfield \<Rightarrow> cfloat) \<Rightarrow> string" where
  "prepare_data_string_last st =
     tab @ tab @ quoted ''pf'' @ '': '' @ fmt_f 3 (st powerFactor) @ '','' @ nl @
     tab @ tab @ quoted ''watts'' @ '': '' @ fmt_f 2 (st activeWatts) @ nl @
     tab @ ''}'' @ nl @ ''}'' @ nl"

definition prepare_data_check_internet :: "string \<Rightarrow> string \<Rightarrow> string" where
  "prepare_data_check_internet token pulse =
     ''{'' @ nl @ tab @ tab @ quoted ''token'' @ '':'' @ quoted token @ '','' @ nl @
     tab @ tab @ quoted ''pulseID'' @ '':'' @ quoted pulse @ nl @ tab @ ''}'' @ nl"

section \<open>The request\<close>

text \<open>
  The header, printed into an array of 200 bytes. It then is a format string itself, printed with the content length as the only argument.
\<close>

definition header_before :: "string \<Rightarrow> string" where
  "header_before link = ''POST  /Pulse/Data HTTP/1.1'' @ nl @ ''Host:  '' @ link @ nl @
     ''Content-Type: application/json'' @ nl @ ''Content-Length: ''"

definition header_fits :: "string \<Rightarrow> bool" where
  "header_fits link \<longleftrightarrow> length (header_before link @ ''%i'' @ nl @ nl) + 1 \<le> 200"

text \<open>
  A format string with at most one integer argument: two percent signs print one, the conversion \<open>%i\<close> takes the argument. Every other conversion would
  need an argument as well, or is none: undefined, as is a second \<open>%i\<close>.
\<close>

fun printf_i :: "string \<Rightarrow> nat option \<Rightarrow> string res" where
  "printf_i [] arg = Inr []"
| "printf_i (c # cs) arg =
     (if c \<noteq> CHR ''%'' then res_bind (printf_i cs arg) (\<lambda>t. Inr (c # t))
      else case cs of
        [] \<Rightarrow> Inl BadFormat
      | d # ds \<Rightarrow>
          if d = CHR ''%'' then res_bind (printf_i ds arg) (\<lambda>t. Inr (d # t))
          else if d = CHR ''i'' then
            (case arg of None \<Rightarrow> Inl BadFormat | Some n \<Rightarrow> res_bind (printf_i ds None) (\<lambda>t. Inr (show_nat n @ t)))
          else Inl BadFormat)"

definition http_data_req :: "string \<Rightarrow> nat \<Rightarrow> string res" where
  "http_data_req link n = printf_i (header_before link @ ''%i'' @ nl @ nl) (Some n)"

datatype part = Circuit1 | Circuit2 | Circuit3 | Circuit4 | Phase1 | Phase2 | Phase3 | Last

fun part_text :: "string \<Rightarrow> string \<Rightarrow> (sfield \<Rightarrow> cfloat) \<Rightarrow> part \<Rightarrow> string" where
  "part_text token pulse st Circuit1 = prepare_data_string_circuit1 token pulse st"
| "part_text token pulse st Circuit2 = prepare_data_string_circuit2 st"
| "part_text token pulse st Circuit3 = prepare_data_string_circuit3 st"
| "part_text token pulse st Circuit4 = prepare_data_string_circuit4 st"
| "part_text token pulse st Phase1 = prepare_data_string_phase1 st"
| "part_text token pulse st Phase2 = prepare_data_string_phase2 st"
| "part_text token pulse st Phase3 = prepare_data_string_phase3 st"
| "part_text token pulse st Last = prepare_data_string_last st"

text \<open>The parts the code prints and concatenates for a configuration string.\<close>

definition body_parts :: "string \<Rightarrow> part list option" where
  "body_parts t =
     (if t = ''config[circuit:1,phase:1,voltage:120,frequen:60]'' then Some [Circuit1, Phase1, Last]
      else if t = ''config[circuit:1,phase:1,voltage:240,frequen:60]'' \<or> t = ''config[circuit:1,phase:1,voltage:460,frequen:60]'' \<or>
              t = ''config[circuit:1,phase:1,voltage:240,frequen:50]'' then Some [Circuit1, Phase1, Phase2, Last]
      else if t = ''config[circuit:1,phase:3,voltage:240,frequen:60]'' \<or> t = ''config[circuit:1,phase:3,voltage:460,frequen:60]'' \<or>
              t = ''config[circuit:1,phase:3,voltage:460,frequen:50]'' then Some [Circuit1, Phase1, Phase2, Phase3, Last]
      else if t = ''config[circuit:2,phase:1,voltage:120,frequen:60]'' then Some [Circuit1, Circuit2, Phase1, Last]
      else if t = ''config[circuit:2,phase:1,voltage:240,frequen:60]'' \<or> t = ''config[circuit:2,phase:1,voltage:460,frequen:60]'' \<or>
              t = ''config[circuit:2,phase:1,voltage:240,frequen:50]'' then Some [Circuit1, Circuit2, Phase1, Phase2, Last]
      else if t = ''config[circuit:2,phase:3,voltage:240,frequen:60]'' \<or> t = ''config[circuit:2,phase:3,voltage:460,frequen:60]'' \<or>
              t = ''config[circuit:2,phase:3,voltage:460,frequen:50]'' then Some [Circuit1, Circuit2, Phase1, Phase2, Phase3, Last]
      else if t = ''config[circuit:3,phase:1,voltage:120,frequen:60]'' then Some [Circuit1, Circuit2, Circuit3, Phase1, Last]
      else if t = ''config[circuit:3,phase:1,voltage:240,frequen:60]'' \<or> t = ''config[circuit:3,phase:1,voltage:460,frequen:60]'' \<or>
              t = ''config[circuit:3,phase:1,voltage:240,frequen:50]'' then Some [Circuit1, Circuit2, Circuit3, Phase1, Phase2, Last]
      else if t = ''config[circuit:3,phase:3,voltage:240,frequen:60]'' \<or> t = ''config[circuit:3,phase:3,voltage:460,frequen:60]'' \<or>
              t = ''config[circuit:3,phase:3,voltage:460,frequen:50]'' then Some [Circuit1, Circuit2, Circuit3, Phase1, Phase2, Phase3, Last]
      else if t = ''config[circuit:4,phase:1,voltage:120,frequen:60]'' then Some [Circuit1, Circuit2, Circuit3, Circuit4, Phase1, Last]
      else if t = ''config[circuit:4,phase:1,voltage:240,frequen:60]'' \<or> t = ''config[circuit:4,phase:1,voltage:460,frequen:60]'' \<or>
              t = ''config[circuit:4,phase:1,voltage:240,frequen:50]'' then Some [Circuit1, Circuit2, Circuit3, Circuit4, Phase1, Phase2, Last]
      else if t = ''config[circuit:4,phase:3,voltage:240,frequen:60]'' \<or> t = ''config[circuit:4,phase:3,voltage:460,frequen:60]'' \<or>
              t = ''config[circuit:4,phase:3,voltage:460,frequen:50]'' then Some [Circuit1, Circuit2, Circuit3, Circuit4, Phase1, Phase2, Phase3, Last]
      else None)"

text \<open>
  What \<open>txbuff\<close> holds after the configuration was examined: the request, or its old content for
  an unknown configuration. The values always come from \<open>sensors_state4\<close>. Every part is printed into
  an array of 1024 bytes and the whole into \<open>txbuff\<close> of 2048.
\<close>

definition build_request ::
  "string \<Rightarrow> string \<Rightarrow> string \<Rightarrow> string \<Rightarrow> sensors \<Rightarrow> string \<Rightarrow> string res" where
  "build_request link token pulse config s txbuff =
     (let texts = map (part_text token pulse (pval (sensors_state4 s)))
      in if \<not> header_fits link then Inl Overwrite
         else case body_parts config of
           None \<Rightarrow> Inr txbuff
         | Some ps \<Rightarrow>
             if \<exists>t \<in> set (texts ps). 1024 \<le> length t then Inl Overwrite
             else res_bind (http_data_req link (sum_list (map length (texts ps))))
               (\<lambda>h. if 2048 \<le> length (h @ concat (texts ps)) then Inl Overwrite else Inr (h @ concat (texts ps))))"

text \<open>
  The same over the arrays the task really has: \<open>%s\<close> and \<open>strcmp\<close> read up to the first zero byte, and past the end of an array without one. Link
  and header come first; token and pulse number are printed only for a known configuration.
\<close>

definition text_of :: "string \<Rightarrow> string" where
  "text_of a = takeWhile (\<lambda>c. c \<noteq> CHR 0x00) a"

definition c_text :: "string \<Rightarrow> string res" where
  "c_text a = (if CHR 0x00 \<in> set a then Inr (text_of a) else Inl Overread)"

definition make_request ::
  "string \<Rightarrow> string \<Rightarrow> string \<Rightarrow> string \<Rightarrow> sensors \<Rightarrow> string \<Rightarrow> string res" where
  "make_request link token pulse config s txbuff =
     res_bind (c_text link) (\<lambda>l.
       if \<not> header_fits l then Inl Overwrite
       else case body_parts (text_of config) of
         None \<Rightarrow> Inr txbuff
       | Some ps \<Rightarrow>
           res_bind (c_text token) (\<lambda>t. res_bind (c_text pulse) (\<lambda>p. build_request l t p (text_of config) s txbuff)))"

section \<open>The header as a format\<close>

text \<open>What a link prints as within the format; no text when it is no legal part of one.\<close>

fun unescape :: "string \<Rightarrow> string option" where
  "unescape [] = Some []"
| "unescape (c # cs) =
     (if c \<noteq> CHR ''%'' then map_option ((#) c) (unescape cs)
      else case cs of
        [] \<Rightarrow> None
      | d # ds \<Rightarrow> if d = CHR ''%'' then map_option ((#) d) (unescape ds) else None)"

lemma unescape_plain: "CHR ''%'' \<notin> set s \<Longrightarrow> unescape s = Some s"
  by (induction s) auto

lemma res_bind_case: "res_bind x f = (case x of Inl e \<Rightarrow> Inl e | Inr a \<Rightarrow> f a)"
  by (cases x) simp_all

lemma printf_i_error: "printf_i s arg = Inl e \<Longrightarrow> e = BadFormat"
  by (induction s arg rule: printf_i.induct) (auto split: if_splits list.splits option.splits sum.splits simp: res_bind_case)

lemma printf_i_plain: "CHR ''%'' \<notin> set s \<Longrightarrow> printf_i (s @ r) arg = res_bind (printf_i r arg) (\<lambda>t. Inr (s @ t))"
  by (induction s) (auto simp: res_bind_case split: sum.splits)

text \<open>Once the argument is taken, a rest that needs it has none.\<close>

lemma printf_i_taken:
  assumes "printf_i (CHR 0x0A # r) None = Inl BadFormat"
  shows "printf_i (s @ CHR 0x0A # r) None = Inl BadFormat"
proof (induction s "None :: nat option" rule: printf_i.induct)
  case 1
  show ?case using assms by simp
next
  case (2 c cs)
  then show ?case by (cases cs) (auto simp del: printf_i.simps(2) simp: printf_i.simps(2) [of c] printf_i.simps(2) [of "CHR ''%''"])
qed

lemma printf_i_link:
  assumes "printf_i (CHR 0x0A # r) None = Inl BadFormat" "printf_i (CHR 0x0A # r) (Some n) = Inr t"
  shows "printf_i (s @ CHR 0x0A # r) (Some n) = (case unescape s of None \<Rightarrow> Inl BadFormat | Some l \<Rightarrow> Inr (l @ t))"
proof (induction s "Some n" rule: printf_i.induct)
  case 1
  show ?case using assms(2) by simp
next
  case (2 c cs)
  then show ?case
    by (cases cs) (auto simp del: printf_i.simps(2) simp: printf_i.simps(2) [of c] printf_i.simps(2) [of "CHR ''%''"]
        printf_i_taken [OF assms(1)] split: option.split)
qed

lemma http_data_req_link:
  "http_data_req link n =
     (case unescape link of None \<Rightarrow> Inl BadFormat | Some l \<Rightarrow> Inr (header_before l @ show_nat n @ nl @ nl))"
proof -
  define first mid where "first = ''POST  /Pulse/Data HTTP/1.1'' @ nl @ ''Host:  ''"
    and "mid = ''Content-Type: application/json'' @ nl @ ''Content-Length: ''"
  have h: "header_before l = first @ l @ CHR 0x0A # mid" for l by (simp add: header_before_def first_def mid_def nl_def)
  have f: "CHR ''%'' \<notin> set first" and m: "CHR ''%'' \<notin> set (CHR 0x0A # mid)" by (simp_all add: first_def mid_def nl_def)
  have "printf_i (CHR 0x0A # mid @ ''%i'' @ nl @ nl) a = res_bind (printf_i (''%i'' @ nl @ nl) a) (\<lambda>t. Inr (CHR 0x0A # mid @ t))" for a
    using printf_i_plain [OF m, of "''%i'' @ nl @ nl" a] by simp
  then have "printf_i (CHR 0x0A # mid @ ''%i'' @ nl @ nl) None = Inl BadFormat"
    "printf_i (CHR 0x0A # mid @ ''%i'' @ nl @ nl) (Some n) = Inr (CHR 0x0A # mid @ show_nat n @ nl @ nl)"
    by (simp_all add: nl_def)
  note link = printf_i_link [OF this, of link]
  have "http_data_req link n = printf_i (first @ link @ CHR 0x0A # mid @ ''%i'' @ nl @ nl) (Some n)"
    by (simp add: http_data_req_def h)
  also have "\<dots> = (case unescape link of None \<Rightarrow> Inl BadFormat | Some l \<Rightarrow> Inr (header_before l @ show_nat n @ nl @ nl))"
    unfolding printf_i_plain [OF f] link by (simp add: h split: option.split)
  finally show ?thesis .
qed

lemma http_data_req_plain:
  "CHR ''%'' \<notin> set link \<Longrightarrow> http_data_req link n = Inr (header_before link @ show_nat n @ nl @ nl)"
  by (simp add: http_data_req_link unescape_plain)

section \<open>Which parts\<close>

text \<open>A system with \<open>k\<close> circuits that lacks the phases \<open>fs\<close> (two fields each).\<close>

definition expected_parts :: "nat \<Rightarrow> sfield list \<Rightarrow> part list" where
  "expected_parts k fs =
     take k [Circuit1, Circuit2, Circuit3, Circuit4] @ take (3 - length fs div 2) [Phase1, Phase2, Phase3] @ [Last]"

lemma body_parts_table:
  "\<forall>(p, v, q, fs) \<in> set missing_phases. body_parts (config_text 1 p v q) = Some (expected_parts 1 fs)"
  "\<forall>(p, v, q, fs) \<in> set missing_phases. body_parts (config_text 2 p v q) = Some (expected_parts 2 fs)"
  "\<forall>(p, v, q, fs) \<in> set missing_phases. body_parts (config_text 3 p v q) = Some (expected_parts 3 fs)"
  "\<forall>(p, v, q, fs) \<in> set missing_phases. body_parts (config_text 4 p v q) = Some (expected_parts 4 fs)"
  by code_simp+

lemma body_parts_config:
  assumes "k \<in> {1..4}" and "(p, v, q, fs) \<in> set missing_phases"
  shows "body_parts (config_text k p v q) = Some (expected_parts k fs)"
  using struct_cases [OF assms(1)] assms(2) body_parts_table by fastforce

lemma header_fits_iff: "header_fits link \<longleftrightarrow> length link \<le> 113"
  by (simp add: header_fits_def header_before_def nl_def)

section \<open>Lengths\<close>

lemma length_show_nat: "n < 10 ^ k \<Longrightarrow> 0 < k \<Longrightarrow> length (show_nat n) \<le> k"
proof (induction n arbitrary: k rule: show_nat.induct)
  case (1 n)
  show ?case
  proof (cases "n < 10")
    case False
    then have "1 < k" using 1(2,3) by (cases "k = 1") auto
    then have "n div 10 < 10 ^ (k - 1)" using 1(2) by (cases k) auto
    then have "length (show_nat (n div 10)) \<le> k - 1" using 1(1) [OF False, of "k - 1"] \<open>1 < k\<close> by simp
    then show ?thesis using False \<open>1 < k\<close> by (simp add: show_nat.simps [of n])
  qed (use 1(3) in \<open>simp add: show_nat.simps [of n]\<close>)
qed

lemma length_last_digits [simp]: "length (last_digits n m) = n"
  by (induction n arbitrary: m) auto

text \<open>Values below a million, and NaN.\<close>

fun ordinary :: "cfloat \<Rightarrow> bool" where
  "ordinary NaN \<longleftrightarrow> True"
| "ordinary (Fin q) \<longleftrightarrow> \<bar>q\<bar> < 1000000"

lemma length_fmt_f: "ordinary v \<Longrightarrow> length (fmt_f n v) \<le> n + 9"
proof (cases v)
  case (Fin q)
  define m where "m = nat (round_half_even (\<bar>q\<bar> * 10 ^ n))"
  assume "ordinary v"
  then have "\<bar>q\<bar> * 10 ^ n \<le> of_int (1000000 * 10 ^ n)" using Fin by simp
  then have "round_half_even (\<bar>q\<bar> * 10 ^ n) \<le> round_half_even (of_int (1000000 * 10 ^ n))"
    by (rule round_half_even_mono)
  then have "m \<le> nat (1000000 * 10 ^ n)"
    by (simp only: m_def round_half_even_of_int nat_mono)
  also have "nat (1000000 * 10 ^ n) = 1000000 * 10 ^ n" by (simp add: nat_mult_distrib nat_power_eq)
  finally have "m div 10 ^ n \<le> 1000000 * 10 ^ n div 10 ^ n"
    by (rule div_le_mono)
  then have "m div 10 ^ n < 10 ^ 7" by simp
  then have "length (show_nat (m div 10 ^ n)) \<le> 7" by (rule length_show_nat) simp
  moreover have "fmt_f n v = (if q < 0 then ''-'' else []) @ show_nat (m div 10 ^ n) @ ''.'' @ last_digits n m"
    unfolding Fin fmt_f.simps Let_def m_def ..
  ultimately show ?thesis by simp
qed simp

lemma length_field_line: "ordinary v \<Longrightarrow> length (field_line name v) \<le> length name + 19"
  using length_fmt_f [of v 2] by (simp add: field_line_def tab_def nl_def quoted_def)

lemma length_parts:
  assumes "\<And>f. ordinary (st f)"
  shows "length (part_text token pulse st Circuit1) \<le> length token + length pulse + 400"
    "p \<noteq> Circuit1 \<Longrightarrow> length (part_text token pulse st p) \<le> 100"
proof -
  note l = length_field_line [OF assms]
  show "length (part_text token pulse st Circuit1) \<le> length token + length pulse + 400"
    using l [of "''rarh-1''" rarh10] l [of "''radb-1''" radb10] l [of "''sarh-1''" sarh10] l [of "''sadb-1''" sadb10]
      l [of "''oarh-1''" oarh10] l [of "''oadb-1''" oadb10] l [of "''spc-1''" spc11] l [of "''llpc-1''" llpc11]
      l [of "''sltc-1''" sltc11] l [of "''lltc-1''" lltc11] l [of "''to''" wire1_orange] l [of "''tw''" wire2_white]
      l [of "''ty''" wire3_yellow]
    by (simp add: prepare_data_string_circuit1_def nl_def tab_def quoted_def)
  show "p \<noteq> Circuit1 \<Longrightarrow> length (part_text token pulse st p) \<le> 100"
    using l [of "''spc-2''" spc21] l [of "''llpc-2''" llpc21] l [of "''sltc-2''" sltc21] l [of "''lltc-2''" lltc21]
      l [of "''spc-3''" spc31] l [of "''llpc-3''" llpc31] l [of "''sltc-3''" sltc31] l [of "''lltc-3''" lltc31]
      l [of "''spc-4''" spc41] l [of "''llpc-4''" llpc41] l [of "''sltc-4''" sltc41] l [of "''lltc-4''" lltc41]
      l [of "''volts-1''" uUei1] l [of "''amps-1''" iUei1] l [of "''volts-2''" uUei2] l [of "''amps-2''" iUei2]
      l [of "''volts-3''" uUei3] l [of "''amps-3''" iUei3]
      length_fmt_f [OF assms, of 3 powerFactor] length_fmt_f [OF assms, of 2 activeWatts]
    by (cases p) (simp_all add: prepare_data_string_circuit2_def prepare_data_string_circuit3_def
        prepare_data_string_circuit4_def prepare_data_string_phase1_def prepare_data_string_phase2_def
        prepare_data_string_phase3_def prepare_data_string_last_def nl_def tab_def quoted_def)
qed

section \<open>The body as a JSON object\<close>

text \<open>The members of the data object, name and printed value.\<close>

fun part_fields :: "(sfield \<Rightarrow> cfloat) \<Rightarrow> part \<Rightarrow> (string \<times> string) list" where
  "part_fields st Circuit1 = map (\<lambda>(n, f). (n, fmt_f 2 (st f)))
     [(''rarh-1'', rarh10), (''radb-1'', radb10), (''sarh-1'', sarh10), (''sadb-1'', sadb10), (''oarh-1'', oarh10),
      (''oadb-1'', oadb10), (''spc-1'', spc11), (''llpc-1'', llpc11), (''sltc-1'', sltc11), (''lltc-1'', lltc11),
      (''to'', wire1_orange), (''tw'', wire2_white), (''ty'', wire3_yellow)]"
| "part_fields st Circuit2 = map (\<lambda>(n, f). (n, fmt_f 2 (st f)))
     [(''spc-2'', spc21), (''llpc-2'', llpc21), (''sltc-2'', sltc21), (''lltc-2'', lltc21)]"
| "part_fields st Circuit3 = map (\<lambda>(n, f). (n, fmt_f 2 (st f)))
     [(''spc-3'', spc31), (''llpc-3'', llpc31), (''sltc-3'', sltc31), (''lltc-3'', lltc31)]"
| "part_fields st Circuit4 = map (\<lambda>(n, f). (n, fmt_f 2 (st f)))
     [(''spc-4'', spc41), (''llpc-4'', llpc41), (''sltc-4'', sltc41), (''lltc-4'', lltc41)]"
| "part_fields st Phase1 = map (\<lambda>(n, f). (n, fmt_f 2 (st f))) [(''volts-1'', uUei1), (''amps-1'', iUei1)]"
| "part_fields st Phase2 = map (\<lambda>(n, f). (n, fmt_f 2 (st f))) [(''volts-2'', uUei2), (''amps-2'', iUei2)]"
| "part_fields st Phase3 = map (\<lambda>(n, f). (n, fmt_f 2 (st f))) [(''volts-3'', uUei3), (''amps-3'', iUei3)]"
| "part_fields st Last = [(''pf'', fmt_f 3 (st powerFactor)), (''watts'', fmt_f 2 (st activeWatts))]"

definition member :: "string \<times> string \<Rightarrow> string" where
  "member m = tab @ tab @ quoted (fst m) @ '': '' @ snd m"

fun join :: "string \<Rightarrow> string list \<Rightarrow> string" where
  "join sep [] = []"
| "join sep [x] = x"
| "join sep (x # y # xs) = x @ sep @ join sep (y # xs)"

text \<open>The object with its token, its pulse number and the members of its data object.\<close>

definition json_open :: "string \<Rightarrow> string \<Rightarrow> string" where
  "json_open token pulse = ''{'' @ nl @ tab @ quoted ''token'' @ '':'' @ quoted token @ '','' @ nl @
     tab @ quoted ''pulseID'' @ '': '' @ quoted pulse @ '','' @ nl @ tab @ quoted ''data'' @ '':{'' @ nl"

definition json_body :: "string \<Rightarrow> string \<Rightarrow> (string \<times> string) list \<Rightarrow> string" where
  "json_body token pulse ms = json_open token pulse @ join ('','' @ nl) (map member ms) @ nl @ tab @ ''}'' @ nl @ ''}'' @ nl"

lemma join_snoc: "join sep (xs @ [x, y]) = concat (map (\<lambda>z. z @ sep) xs) @ x @ sep @ y"
proof (induction xs)
  case (Cons z zs)
  then show ?case by (cases zs) auto
qed simp

lemma field_line_member: "field_line n (st f) = member (n, fmt_f 2 (st f)) @ '','' @ nl"
  by (simp add: field_line_def member_def)

text \<open>Every part but the first and the last is its members, each with a comma.\<close>

lemma part_text_inner:
  "p \<notin> {Circuit1, Last} \<Longrightarrow>
     part_text token pulse st p = concat (map (\<lambda>m. member m @ '','' @ nl) (part_fields st p))"
  by (cases p) (simp_all add: field_line_member prepare_data_string_circuit2_def prepare_data_string_circuit3_def
      prepare_data_string_circuit4_def prepare_data_string_phase1_def prepare_data_string_phase2_def
      prepare_data_string_phase3_def)

lemma part_text_first:
  "part_text token pulse st Circuit1 = json_open token pulse @ concat (map (\<lambda>m. member m @ '','' @ nl) (part_fields st Circuit1))"
  by (simp add: field_line_member prepare_data_string_circuit1_def json_open_def)

lemma part_text_last:
  "part_text token pulse st Last = member (''pf'', fmt_f 3 (st powerFactor)) @ '','' @ nl @
     member (''watts'', fmt_f 2 (st activeWatts)) @ nl @ tab @ ''}'' @ nl @ ''}'' @ nl"
  by (simp add: prepare_data_string_last_def member_def)

lemma inner_parts:
  "set ps \<inter> {Circuit1, Last} = {} \<Longrightarrow>
     concat (map (part_text token pulse st) ps) =
     concat (map (\<lambda>m. member m @ '','' @ nl) (concat (map (part_fields st) ps)))"
  by (induction ps) (auto simp: part_text_inner)

lemma parts_json:
  assumes "set ps \<inter> {Circuit1, Last} = {}"
  shows "concat (map (part_text token pulse st) (Circuit1 # ps @ [Last])) =
     json_body token pulse (concat (map (part_fields st) (Circuit1 # ps @ [Last])))"
proof -
  define sep where "sep = '','' @ nl"
  have members: "map member (concat (map (part_fields st) (Circuit1 # ps @ [Last]))) =
      map member (part_fields st Circuit1 @ concat (map (part_fields st) ps)) @
        [member (''pf'', fmt_f 3 (st powerFactor)), member (''watts'', fmt_f 2 (st activeWatts))]" by simp
  show ?thesis
    unfolding json_body_def members sep_def [symmetric] join_snoc
    by (simp only: list.map concat.simps map_append concat_append inner_parts [OF assms] sep_def [symmetric]
        part_text_first part_text_last append_assoc map_map o_def append_Nil2) (simp add: sep_def)
qed

lemma expected_parts_split:
  assumes "k \<in> {1..4}"
  obtains ps where "expected_parts k fs = Circuit1 # ps @ [Last]" and "set ps \<inter> {Circuit1, Last} = {}"
    and "length ps \<le> 6"
proof
  let ?ps = "take (k - 1) [Circuit2, Circuit3, Circuit4] @ take (3 - length fs div 2) [Phase1, Phase2, Phase3]"
  show "expected_parts k fs = Circuit1 # ?ps @ [Last]"
    using assms by (cases k) (simp_all add: expected_parts_def)
  show "set ?ps \<inter> {Circuit1, Last} = {}" by (auto dest!: in_set_takeD)
  show "length ?ps \<le> 6" by simp
qed

section \<open>Properties\<close>

lemma length_show_nat_le:
  assumes "n < 2048" shows "length (show_nat n) \<le> 4"
proof (rule length_show_nat)
  show "n < 10 ^ 4" using assms by simp
qed simp

lemma length_concat_le: "(\<And>x. x \<in> set xs \<Longrightarrow> length (f x) \<le> c) \<Longrightarrow> length (concat (map f xs)) \<le> c * length xs"
  by (induction xs) (auto intro!: add_mono)

lemma length_header [simp]: "length (header_before link) = length link + 82"
  by (auto simp: header_before_def nl_def)

lemma parts_fit:
  assumes "k \<in> {1..4}" and "\<And>f. ordinary (st f)" and "length token \<le> 240" and "length pulse \<le> 12"
  fixes fs
  defines "ts \<equiv> map (part_text token pulse st) (expected_parts k fs)"
  shows "\<not> (\<exists>t \<in> set ts. 1024 \<le> length t)" and "length (concat ts) < 1400"
proof -
  obtain ps where ps: "expected_parts k fs = Circuit1 # ps @ [Last]" "set ps \<inter> {Circuit1, Last} = {}" "length ps \<le> 6"
    by (rule expected_parts_split [OF assms(1)])
  have one: "length (part_text token pulse st Circuit1) \<le> 652"
    using length_parts(1) [where st = st, OF assms(2), of token pulse] assms(3,4) by linarith
  have other: "length (part_text token pulse st p) \<le> 100" if "p \<noteq> Circuit1" for p
    by (rule length_parts(2) [OF assms(2) that])
  have each: "length (part_text token pulse st p) \<le> 652" for p
    using one other [of p] by (cases "p = Circuit1") auto
  show "\<not> (\<exists>t \<in> set ts. 1024 \<le> length t)" unfolding ts_def by (auto simp: not_le intro: le_less_trans [OF each])
  have "length (concat (map (part_text token pulse st) ps)) \<le> 100 * length ps"
    by (rule length_concat_le, rule other) (use ps(2) in auto)
  then show "length (concat ts) < 1400" using ps(1,3) one other [of Last] by (simp add: ts_def)
qed

lemma build_request_fits:
  assumes "k \<in> {1..4}" and "(p, v, q, fs) \<in> set missing_phases" and "length link \<le> 113" and "CHR ''%'' \<notin> set link"
    and "\<And>f. ordinary (pval (sensors_state4 s) f)" and "length token \<le> 240" and "length pulse \<le> 12"
  defines "body \<equiv> concat (map (part_text token pulse (pval (sensors_state4 s))) (expected_parts k fs))"
  shows "build_request link token pulse (config_text k p v q) s old =
     Inr (header_before link @ show_nat (length body) @ nl @ nl @ body)"
proof -
  note fit = parts_fit [where st = "pval (sensors_state4 s)", OF assms(1,5-7), of fs, folded body_def]
  have "length (show_nat (length body)) \<le> 4" using fit(2) by (intro length_show_nat_le) simp
  then have "length (header_before link @ show_nat (length body) @ nl @ nl @ body) < 2048"
    using fit(2) assms(3) by (simp add: nl_def)
  moreover have "sum_list (map (length \<circ> part_text token pulse (pval (sensors_state4 s))) (expected_parts k fs)) = length body"
    by (simp add: body_def length_concat)
  ultimately show ?thesis
    using fit(1) assms(3,4) body_parts_config [OF assms(1,2)]
    by (simp add: build_request_def header_fits_iff http_data_req_plain body_def [symmetric])
qed

text \<open>
  C10: For each of the 28 configurations, ordinary values, a link of at most 113 characters without a
  percent sign, a token and pulse number of at most 240 and 12 characters, the code sends the header
  with the host, a \<open>Content-Length\<close> equal to the length of what follows the empty line, and as body the JSON
  object whose data members are those of the configured circuits and phases, in order, with commas between them.
\<close>

theorem request_well_formed:
  assumes "k \<in> {1..4}" and "(p, v, q, fs) \<in> set missing_phases" and "length link \<le> 113" and "CHR ''%'' \<notin> set link"
    and "\<And>f. ordinary (pval (sensors_state4 s) f)" and "length token \<le> 240" and "length pulse \<le> 12"
  shows "let body = json_body token pulse (concat (map (part_fields (pval (sensors_state4 s))) (expected_parts k fs)))
         in build_request link token pulse (config_text k p v q) s old =
              Inr (header_before link @ show_nat (length body) @ nl @ nl @ body)"
proof -
  obtain ps where ps: "expected_parts k fs = Circuit1 # ps @ [Last]" "set ps \<inter> {Circuit1, Last} = {}" "length ps \<le> 6"
    by (rule expected_parts_split [OF assms(1)])
  show ?thesis
    unfolding Let_def build_request_fits [OF assms] unfolding ps(1) parts_json [OF ps(2)] ..
qed

lemma request_well_formed_witness:
  "\<exists>request. build_request ''host.com'' ''tok'' ''P66631'' (config_text 2 1 240 60) init_sensors [] = Inr request"
proof -
  have "(1, 240, 60, [uUei3, iUei3]) \<in> set missing_phases" by (simp add: missing_phases_def)
  moreover have "ordinary (pval (sensors_state4 init_sensors) f)" for f by (simp add: init_sensors_def zero_packet_def)
  ultimately show ?thesis
    using request_well_formed [of 2 1 240 60 "[uUei3, iUei3]" "''host.com''" init_sensors "''tok''" "''P66631''" "[]"]
    by (simp add: Let_def)
qed

text \<open>The bodies of all known configurations are made of the parts of one to four circuits.\<close>

lemma body_parts_known:
  assumes "body_parts t = Some ps"
  obtains k and fs :: "sfield list" where "k \<in> {1..4}" "ps = expected_parts k fs"
proof -
  have e: "expected_parts k (replicate (2 * (3 - m)) uUei1) =
      take k [Circuit1, Circuit2, Circuit3, Circuit4] @ take m [Phase1, Phase2, Phase3] @ [Last]" if "m \<le> 3" for k m
    using that by (simp add: expected_parts_def)
  let ?p = "\<lambda>k m. take k [Circuit1, Circuit2, Circuit3, Circuit4] @ take m [Phase1, Phase2, Phase3] @ [Last]"
  have "ps \<in> set (concat (map (\<lambda>k. map (?p k) [1, 2, 3]) [1, 2, 3, 4]))"
    using assms unfolding body_parts_def by (simp split: if_splits)
  then obtain k m where "k \<in> set [1, 2, 3, 4 :: nat]" "m \<in> set [1, 2, 3 :: nat]" "ps = ?p k m" unfolding set_concat set_map UN_iff by (elim bexE imageE) (simp only: set_map image_iff, blast)
  moreover from this have "k \<in> {1..4}" "m \<le> 3" by auto
  ultimately show thesis using that [of k "replicate (2 * (3 - m)) uUei1"] e [of m k] by simp
qed

lemma length_unescape: "unescape s = Some l \<Longrightarrow> length l \<le> length s"
  by (induction s arbitrary: l rule: unescape.induct) (fastforce split: if_splits list.splits)+

lemma build_request_known:
  assumes "body_parts config = Some ps" "length link \<le> 113" "\<And>f. ordinary (pval (sensors_state4 s) f)"
    and "length token \<le> 240" "length pulse \<le> 12"
  shows "case build_request link token pulse config s old of
     Inl e \<Rightarrow> e = BadFormat \<and> unescape link = None | Inr r \<Rightarrow> length r < 2048 \<and> unescape link \<noteq> None"
proof -
  obtain k fs where k: "k \<in> {1..4}" "ps = expected_parts k fs" by (rule body_parts_known [OF assms(1)])
  note fit = parts_fit [where st = "pval (sensors_state4 s)", OF k(1) assms(3-5), of fs, folded k(2)]
  let ?ts = "map (part_text token pulse (pval (sensors_state4 s))) ps"
  have n: "sum_list (map length ?ts) = length (concat ?ts)" by (simp add: length_concat)
  have "length (show_nat (length (concat ?ts))) \<le> 4" by (rule length_show_nat_le) (use fit(2) in simp)
  then have "length ((header_before l @ show_nat (length (concat ?ts)) @ nl @ nl) @ concat ?ts) < 2048" if "unescape link = Some l" for l
    using length_unescape [OF that] fit(2) assms(2) by (simp add: nl_def del: length_concat)
  then show ?thesis
    using fit(1) assms(1,2) by (cases "unescape link")
      (simp_all add: build_request_def Let_def header_fits_iff http_data_req_link n [unfolded list.map_comp] res_bind_case)
qed

lemma length_text_of: "CHR 0x00 \<in> set a \<Longrightarrow> length (text_of a) < length a"
  unfolding text_of_def by (induction a) auto

text \<open>
  C33: With ordinary values, building a request from the arrays of link, token (240 bytes each) and pulse number (6 bytes) has exactly these outcomes. It reads
  past an array when the link has no zero byte or, for a known configuration, when the token or the pulse number has none; the header overflows its
  array when the link has more than 113 characters; the header is no legal format when the link has a percent sign that is not doubled; otherwise all stays
  inside the arrays, with a request of less than 2048 characters for a known configuration and the old one for an unknown one.
\<close>

theorem request_memory_safe:
  assumes "\<And>f. ordinary (pval (sensors_state4 s) f)" "length link = 240" "length token = 240" "length pulse = 6"
  shows "let l = text_of link; known = body_parts (text_of config) \<noteq> None;
       ended = (CHR 0x00 \<in> set link); printed = (CHR 0x00 \<in> set token \<and> CHR 0x00 \<in> set pulse)
     in case make_request link token pulse config s old of
          Inl Overread \<Rightarrow> \<not> ended \<or> length l \<le> 113 \<and> known \<and> \<not> printed
        | Inl Overwrite \<Rightarrow> ended \<and> 113 < length l
        | Inl BadFormat \<Rightarrow> ended \<and> length l \<le> 113 \<and> known \<and> printed \<and> unescape l = None
        | Inl e \<Rightarrow> False
        | Inr r \<Rightarrow> ended \<and> length l \<le> 113 \<and>
            (if known then printed \<and> unescape l \<noteq> None \<and> length r < 2048 else r = old)"
proof (cases "CHR 0x00 \<in> set link \<and> length (text_of link) \<le> 113 \<and> CHR 0x00 \<in> set token \<and> CHR 0x00 \<in> set pulse")
  case True
  then have l: "length (text_of token) \<le> 240" "length (text_of pulse) \<le> 12"
    using length_text_of [of token] length_text_of [of pulse] assms(3,4) by simp_all
  show ?thesis
  proof (cases "body_parts (text_of config)")
    case (Some ps)
    then show ?thesis
      using build_request_known [OF Some _ assms(1) l, where link = "text_of link" and old = old] True
      by (auto simp: Let_def make_request_def c_text_def header_fits_iff res_bind_case split: sum.splits)
  qed (use True in \<open>simp add: Let_def make_request_def c_text_def header_fits_iff res_bind_case\<close>)
next
  case False
  then show ?thesis
    by (auto simp: Let_def make_request_def c_text_def header_fits_iff res_bind_case split: option.split)
qed

text \<open>A pulse number of six characters leaves no room for the zero byte; the same with five is printed.\<close>

lemma request_memory_safe_witness:
  "make_request (''host.com'' @ replicate 232 CHR 0x00) (''tok'' @ replicate 237 CHR 0x00) ''P66631''
     (config_text 1 1 120 60 @ [CHR 0x00]) init_sensors [] = Inl Overread \<and>
   (\<exists>r. make_request (''host.com'' @ replicate 232 CHR 0x00) (''tok'' @ replicate 237 CHR 0x00) (''P6663'' @ [CHR 0x00])
     (config_text 1 1 120 60 @ [CHR 0x00]) init_sensors [] = Inr r \<and> length r < 2048)"
proof -
  have o: "ordinary (pval (sensors_state4 init_sensors) f)" for f by (simp add: init_sensors_def zero_packet_def)
  have c: "text_of (config_text 1 1 120 60 @ [CHR 0x00]) = config_text 1 1 120 60" by code_simp
  have b: "body_parts (config_text 1 1 120 60) \<noteq> None" by code_simp
  let ?link = "''host.com'' @ replicate 232 CHR 0x00" and ?token = "''tok'' @ replicate 237 CHR 0x00"
  have l: "text_of ?link = ''host.com''" by code_simp
  note safe = request_memory_safe [where s = init_sensors and link = ?link and token = ?token and config = "config_text 1 1 120 60 @ [CHR 0x00]" and old = "[]",
      OF o, unfolded Let_def c l]
  have "make_request ?link ?token ''P66631'' (config_text 1 1 120 60 @ [CHR 0x00]) init_sensors [] = Inl Overread"
    using safe [of "''P66631''"] b by (auto split: sum.splits fault.splits)
  moreover have "\<exists>r. make_request ?link ?token (''P6663'' @ [CHR 0x00]) (config_text 1 1 120 60 @ [CHR 0x00]) init_sensors [] = Inr r \<and> length r < 2048"
    using safe [of "''P6663'' @ [CHR 0x00]"] b by (auto split: sum.splits fault.splits)
  ultimately show ?thesis by blast
qed

end
