(* ===== verification/Enc28j60.thy ===== *)
theory Enc28j60
  imports Prelude
begin

text \<open>
  The ENC28J60 Ethernet driver: enc28j60driver/enc28j60.c over the SPI functions of enchw.c. Every
  function appends what it does on the wire to the log of the device record; the bytes
  the chip clocks out are a parameter, a function of the log. Waits without a bound are
  partial functions, their value is \<open>None\<close> when they do not end. Arguments of \<open>DEBUG\<close> are not
  evaluated, as in a build without debug output.
\<close>

section \<open>Registers\<close>

named_theorems registers

definition ENC_BANKMASK :: u8 where [registers]: "ENC_BANKMASK = 0xe0"
definition ENC_BANKALL :: u8 where [registers]: "ENC_BANKALL = 0xc0"
definition ENC_BANK0 :: u8 where [registers]: "ENC_BANK0 = 0x20"
definition ENC_BANK1 :: u8 where [registers]: "ENC_BANK1 = 0x60"
definition ENC_BANK2 :: u8 where [registers]: "ENC_BANK2 = 0xa0"
definition ENC_BANK3 :: u8 where [registers]: "ENC_BANK3 = 0xe0"
definition ENC_BANK_INDETERMINATE :: u8 where [registers]: "ENC_BANK_INDETERMINATE = 0x80"
definition ENC_REGISTERMASK :: u8 where [registers]: "ENC_REGISTERMASK = 0x1f"

definition ENC_EIE :: u8 where [registers]: "ENC_EIE = 0x1b OR ENC_BANKALL"
definition ENC_ESTAT :: u8 where [registers]: "ENC_ESTAT = 0x1d OR ENC_BANKALL"
definition ENC_ECON2 :: u8 where [registers]: "ENC_ECON2 = 0x1e OR ENC_BANKALL"
definition ENC_ECON1 :: u8 where [registers]: "ENC_ECON1 = 0x1f OR ENC_BANKALL"
definition ENC_ERDPTL :: u8 where [registers]: "ENC_ERDPTL = 0x00 OR ENC_BANK0"
definition ENC_EWRPTL :: u8 where [registers]: "ENC_EWRPTL = 0x02 OR ENC_BANK0"
definition ENC_ETXSTL :: u8 where [registers]: "ENC_ETXSTL = 0x04 OR ENC_BANK0"
definition ENC_ETXNDL :: u8 where [registers]: "ENC_ETXNDL = 0x06 OR ENC_BANK0"
definition ENC_ERXSTL :: u8 where [registers]: "ENC_ERXSTL = 0x08 OR ENC_BANK0"
definition ENC_ERXNDL :: u8 where [registers]: "ENC_ERXNDL = 0x0a OR ENC_BANK0"
definition ENC_ERXRDPTL :: u8 where [registers]: "ENC_ERXRDPTL = 0x0c OR ENC_BANK0"
definition ENC_EDMASTL :: u8 where [registers]: "ENC_EDMASTL = 0x10 OR ENC_BANK0"
definition ENC_EDMANDL :: u8 where [registers]: "ENC_EDMANDL = 0x12 OR ENC_BANK0"
definition ENC_ERXFCON :: u8 where [registers]: "ENC_ERXFCON = 0x18 OR ENC_BANK1"
definition ENC_EPKTCNT :: u8 where [registers]: "ENC_EPKTCNT = 0x19 OR ENC_BANK1"
definition ENC_MACON1 :: u8 where [registers]: "ENC_MACON1 = 0x00 OR ENC_BANK2"
definition ENC_MACON3 :: u8 where [registers]: "ENC_MACON3 = 0x02 OR ENC_BANK2"
definition ENC_MAIPGL :: u8 where [registers]: "ENC_MAIPGL = 0x06 OR ENC_BANK2"
definition ENC_MAIPGH :: u8 where [registers]: "ENC_MAIPGH = 0x07 OR ENC_BANK2"
definition ENC_MICMD :: u8 where [registers]: "ENC_MICMD = 0x12 OR ENC_BANK2"
definition ENC_MIREGADR :: u8 where [registers]: "ENC_MIREGADR = 0x14 OR ENC_BANK2"
definition ENC_MIWRL :: u8 where [registers]: "ENC_MIWRL = 0x16 OR ENC_BANK2"
definition ENC_MIRDL :: u8 where [registers]: "ENC_MIRDL = 0x18 OR ENC_BANK2"
definition ENC_MAADR5 :: u8 where [registers]: "ENC_MAADR5 = 0x00 OR ENC_BANK3"
definition ENC_MAADR6 :: u8 where [registers]: "ENC_MAADR6 = 0x01 OR ENC_BANK3"
definition ENC_MAADR3 :: u8 where [registers]: "ENC_MAADR3 = 0x02 OR ENC_BANK3"
definition ENC_MAADR4 :: u8 where [registers]: "ENC_MAADR4 = 0x03 OR ENC_BANK3"
definition ENC_MAADR1 :: u8 where [registers]: "ENC_MAADR1 = 0x04 OR ENC_BANK3"
definition ENC_MAADR2 :: u8 where [registers]: "ENC_MAADR2 = 0x05 OR ENC_BANK3"
definition ENC_EBSTSD :: u8 where [registers]: "ENC_EBSTSD = 0x06 OR ENC_BANK3"
definition ENC_EBSTCON :: u8 where [registers]: "ENC_EBSTCON = 0x07 OR ENC_BANK3"
definition ENC_MISTAT :: u8 where [registers]: "ENC_MISTAT = 0x0a OR ENC_BANK3"
definition ENC_EREVID :: u8 where [registers]: "ENC_EREVID = 0x12 OR ENC_BANK3"
definition ENC_ECOCON :: u8 where [registers]: "ENC_ECOCON = 0x15 OR ENC_BANK3"

definition ENC_PHCON1 :: u8 where [registers]: "ENC_PHCON1 = 0x00"
definition ENC_PHSTAT1 :: u8 where [registers]: "ENC_PHSTAT1 = 0x01"
definition ENC_PHLCON :: u8 where [registers]: "ENC_PHLCON = 0x14"

definition ENC_RAMSIZE :: nat where [registers]: "ENC_RAMSIZE = 8 * 1024"
definition ENC_READLOCATION_ANY :: u16 where [registers]: "ENC_READLOCATION_ANY = NOT 0"

section \<open>The wire\<close>

datatype spi =
    SelectHigh | SelectLow | ResetHigh | ResetLow | ConfigOutputs | DelayMs nat | SpimInit
  | Rxtx "u8 list" | Send "u8 list" | Recv nat | Exchange u8

type_synonym chip_env = "spi list \<Rightarrow> nat \<Rightarrow> u8"

record enc =
  last_used_register :: u8
  rxbufsize :: u16
  next_frame_location :: u16
  wire :: "spi list"

definition put :: "spi list \<Rightarrow> enc \<Rightarrow> enc" where
  "put es s = s\<lparr>wire := wire s @ es\<rparr>"

definition enchw_setup :: "enc \<Rightarrow> enc" where
  "enchw_setup s = put [ConfigOutputs, SelectHigh, ResetLow, DelayMs 2, ResetHigh, DelayMs 2, SpimInit] s"

definition enchw_select :: "enc \<Rightarrow> enc" where "enchw_select s = put [SelectLow] s"
definition enchw_unselect :: "enc \<Rightarrow> enc" where "enchw_unselect s = put [SelectHigh] s"

definition command :: "chip_env \<Rightarrow> u8 \<Rightarrow> u8 \<Rightarrow> enc \<Rightarrow> u8 \<times> enc" where
  "command env a b s =
     (let s1 = put [Rxtx [a, b]] (enchw_select s) in (env (wire s1) 1, enchw_unselect s1))"

section \<open>Registers and memory\<close>

text \<open>
  \<open>select_page\<close> uses the bit operations, which in turn make their register accessible; the recursion
  ends because ECON1 is in all banks.
\<close>

definition banked :: "u8 \<Rightarrow> nat" where
  "banked r = (if r AND ENC_BANKMASK = ENC_BANKALL then 0 else 4)"

function ensure_register_accessible :: "chip_env \<Rightarrow> u8 \<Rightarrow> enc \<Rightarrow> enc"
  and select_page :: "chip_env \<Rightarrow> u8 \<Rightarrow> enc \<Rightarrow> enc"
  and enc_BFS :: "chip_env \<Rightarrow> u8 \<Rightarrow> u8 \<Rightarrow> enc \<Rightarrow> enc"
  and enc_BFC :: "chip_env \<Rightarrow> u8 \<Rightarrow> u8 \<Rightarrow> enc \<Rightarrow> enc"
where
  "ensure_register_accessible env r s =
     (if r AND ENC_BANKMASK = ENC_BANKALL then s
      else if r AND ENC_BANKMASK = last_used_register s then s
      else select_page env (drop_bit 6 r) s)"
| "select_page env page s =
     (let set = page AND 0x03; clear = NOT page AND 0x03;
          s1 = (if set \<noteq> 0 then enc_BFS env ENC_ECON1 set s else s)
      in if clear \<noteq> 0 then enc_BFC env ENC_ECON1 clear s1 else s1)"
| "enc_BFS env reg data s =
     snd (command env (0x80 OR (reg AND ENC_REGISTERMASK)) data (ensure_register_accessible env reg s))"
| "enc_BFC env reg data s =
     snd (command env (0xa0 OR (reg AND ENC_REGISTERMASK)) data (ensure_register_accessible env reg s))"
  by pat_completeness auto

termination
  by (relation "measure (\<lambda>c. case c of
        Inl (Inl (_, r, _)) \<Rightarrow> banked r | Inl (Inr _) \<Rightarrow> 2
      | Inr (Inl (_, r, _, _)) \<Rightarrow> Suc (banked r) | Inr (Inr (_, r, _, _)) \<Rightarrow> Suc (banked r))")
    (auto simp: banked_def registers)

declare ensure_register_accessible.simps [simp del] select_page.simps [simp del]
  enc_BFS.simps [simp del] enc_BFC.simps [simp del]

definition enc_RCR :: "chip_env \<Rightarrow> u8 \<Rightarrow> enc \<Rightarrow> u8 \<times> enc" where
  "enc_RCR env reg s = command env (reg AND ENC_REGISTERMASK) 0 (ensure_register_accessible env reg s)"

definition enc_WCR :: "chip_env \<Rightarrow> u8 \<Rightarrow> u8 \<Rightarrow> enc \<Rightarrow> enc" where
  "enc_WCR env reg data s =
     snd (command env (0x40 OR (reg AND ENC_REGISTERMASK)) data (ensure_register_accessible env reg s))"

text \<open>The order in which C evaluates the two reads is open; the left operand comes first here.\<close>

definition enc_RCR16 :: "chip_env \<Rightarrow> u8 \<Rightarrow> enc \<Rightarrow> u16 \<times> enc" where
  "enc_RCR16 env reg s =
     (let (hi, s1) = enc_RCR env (reg OR 1) s; (lo, s2) = enc_RCR env (reg AND NOT 1) s1
      in (push_bit 8 (ucast hi) OR ucast lo, s2))"

definition enc_WCR16 :: "chip_env \<Rightarrow> u8 \<Rightarrow> u16 \<Rightarrow> enc \<Rightarrow> enc" where
  "enc_WCR16 env reg data s =
     enc_WCR env (reg OR 1) (ucast (drop_bit 8 data)) (enc_WCR env (reg AND NOT 1) (ucast (data AND 0xff)) s)"

definition enc_RBM :: "chip_env \<Rightarrow> u16 \<Rightarrow> u16 \<Rightarrow> enc \<Rightarrow> u8 list \<times> enc" where
  "enc_RBM env start len s =
     (let s1 = (if start \<noteq> ENC_READLOCATION_ANY then enc_WCR16 env ENC_ERDPTL start s else s);
          s2 = put [Recv (unat len)] (put [Send [0x3a]] (enchw_select s1))
      in (map (env (wire s2)) [0..<unat len], enchw_unselect s2))"

definition WBM_raw :: "u8 list \<Rightarrow> enc \<Rightarrow> enc" where
  "WBM_raw src s = enchw_unselect (enchw_unselect (put [Send src] (put [Send [0x7a]] (enchw_select s))))"

definition enc_WBM :: "chip_env \<Rightarrow> u8 list \<Rightarrow> u16 \<Rightarrow> enc \<Rightarrow> enc" where
  "enc_WBM env src start s = WBM_raw src (enc_WCR16 env ENC_EWRPTL start s)"

definition enc_SRC :: "enc \<Rightarrow> enc" where
  "enc_SRC s = put [Exchange 0xff] s"

section \<open>Waiting\<close>

text \<open>\<open>while (enc_RCR(dev, reg) & bits)\<close>, and with a body.\<close>

partial_function (option) wait_while :: "chip_env \<Rightarrow> u8 \<Rightarrow> u8 \<Rightarrow> (enc \<Rightarrow> enc) \<Rightarrow> enc \<Rightarrow> enc option" where
  "wait_while env reg bits body s =
     (let (v, s1) = enc_RCR env reg s
      in if v AND bits = 0 then Some s1 else wait_while env reg bits body (body s1))"

text \<open>The loop of \<open>enc_wait\<close> with \<open>n\<close> rounds to go.\<close>

fun wait_ready :: "chip_env \<Rightarrow> nat \<Rightarrow> nat \<Rightarrow> u8 \<Rightarrow> enc \<Rightarrow> nat \<times> enc" where
  "wait_ready env 0 same estat_last s = (1, s)"
| "wait_ready env (Suc n) same estat_last s =
     (let (estat, s1) = enc_RCR env ENC_ESTAT s
      in if estat = 0xff then wait_ready env n same estat_last s1
         else let same1 = (if estat = estat_last then Suc same else same)
              in if 100 \<le> same1 \<and> estat AND 1 \<noteq> 0 then (0, s1)
                 else wait_ready env n same1 estat s1)"

definition enc_wait :: "chip_env \<Rightarrow> enc \<Rightarrow> nat \<times> enc" where
  "enc_wait env s = wait_ready env 100000 0 0 s"

section \<open>PHY registers\<close>

definition enc_MII_read :: "chip_env \<Rightarrow> u8 \<Rightarrow> enc \<Rightarrow> (u16 \<times> enc) option" where
  "enc_MII_read env mireg s =
     (case wait_while env ENC_MISTAT 1 (\<lambda>t. t) (enc_BFS env ENC_MICMD 1 (enc_WCR env ENC_MIREGADR mireg s)) of
        None \<Rightarrow> None
      | Some s1 \<Rightarrow> (let (result, s2) = enc_RCR16 env ENC_MIRDL s1 in Some (result, enc_BFC env ENC_MICMD 1 s2)))"

definition enc_MII_write :: "chip_env \<Rightarrow> u8 \<Rightarrow> u16 \<Rightarrow> enc \<Rightarrow> enc option" where
  "enc_MII_write env mireg data s =
     map_option (\<lambda>s1. enc_WCR16 env ENC_MIWRL data (enc_WCR env ENC_MIREGADR mireg s1))
       (wait_while env ENC_MISTAT 1 (\<lambda>t. t) s)"

definition enc_LED_set :: "chip_env \<Rightarrow> u16 \<Rightarrow> nat \<Rightarrow> enc \<Rightarrow> enc option" where
  "enc_LED_set env ledconfig led s =
     (case enc_MII_read env ENC_PHLCON s of
        None \<Rightarrow> None
      | Some (state, s1) \<Rightarrow>
          enc_MII_write env ENC_PHLCON ((state AND NOT (push_bit led 0xf)) OR push_bit led ledconfig) s1)"

section \<open>Setting up\<close>

definition enc_setup_basic :: "chip_env \<Rightarrow> enc \<Rightarrow> nat \<times> enc" where
  "enc_setup_basic env s =
     (let (r, s1) = enc_wait env (enchw_setup s)
      in if r \<noteq> 0 then (1, s1)
         else let s2 = s1\<lparr>last_used_register := ENC_BANK_INDETERMINATE, rxbufsize := NOT 0\<rparr>;
                  (revid, s3) = enc_RCR env ENC_EREVID s2
              in if revid \<noteq> 0x02 \<and> revid \<noteq> 0x04 \<and> revid \<noteq> 0x05 \<and> revid \<noteq> 0x06 then (1, s3)
                 else (0, enc_WCR env ENC_ECOCON 0x00 (enc_BFS env ENC_ECON2 0x80 s3)))"

definition set_erxnd :: "chip_env \<Rightarrow> u16 \<Rightarrow> enc \<Rightarrow> enc" where
  "set_erxnd env erxnd s =
     (if erxnd \<noteq> rxbufsize s then enc_WCR16 env ENC_ERXNDL erxnd (s\<lparr>rxbufsize := erxnd\<rparr>) else s)"

definition enc_bist :: "chip_env \<Rightarrow> enc \<Rightarrow> enc option" where
  "enc_bist env s =
     (let s1 = enc_WCR16 env ENC_EDMANDL 0x1fff (enc_WCR16 env ENC_EDMASTL 0 s);
          s2 = enc_BFS env ENC_ECON1 0x10 (set_erxnd env 0x1fff s1);
          s3 = enc_WCR env ENC_EBSTCON (0x08 OR 0x20 OR 2) (enc_WCR env ENC_EBSTSD 0x0c s2);
          s4 = enc_BFS env ENC_EBSTCON 1 s3
      in Option.bind (wait_while env ENC_EBSTCON 1 (\<lambda>t. t) s4)
           (\<lambda>s5. wait_while env ENC_ECON1 0x20 (\<lambda>t. t) (enc_BFS env ENC_ECON1 0x20 s5)))"

text \<open>Page \<open>k\<close> of the manual self-test holds \<open>(k + i) % 256\<close>.\<close>

definition test_page :: "nat \<Rightarrow> u8 list" where
  "test_page k = map (\<lambda>i. of_nat ((k + i) mod 256)) [0..<256]"

fun bist_check :: "chip_env \<Rightarrow> nat list \<Rightarrow> enc \<Rightarrow> nat \<times> enc" where
  "bist_check env [] s = (0, s)"
| "bist_check env (k # ks) s =
     (let (buffer, s1) = enc_RBM env (of_nat (256 * k)) 256 s
      in if buffer \<noteq> test_page k then (1, s1) else bist_check env ks s1)"

definition enc_bist_manual :: "chip_env \<Rightarrow> enc \<Rightarrow> nat \<times> enc" where
  "enc_bist_manual env s =
     (let s1 = set_erxnd env (of_nat ENC_RAMSIZE - 1) s;
          s2 = fold (\<lambda>k. enc_WBM env (test_page k) (of_nat (256 * k))) [0..<ENC_RAMSIZE div 256] s1
      in bist_check env [0..<ENC_RAMSIZE div 256] s2)"

definition enc_ethernet_setup :: "chip_env \<Rightarrow> u16 \<Rightarrow> u8 list \<Rightarrow> enc \<Rightarrow> enc option" where
  "enc_ethernet_setup env rxsize mac s =
     Option.bind (wait_while env ENC_EPKTCNT 0xff (enc_BFS env ENC_ECON2 0x40) (enc_BFS env ENC_ECON1 0xc0 s)) (\<lambda>s1.
       let s2 = enc_WCR16 env ENC_ERXSTL 0 (enc_BFC env ENC_ECON1 0xc0 s1);
           s3 = enc_WCR16 env ENC_ERXRDPTL 0 (set_erxnd env rxsize s2);
           s4 = enc_BFC env ENC_ERXFCON 0x1 (s3\<lparr>next_frame_location := 0\<rparr>);
           s5 = enc_WCR env ENC_MACON3 0x32 (enc_BFS env ENC_MACON1 0x0d s4);
           s6 = enc_WCR env ENC_MAIPGH 0x0C (enc_WCR env ENC_MAIPGL 0x12 s5);
           s7 = enc_WCR env ENC_MAADR2 (mac ! 1) (enc_WCR env ENC_MAADR1 (mac ! 0) s6);
           s8 = enc_WCR env ENC_MAADR4 (mac ! 3) (enc_WCR env ENC_MAADR3 (mac ! 2) s7);
           s9 = enc_WCR env ENC_MAADR6 (mac ! 5) (enc_WCR env ENC_MAADR5 (mac ! 4) s8)
       in map_option (\<lambda>s10. snd (enc_RCR env ENC_EIE (enc_BFS env ENC_EIE 0x80
              (enc_BFC env ENC_ECON1 0xc0 (enc_BFS env ENC_ECON1 0x04 s10)))))
            (enc_MII_write env ENC_PHCON1 0x0100 s9))"

definition enc_set_multicast_reception :: "chip_env \<Rightarrow> bool \<Rightarrow> enc \<Rightarrow> enc" where
  "enc_set_multicast_reception env enable s =
     (if enable then enc_BFS env ENC_ERXFCON 0x2 s else enc_BFC env ENC_ERXFCON 0x2 s)"

section \<open>Transmitting\<close>

definition transmit_start_address :: "enc \<Rightarrow> u16" where
  "transmit_start_address s = (let earliest_start = rxbufsize s + 1 in (earliest_start + 1) AND NOT 1)"

definition transmit_start :: "chip_env \<Rightarrow> enc \<Rightarrow> enc" where
  "transmit_start env s =
     (let s1 = enc_WCR16 env ENC_ETXSTL (transmit_start_address s) s
      in enc_WBM env [0] (transmit_start_address s1) s1)"

definition transmit_partial :: "u8 list \<Rightarrow> enc \<Rightarrow> enc" where
  "transmit_partial data s = WBM_raw data s"

text \<open>The wait for TXRTS with \<open>n\<close> reads to go: whether it cleared.\<close>

fun txrts_wait :: "chip_env \<Rightarrow> nat \<Rightarrow> enc \<Rightarrow> bool \<times> enc" where
  "txrts_wait env 0 s = (False, s)"
| "txrts_wait env (Suc n) s =
     (let (v, s1) = enc_RCR env ENC_ECON1 s in if v AND 0x08 = 0 then (True, s1) else txrts_wait env n s1)"

definition transmit_end :: "chip_env \<Rightarrow> u16 \<Rightarrow> enc \<Rightarrow> enc" where
  "transmit_end env len s =
     (let s1 = enc_WCR16 env ENC_ETXNDL (transmit_start_address s + 1 + len - 1) s;
          (cleared, s2) = txrts_wait env 10000 (enc_BFS env ENC_ECON1 0x08 s1)
      in if cleared then snd (enc_RBM env (transmit_start_address s2 + len) 7 s2)
         else enc_BFC env ENC_ECON1 0x80 (enc_BFS env ENC_ECON1 0x80 s2))"

definition enc_transmit :: "chip_env \<Rightarrow> u8 list \<Rightarrow> enc \<Rightarrow> enc" where
  "enc_transmit env data s =
     transmit_end env (of_nat (length data)) (transmit_partial data (transmit_start env s))"

text \<open>A chain of packet buffers; behind its end lies the null pointer.\<close>

record pbuf =
  payload :: "u8 list"
  tot_len :: u16

fun transmit_chain :: "pbuf list \<Rightarrow> enc \<Rightarrow> enc option" where
  "transmit_chain [] s = None"
| "transmit_chain (b # bs) s =
     (let s1 = transmit_partial (payload b) s
      in if of_nat (length (payload b)) = tot_len b then Some s1 else transmit_chain bs s1)"

definition enc_transmit_pbuf :: "chip_env \<Rightarrow> pbuf list \<Rightarrow> enc \<Rightarrow> enc option" where
  "enc_transmit_pbuf env bufs s =
     map_option (transmit_end env (tot_len (hd bufs))) (transmit_chain bufs (transmit_start env s))"

section \<open>Receiving\<close>

definition receive_start :: "chip_env \<Rightarrow> enc \<Rightarrow> u8 list \<times> u16 \<times> enc" where
  "receive_start env s =
     (let (header, s1) = enc_RBM env (next_frame_location s) 6 s
      in (header, ucast (header ! 2) OR push_bit 8 (ucast (header ! 3 AND 0x7f)), s1))"

definition receive_end :: "chip_env \<Rightarrow> u8 list \<Rightarrow> enc \<Rightarrow> enc" where
  "receive_end env header s =
     (let s1 = s\<lparr>next_frame_location := ucast (header ! 0) + push_bit 8 (ucast (header ! 1))\<rparr>;
          s2 = (if next_frame_location s1 = 0
                then let (erxnd, t) = enc_RCR16 env ENC_ERXNDL s1 in enc_WCR16 env ENC_ERXRDPTL erxnd t
                else enc_WCR16 env ENC_ERXRDPTL (next_frame_location s1 - 1) s1)
      in enc_BFS env ENC_ECON2 0x40 s2)"

definition enc_read_received :: "chip_env \<Rightarrow> u16 \<Rightarrow> enc \<Rightarrow> u8 list \<times> u16 \<times> enc" where
  "enc_read_received env maxlength s =
     (let (header, len, s1) = receive_start env s;
          (data, s2) = enc_RBM env ENC_READLOCATION_ANY (if maxlength < len then maxlength else len) s1
      in (data, len, receive_end env header s2))"

text \<open>The result is the frame, or \<open>None\<close> where the code returns 2; whether memory is there is a parameter.\<close>

definition enc_read_received_pbuf :: "chip_env \<Rightarrow> (u16 \<Rightarrow> bool) \<Rightarrow> enc \<Rightarrow> u8 list option \<times> enc" where
  "enc_read_received_pbuf env pbuf_alloc s =
     (let (header, len, s1) = receive_start env s
      in if len < 4 then (None, receive_end env header s1)
         else let len1 = len - 4
              in if 32000 < len1 \<or> \<not> pbuf_alloc len1 then (None, receive_end env header s1)
                 else let (data, s2) = enc_RBM env ENC_READLOCATION_ANY len1 s1
                      in (Some data, receive_end env header s2))"

end
