(* ===== verification/Enc_Chip.thy ===== *)
theory Enc_Chip
  imports Enc28j60
begin

text \<open>
  The ENC28J60 as its data sheet describes it, as an observer of the wire, and what the driver
  makes it do. The observer knows the banked control registers, the 8 KB memory with its
  auto-incremented read and write pointers (the read pointer wraps inside the receive ring)
  and the packet counter. It distinguishes the ETH registers from the MAC and MII registers: of the latter a read clocks out a
  dummy byte first, and the commands that set and clear bits do not support them. It is the specification the driver is measured against.
\<close>

section \<open>The chip\<close>

type_synonym regkey = "u8 \<times> u8"

record chip =
  selected :: bool
  received :: "u8 list"
  regs :: "regkey \<Rightarrow> u8"
  mem :: "nat \<Rightarrow> u8"
  filler :: "regkey \<Rightarrow> u8"
  unsupported :: "u8 \<Rightarrow> regkey \<Rightarrow> u8 \<Rightarrow> u8 \<Rightarrow> u8"

text \<open>
  The MAC and MII registers: bank 2 but for the common ones, and in bank 3 the MAC address and MISTAT. What dummy byte a read of one gives, and what
  a bit command (by its opcode, the old value and the data) leaves in one, the data sheet does not say: the fields \<open>filler\<close> and \<open>unsupported\<close> are arbitrary.
\<close>

definition mac_mii :: "regkey \<Rightarrow> bool" where
  "mac_mii k \<longleftrightarrow> fst k = 2 \<and> snd k < 0x1b \<or> fst k = 3 \<and> (snd k < 0x06 \<or> snd k = 0x0a)"

lemma mac_mii_banks [simp]: "\<not> mac_mii (0, a)" "\<not> mac_mii (1, a)"
  by (simp_all add: mac_mii_def)

text \<open>Where a register address leads: the five common registers, else the bank of ECON1.\<close>

abbreviation econ1_key :: regkey where "econ1_key \<equiv> (0, 0x1f)"
abbreviation econ2_key :: regkey where "econ2_key \<equiv> (0, 0x1e)"
abbreviation pktcnt_key :: regkey where "pktcnt_key \<equiv> (1, 0x19)"

definition reg_key :: "chip \<Rightarrow> u8 \<Rightarrow> regkey" where
  "reg_key c a = (if 0x1b \<le> a then (0, a) else (regs c econ1_key AND 3, a))"

definition pair16 :: "chip \<Rightarrow> u8 \<Rightarrow> nat" where
  "pair16 c a = 256 * unat (regs c (0, a + 1)) + unat (regs c (0, a))"

definition set_pair16 :: "u8 \<Rightarrow> nat \<Rightarrow> chip \<Rightarrow> chip" where
  "set_pair16 a n c = c\<lparr>regs := (regs c)((0, a) := of_nat (n mod 256), (0, a + 1) := of_nat (n div 256))\<rparr>"

abbreviation rd_ptr :: "chip \<Rightarrow> nat" where "rd_ptr c \<equiv> pair16 c 0x00"
abbreviation wr_ptr :: "chip \<Rightarrow> nat" where "wr_ptr c \<equiv> pair16 c 0x02"
abbreviation erxst :: "chip \<Rightarrow> nat" where "erxst c \<equiv> pair16 c 0x08"
abbreviation erxnd :: "chip \<Rightarrow> nat" where "erxnd c \<equiv> pair16 c 0x0a"

definition rd_next :: "chip \<Rightarrow> nat \<Rightarrow> nat" where
  "rd_next c p = (if p = erxnd c then erxst c else (p + 1) mod 8192)"

text \<open>Setting PKTDEC takes one packet off the counter; the bit clears itself.\<close>

definition write_reg :: "regkey \<Rightarrow> u8 \<Rightarrow> chip \<Rightarrow> chip" where
  "write_reg k v c =
     (if k = econ2_key \<and> v AND 0x40 \<noteq> 0
      then c\<lparr>regs := (regs c)(econ2_key := v AND NOT 0x40, pktcnt_key := regs c pktcnt_key - 1)\<rparr>
      else c\<lparr>regs := (regs c)(k := v)\<rparr>)"

fun write_mem :: "u8 list \<Rightarrow> chip \<Rightarrow> chip" where
  "write_mem [] c = c"
| "write_mem (b # bs) c =
     write_mem bs (set_pair16 0x02 ((wr_ptr c + 1) mod 8192) (c\<lparr>mem := (mem c)(wr_ptr c := b)\<rparr>))"

text \<open>What the bit commands write to a register, and what the second byte of a read shows of it.\<close>

definition set_bits :: "chip \<Rightarrow> regkey \<Rightarrow> u8 \<Rightarrow> u8" where
  "set_bits c k d = (if mac_mii k then unsupported c 0x80 k (regs c k) d else regs c k OR d)"

definition clear_bits :: "chip \<Rightarrow> regkey \<Rightarrow> u8 \<Rightarrow> u8" where
  "clear_bits c k d = (if mac_mii k then unsupported c 0xa0 k (regs c k) d else regs c k AND NOT d)"

definition shown :: "chip \<Rightarrow> regkey \<Rightarrow> u8" where
  "shown c k = (if mac_mii k then filler c k else regs c k)"

lemma eth_register [simp]:
  assumes "\<not> mac_mii k"
  shows "set_bits c k d = regs c k OR d" "clear_bits c k d = regs c k AND NOT d" "shown c k = regs c k"
  using assms by (simp_all add: set_bits_def clear_bits_def shown_def)

text \<open>What a selection does when it ends.\<close>

definition execute :: "u8 list \<Rightarrow> chip \<Rightarrow> chip" where
  "execute bs c =
     (case bs of
        [] \<Rightarrow> c
      | a # ds \<Rightarrow>
          let op = a AND 0xe0; k = reg_key c (a AND 0x1f)
          in if op = 0x40 then (case ds of [d] \<Rightarrow> write_reg k d c | _ \<Rightarrow> c)
             else if op = 0x80 then (case ds of [d] \<Rightarrow> write_reg k (set_bits c k d) c | _ \<Rightarrow> c)
             else if op = 0xa0 then (case ds of [d] \<Rightarrow> write_reg k (clear_bits c k d) c | _ \<Rightarrow> c)
             else if a = 0x7a then write_mem ds c
             else c)"

fun chip_step :: "spi \<Rightarrow> chip \<Rightarrow> chip" where
  "chip_step SelectLow c = c\<lparr>selected := True, received := []\<rparr>"
| "chip_step SelectHigh c =
     (if selected c then (execute (received c) c)\<lparr>selected := False, received := []\<rparr> else c)"
| "chip_step (Send bs) c = (if selected c then c\<lparr>received := received c @ bs\<rparr> else c)"
| "chip_step (Rxtx bs) c = (if selected c then c\<lparr>received := received c @ bs\<rparr> else c)"
| "chip_step (Exchange b) c = (if selected c then c\<lparr>received := received c @ [b]\<rparr> else c)"
| "chip_step (Recv n) c =
     (if selected c \<and> received c = [0x3a] then set_pair16 0x00 ((rd_next c ^^ n) (rd_ptr c)) c else c)"
| "chip_step e c = c"

text \<open>
  What it clocks out: as second byte of a read command the ETH register, or the dummy byte, after which the value of a MAC or MII register would come
  with the third; or the memory.
\<close>

fun answer :: "chip \<Rightarrow> spi \<Rightarrow> nat \<Rightarrow> u8" where
  "answer c (Rxtx bs) i =
     (if selected c \<and> received c = [] \<and> hd bs AND 0xe0 = 0 then
        let k = reg_key c (hd bs AND 0x1f)
        in if i = 1 then shown c k else if i = 2 \<and> mac_mii k then regs c k else 0
      else 0)"
| "answer c (Recv n) i = (if selected c \<and> received c = [0x3a] then mem c ((rd_next c ^^ i) (rd_ptr c)) else 0)"
| "answer c e i = 0"

definition chip_run :: "chip \<Rightarrow> spi list \<Rightarrow> chip" where
  "chip_run c evs = fold chip_step evs c"

definition answers :: "chip \<Rightarrow> chip_env" where
  "answers c log i = answer (chip_run c (butlast log)) (last log) i"

text \<open>The chip behind a driver state, started as \<open>c0\<close>.\<close>

definition chip_of :: "chip \<Rightarrow> enc \<Rightarrow> chip" where
  "chip_of c0 s = chip_run c0 (wire s)"

definition idle :: "chip \<Rightarrow> bool" where
  "idle c \<longleftrightarrow> \<not> selected c \<and> received c = []"

lemma chip_run_append [simp]: "chip_run c (xs @ ys) = chip_run (chip_run c xs) ys"
  by (simp add: chip_run_def)

lemma chip_run_Nil [simp]: "chip_run c [] = c"
  by (simp add: chip_run_def)

lemma chip_run_Cons [simp]: "chip_run c (e # es) = chip_run (chip_step e c) es"
  by (simp add: chip_run_def)

lemma chip_of_put [simp]: "chip_of c0 (put es s) = chip_run (chip_of c0 s) es"
  by (simp add: chip_of_def put_def)

lemma put_fields [simp]:
  "last_used_register (put es s) = last_used_register s" "rxbufsize (put es s) = rxbufsize s"
  "next_frame_location (put es s) = next_frame_location s"
  by (simp_all add: put_def)

lemma chip_of_fields [simp]:
  "chip_of c0 (s\<lparr>rxbufsize := n\<rparr>) = chip_of c0 s" "chip_of c0 (s\<lparr>next_frame_location := n\<rparr>) = chip_of c0 s"
  by (simp_all add: chip_of_def)

lemma const_pair16 [simp]: "filler (set_pair16 a n c) = filler c" "unsupported (set_pair16 a n c) = unsupported c"
  by (simp_all add: set_pair16_def)

lemma const_write_reg [simp]: "filler (write_reg k v c) = filler c" "unsupported (write_reg k v c) = unsupported c"
  by (simp_all add: write_reg_def)

lemma const_write_mem [simp]: "filler (write_mem bs c) = filler c" "unsupported (write_mem bs c) = unsupported c"
  by (induction bs arbitrary: c) simp_all

lemma const_execute [simp]: "filler (execute bs c) = filler c" "unsupported (execute bs c) = unsupported c"
  by (simp_all add: execute_def Let_def split: list.split)

lemma const_step: "filler (chip_step e c) = filler c" "unsupported (chip_step e c) = unsupported c"
  by (cases e; simp)+

lemma const_run: "filler (chip_run c es) = filler c" "unsupported (chip_run c es) = unsupported c"
  by (induction es arbitrary: c) (simp_all add: const_step)

lemma const_chip [simp]: "filler (chip_of c0 s) = filler c0" "unsupported (chip_of c0 s) = unsupported c0"
  by (simp_all add: chip_of_def const_run)

section \<open>Bytes of a command\<close>

lemma opcode_and [simp]:
  "(0x40 OR (r AND 0x1f)) AND 0xe0 = (0x40 :: u8)" "(0x80 OR (r AND 0x1f)) AND 0xe0 = (0x80 :: u8)"
  "(0xa0 OR (r AND 0x1f)) AND 0xe0 = (0xa0 :: u8)" "(r AND 0x1f) AND 0xe0 = (0 :: u8)"
  "(0x40 OR (r AND 0x1f)) AND 0x1f = (r :: u8) AND 0x1f" "(0x80 OR (r AND 0x1f)) AND 0x1f = (r :: u8) AND 0x1f"
  "(0xa0 OR (r AND 0x1f)) AND 0x1f = (r :: u8) AND 0x1f"
  by (simp_all add: bit.conj_disj_distrib2 and.assoc)

lemma bank_bits: "(x OR (p AND 3)) AND NOT (NOT p AND 3) = (x AND NOT 3) OR (p AND 3 :: u8)"
  by (rule bit_word_eqI) (auto simp: bit_simps)

lemma low_bits: "((x AND NOT 3) OR (p AND 3)) AND 3 = (p AND 3 :: u8)"
  by (rule bit_word_eqI) (auto simp: bit_simps)

lemma page_and [simp]: "drop_bit 6 r AND 3 = (drop_bit 6 r :: u8)"
  by (rule u8_bit_eqI) (auto simp: bit_simps less_Suc_eq numeral_eq_Suc dest: bit_imp_le_length)

section \<open>Commands on the chip\<close>

lemma set_pair16_swap [simp]:
  "set_pair16 a n (c\<lparr>selected := x, received := y\<rparr>) = (set_pair16 a n c)\<lparr>selected := x, received := y\<rparr>"
  "selected (set_pair16 a n c) = selected c" "received (set_pair16 a n c) = received c" "mem (set_pair16 a n c) = mem c"
  by (simp_all add: set_pair16_def)

lemma write_reg_swap [simp]:
  "write_reg k v (c\<lparr>selected := x, received := y\<rparr>) = (write_reg k v c)\<lparr>selected := x, received := y\<rparr>"
  "selected (write_reg k v c) = selected c" "received (write_reg k v c) = received c" "mem (write_reg k v c) = mem c"
  by (simp_all add: write_reg_def)

lemma pair16_update [simp]:
  "pair16 (c\<lparr>selected := x, received := y\<rparr>) a = pair16 c a" "pair16 (c\<lparr>mem := m\<rparr>) a = pair16 c a"
  by (simp_all add: pair16_def)

lemma rd_next_update [simp]: "rd_next (c\<lparr>selected := x, received := y\<rparr>) = rd_next c"
  by (simp add: rd_next_def fun_eq_iff)

lemma reg_key_update [simp]: "reg_key (c\<lparr>selected := x, received := y\<rparr>) a = reg_key c a"
  by (simp add: reg_key_def)

lemma bits_update [simp]:
  "set_bits (c\<lparr>selected := x, received := y\<rparr>) k d = set_bits c k d"
  "clear_bits (c\<lparr>selected := x, received := y\<rparr>) k d = clear_bits c k d"
  by (simp_all add: set_bits_def clear_bits_def)

lemma write_mem_swap [simp]:
  "write_mem bs (c\<lparr>selected := x, received := y\<rparr>) = (write_mem bs c)\<lparr>selected := x, received := y\<rparr>"
proof (induction bs arbitrary: c)
  case (Cons b bs)
  have "set_pair16 a n (c\<lparr>selected := x, received := y, mem := m\<rparr>) =
      (set_pair16 a n (c\<lparr>mem := m\<rparr>))\<lparr>selected := x, received := y\<rparr>" for a n m by (simp add: set_pair16_def)
  then show ?case using Cons by simp
qed simp

lemma write_mem_fields [simp]: "selected (write_mem bs c) = selected c" "received (write_mem bs c) = received c"
  by (induction bs arbitrary: c) simp_all

lemma execute_swap: "execute bs (c\<lparr>selected := x, received := y\<rparr>) = (execute bs c)\<lparr>selected := x, received := y\<rparr>"
  by (simp add: execute_def Let_def split: list.split)

lemma execute_fields [simp]: "selected (execute bs c) = selected c" "received (execute bs c) = received c"
  by (simp_all add: execute_def Let_def split: list.split)

lemma idle_execute [simp]: "idle (execute bs c) = idle c"
  by (simp add: idle_def)

lemma idle_same: "idle c \<Longrightarrow> c\<lparr>selected := False, received := []\<rparr> = c"
  by (cases c) (simp add: idle_def)

text \<open>One selection with the bytes \<open>bs\<close>.\<close>

lemma select_execute:
  assumes "idle c"
  shows "(execute bs (c\<lparr>selected := True, received := bs\<rparr>))\<lparr>selected := False, received := []\<rparr> = execute bs c"
proof -
  have "(execute bs (c\<lparr>selected := True, received := bs\<rparr>))\<lparr>selected := False, received := []\<rparr> =
      (execute bs c)\<lparr>selected := False, received := []\<rparr>" by (simp add: execute_swap)
  then show ?thesis using assms by (simp add: idle_same)
qed

lemma chip_command:
  "idle (chip_of c0 s) \<Longrightarrow> chip_of c0 (snd (command env a b s)) = execute [a, b] (chip_of c0 s)"
  using select_execute [of "chip_of c0 s" "[a, b]"]
  by (simp add: command_def enchw_select_def enchw_unselect_def Let_def)

lemma command_fields [simp]:
  "last_used_register (snd (command env a b s)) = last_used_register s"
  "rxbufsize (snd (command env a b s)) = rxbufsize s"
  "next_frame_location (snd (command env a b s)) = next_frame_location s"
  by (simp_all add: command_def enchw_select_def enchw_unselect_def Let_def)

section \<open>Banks\<close>

definition valid_reg :: "u8 \<Rightarrow> bool" where
  "valid_reg r \<longleftrightarrow> (r AND 0xe0 = 0xc0 \<longleftrightarrow> 0x1b \<le> r AND 0x1f) \<and> r AND 0xe0 \<noteq> 0x80"

text \<open>The bank and address a register name of enc28j60-consts.h stands for.\<close>

definition key :: "u8 \<Rightarrow> regkey" where
  "key r = (if r AND 0xe0 = 0xc0 then 0 else drop_bit 6 r, r AND 0x1f)"

definition choose_bank :: "u8 \<Rightarrow> chip \<Rightarrow> chip" where
  "choose_bank r c =
     (if r AND 0xe0 = 0xc0 then c
      else c\<lparr>regs := (regs c)(econ1_key := (regs c econ1_key AND NOT 3) OR drop_bit 6 r)\<rparr>)"

lemma choose_bank_fields [simp]:
  "selected (choose_bank r c) = selected c" "received (choose_bank r c) = received c" "mem (choose_bank r c) = mem c"
  "idle (choose_bank r c) = idle c"
  by (simp_all add: choose_bank_def idle_def)

lemma reg_key_choose: "valid_reg r \<Longrightarrow> reg_key (choose_bank r c) (r AND 0x1f) = key r"
  using low_bits [of "regs c econ1_key" "drop_bit 6 r"]
  by (auto simp: reg_key_def choose_bank_def key_def valid_reg_def)

lemma ensure_econ1 [simp]: "ensure_register_accessible env ENC_ECON1 s = s"
  by (simp add: ensure_register_accessible.simps registers)

lemma bfs_econ1:
  assumes "idle (chip_of c0 s)"
  shows "chip_of c0 (enc_BFS env ENC_ECON1 v s) = write_reg econ1_key (regs (chip_of c0 s) econ1_key OR v) (chip_of c0 s)"
    and "chip_of c0 (enc_BFC env ENC_ECON1 v s) = write_reg econ1_key (regs (chip_of c0 s) econ1_key AND NOT v) (chip_of c0 s)"
  using assms
  by (simp_all add: enc_BFS.simps enc_BFC.simps chip_command execute_def reg_key_def Let_def)
    (simp_all add: registers)

lemma select_page_fields [simp]:
  "last_used_register (select_page env p s) = last_used_register s"
  "rxbufsize (select_page env p s) = rxbufsize s"
  "next_frame_location (select_page env p s) = next_frame_location s"
  by (simp_all add: select_page.simps enc_BFS.simps enc_BFC.simps Let_def)

lemma chip_select_page:
  assumes "idle (chip_of c0 s)" "p AND 3 = p"
  shows "chip_of c0 (select_page env p s) =
     (chip_of c0 s)\<lparr>regs := (regs (chip_of c0 s))(econ1_key := (regs (chip_of c0 s) econ1_key AND NOT 3) OR p)\<rparr>"
proof -
  let ?x = "regs (chip_of c0 s) econ1_key"
  have i: "idle (write_reg k v c) = idle c" for k v c by (simp add: idle_def)
  have w: "write_reg econ1_key v c = c\<lparr>regs := (regs c)(econ1_key := v)\<rparr>" for v c by (simp add: write_reg_def)
  have set: "(if v \<noteq> 0 then y OR v else y) = y OR v" for y v :: u8 by simp
  have clear: "(if v \<noteq> 0 then y AND NOT v else y) = y AND NOT v" for y v :: u8 by simp
  have "(if NOT p AND 3 \<noteq> 0 then (if p \<noteq> 0 then ?x OR p else ?x) AND NOT (NOT p AND 3) else if p \<noteq> 0 then ?x OR p else ?x) =
      (?x OR (p AND 3)) AND NOT (NOT p AND 3)" unfolding clear set assms(2) ..
  also have "\<dots> = (?x AND NOT 3) OR p" using bank_bits [of ?x p] assms(2) by simp
  finally have v: "(if NOT p AND 3 \<noteq> 0 then (if p \<noteq> 0 then ?x OR p else ?x) AND NOT (NOT p AND 3)
      else if p \<noteq> 0 then ?x OR p else ?x) = (?x AND NOT 3) OR p" .
  show ?thesis unfolding v [symmetric]
    using assms by (simp add: select_page.simps Let_def bfs_econ1 i) (auto simp: w bfs_econ1 i)
qed

lemma ensure_fields [simp]:
  "last_used_register (ensure_register_accessible env r s) = last_used_register s"
  "rxbufsize (ensure_register_accessible env r s) = rxbufsize s"
  "next_frame_location (ensure_register_accessible env r s) = next_frame_location s"
  by (simp_all add: ensure_register_accessible.simps)

text \<open>The register that is reached is always in the chosen bank, because \<open>last_used_register\<close> never becomes one.\<close>

lemma chip_ensure:
  assumes "idle (chip_of c0 s)" "last_used_register s = ENC_BANK_INDETERMINATE" "valid_reg r"
  shows "chip_of c0 (ensure_register_accessible env r s) = choose_bank r (chip_of c0 s)"
  using assms by (auto simp: ensure_register_accessible.simps choose_bank_def chip_select_page valid_reg_def ENC_BANKMASK_def
      ENC_BANKALL_def ENC_BANK_INDETERMINATE_def)

section \<open>Register operations\<close>

definition ready :: "chip \<Rightarrow> enc \<Rightarrow> bool" where
  "ready c0 s \<longleftrightarrow> idle (chip_of c0 s) \<and> last_used_register s = ENC_BANK_INDETERMINATE"

lemma key_choose: "valid_reg r \<Longrightarrow> regs (choose_bank r c) (key r) = regs c (key r)"
  by (auto simp: choose_bank_def key_def valid_reg_def)

lemma bits_choose:
  assumes "valid_reg r"
  shows "set_bits (choose_bank r c) (key r) d = set_bits c (key r) d" "clear_bits (choose_bank r c) (key r) d = clear_bits c (key r) d"
    "shown (choose_bank r c) (key r) = shown c (key r)"
  using key_choose [OF assms, of c] by (simp_all add: set_bits_def clear_bits_def shown_def) (simp_all add: choose_bank_def)

text \<open>The ETH registers among those of the driver.\<close>

lemma eth_keys [simp]:
  "\<not> mac_mii (key ENC_EIE)" "\<not> mac_mii (key ENC_ESTAT)" "\<not> mac_mii (key ENC_ECON2)" "\<not> mac_mii (key ENC_ECON1)"
  "\<not> mac_mii (key ENC_ERXFCON)" "\<not> mac_mii (key ENC_EPKTCNT)" "\<not> mac_mii (key ENC_EBSTSD)" "\<not> mac_mii (key ENC_EBSTCON)"
  "\<not> mac_mii (key ENC_EREVID)" "\<not> mac_mii (key ENC_ECOCON)"
  by (simp_all add: mac_mii_def key_def registers word_less_nat_alt)

lemma idle_write_reg [simp]: "idle (write_reg k v c) = idle c"
  by (simp add: idle_def)

lemma execute_WCR: "execute [0x40 OR (r AND 0x1f), d] c = write_reg (reg_key c (r AND 0x1f)) d c"
  by (simp add: execute_def Let_def)

lemma execute_BFS:
  "execute [0x80 OR (r AND 0x1f), d] c = write_reg (reg_key c (r AND 0x1f)) (set_bits c (reg_key c (r AND 0x1f)) d) c"
  by (simp add: execute_def Let_def)

lemma execute_BFC:
  "execute [0xa0 OR (r AND 0x1f), d] c = write_reg (reg_key c (r AND 0x1f)) (clear_bits c (reg_key c (r AND 0x1f)) d) c"
  by (simp add: execute_def Let_def)

lemma execute_RCR: "execute [r AND 0x1f, d] c = c"
proof -
  have "(r AND 0x1f) AND 0xe0 = 0" by simp
  then have "r AND 0x1f \<noteq> 0x7a" by (auto dest: arg_cong [where f = "\<lambda>x. x AND 0xe0"])
  then show ?thesis by (simp add: execute_def Let_def)
qed

text \<open>The operations as functions of the chip.\<close>

lemma register_commands:
  assumes "ready c0 s" "valid_reg r"
  shows chip_WCR: "chip_of c0 (enc_WCR env r v s) = write_reg (key r) v (choose_bank r (chip_of c0 s))"
    and chip_BFS: "chip_of c0 (enc_BFS env r v s) =
      write_reg (key r) (set_bits (chip_of c0 s) (key r) v) (choose_bank r (chip_of c0 s))"
    and chip_BFC: "chip_of c0 (enc_BFC env r v s) =
      write_reg (key r) (clear_bits (chip_of c0 s) (key r) v) (choose_bank r (chip_of c0 s))"
    and chip_RCR: "chip_of c0 (snd (enc_RCR env r s)) = choose_bank r (chip_of c0 s)"
proof -
  have e: "chip_of c0 (ensure_register_accessible env r s) = choose_bank r (chip_of c0 s)"
    and i: "idle (chip_of c0 (ensure_register_accessible env r s))"
    using assms by (simp_all add: ready_def chip_ensure)
  note c = chip_command [OF i] e ENC_REGISTERMASK_def reg_key_choose [OF assms(2)] bits_choose [OF assms(2)]
  show "chip_of c0 (enc_WCR env r v s) = write_reg (key r) v (choose_bank r (chip_of c0 s))"
    by (simp add: enc_WCR_def c execute_WCR)
  show "chip_of c0 (enc_BFS env r v s) =
      write_reg (key r) (set_bits (chip_of c0 s) (key r) v) (choose_bank r (chip_of c0 s))"
    by (simp add: enc_BFS.simps c execute_BFS)
  show "chip_of c0 (enc_BFC env r v s) =
      write_reg (key r) (clear_bits (chip_of c0 s) (key r) v) (choose_bank r (chip_of c0 s))"
    by (simp add: enc_BFC.simps c execute_BFC)
  show "chip_of c0 (snd (enc_RCR env r s)) = choose_bank r (chip_of c0 s)"
    by (simp add: enc_RCR_def c execute_RCR)
qed

lemma fst_RCR:
  assumes "ready c0 s" "valid_reg r"
  shows "fst (enc_RCR (answers c0) r s) = shown (chip_of c0 s) (key r)"
proof -
  define t where "t = ensure_register_accessible (answers c0) r s"
  have e: "chip_of c0 t = choose_bank r (chip_of c0 s)" and i: "idle (chip_of c0 t)"
    using assms by (simp_all add: ready_def chip_ensure t_def)
  have "fst (enc_RCR (answers c0) r s) = answer (chip_of c0 (put [SelectLow] t)) (Rxtx [r AND 0x1f, 0]) 1"
    by (simp add: enc_RCR_def command_def enchw_select_def Let_def t_def [symmetric] answers_def ENC_REGISTERMASK_def
        del: chip_of_put answer.simps) (simp add: put_def chip_of_def butlast_append)
  also have "\<dots> = shown (chip_of c0 t) (reg_key (chip_of c0 t) (r AND 0x1f))"
    by (simp add: reg_key_def shown_def Let_def)
  finally show ?thesis using assms by (simp add: e reg_key_choose bits_choose)
qed

lemma reg_op_fields [simp]:
  "last_used_register (enc_WCR env r v s) = last_used_register s" "rxbufsize (enc_WCR env r v s) = rxbufsize s"
  "next_frame_location (enc_WCR env r v s) = next_frame_location s"
  "last_used_register (enc_BFS env r v s) = last_used_register s" "rxbufsize (enc_BFS env r v s) = rxbufsize s"
  "next_frame_location (enc_BFS env r v s) = next_frame_location s"
  "last_used_register (enc_BFC env r v s) = last_used_register s" "rxbufsize (enc_BFC env r v s) = rxbufsize s"
  "next_frame_location (enc_BFC env r v s) = next_frame_location s"
  "last_used_register (snd (enc_RCR env r s)) = last_used_register s" "rxbufsize (snd (enc_RCR env r s)) = rxbufsize s"
  "next_frame_location (snd (enc_RCR env r s)) = next_frame_location s"
  by (simp_all add: enc_WCR_def enc_BFS.simps enc_BFC.simps enc_RCR_def)

lemma ready_ops [simp]:
  assumes "ready c0 s" "valid_reg r"
  shows "ready c0 (enc_WCR env r v s)" "ready c0 (enc_BFS env r v s)" "ready c0 (enc_BFC env r v s)"
    "ready c0 (snd (enc_RCR env r s))"
  using assms by (auto simp: ready_def chip_WCR [OF assms] chip_BFS [OF assms] chip_BFC [OF assms] chip_RCR [OF assms])

text \<open>All register names of the driver are valid.\<close>

lemma valid_registers [simp]:
  "valid_reg ENC_EIE" "valid_reg ENC_ESTAT" "valid_reg ENC_ECON2" "valid_reg ENC_ECON1" "valid_reg ENC_ERXFCON"
  "valid_reg ENC_EPKTCNT" "valid_reg ENC_MACON1" "valid_reg ENC_MACON3" "valid_reg ENC_MAIPGL" "valid_reg ENC_MAIPGH"
  "valid_reg ENC_MICMD" "valid_reg ENC_MIREGADR" "valid_reg ENC_MAADR1" "valid_reg ENC_MAADR2" "valid_reg ENC_MAADR3"
  "valid_reg ENC_MAADR4" "valid_reg ENC_MAADR5" "valid_reg ENC_MAADR6" "valid_reg ENC_EBSTSD" "valid_reg ENC_EBSTCON"
  "valid_reg ENC_MISTAT" "valid_reg ENC_EREVID" "valid_reg ENC_ECOCON"
  by (simp_all add: valid_reg_def registers word_le_nat_alt)

section \<open>Pointers and memory\<close>

text \<open>All pointer registers lie in bank 0.\<close>

definition bank0 :: "chip \<Rightarrow> chip" where
  "bank0 c = c\<lparr>regs := (regs c)(econ1_key := regs c econ1_key AND NOT 3)\<rparr>"

lemma bank0_fields [simp]:
  "selected (bank0 c) = selected c" "received (bank0 c) = received c" "mem (bank0 c) = mem c" "idle (bank0 c) = idle c"
  by (simp_all add: bank0_def idle_def)

lemma bank0_regs [simp]: "k \<noteq> econ1_key \<Longrightarrow> regs (bank0 c) k = regs c k"
  by (simp add: bank0_def)

definition pointer_reg :: "u8 \<Rightarrow> bool" where
  "pointer_reg r \<longleftrightarrow> r \<in> {ENC_ERDPTL, ENC_EWRPTL, ENC_ETXSTL, ENC_ETXNDL, ENC_ERXSTL, ENC_ERXNDL, ENC_ERXRDPTL}"

lemma pointer_regs [simp]:
  "pointer_reg ENC_ERDPTL" "pointer_reg ENC_EWRPTL" "pointer_reg ENC_ETXSTL" "pointer_reg ENC_ETXNDL"
  "pointer_reg ENC_ERXSTL" "pointer_reg ENC_ERXNDL" "pointer_reg ENC_ERXRDPTL"
  by (simp_all add: pointer_reg_def)

lemma pointer_reg_halves:
  assumes "pointer_reg r"
  shows "valid_reg (r AND NOT 1)" "valid_reg (r OR 1)" "key (r AND NOT 1) = (0, r AND 0x1f)"
    "key (r OR 1) = (0, (r AND 0x1f) + 1)" "r AND 0x1f < 0x0e"
    "choose_bank (r AND NOT 1) c = bank0 c" "choose_bank (r OR 1) c = bank0 c"
  using assms by (auto simp: pointer_reg_def registers valid_reg_def key_def choose_bank_def bank0_def word_le_nat_alt)

lemma unat_u16: "unat (n :: u16) < 65536"
proof -
  have "unat n < 2 ^ LENGTH(16)" by (rule unsigned_less)
  then show ?thesis by simp
qed

lemma of_nat_u16_bytes:
  "(of_nat (unat (n :: u16) mod 256) :: u8) = ucast (n AND 0xff)" "(of_nat (unat n div 256) :: u8) = ucast (drop_bit 8 n)"
proof -
  have "n AND 0xff = take_bit 8 n" by (simp add: take_bit_eq_mask mask_eq_exp_minus_1)
  then have "(ucast (n AND 0xff) :: u8) = ucast n" by (simp add: bit_eq_iff bit_simps)
  also have "\<dots> = of_nat (unat n mod 256)"
    by (rule word_unat_eq_iff [THEN iffD2]) (simp add: unsigned_ucast_eq take_bit_eq_mod unat_of_nat)
  finally show "(of_nat (unat n mod 256) :: u8) = ucast (n AND 0xff)" ..
  show "(of_nat (unat n div 256) :: u8) = ucast (drop_bit 8 n)"
    by (rule word_unat_eq_iff [THEN iffD2]) (simp only: unsigned_ucast_eq unsigned_drop_bit_eq unsigned_of_nat,
        use unat_u16 [of n] in \<open>simp add: drop_bit_eq_div take_bit_eq_mod\<close>)
qed

lemma pair16_set [simp]: "n < 65536 \<Longrightarrow> a + 1 \<noteq> a \<Longrightarrow> pair16 (set_pair16 a n c) a = n"
  by (simp add: pair16_def set_pair16_def unat_of_nat take_bit_eq_mod)

lemma succ_u8 [simp]: "(a :: u8) + 1 \<noteq> a"
  by simp

lemma pointer_low [simp]:
  "ENC_ERDPTL AND 31 = 0x00" "ENC_EWRPTL AND 31 = 0x02" "ENC_ETXSTL AND 31 = 0x04" "ENC_ETXNDL AND 31 = 0x06"
  "ENC_ERXSTL AND 31 = 0x08" "ENC_ERXNDL AND 31 = 0x0a" "ENC_ERXRDPTL AND 31 = 0x0c"
  by (simp_all add: registers)

lemma chip_WCR16:
  assumes "ready c0 s" "pointer_reg r"
  shows "chip_of c0 (enc_WCR16 env r n s) = set_pair16 (r AND 0x1f) (unat n) (bank0 (chip_of c0 s))"
    and "ready c0 (enc_WCR16 env r n s)"
proof -
  note h = pointer_reg_halves [OF assms(2)]
  have w: "write_reg (0, a) v c = c\<lparr>regs := (regs c)((0, a) := v)\<rparr>" if "a < 0x1e" for a v c
    using that by (auto simp: write_reg_def)
  have small: "r AND 0x1f < 0x1e" "(r AND 0x1f) + 1 < 0x1e" using assms(2) by (auto simp: pointer_reg_def registers)
  have b: "bank0 (write_reg (0, a) v (bank0 c)) = write_reg (0, a) v (bank0 c)" if "a < 0x1e" for a v c
    using that by (auto simp: w bank0_def fun_eq_iff)
  let ?t = "enc_WCR env (r AND NOT 1) (ucast (n AND 0xff)) s"
  have "chip_of c0 ?t = write_reg (0, r AND 0x1f) (ucast (n AND 0xff)) (bank0 (chip_of c0 s))"
    unfolding chip_WCR [OF assms(1) h(1)] h ..
  then have "chip_of c0 (enc_WCR16 env r n s) = write_reg (0, (r AND 0x1f) + 1) (ucast (drop_bit 8 n))
      (write_reg (0, r AND 0x1f) (ucast (n AND 0xff)) (bank0 (chip_of c0 s)))"
    unfolding enc_WCR16_def chip_WCR [OF ready_ops(1) [OF assms(1) h(1)] h(2)] h using b [OF small(1)] by simp
  then show "chip_of c0 (enc_WCR16 env r n s) = set_pair16 (r AND 0x1f) (unat n) (bank0 (chip_of c0 s))"
    using small by (simp add: w set_pair16_def of_nat_u16_bytes)
  show "ready c0 (enc_WCR16 env r n s)" unfolding enc_WCR16_def
    by (rule ready_ops(1) [OF ready_ops(1) [OF assms(1) h(1)] h(2)])
qed

lemma WCR16_fields [simp]:
  "last_used_register (enc_WCR16 env r n s) = last_used_register s" "rxbufsize (enc_WCR16 env r n s) = rxbufsize s"
  "next_frame_location (enc_WCR16 env r n s) = next_frame_location s"
  by (simp_all add: enc_WCR16_def)

text \<open>A write command to the memory.\<close>

lemma chip_WBM_raw:
  assumes "idle (chip_of c0 s)"
  shows "chip_of c0 (WBM_raw bs s) = write_mem bs (chip_of c0 s)" and "idle (chip_of c0 (WBM_raw bs s))"
proof -
  have x: "execute (0x7a # bs) (chip_of c0 s) = write_mem bs (chip_of c0 s)" by (simp add: execute_def)
  have "chip_run (chip_of c0 s) [SelectLow, Send [0x7a], Send bs, SelectHigh] = write_mem bs (chip_of c0 s)"
    using select_execute [OF assms, of "0x7a # bs"] by (simp add: x)
  moreover have "\<not> selected (write_mem bs (chip_of c0 s))" using assms by (simp add: idle_def)
  ultimately show m: "chip_of c0 (WBM_raw bs s) = write_mem bs (chip_of c0 s)"
    by (simp add: WBM_raw_def enchw_select_def enchw_unselect_def)
  show "idle (chip_of c0 (WBM_raw bs s))" using assms by (simp add: m idle_def)
qed

lemma WBM_raw_fields [simp]:
  "last_used_register (WBM_raw bs s) = last_used_register s" "rxbufsize (WBM_raw bs s) = rxbufsize s"
  "next_frame_location (WBM_raw bs s) = next_frame_location s"
  by (simp_all add: WBM_raw_def enchw_select_def enchw_unselect_def)

lemma write_mem_append: "write_mem (xs @ ys) c = write_mem ys (write_mem xs c)"
  by (induction xs arbitrary: c) simp_all

text \<open>Registers but the write pointer stay; memory is filled upwards.\<close>

lemma write_mem_regs: "k \<notin> {(0, 0x02), (0, 0x03)} \<Longrightarrow> regs (write_mem bs c) k = regs c k"
  by (induction bs arbitrary: c) (auto simp: set_pair16_def)

lemma write_mem_at:
  assumes "wr_ptr c + length bs \<le> 8192"
  shows "mem (write_mem bs c) x =
     (if wr_ptr c \<le> x \<and> x < wr_ptr c + length bs then bs ! (x - wr_ptr c) else mem c x)"
  using assms
proof (induction bs arbitrary: c)
  case (Cons b bs)
  show ?case
  proof (cases bs)
    case Nil
    then show ?thesis by simp
  next
    case (Cons b' bs')
    then have "(wr_ptr c + 1) mod 8192 = wr_ptr c + 1" using \<open>wr_ptr c + length (b # bs) \<le> 8192\<close> by simp
    then show ?thesis using Cons.IH [of "set_pair16 0x02 (wr_ptr c + 1) (c\<lparr>mem := (mem c)(wr_ptr c := b)\<rparr>)"] Cons.prems
      by (auto simp: nth_Cons')
  qed
qed auto

lemma idle_write_mem [simp]: "idle (write_mem bs c) = idle c"
  by (simp add: idle_def)

lemma ready_WBM_raw: "ready c0 s \<Longrightarrow> ready c0 (WBM_raw bs s)"
  by (simp add: ready_def chip_WBM_raw)

lemma pair16_frame: "(\<And>k. k \<in> {(0, a), (0, a + 1)} \<Longrightarrow> regs c k = regs d k) \<Longrightarrow> pair16 c a = pair16 d a"
  by (simp add: pair16_def)

text \<open>A read command to the memory moves the read pointer only.\<close>

lemma chip_RBM:
  assumes "ready c0 s"
  shows "mem (chip_of c0 (snd (enc_RBM env a n s))) = mem (chip_of c0 s)"
    and "k \<notin> {(0, 0x00), (0, 0x01), econ1_key} \<Longrightarrow> regs (chip_of c0 (snd (enc_RBM env a n s))) k = regs (chip_of c0 s) k"
    and "ready c0 (snd (enc_RBM env a n s))"
proof -
  define t where "t = (if a \<noteq> ENC_READLOCATION_ANY then enc_WCR16 env ENC_ERDPTL a s else s)"
  have t: "ready c0 t" "mem (chip_of c0 t) = mem (chip_of c0 s)"
    "k \<notin> {(0, 0x00), (0, 0x01), econ1_key} \<Longrightarrow> regs (chip_of c0 t) k = regs (chip_of c0 s) k"
    using assms by (auto simp: t_def chip_WCR16 set_pair16_def)
  have x: "execute [0x3a] c = c" for c by (simp add: execute_def)
  define u where "u = chip_run (chip_of c0 t) [SelectLow, Send [0x3a], Recv (unat n), SelectHigh]"
  have u: "u = set_pair16 0x00 ((rd_next (chip_of c0 t) ^^ unat n) (rd_ptr (chip_of c0 t))) (chip_of c0 t)"
    using t(1) select_execute [of "set_pair16 0x00 ((rd_next (chip_of c0 t) ^^ unat n) (rd_ptr (chip_of c0 t))) (chip_of c0 t)" "[0x3a]"]
    by (simp add: u_def ready_def x idle_def idle_same)
  have c: "chip_of c0 (snd (enc_RBM env a n s)) = u"
    by (simp add: enc_RBM_def Let_def t_def [symmetric] u_def enchw_select_def enchw_unselect_def)
  show "mem (chip_of c0 (snd (enc_RBM env a n s))) = mem (chip_of c0 s)" by (simp add: c u t(2))
  show "k \<notin> {(0, 0x00), (0, 0x01), econ1_key} \<Longrightarrow> regs (chip_of c0 (snd (enc_RBM env a n s))) k = regs (chip_of c0 s) k"
    unfolding c u using t(3) by (simp add: set_pair16_def)
  have "last_used_register t = last_used_register s" by (simp add: t_def)
  then show "ready c0 (snd (enc_RBM env a n s))"
    using t(1) assms unfolding ready_def c u
    by (simp add: idle_def enc_RBM_def Let_def enchw_select_def enchw_unselect_def)
qed

section \<open>Transmitting\<close>

lemma clear_bit0: "unat (w AND NOT 1 :: u16) = unat w div 2 * 2"
proof -
  have "w AND NOT (mask k) = push_bit k (drop_bit k w)" for k by (rule bit_word_eqI) (auto simp: bit_simps)
  from this [of 1] have "w AND NOT 1 = push_bit 1 (drop_bit 1 w)" by (simp only: mask_1)
  then have "unat (w AND NOT 1) = take_bit 16 (push_bit 1 (drop_bit 1 (unat w)))"
    by (simp only: unsigned_push_bit_eq unsigned_drop_bit_eq) (use unat_u16 [of w] in \<open>simp add: take_bit_eq_mod\<close>)
  then show ?thesis using unat_u16 [of w] by (simp add: take_bit_eq_mod drop_bit_eq_div)
qed

lemma transmit_start_address_bounds:
  assumes "unat (rxbufsize s) < 8191"
  shows "unat (rxbufsize s) < unat (transmit_start_address s)" "unat (transmit_start_address s) \<le> unat (rxbufsize s) + 2"
    "even (unat (transmit_start_address s))"
proof -
  have two: "unat (rxbufsize s + 1 + 1) = unat (rxbufsize s) + 2"
    using assms by (simp add: unat_word_ariths)
  have "unat (transmit_start_address s) = (unat (rxbufsize s) + 2) div 2 * 2"
    unfolding transmit_start_address_def Let_def clear_bit0 two by (rule refl)
  then show "unat (rxbufsize s) < unat (transmit_start_address s)" "unat (transmit_start_address s) \<le> unat (rxbufsize s) + 2"
    "even (unat (transmit_start_address s))" by presburger+
qed

fun chain_ok :: "pbuf list \<Rightarrow> bool" where
  "chain_ok [] \<longleftrightarrow> True"
| "chain_ok (b # bs) \<longleftrightarrow> unat (tot_len b) = length (concat (map payload (b # bs))) \<and> chain_ok bs"

lemma transmit_chain_ok:
  assumes "chain_ok bufs" "bufs \<noteq> []" "ready c0 s"
  obtains s' where "transmit_chain bufs s = Some s'" "ready c0 s'"
    "chip_of c0 s' = write_mem (concat (map payload bufs)) (chip_of c0 s)" "rxbufsize s' = rxbufsize s"
  using assms
proof (induction bufs arbitrary: s thesis)
  case (Cons b bs)
  let ?s1 = "transmit_partial (payload b) s"
  have s1: "ready c0 ?s1" "chip_of c0 ?s1 = write_mem (payload b) (chip_of c0 s)" "rxbufsize ?s1 = rxbufsize s"
    using Cons.prems(4) by (simp_all add: transmit_partial_def ready_WBM_raw chip_WBM_raw ready_def)
  show ?case
  proof (cases "of_nat (length (payload b)) = tot_len b")
    case True
    then have "unat (of_nat (length (payload b)) :: u16) = length (concat (map payload (b # bs)))"
      using Cons.prems(2) by simp
    moreover have "length (payload b) < 65536" using Cons.prems(2) unat_u16 [of "tot_len b"] by simp
    ultimately have "concat (map payload (b # bs)) = payload b" by (simp add: unat_of_nat take_bit_eq_mod)
    then show ?thesis using True s1 by (intro Cons.prems(1) [of ?s1]) (simp_all only: transmit_chain.simps Let_def if_True simp_thms)
  next
    case False
    have "bs \<noteq> []"
    proof
      assume "bs = []"
      then have "length (payload b) = unat (tot_len b)" using Cons.prems(2) by simp
      then have "of_nat (length (payload b)) = tot_len b" by simp
      then show False using False by simp
    qed
    then obtain s' where "transmit_chain bs ?s1 = Some s'" "ready c0 s'"
      "chip_of c0 s' = write_mem (concat (map payload bs)) (chip_of c0 ?s1)" "rxbufsize s' = rxbufsize ?s1"
      using Cons.IH Cons.prems(2) s1(1) by auto
    then show ?thesis using False s1 by (intro Cons.prems(1) [of s']) (simp_all add: Let_def write_mem_append)
  qed
qed simp

lemma txrts_wait_chip:
  "ready c0 s \<Longrightarrow> chip_of c0 (snd (txrts_wait env n s)) = chip_of c0 s \<and> ready c0 (snd (txrts_wait env n s)) \<and>
     rxbufsize (snd (txrts_wait env n s)) = rxbufsize s"
proof (induction n arbitrary: s)
  case (Suc n)
  have "choose_bank ENC_ECON1 c = c" for c by (simp add: choose_bank_def registers)
  then show ?case using Suc by (simp add: split_beta chip_RCR ready_ops)
qed simp

lemma key_econ1 [simp]: "key ENC_ECON1 = econ1_key" "choose_bank ENC_ECON1 c = c"
  by (simp_all add: key_def choose_bank_def registers)

lemma pair16_econ1: "a \<noteq> 0x1f \<Longrightarrow> a \<noteq> 0x1e \<Longrightarrow> pair16 (write_reg econ1_key v c) a = pair16 c a"
  by (auto simp: pair16_def write_reg_def dest: arg_cong [where f = "\<lambda>x. x - 1"])

lemma transmit_end_chip:
  assumes "ready c0 s"
  shows "mem (chip_of c0 (transmit_end env n s)) = mem (chip_of c0 s)"
    and "pair16 (chip_of c0 (transmit_end env n s)) 0x06 = unat (transmit_start_address s + n)"
    and "k \<notin> {(0, 0x00), (0, 0x01), (0, 0x06), (0, 0x07), econ1_key} \<Longrightarrow>
      regs (chip_of c0 (transmit_end env n s)) k = regs (chip_of c0 s) k"
proof -
  define s1 where "s1 = enc_BFS env ENC_ECON1 0x08 (enc_WCR16 env ENC_ETXNDL (transmit_start_address s + 1 + n - 1) s)"
  define s2 where "s2 = snd (txrts_wait env 10000 s1)"
  have r1: "ready c0 s1" using assms by (simp add: s1_def chip_WCR16)
  have s1: "mem (chip_of c0 s1) = mem (chip_of c0 s)" "pair16 (chip_of c0 s1) 0x06 = unat (transmit_start_address s + n)"
    "k \<notin> {(0, 0x06), (0, 0x07), econ1_key} \<Longrightarrow> regs (chip_of c0 s1) k = regs (chip_of c0 s) k"
    using assms by (simp_all add: s1_def chip_BFS chip_WCR16 pair16_econ1 unat_u16)
      (auto simp: write_reg_def set_pair16_def bank0_def)
  have s2: "chip_of c0 s2 = chip_of c0 s1" "ready c0 s2" using txrts_wait_chip [OF r1] by (simp_all add: s2_def)
  define a where "a = transmit_start_address s2 + n"
  have e: "transmit_end env n s = (if fst (txrts_wait env 10000 s1) then snd (enc_RBM env a 7 s2)
      else enc_BFC env ENC_ECON1 0x80 (enc_BFS env ENC_ECON1 0x80 s2))"
    by (simp add: transmit_end_def split_beta Let_def s1_def s2_def a_def)
  have end_chip: "mem (chip_of c0 (transmit_end env n s)) = mem (chip_of c0 s2)"
    "k \<notin> {(0, 0x00), (0, 0x01), econ1_key} \<Longrightarrow> regs (chip_of c0 (transmit_end env n s)) k = regs (chip_of c0 s2) k" for k
    using s2(2) by (auto simp: e chip_RBM chip_BFS chip_BFC) (auto simp: write_reg_def)
  show "mem (chip_of c0 (transmit_end env n s)) = mem (chip_of c0 s)"
    by (simp add: end_chip s2(1) s1(1))
  show "pair16 (chip_of c0 (transmit_end env n s)) 0x06 = unat (transmit_start_address s + n)"
    unfolding s1(2) [symmetric] s2(1) [symmetric] by (rule pair16_frame) (auto simp: end_chip)
  show "k \<notin> {(0, 0x00), (0, 0x01), (0, 0x06), (0, 0x07), econ1_key} \<Longrightarrow>
      regs (chip_of c0 (transmit_end env n s)) k = regs (chip_of c0 s) k"
    by (simp add: end_chip s2(1) s1(3))
qed

lemma enc_WBM_chip:
  assumes "ready c0 s"
  shows "chip_of c0 (enc_WBM env bs a s) = write_mem bs (set_pair16 0x02 (unat a) (bank0 (chip_of c0 s)))"
    and "ready c0 (enc_WBM env bs a s)" and "rxbufsize (enc_WBM env bs a s) = rxbufsize s"
  using chip_WCR16 [OF assms, of ENC_EWRPTL env a]
  by (simp_all add: enc_WBM_def chip_WBM_raw ready_def)

text \<open>
  C13: A packet whose chain of buffers lwIP built consistently, and that fits behind the receive ring, is laid out in the chip's memory
  as the data sheet wants it: at an even address behind the ring a zero control byte, then the payload of all
  buffers in order, with ETXST at the control byte and ETXND at the last payload byte; no other byte of the
  memory changes, in particular none of the ring, and the loop over the chain ends at its last buffer.
\<close>

theorem transmit_layout:
  assumes "ready c0 s" "chain_ok bufs" "bufs \<noteq> []" "unat (rxbufsize s) < 8191"
    and "unat (transmit_start_address s) + 1 + length (concat (map payload bufs)) \<le> 8192"
  shows "\<exists>s'. enc_transmit_pbuf env bufs s = Some s' \<and>
    (let c = chip_of c0 s; c' = chip_of c0 s'; data = concat (map payload bufs); a = unat (transmit_start_address s)
     in even a \<and> unat (rxbufsize s) < a \<and> pair16 c' 0x04 = a \<and> pair16 c' 0x06 = a + length data \<and>
        mem c' = (\<lambda>x. if x = a then 0 else if a < x \<and> x \<le> a + length data then data ! (x - a - 1) else mem c x))"
proof -
  let ?data = "concat (map payload bufs)" and ?A = "transmit_start_address s"
  define s1 where "s1 = enc_WCR16 env ENC_ETXSTL ?A s"
  have s1: "chip_of c0 s1 = set_pair16 0x04 (unat ?A) (bank0 (chip_of c0 s))" "ready c0 s1" "rxbufsize s1 = rxbufsize s"
    using chip_WCR16 [OF assms(1), of ENC_ETXSTL] by (simp_all add: s1_def)
  define s2 where "s2 = enc_WBM env [0] ?A s1"
  have ts: "transmit_start env s = s2"
    by (simp add: transmit_start_def s2_def s1_def Let_def) (simp add: transmit_start_address_def)
  have s2: "chip_of c0 s2 = write_mem [0] (set_pair16 0x02 (unat ?A) (bank0 (chip_of c0 s1)))" "ready c0 s2"
    "rxbufsize s2 = rxbufsize s" using enc_WBM_chip [OF s1(2)] s1(3) by (simp_all add: s2_def)
  obtain s3 where s3: "transmit_chain bufs s2 = Some s3" "ready c0 s3" "chip_of c0 s3 = write_mem ?data (chip_of c0 s2)"
    "rxbufsize s3 = rxbufsize s2" by (rule transmit_chain_ok [OF assms(2,3) s2(2)])
  define c1 where "c1 = set_pair16 0x02 (unat ?A) (bank0 (chip_of c0 s1))"
  have c3: "chip_of c0 s3 = write_mem (0 # ?data) c1"
    using s3(3) s2(1) write_mem_append [of "[0]" ?data c1] by (simp add: c1_def)
  have wp: "wr_ptr c1 = unat ?A" by (simp add: c1_def unat_u16)
  have A3: "transmit_start_address s3 = ?A" using s2(3) s3(4) by (simp add: transmit_start_address_def)
  define s' where "s' = transmit_end env (tot_len (hd bufs)) s3"
  have "enc_transmit_pbuf env bufs s = Some s'" by (simp add: enc_transmit_pbuf_def ts s3(1) s'_def)
  moreover have tot: "unat (tot_len (hd bufs)) = length ?data" using assms(2,3) by (cases bufs) auto
  have "pair16 (chip_of c0 s') 0x06 = unat ?A + length ?data"
    using transmit_end_chip(2) [OF s3(2), of env "tot_len (hd bufs)"] assms(5) tot
    by (simp add: s'_def A3 unat_word_ariths)
  moreover have "pair16 (chip_of c0 s') 0x04 = pair16 (chip_of c0 s1) 0x04"
    by (rule pair16_frame) (auto simp: s'_def transmit_end_chip(3) [OF s3(2)] c3 write_mem_regs c1_def set_pair16_def)
  moreover have "pair16 (chip_of c0 s1) 0x04 = unat ?A" by (simp add: s1 unat_u16)
  moreover have "mem (chip_of c0 s') x = (if x = unat ?A then 0
      else if unat ?A < x \<and> x \<le> unat ?A + length ?data then ?data ! (x - unat ?A - 1) else mem (chip_of c0 s) x)" for x
  proof -
    have "mem c1 = mem (chip_of c0 s)" by (simp add: c1_def s1)
    then show ?thesis using write_mem_at [of c1 "0 # ?data" x] assms(5)
      by (auto simp: s'_def transmit_end_chip(1) [OF s3(2)] c3 wp nth_Cons')
  qed
  ultimately show ?thesis
    using transmit_start_address_bounds [OF assms(4)] by (auto simp: Let_def fun_eq_iff)
qed

section \<open>Receiving\<close>

lemma pair16_bound: "pair16 c a < 65536"
proof -
  have "unat (w :: u8) < 256" for w
  proof -
    have "unat w < 2 ^ LENGTH(8)" by (rule unsigned_less)
    then show ?thesis by simp
  qed
  from this [of "regs c (0, a + 1)"] this [of "regs c (0, a)"] show ?thesis by (simp add: pair16_def)
qed

lemma rd_iter_bound: "p < 65536 \<Longrightarrow> (rd_next c ^^ n) p < 65536"
  by (induction n) (auto simp: rd_next_def pair16_bound intro: less_trans [OF mod_less_divisor])

lemma rd_next_cong: "erxst c = erxst d \<Longrightarrow> erxnd c = erxnd d \<Longrightarrow> rd_next c = rd_next d"
  by (simp add: rd_next_def fun_eq_iff)

text \<open>Where a read starts: at the given address, or where the last one stopped.\<close>

definition read_start :: "u16 \<Rightarrow> chip \<Rightarrow> nat" where
  "read_start a c = (if a \<noteq> ENC_READLOCATION_ANY then unat a else rd_ptr c)"

lemma RBM_answer:
  assumes "ready c0 s"
  shows "fst (enc_RBM (answers c0) a n s) = map (\<lambda>i. mem (chip_of c0 s) ((rd_next (chip_of c0 s) ^^ i) (read_start a (chip_of c0 s)))) [0..<unat n]"
    and "rd_ptr (chip_of c0 (snd (enc_RBM env a n s))) = (rd_next (chip_of c0 s) ^^ unat n) (read_start a (chip_of c0 s))"
proof -
  define t where "t env = (if a \<noteq> ENC_READLOCATION_ANY then enc_WCR16 env ENC_ERDPTL a s else s)" for env
  have t: "idle (chip_of c0 (t env))" "mem (chip_of c0 (t env)) = mem (chip_of c0 s)"
    "rd_ptr (chip_of c0 (t env)) = read_start a (chip_of c0 s)"
    "rd_next (chip_of c0 (t env)) = rd_next (chip_of c0 s)" for env
    using assms chip_WCR16 [OF assms, of ENC_ERDPTL env a]
    by (auto simp: t_def ready_def read_start_def unat_u16 intro!: rd_next_cong)
      (auto simp: pair16_def set_pair16_def bank0_def)
  have "fst (enc_RBM (answers c0) a n s) =
      map (answer (chip_run (chip_of c0 (t (answers c0))) [SelectLow, Send [0x3a]]) (Recv (unat n))) [0..<unat n]"
    by (simp add: enc_RBM_def Let_def t_def [symmetric] enchw_select_def answers_def del: chip_run_Cons answer.simps)
      (simp add: put_def chip_of_def butlast_append)
  also have "\<dots> = map (\<lambda>i. mem (chip_of c0 s) ((rd_next (chip_of c0 s) ^^ i) (read_start a (chip_of c0 s)))) [0..<unat n]"
    by (simp add: t)
  finally show "fst (enc_RBM (answers c0) a n s) =
      map (\<lambda>i. mem (chip_of c0 s) ((rd_next (chip_of c0 s) ^^ i) (read_start a (chip_of c0 s)))) [0..<unat n]" .
  have x: "execute [0x3a] c = c" for c by (simp add: execute_def)
  have p: "read_start a (chip_of c0 s) < 65536" by (simp add: read_start_def pair16_bound unat_u16)
  have "chip_of c0 (snd (enc_RBM env a n s)) = chip_run (chip_of c0 (t env)) [SelectLow, Send [0x3a], Recv (unat n), SelectHigh]"
    by (simp add: enc_RBM_def Let_def t_def [symmetric] enchw_select_def enchw_unselect_def)
  then show "rd_ptr (chip_of c0 (snd (enc_RBM env a n s))) = (rd_next (chip_of c0 s) ^^ unat n) (read_start a (chip_of c0 s))"
    using t by (simp add: x rd_iter_bound [OF p])
qed

text \<open>The receive ring starts at 0; bytes are counted around it.\<close>

lemma rd_iter_ring:
  assumes "erxst c = 0" "erxnd c < 8192" "p \<le> erxnd c"
  shows "(rd_next c ^^ i) p = (p + i) mod (erxnd c + 1)"
proof (induction i)
  case (Suc i)
  have step: "rd_next c q = Suc q mod (erxnd c + 1)" if "q \<le> erxnd c" for q
    using that assms(1,2) by (auto simp: rd_next_def)
  have "(p + i) mod (erxnd c + 1) \<le> erxnd c" using mod_less_divisor [of "erxnd c + 1" "p + i"] by linarith
  then show ?case by (simp add: Suc step mod_Suc_eq)
qed (use assms in simp)

lemma bytes_or: "(ucast (a :: u8) OR push_bit 8 (ucast (b :: u8)) :: u16) = ucast a + push_bit 8 (ucast b)"
proof -
  have "(ucast a AND push_bit 8 (ucast b) :: u16) = 0"
    by (rule bit_word_eqI) (auto simp: bit_simps dest: bit_imp_le_length)
  then show ?thesis by (simp add: disjunctive_add_eq_or)
qed

lemma header_words:
  "unat (ucast a + push_bit 8 (ucast b) :: u16) = unat (a :: u8) + 256 * unat (b :: u8)"
  "unat (ucast a OR push_bit 8 (ucast (b AND 0x7f)) :: u16) = unat (a :: u8) + 256 * (unat (b :: u8) mod 128)"
proof -
  have lt: "unat (w :: u8) < 256" for w
  proof -
    have "unat w < 2 ^ LENGTH(8)" by (rule unsigned_less)
    then show ?thesis by simp
  qed
  have low: "unat (ucast w :: u16) = unat (w :: u8)" for w using lt [of w] by (simp add: unsigned_ucast_eq take_bit_eq_mod)
  have high: "unat (push_bit 8 (ucast w) :: u16) = 256 * unat (w :: u8)" for w
    using lt [of w] by (simp add: push_bit_eq_mult unat_word_ariths low)
  show sum: "unat (ucast a + push_bit 8 (ucast b) :: u16) = unat a + 256 * unat b" for a b :: u8
    using lt [of a] lt [of b] by (simp add: unat_word_ariths low high)
  have "b AND 0x7f = take_bit 7 b" by (simp add: take_bit_eq_mask mask_eq_exp_minus_1)
  then have m: "unat (b AND 0x7f) = unat b mod 128" by (simp add: unsigned_take_bit_eq) (simp add: take_bit_eq_mod)
  show "unat (ucast a OR push_bit 8 (ucast (b AND 0x7f)) :: u16) = unat a + 256 * (unat b mod 128)"
    by (simp only: bytes_or sum m)
qed

lemma RBM_fields [simp]:
  "rxbufsize (snd (enc_RBM env a n s)) = rxbufsize s"
  "next_frame_location (snd (enc_RBM env a n s)) = next_frame_location s"
  by (simp_all add: enc_RBM_def Let_def enchw_select_def enchw_unselect_def)

lemma RCR16_answer:
  assumes "ready c0 s" "pointer_reg r"
  shows "unat (fst (enc_RCR16 (answers c0) r s)) = pair16 (chip_of c0 s) (r AND 0x1f)"
    and "chip_of c0 (snd (enc_RCR16 env r s)) = bank0 (chip_of c0 s)" and "ready c0 (snd (enc_RCR16 env r s))"
proof -
  note h = pointer_reg_halves [OF assms(2)]
  have r1: "ready c0 (snd (enc_RCR env (r OR 1) s))" for env by (rule ready_ops(4) [OF assms(1) h(2)])
  have c1: "chip_of c0 (snd (enc_RCR env (r OR 1) s)) = bank0 (chip_of c0 s)" for env
    unfolding chip_RCR [OF assms(1) h(2)] h ..
  have hi: "fst (enc_RCR (answers c0) (r OR 1) s) = regs (chip_of c0 s) (0, (r AND 0x1f) + 1)"
    unfolding fst_RCR [OF assms(1) h(2)] h by simp
  have lo: "fst (enc_RCR (answers c0) (r AND NOT 1) (snd (enc_RCR (answers c0) (r OR 1) s))) =
      regs (chip_of c0 s) (0, r AND 0x1f)"
    unfolding fst_RCR [OF r1 h(1)] h c1 using assms(2) by (auto simp: pointer_reg_def)
  have w: "unat (push_bit 8 (ucast a) OR ucast b :: u16) = 256 * unat (a :: u8) + unat (b :: u8)" for a b
  proof -
    have "(push_bit 8 (ucast a) OR ucast b :: u16) = ucast b + push_bit 8 (ucast a)"
      by (subst or.commute) (rule bytes_or)
    then show ?thesis by (simp only: header_words(1))
  qed
  show "unat (fst (enc_RCR16 (answers c0) r s)) = pair16 (chip_of c0 s) (r AND 0x1f)"
    by (simp only: enc_RCR16_def split_beta Let_def fst_conv hi lo w pair16_def)
  show "chip_of c0 (snd (enc_RCR16 env r s)) = bank0 (chip_of c0 s)"
    unfolding enc_RCR16_def split_beta Let_def snd_conv chip_RCR [OF r1 h(1)] h c1
    by (simp add: bank0_def)
  show "ready c0 (snd (enc_RCR16 env r s))"
    unfolding enc_RCR16_def split_beta Let_def snd_conv by (rule ready_ops(4) [OF r1 h(1)])
qed

lemma RCR16_fields [simp]:
  "rxbufsize (snd (enc_RCR16 env r s)) = rxbufsize s"
  "next_frame_location (snd (enc_RCR16 env r s)) = next_frame_location s"
  by (simp_all add: enc_RCR16_def split_beta Let_def)

lemma ready_next [simp]: "ready c0 (s\<lparr>next_frame_location := n\<rparr>) = ready c0 s"
  by (simp add: ready_def)

lemma econ2 [simp]: "key ENC_ECON2 = econ2_key" "choose_bank ENC_ECON2 c = c"
  by (simp_all add: key_def choose_bank_def registers)

lemma and_or_bit6: "(x OR 0x40) AND 0x40 = (0x40 :: u8)"
  by (simp add: bit.conj_disj_distrib2)

text \<open>The end of a reception: next frame, read pointer of the ring by the erratum, packet counter.\<close>

lemma receive_end_chip:
  fixes header :: "u8 list"
  assumes "ready c0 s"
  defines "s' \<equiv> receive_end (answers c0) header s" and "nx \<equiv> unat (header ! 0) + 256 * unat (header ! 1)"
  shows "unat (next_frame_location s') = nx" "rxbufsize s' = rxbufsize s" "ready c0 s'"
    "mem (chip_of c0 s') = mem (chip_of c0 s)"
    "pair16 (chip_of c0 s') 0x0c = (if nx = 0 then erxnd (chip_of c0 s) else nx - 1)"
    "regs (chip_of c0 s') pktcnt_key = regs (chip_of c0 s) pktcnt_key - 1"
    "k \<notin> {(0, 0x0c), (0, 0x0d), pktcnt_key, econ1_key, econ2_key} \<Longrightarrow> regs (chip_of c0 s') k = regs (chip_of c0 s) k"
proof -
  define n where "n = (ucast (header ! 0) + push_bit 8 (ucast (header ! 1)) :: u16)"
  have n: "unat n = nx" by (simp add: n_def nx_def header_words)
  then have n0: "n = 0 \<longleftrightarrow> nx = 0" by (simp add: word_unat_eq_iff [of n 0])
  define s1 where "s1 = s\<lparr>next_frame_location := n\<rparr>"
  have s1: "ready c0 s1" "chip_of c0 s1 = chip_of c0 s" using assms(1) by (simp_all add: s1_def)
  define t where "t = (if n = 0 then snd (enc_RCR16 (answers c0) ENC_ERXNDL s1) else s1)"
  define v where "v = (if n = 0 then fst (enc_RCR16 (answers c0) ENC_ERXNDL s1) else n - 1)"
  have t: "ready c0 t" "chip_of c0 t = chip_of c0 s \<or> chip_of c0 t = bank0 (chip_of c0 s)"
    using s1 RCR16_answer [OF s1(1), of ENC_ERXNDL] by (auto simp: t_def)
  have v: "unat v = (if nx = 0 then erxnd (chip_of c0 s) else nx - 1)"
  proof (cases "nx = 0")
    case False
    then have "1 \<le> n" using n by (simp add: word_le_nat_alt)
    then have "unat (n - 1) = nx - 1" by (simp add: unat_sub n)
    then show ?thesis using False n0 by (auto simp: v_def)
  next
    case True
    then show ?thesis using n0 s1 RCR16_answer(1) [OF s1(1), of ENC_ERXNDL] by (simp add: v_def)
  qed
  define s2 where "s2 = enc_WCR16 (answers c0) ENC_ERXRDPTL v t"
  have e: "s' = enc_BFS (answers c0) ENC_ECON2 0x40 s2"
    by (simp add: s'_def receive_end_def Let_def split_beta s2_def v_def t_def s1_def n_def)
  have s2: "ready c0 s2" "chip_of c0 s2 = set_pair16 0x0c (unat v) (bank0 (chip_of c0 t))"
    using chip_WCR16 [OF t(1), of ENC_ERXRDPTL] by (simp_all add: s2_def)
  have c': "chip_of c0 s' = write_reg econ2_key (regs (chip_of c0 s2) econ2_key OR 0x40) (chip_of c0 s2)"
    using s2(1) by (simp add: e chip_BFS)
  show "unat (next_frame_location s') = nx" by (simp add: e s2_def t_def s1_def n n0)
  show "rxbufsize s' = rxbufsize s" by (simp add: e s2_def t_def s1_def)
  show "ready c0 s'" using s2(1) by (simp add: e)
  show "mem (chip_of c0 s') = mem (chip_of c0 s)" using t(2) by (auto simp: c' s2)
  have "pair16 (chip_of c0 s') 0x0c = pair16 (set_pair16 0x0c (unat v) (bank0 (chip_of c0 t))) 0x0c"
    by (rule pair16_frame) (auto simp: c' s2(2) write_reg_def and_or_bit6)
  also have "\<dots> = unat v" by (simp add: unat_u16)
  finally show "pair16 (chip_of c0 s') 0x0c = (if nx = 0 then erxnd (chip_of c0 s) else nx - 1)" unfolding v .
  show "regs (chip_of c0 s') pktcnt_key = regs (chip_of c0 s) pktcnt_key - 1"
    using t(2) by (auto simp: c' s2 write_reg_def and_or_bit6 set_pair16_def)
  show "k \<notin> {(0, 0x0c), (0, 0x0d), pktcnt_key, econ1_key, econ2_key} \<Longrightarrow> regs (chip_of c0 s') k = regs (chip_of c0 s) k"
    using t(2) by (auto simp: c' s2 write_reg_def and_or_bit6 set_pair16_def)
qed


text \<open>Byte \<open>i\<close> of the frame that begins at \<open>p\<close> in the ring.\<close>

definition ring_byte :: "chip \<Rightarrow> nat \<Rightarrow> nat \<Rightarrow> u8" where
  "ring_byte c p i = mem c ((p + i) mod (erxnd c + 1))"

text \<open>Its header: the next frame's address and its length with the checksum.\<close>

definition frame_next :: "chip \<Rightarrow> nat \<Rightarrow> nat" where
  "frame_next c p = unat (ring_byte c p 0) + 256 * unat (ring_byte c p 1)"

definition frame_length :: "chip \<Rightarrow> nat \<Rightarrow> nat" where
  "frame_length c p = unat (ring_byte c p 2) + 256 * (unat (ring_byte c p 3) mod 128)"

lemma receive_start_chip:
  assumes "ready c0 s" "erxst (chip_of c0 s) = 0" "erxnd (chip_of c0 s) < 8192"
    and "unat (next_frame_location s) \<le> erxnd (chip_of c0 s)"
  defines "p \<equiv> unat (next_frame_location s)" and "c \<equiv> chip_of c0 s"
  obtains header len s1 where "receive_start (answers c0) s = (header, len, s1)"
    "unat (header ! 0) + 256 * unat (header ! 1) = frame_next c p" "unat len = frame_length c p"
    "ready c0 s1" "mem (chip_of c0 s1) = mem c" "rxbufsize s1 = rxbufsize s"
    "\<And>k. k \<notin> {(0, 0x00), (0, 0x01), econ1_key} \<Longrightarrow> regs (chip_of c0 s1) k = regs c k"
    "rd_ptr (chip_of c0 s1) = (p + 6) mod (erxnd c + 1)"
proof -
  have "next_frame_location s \<noteq> ENC_READLOCATION_ANY"
  proof
    assume "next_frame_location s = ENC_READLOCATION_ANY"
    then have "unat (next_frame_location s) = 65535"
      by (simp add: ENC_READLOCATION_ANY_def unsigned_minus_1_eq_mask mask_eq_exp_minus_1)
    then show False using assms(3,4) by simp
  qed
  then have start: "read_start (next_frame_location s) c = p" by (simp add: read_start_def p_def)
  define header where "header = fst (enc_RBM (answers c0) (next_frame_location s) 6 s)"
  define s1 where "s1 = snd (enc_RBM (answers c0) (next_frame_location s) 6 s)"
  note ring = rd_iter_ring [OF assms(2-4), folded c_def p_def]
  have six: "unat (6 :: u16) = 6" by simp
  have header: "header = map (ring_byte c p) [0..<6]"
    unfolding header_def RBM_answer(1) [OF assms(1)] six by (simp add: c_def [symmetric] start ring ring_byte_def)
  then have nth: "header ! i = ring_byte c p i" if "i < 6" for i using that by simp
  show thesis
  proof (rule that [of header "ucast (header ! 2) OR push_bit 8 (ucast (header ! 3 AND 0x7f))" s1])
    show "receive_start (answers c0) s = (header, ucast (header ! 2) OR push_bit 8 (ucast (header ! 3 AND 0x7f)), s1)"
      by (simp add: receive_start_def split_beta header_def s1_def)
    show "unat (header ! 0) + 256 * unat (header ! 1) = frame_next c p" by (simp add: nth frame_next_def)
    show "unat (ucast (header ! 2) OR push_bit 8 (ucast (header ! 3 AND 0x7f)) :: u16) = frame_length c p"
      unfolding header_words(2) by (simp add: nth frame_length_def)
    show "ready c0 s1" "mem (chip_of c0 s1) = mem c" "rxbufsize s1 = rxbufsize s"
      using chip_RBM [OF assms(1)] by (simp_all add: s1_def c_def)
    show "regs (chip_of c0 s1) k = regs c k" if "k \<notin> {(0, 0x00), (0, 0x01), econ1_key}" for k
      unfolding s1_def c_def by (rule chip_RBM(2) [OF assms(1) that])
    show "rd_ptr (chip_of c0 s1) = (p + 6) mod (erxnd c + 1)"
      unfolding s1_def RBM_answer(2) [OF assms(1)] six by (simp only: c_def [symmetric] start ring)
  qed
qed

lemma receive_frame_chip:
  assumes "ready c0 s" "erxst (chip_of c0 s) = 0" "erxnd (chip_of c0 s) < 8192"
    and "unat (next_frame_location s) \<le> erxnd (chip_of c0 s)"
    and "4 \<le> frame_length (chip_of c0 s) (unat (next_frame_location s))"
    and "frame_length (chip_of c0 s) (unat (next_frame_location s)) \<le> 32004"
    and "\<And>n. pbuf_alloc n"
  shows "let c = chip_of c0 s; p = unat (next_frame_location s); (frame, s') = enc_read_received_pbuf (answers c0) pbuf_alloc s;
      c' = chip_of c0 s'
    in frame = Some (map (\<lambda>i. ring_byte c p (6 + i)) [0..<frame_length c p - 4]) \<and>
       unat (next_frame_location s') = frame_next c p \<and>
       pair16 c' 0x0c = (if frame_next c p = 0 then erxnd c else frame_next c p - 1) \<and>
       regs c' pktcnt_key = regs c pktcnt_key - 1 \<and> mem c' = mem c \<and> ready c0 s' \<and>
       (\<forall>k. k \<notin> {(0, 0x00), (0, 0x01), (0, 0x0c), (0, 0x0d), pktcnt_key, econ1_key, econ2_key} \<longrightarrow> regs c' k = regs c k)"
proof -
  define c where "c = chip_of c0 s"
  define p where "p = unat (next_frame_location s)"
  note a = assms(2-6) [folded c_def p_def]
  obtain header len s1 where s1: "receive_start (answers c0) s = (header, len, s1)"
    "unat (header ! 0) + 256 * unat (header ! 1) = frame_next c p" "unat len = frame_length c p"
    "ready c0 s1" "mem (chip_of c0 s1) = mem c" "rxbufsize s1 = rxbufsize s"
    "\<And>k. k \<notin> {(0, 0x00), (0, 0x01), econ1_key} \<Longrightarrow> regs (chip_of c0 s1) k = regs c k"
    "rd_ptr (chip_of c0 s1) = (p + 6) mod (erxnd c + 1)"
    by (rule receive_start_chip [OF assms(1-4), folded c_def p_def]) blast
  have bounds: "erxnd (chip_of c0 s1) = erxnd c" "erxst (chip_of c0 s1) = 0"
    using a(1) by (auto simp: pair16_def s1(7))
  have "4 \<le> len" using a(4) s1(3) by (simp add: word_le_nat_alt)
  then have len4: "unat (len - 4) = frame_length c p - 4" by (simp add: unat_sub s1(3))
  have guards: "\<not> len < 4" "\<not> (32000 < len - 4 \<or> \<not> pbuf_alloc (len - 4))"
    using \<open>4 \<le> len\<close> a(5) assms(7) by (auto simp: word_less_nat_alt word_le_nat_alt len4)
  define data where "data = fst (enc_RBM (answers c0) ENC_READLOCATION_ANY (len - 4) s1)"
  define s2 where "s2 = snd (enc_RBM (answers c0) ENC_READLOCATION_ANY (len - 4) s1)"
  have result: "enc_read_received_pbuf (answers c0) pbuf_alloc s = (Some data, receive_end (answers c0) header s2)"
    unfolding enc_read_received_pbuf_def s1(1) using guards by (simp add: Let_def split_beta data_def s2_def)
  have q: "(p + 6) mod (erxnd c + 1) \<le> erxnd c" using mod_less_divisor [of "erxnd c + 1" "p + 6"] by linarith
  have "read_start ENC_READLOCATION_ANY (chip_of c0 s1) = (p + 6) mod (erxnd c + 1)"
    by (simp add: read_start_def s1(8))
  then have "data = map (\<lambda>i. mem c ((rd_next (chip_of c0 s1) ^^ i) ((p + 6) mod (erxnd c + 1)))) [0..<frame_length c p - 4]"
    unfolding data_def RBM_answer(1) [OF s1(4)] by (simp add: len4 s1(5))
  also have "\<dots> = map (\<lambda>i. ring_byte c p (6 + i)) [0..<frame_length c p - 4]"
    using rd_iter_ring [of "chip_of c0 s1"] bounds a(2) q by (simp add: ring_byte_def mod_add_left_eq add.assoc)
  finally have data: "data = map (\<lambda>i. ring_byte c p (6 + i)) [0..<frame_length c p - 4]" .
  have s2: "ready c0 s2" "mem (chip_of c0 s2) = mem c" "regs (chip_of c0 s2) pktcnt_key = regs c pktcnt_key"
    "erxnd (chip_of c0 s2) = erxnd c"
    "k \<notin> {(0, 0x00), (0, 0x01), econ1_key} \<Longrightarrow> regs (chip_of c0 s2) k = regs c k" for k
    using chip_RBM [OF s1(4)] s1(5,7) bounds(1) by (simp_all add: s2_def pair16_def)
  show ?thesis
    unfolding c_def [symmetric] p_def [symmetric] result Let_def prod.case data
    using receive_end_chip(1,3-7) [OF s2(1), where header = header, unfolded s1(2)] by (simp add: s2(2-5))
qed

text \<open>
  C14: When the frame at the driver's next location is intact, reading it into a packet buffer yields the frame's bytes
  without the six bytes of header and the four of checksum, also when it wraps around the end of the receive ring. The driver then
  points at the next frame, the ring's read pointer is one before it (the end of the ring for
  address 0), and one packet has left the counter; the memory does not change.
\<close>

theorem receive_frame:
  assumes "ready c0 s" "erxst (chip_of c0 s) = 0" "erxnd (chip_of c0 s) < 8192"
    and "unat (next_frame_location s) \<le> erxnd (chip_of c0 s)"
    and "4 \<le> frame_length (chip_of c0 s) (unat (next_frame_location s))"
    and "frame_length (chip_of c0 s) (unat (next_frame_location s)) \<le> 32004"
    and "\<And>n. pbuf_alloc n"
  shows "let c = chip_of c0 s; p = unat (next_frame_location s); (frame, s') = enc_read_received_pbuf (answers c0) pbuf_alloc s;
      c' = chip_of c0 s'
    in frame = Some (map (\<lambda>i. ring_byte c p (6 + i)) [0..<frame_length c p - 4]) \<and>
       unat (next_frame_location s') = frame_next c p \<and>
       pair16 c' 0x0c = (if frame_next c p = 0 then erxnd c else frame_next c p - 1) \<and>
       regs c' pktcnt_key = regs c pktcnt_key - 1 \<and> mem c' = mem c"
  using receive_frame_chip [OF assms] by (simp add: Let_def split_beta)

definition wrapped_chip :: chip where
  "wrapped_chip = \<lparr>selected = False, received = [], regs = (\<lambda>_. 0)((0, 0x0a) := 0xff, (0, 0x0b) := 0x0f),
     mem = (\<lambda>_. 0)(4094 := 0x10, 0 := 8, 4 := 1, 5 := 2, 6 := 3, 7 := 4), filler = (\<lambda>_. 0xfe), unsupported = (\<lambda>_ _ old _. old)\<rparr>"

definition fresh_enc :: "u16 \<Rightarrow> u16 \<Rightarrow> enc" where
  "fresh_enc n a = \<lparr>last_used_register = ENC_BANK_INDETERMINATE, rxbufsize = n, next_frame_location = a, wire = []\<rparr>"

lemma fresh_enc [simp]:
  "chip_of c0 (fresh_enc n a) = c0" "rxbufsize (fresh_enc n a) = n" "next_frame_location (fresh_enc n a) = a"
  "ready c0 (fresh_enc n a) = idle c0"
  by (simp_all add: fresh_enc_def chip_of_def ready_def)

text \<open>A frame that wraps around the end of the ring at 4095.\<close>

lemma receive_frame_witness:
  "fst (enc_read_received_pbuf (answers wrapped_chip) (\<lambda>_. True) (fresh_enc 4095 4094)) = Some [1, 2, 3, 4]"
proof -
  have c: "erxst wrapped_chip = 0" "erxnd wrapped_chip = 4095" "idle wrapped_chip"
    by (simp_all add: pair16_def wrapped_chip_def idle_def)
  have l: "frame_length wrapped_chip 4094 = 8"
    by (simp add: frame_length_def ring_byte_def c) (simp add: wrapped_chip_def)
  have "[0..<4] = [0, 1, 2, 3]" by (simp add: upt_rec)
  then have b: "map (\<lambda>i. ring_byte wrapped_chip 4094 (6 + i)) [0..<4] = [1, 2, 3, 4]"
    by (simp add: ring_byte_def c) (simp add: wrapped_chip_def)
  show ?thesis
    using receive_frame [of wrapped_chip "fresh_enc 4095 4094" "\<lambda>_. True"] c l b by (simp add: Let_def split_beta)
qed

lemma transmit_layout_witness:
  "\<exists>s'. enc_transmit_pbuf (\<lambda>_ _. 0) [\<lparr>payload = [1, 2], tot_len = 3\<rparr>, \<lparr>payload = [3], tot_len = 1\<rparr>] (fresh_enc 4096 0) = Some s' \<and>
    mem (chip_of wrapped_chip s') 4101 = 3"
proof -
  have a: "unat (transmit_start_address (fresh_enc 4096 0)) = 4098"
    using transmit_start_address_bounds [of "fresh_enc 4096 0"] by simp presburger
  have "idle wrapped_chip" by (simp add: wrapped_chip_def idle_def)
  then show ?thesis
    using transmit_layout [of wrapped_chip "fresh_enc 4096 0" "[\<lparr>payload = [1, 2], tot_len = 3\<rparr>, \<lparr>payload = [3], tot_len = 1\<rparr>]" "\<lambda>_ _. 0"] a
    by (auto simp: Let_def)
qed

text \<open>
  C15: Whatever bank is selected before, each of the four register functions addresses the register its name in
  enc28j60-consts.h stands for (bank in the upper, address in the lower bits). Writing works for all; setting bits, clearing bits and reading work for the
  ETH registers only: of a MAC or MII register the read returns the dummy byte and not the value, and the bit functions leave what the chip
  makes of an unsupported command. Nothing else changes but the bank bits of ECON1, and the selection of the page does not recurse forever.
\<close>

theorem register_operations:
  assumes "ready c0 s" "valid_reg r"
  shows "let c = chip_of c0 s; banked_c = choose_bank r c; k = key r; old = regs c k
    in chip_of c0 (enc_WCR env r v s) = write_reg k v banked_c \<and>
       chip_of c0 (enc_BFS env r v s) = write_reg k (if mac_mii k then unsupported c0 0x80 k old v else old OR v) banked_c \<and>
       chip_of c0 (enc_BFC env r v s) = write_reg k (if mac_mii k then unsupported c0 0xa0 k old v else old AND NOT v) banked_c \<and>
       fst (enc_RCR (answers c0) r s) = (if mac_mii k then filler c0 k else old) \<and> chip_of c0 (snd (enc_RCR env r s)) = banked_c \<and>
       (\<forall>k. k \<noteq> econ1_key \<longrightarrow> regs banked_c k = regs c k) \<and> mem banked_c = mem c \<and>
       regs banked_c econ1_key AND NOT 3 = regs c econ1_key AND NOT 3"
proof -
  have "((x AND NOT 3) OR y) AND NOT 3 = x AND NOT 3" if "y AND 3 = y" for x y :: u8
  proof -
    have "y AND NOT 3 = 0" by (subst that [symmetric]) (simp add: and.assoc)
    then show ?thesis by (simp add: bit.conj_disj_distrib2 and.assoc)
  qed
  then have "regs (choose_bank r c) econ1_key AND NOT 3 = regs c econ1_key AND NOT 3" for c
    by (simp add: choose_bank_def)
  then show ?thesis
    unfolding Let_def using assms by (simp add: chip_WCR chip_BFS chip_BFC chip_RCR fst_RCR set_bits_def clear_bits_def shown_def) (simp add: choose_bank_def)
qed

text \<open>An ETH register, whose bit is set, and a MAC register, which a bit command does not reach and a read does not show.\<close>

lemma register_operations_witness:
  "regs (chip_of wrapped_chip (enc_BFS (\<lambda>_ _. 0) ENC_ERXFCON 0x2 (fresh_enc 4095 0))) (1, 0x18) = 2 \<and>
   regs (chip_of wrapped_chip (enc_BFS (\<lambda>_ _. 0) ENC_MACON1 0x0d (fresh_enc 4095 0))) (2, 0x00) = 0 \<and>
   fst (enc_RCR (answers wrapped_chip) ENC_MACON1 (fresh_enc 4095 0)) = 0xfe"
proof -
  have "idle wrapped_chip" by (simp add: wrapped_chip_def idle_def)
  moreover have "key ENC_ERXFCON = (1, 0x18)" "key ENC_MACON1 = (2, 0x00)" by (simp_all add: key_def registers)
  moreover have "mac_mii (2, 0x00)" by (simp add: mac_mii_def)
  moreover have "regs wrapped_chip (1, 0x18) = 0" "regs wrapped_chip (2, 0x00) = 0" "filler wrapped_chip k = 0xfe"
    "unsupported wrapped_chip o' k old d = old" for o' k old d by (simp_all add: wrapped_chip_def)
  ultimately show ?thesis
    using register_operations [where s = "fresh_enc 4095 0" and r = ENC_ERXFCON and env = "\<lambda>_ _. 0" and v = "0x2" and ?c0.0 = wrapped_chip]
      register_operations [where s = "fresh_enc 4095 0" and r = ENC_MACON1 and env = "\<lambda>_ _. 0" and v = "0x0d" and ?c0.0 = wrapped_chip]
    by (simp add: Let_def write_reg_def)
qed

end
