(* ===== verification/Enc_Selftest.thy ===== *)
theory Enc_Selftest
  imports Enc_Chip
begin

text \<open>
  The driver's start on the chip of the data sheet: the manual memory test, and the wait for the clock.
\<close>

section \<open>The memory test\<close>

text \<open>What the test leaves at address \<open>x\<close>.\<close>

definition test_byte :: "nat \<Rightarrow> u8" where
  "test_byte x = of_nat ((x div 256 + x mod 256) mod 256)"

lemma length_test_page [simp]: "length (test_page k) = 256"
  by (simp add: test_page_def)

lemma test_page_nth: "i < 256 \<Longrightarrow> test_page k ! i = test_byte (256 * k + i)"
  by (simp add: test_page_def test_byte_def)

lemma page_address: "k < 32 \<Longrightarrow> unat (of_nat (256 * k) :: u16) = 256 * k"
  by (simp only: unsigned_of_nat) (simp add: take_bit_eq_mod)

text \<open>The ring bounds that the test relies on for its reads.\<close>

definition whole_ram :: "chip \<Rightarrow> bool" where
  "whole_ram c \<longleftrightarrow> erxst c = 0 \<and> erxnd c = 8191"

lemma set_pair16_other [simp]:
  "a \<noteq> b \<Longrightarrow> a \<noteq> b + 1 \<Longrightarrow> a + 1 \<noteq> b \<Longrightarrow> pair16 (set_pair16 b n c) a = pair16 c a"
  by (auto simp: pair16_def set_pair16_def)

lemma bank0_pair16 [simp]: "a \<noteq> 0x1f \<Longrightarrow> a \<noteq> 0x1e \<Longrightarrow> pair16 (bank0 c) a = pair16 c a"
  by (rule pair16_frame) (auto simp: bank0_def dest: arg_cong [where f = "\<lambda>x. x - 1"])

lemma write_page:
  fixes env
  assumes "ready c0 s" "whole_ram (chip_of c0 s)" "k < 32"
  defines "s' \<equiv> enc_WBM env (test_page k) (of_nat (256 * k)) s"
  shows "ready c0 s'" "whole_ram (chip_of c0 s')"
    "mem (chip_of c0 s') x = (if x div 256 = k then test_byte x else mem (chip_of c0 s) x)"
proof -
  note w = enc_WBM_chip [OF assms(1), of env "test_page k" "of_nat (256 * k)", folded s'_def]
  define c1 where "c1 = set_pair16 0x02 (256 * k) (bank0 (chip_of c0 s))"
  have c': "chip_of c0 s' = write_mem (test_page k) c1" by (simp only: w(1) c1_def page_address [OF assms(3)])
  have p: "wr_ptr c1 = 256 * k" using assms(3) by (simp add: c1_def)
  show "ready c0 s'" by (rule w(2))
  have "pair16 (chip_of c0 s') a = pair16 (chip_of c0 s) a" if "a \<in> {0x08, 0x0a}" for a
    using that by (intro pair16_frame) (auto simp: c' write_mem_regs c1_def set_pair16_def)
  then show "whole_ram (chip_of c0 s')" using assms(2) by (simp add: whole_ram_def)
  have m: "mem c1 = mem (chip_of c0 s)" by (simp add: c1_def)
  have "256 * k \<le> x \<and> x < 256 * k + 256 \<longleftrightarrow> x div 256 = k" by auto
  moreover have "256 * k + (x - 256 * k) = x" if "x div 256 = k" using that by auto
  moreover have "x - 256 * k < 256" if "x div 256 = k" using that by auto
  ultimately show "mem (chip_of c0 s') x = (if x div 256 = k then test_byte x else mem (chip_of c0 s) x)"
    using write_mem_at [of c1 "test_page k" x] assms(3) by (auto simp: c' p m test_page_nth)
qed

lemma write_pages:
  fixes env
  assumes "ready c0 s" "whole_ram (chip_of c0 s)" "m \<le> 32"
  defines "s' \<equiv> fold (\<lambda>k. enc_WBM env (test_page k) (of_nat (256 * k))) [0..<m] s"
  shows "ready c0 s' \<and> whole_ram (chip_of c0 s') \<and> (\<forall>x < 256 * m. mem (chip_of c0 s') x = test_byte x)"
  using assms(3) unfolding s'_def
proof (induction m)
  case (Suc m)
  let ?t = "fold (\<lambda>k. enc_WBM env (test_page k) (of_nat (256 * k))) [0..<m] s"
  have t: "ready c0 ?t" "whole_ram (chip_of c0 ?t)" "x < 256 * m \<Longrightarrow> mem (chip_of c0 ?t) x = test_byte x" for x
    using Suc by simp_all
  have "x div 256 = m \<or> x < 256 * m" if "x < 256 * Suc m" for x using that by auto
  then show ?case using write_page [OF t(1,2), of m env] t(3) Suc.prems by auto
qed (use assms(1,2) in simp)

lemma check_pages:
  assumes "ready c0 s" "whole_ram (chip_of c0 s)" "\<forall>x < 8192. mem (chip_of c0 s) x = test_byte x" "set ks \<subseteq> {..<32}"
  shows "fst (bist_check (answers c0) ks s) = 0 \<and> ready c0 (snd (bist_check (answers c0) ks s)) \<and>
    mem (chip_of c0 (snd (bist_check (answers c0) ks s))) = mem (chip_of c0 s)"
  using assms
proof (induction ks arbitrary: s)
  case (Cons k ks)
  let ?c = "chip_of c0 s" and ?a = "of_nat (256 * k) :: u16"
  have k: "k < 32" using Cons.prems(4) by simp
  have a: "unat ?a = 256 * k" by (rule page_address [OF k])
  have n256: "unat (256 :: u16) = 256" by simp
  have "?a \<noteq> ENC_READLOCATION_ANY"
  proof
    assume "?a = ENC_READLOCATION_ANY"
    then have "unat ?a = 65535" by (simp add: ENC_READLOCATION_ANY_def unsigned_minus_1_eq_mask mask_eq_exp_minus_1)
    then show False using a k by simp
  qed
  then have start: "read_start ?a ?c = 256 * k" unfolding read_start_def a by (simp only: if_True not_False_eq_True)
  have "(rd_next ?c ^^ i) (256 * k) = 256 * k + i" if "i < 256" for i
    using rd_iter_ring [of ?c "256 * k" i] Cons.prems(2) that k by (simp add: whole_ram_def)
  then have "fst (enc_RBM (answers c0) ?a 256 s) = test_page k"
    unfolding RBM_answer(1) [OF Cons.prems(1)] start n256
    using Cons.prems(3) k by (intro nth_equalityI) (auto simp: test_page_nth)
  moreover define t where "t = snd (enc_RBM (answers c0) ?a 256 s)"
  moreover note f = chip_RBM [OF Cons.prems(1), where env = "answers c0" and a = "?a" and n = "256", folded t_def]
  have "whole_ram (chip_of c0 t)" using Cons.prems(2) f(2) by (simp add: whole_ram_def pair16_def)
  then have "fst (bist_check (answers c0) ks t) = 0 \<and> ready c0 (snd (bist_check (answers c0) ks t)) \<and>
      mem (chip_of c0 (snd (bist_check (answers c0) ks t))) = mem ?c"
    using Cons.IH [of t] Cons.prems f(1,3) by simp
  ultimately show ?case by (simp add: split_beta)
qed simp

text \<open>
  On a chip that stores what is written to it, the manual memory test passes: every one of the 8192 bytes is
  written and read back, the auto-increment, the bank switching and the wrapping of the read pointer included.
\<close>

lemma bist_manual_passes:
  assumes "ready c0 s" "erxst (chip_of c0 s) = 0" "rxbufsize s \<noteq> 0x1fff"
  shows "let (r, s') = enc_bist_manual (answers c0) s
    in r = 0 \<and> rxbufsize s' = 0x1fff \<and> (\<forall>x < 8192. mem (chip_of c0 s') x = test_byte x)"
proof -
  define s1 where "s1 = set_erxnd (answers c0) (of_nat ENC_RAMSIZE - 1) s"
  have n: "(of_nat ENC_RAMSIZE - 1 :: u16) = 0x1fff" by (simp add: ENC_RAMSIZE_def)
  have s1: "s1 = enc_WCR16 (answers c0) ENC_ERXNDL 0x1fff (s\<lparr>rxbufsize := 0x1fff\<rparr>)"
    unfolding s1_def set_erxnd_def n using assms(3) by simp
  have r0: "ready c0 (s\<lparr>rxbufsize := 0x1fff\<rparr>)" using assms(1) by (simp add: ready_def)
  have r1: "ready c0 s1" "whole_ram (chip_of c0 s1)" "rxbufsize s1 = 0x1fff"
    using chip_WCR16 [OF r0 pointer_regs(6), where env = "answers c0" and n = "0x1fff"] assms(2) by (simp_all add: s1 whole_ram_def)
  define s2 where "s2 = fold (\<lambda>k. enc_WBM (answers c0) (test_page k) (of_nat (256 * k))) [0..<32] s1"
  have s2: "ready c0 s2" "whole_ram (chip_of c0 s2)" "\<forall>x < 8192. mem (chip_of c0 s2) x = test_byte x"
    using write_pages [OF r1(1,2), of 32 "answers c0"] by (simp_all add: s2_def)
  have "rxbufsize (fold (\<lambda>k. enc_WBM (answers c0) (test_page k) (of_nat (256 * k))) ks t) = rxbufsize t" for ks t
    by (induction ks arbitrary: t) (simp_all add: enc_WBM_def)
  moreover have "rxbufsize (snd (bist_check env ks t)) = rxbufsize t" for env ks t
    by (induction ks arbitrary: t) (simp_all add: split_beta)
  moreover have "enc_bist_manual (answers c0) s = bist_check (answers c0) [0..<32] s2"
    by (simp add: enc_bist_manual_def s1_def s2_def ENC_RAMSIZE_def Let_def)
  ultimately show ?thesis
    using check_pages [OF s2, of "[0..<32]"] r1(3) s2(3) by (simp add: split_beta s2_def atLeast0LessThan)
qed

lemma bist_manual_passes_witness: "fst (enc_bist_manual (answers wrapped_chip) (fresh_enc 0xffff 0)) = 0"
proof -
  have "idle wrapped_chip" "erxst wrapped_chip = 0" by (simp_all add: wrapped_chip_def idle_def pair16_def)
  then show ?thesis using bist_manual_passes [of wrapped_chip "fresh_enc 0xffff 0"] by (simp add: split_beta Let_def)
qed

section \<open>Waiting for the clock\<close>

text \<open>Every poll of ESTAT adds three events and hands over the second byte of the answer.\<close>

lemma poll_estat:
  "enc_RCR env ENC_ESTAT s = (env (wire s @ [SelectLow, Rxtx [0x1d, 0]]) 1, put [SelectLow, Rxtx [0x1d, 0], SelectHigh] s)"
proof -
  have "ensure_register_accessible env ENC_ESTAT s = s" by (simp add: ensure_register_accessible.simps registers)
  moreover have "ENC_ESTAT AND ENC_REGISTERMASK = 0x1d" by (simp add: registers)
  ultimately show ?thesis
    by (simp add: enc_RCR_def command_def Let_def enchw_select_def enchw_unselect_def put_def)
qed

text \<open>From \<open>l\<close> logged events on, the chip answers \<open>v\<close>.\<close>

definition steady :: "chip_env \<Rightarrow> u8 \<Rightarrow> nat \<Rightarrow> bool" where
  "steady env v l \<longleftrightarrow> (\<forall>log. l \<le> length log \<longrightarrow> env log 1 = v)"

lemma wait_stable:
  assumes "v \<noteq> 0xff" "v AND 1 \<noteq> 0" "steady env v (length (wire s))" "0 < n" "100 \<le> same + n"
  shows "fst (wait_ready env n same v s) = 0 \<and>
    length (wire (snd (wait_ready env n same v s))) \<le> length (wire s) + 3 * max 1 (100 - same)"
  using assms
proof (induction n arbitrary: same s)
  case (Suc n)
  let ?s1 = "put [SelectLow, Rxtx [0x1d, 0], SelectHigh] s"
  have read: "enc_RCR env ENC_ESTAT s = (v, ?s1)" using Suc.prems(3) by (simp add: poll_estat steady_def)
  have env: "steady env v (length (wire ?s1))" using Suc.prems(3) by (simp add: put_def steady_def)
  show ?case
  proof (cases "99 \<le> same")
    case True
    then show ?thesis using Suc.prems(1,2) by (simp add: read put_def)
  next
    case False
    then have "fst (wait_ready env n (Suc same) v ?s1) = 0 \<and>
        length (wire (snd (wait_ready env n (Suc same) v ?s1))) \<le> length (wire ?s1) + 3 * max 1 (100 - Suc same)"
      using Suc.prems env by (intro Suc.IH) simp_all
    moreover have "wait_ready env (Suc n) same v s = wait_ready env n (Suc same) v ?s1"
      using False Suc.prems(1) by (simp add: read)
    moreover have "max 1 (100 - same) = Suc (max 1 (100 - Suc same)) \<or> same = 98" "same < 99" using False by auto
    ultimately show ?thesis by (auto simp: put_def)
  qed
qed simp

lemma wait_settles:
  assumes "v \<noteq> 0xff" "v AND 1 \<noteq> 0" "steady env v (length (wire s))" "101 \<le> n"
  shows "fst (wait_ready env n same prev s) = 0 \<and>
    length (wire (snd (wait_ready env n same prev s))) \<le> length (wire s) + 303"
proof (cases "prev = v")
  case True
  then show ?thesis using wait_stable [OF assms(1-3), of n same] assms(4) by (auto simp: max_def split: if_splits)
next
  case False
  let ?s1 = "put [SelectLow, Rxtx [0x1d, 0], SelectHigh] s"
  have read: "enc_RCR env ENC_ESTAT s = (v, ?s1)" using assms(3) by (simp add: poll_estat steady_def)
  have env: "steady env v (length (wire ?s1))" using assms(3) by (simp add: put_def steady_def)
  obtain m where m: "n = Suc m" "100 \<le> m" using assms(4) by (cases n) auto
  show ?thesis
  proof (cases "100 \<le> same")
    case True
    then show ?thesis using False assms(1,2) by (simp add: m read put_def)
  next
    case less: False
    have "wait_ready env n same prev s = wait_ready env m same v ?s1"
      using False less assms(1) by (simp add: m read)
    then show ?thesis using wait_stable [OF assms(1,2) env, of m same] m(2)
      by (auto simp: put_def max_def split: if_splits)
  qed
qed

text \<open>After \<open>k\<close> polls with whatever values the wait has succeeded already, or goes on with some counter.\<close>

lemma wait_prefix:
  "fst (wait_ready env (k + n) same prev s) = 0 \<and>
     length (wire (snd (wait_ready env (k + n) same prev s))) \<le> length (wire s) + 3 * k \<or>
   (\<exists>same' prev' s'. length (wire s') = length (wire s) + 3 * k \<and>
     wait_ready env (k + n) same prev s = wait_ready env n same' prev' s')"
proof (induction k arbitrary: same prev s)
  case (Suc k)
  let ?v = "env (wire s @ [SelectLow, Rxtx [0x1d, 0]]) 1" and ?s1 = "put [SelectLow, Rxtx [0x1d, 0], SelectHigh] s"
  let ?same = "if ?v = prev then Suc same else same"
  have len: "length (wire ?s1) = length (wire s) + 3" by (simp add: put_def)
  have step: "wait_ready env (Suc k + n) same prev s =
      (if ?v = 0xff then wait_ready env (k + n) same prev ?s1
       else if 100 \<le> ?same \<and> ?v AND 1 \<noteq> 0 then (0, ?s1) else wait_ready env (k + n) ?same ?v ?s1)"
    by (simp add: poll_estat Let_def)
  show ?case
  proof (cases "?v \<noteq> 0xff \<and> 100 \<le> ?same \<and> ?v AND 1 \<noteq> 0")
    case True
    then show ?thesis unfolding step by (simp add: len)
  next
    case False
    then obtain same' prev' where eq: "wait_ready env (Suc k + n) same prev s = wait_ready env (k + n) same' prev' ?s1"
      unfolding step by metis
    have l: "length (wire ?s1) + 3 * k = length (wire s) + 3 * Suc k" using len by simp
    show ?thesis unfolding eq using Suc [of same' prev' ?s1] unfolding l .
  qed
qed auto

text \<open>
  Whatever noise the line gives during power-up, once every later poll of ESTAT reads the same value with CLKRDY set (not
  0xff), at the latest after 99899 polls, \<open>enc_wait\<close> succeeds, at most 101 polls later.
\<close>

lemma wait_succeeds:
  assumes "v \<noteq> 0xff" "v AND 1 \<noteq> 0" "k \<le> 99899"
    and "\<And>log. length (wire s) + 3 * k \<le> length log \<Longrightarrow> env log 1 = v"
  shows "fst (enc_wait env s) = 0 \<and> length (wire (snd (enc_wait env s))) \<le> length (wire s) + 3 * (k + 101)"
proof -
  have n: "100000 = k + (100000 - k)" using assms(3) by simp
  from wait_prefix [of env k "100000 - k" 0 0 s, folded n] show ?thesis
  proof (elim disjE exE conjE)
    fix same' prev' s'
    assume len: "length (wire s') = length (wire s) + 3 * k"
      and eq: "wait_ready env 100000 0 0 s = wait_ready env (100000 - k) same' prev' s'"
    have "steady env v (length (wire s'))" using assms(4) by (simp add: steady_def len)
    moreover have "101 \<le> 100000 - k" using assms(3) by simp
    ultimately show ?thesis
      using wait_settles [OF assms(1,2), of env s' "100000 - k" same' prev'] by (simp add: enc_wait_def eq len)
  qed (simp_all add: enc_wait_def)
qed

lemma wait_succeeds_witness: "fst (enc_wait (\<lambda>log i. if length log < 9 then 0x1f else 1) (fresh_enc 0 0)) = 0"
  using wait_succeeds [of 1 3 "fresh_enc 0 0" "\<lambda>log i. if length log < 9 then 0x1f else 1"]
  by (simp add: fresh_enc_def)

text \<open>
  The counter of equal reads is never reset: a chip whose ESTAT changes with every second poll is accepted
  too, although no three reads in a row agree.
\<close>

definition flicker :: chip_env where
  "flicker log i = (if even (length log div 6) then 1 else 3)"

lemma flicker_wait:
  assumes "same + m = 100" "0 < m" "length (wire s) = 6 * same" "prev \<noteq> (if even same then 1 else 3)"
  shows "fst (wait_ready flicker (2 * m + r) same prev s) = 0"
  using assms
proof (induction m arbitrary: same prev s)
  case (Suc m)
  let ?v = "if even same then 1 else (3 :: u8)"
  let ?p = "put [SelectLow, Rxtx [0x1d, 0], SelectHigh]"
  have v: "?v \<noteq> 0xff" "?v AND 1 \<noteq> 0" by simp_all
  have "Suc (Suc (6 * same)) div 6 = same" by simp
  then have a: "enc_RCR flicker ENC_ESTAT s = (?v, ?p s)"
    using Suc.prems(3) by (simp add: poll_estat flicker_def)
  have "(6 * same + 5) div 6 = same" by simp
  then have b: "enc_RCR flicker ENC_ESTAT (?p s) = (?v, ?p (?p s))"
    using Suc.prems(3) by (simp add: poll_estat flicker_def put_def)
  have n: "2 * Suc m + r = Suc (Suc (2 * m + r))" by simp
  have "same < 100" using Suc.prems(1) by simp
  then have first: "wait_ready flicker (2 * Suc m + r) same prev s = wait_ready flicker (Suc (2 * m + r)) same ?v (?p s)"
    unfolding n wait_ready.simps(2) [of _ "Suc (2 * m + r)"] a using v Suc.prems(4) by (simp add: Let_def)
  have second: "wait_ready flicker (Suc (2 * m + r)) same ?v (?p s) =
      (if 100 \<le> Suc same then (0, ?p (?p s)) else wait_ready flicker (2 * m + r) (Suc same) ?v (?p (?p s)))"
    unfolding wait_ready.simps(2) b using v by (simp add: Let_def)
  show ?case
  proof (cases m)
    case 0
    then show ?thesis unfolding first second using Suc.prems(1) by simp
  next
    case (Suc k)
    then have "fst (wait_ready flicker (2 * m + r) (Suc same) ?v (?p (?p s))) = 0"
      using Suc.prems by (intro Suc.IH) (auto simp: put_def)
    then show ?thesis unfolding first second by simp
  qed
qed simp

lemma wait_not_consecutive: "fst (enc_wait flicker (fresh_enc n a)) = 0"
  using flicker_wait [of 0 100 "fresh_enc n a" 0 99800] by (simp add: enc_wait_def fresh_enc_def)

end
