(* ===== verification/Mchdrv.thy ===== *)
theory Mchdrv
  imports Enc_Selftest
begin

text \<open>
  The lwIP side of the Ethernet driver, enc28j60driver/mchdrv.c: polling for received frames, output and initialisation, under the mutex
  \<open>enc_semph\<close>. A task that waits for the mutex while nobody can give it, or for the chip for ever, has the value \<open>None\<close>.
\<close>

section \<open>The interface\<close>

record netif =
  enc_dev :: enc
  enc_state :: u16
  flags :: u8
  hwaddr :: "u8 list"
  mtu :: u16
  enc_semph :: bool
  input_frames :: "u8 list list"

datatype err = ERR_OK | ERR_IF

definition NETIF_FLAG_BROADCAST :: u8 where "NETIF_FLAG_BROADCAST = 0x02"
definition NETIF_FLAG_LINK_UP :: u8 where "NETIF_FLAG_LINK_UP = 0x10"
definition NETIF_FLAG_ETHARP :: u8 where "NETIF_FLAG_ETHARP = 0x20"

definition semaphore_take :: "netif \<Rightarrow> netif option" where
  "semaphore_take n = (if enc_semph n then Some (n\<lparr>enc_semph := False\<rparr>) else None)"

definition semaphore_give :: "netif \<Rightarrow> netif" where
  "semaphore_give n = n\<lparr>enc_semph := True\<rparr>"

text \<open>The loop over \<open>epktcnt\<close> frames; a frame that cannot be read ends it.\<close>

fun poll_frames :: "chip_env \<Rightarrow> (enc \<Rightarrow> u16 \<Rightarrow> bool) \<Rightarrow> nat \<Rightarrow> netif \<Rightarrow> netif" where
  "poll_frames env pbuf_alloc 0 n = n"
| "poll_frames env pbuf_alloc (Suc epktcnt) n =
     (let (buf, e) = enc_read_received_pbuf env (pbuf_alloc (enc_dev n)) (enc_dev n)
      in case buf of
           None \<Rightarrow> n\<lparr>enc_dev := e\<rparr>
         | Some frame \<Rightarrow> poll_frames env pbuf_alloc epktcnt (n\<lparr>enc_dev := e, input_frames := input_frames n @ [frame]\<rparr>))"

definition mchdrv_poll :: "chip_env \<Rightarrow> (enc \<Rightarrow> u16 \<Rightarrow> bool) \<Rightarrow> netif \<Rightarrow> (err \<times> netif) option" where
  "mchdrv_poll env pbuf_alloc n =
     Option.bind (semaphore_take n) (\<lambda>n1.
       if enc_state n1 = 0 then Some (ERR_IF, semaphore_give n1)
       else Option.bind (enc_MII_read env ENC_PHSTAT1 (enc_dev n1)) (\<lambda>(status, e1).
         let n2 = n1\<lparr>enc_dev := e1, flags := (if status AND 4 \<noteq> 0 then flags n1 OR NETIF_FLAG_LINK_UP
                                               else flags n1 AND NOT NETIF_FLAG_LINK_UP)\<rparr>;
             (epktcnt, e2) = enc_RCR env ENC_EPKTCNT e1
         in Some (ERR_OK, semaphore_give (poll_frames env pbuf_alloc (unat epktcnt) (n2\<lparr>enc_dev := e2\<rparr>)))))"

definition mchdrv_linkoutput :: "chip_env \<Rightarrow> pbuf list \<Rightarrow> netif \<Rightarrow> (err \<times> netif) option" where
  "mchdrv_linkoutput env p n =
     Option.bind (semaphore_take n) (\<lambda>n1.
       if enc_state n1 = 0 then Some (ERR_IF, semaphore_give n1)
       else map_option (\<lambda>e. (ERR_OK, semaphore_give (n1\<lparr>enc_dev := e\<rparr>))) (enc_transmit_pbuf env p (enc_dev n1)))"

text \<open>The mutex is created available, and given once more at the end.\<close>

definition mchdrv_init :: "chip_env \<Rightarrow> netif \<Rightarrow> (err \<times> netif) option" where
  "mchdrv_init env n =
     (let (result, e1) = enc_setup_basic env (enc_dev n);
          started = (if result \<noteq> 0 then Some (ERR_IF, 0, e1)
            else let (bist, e2) = enc_bist_manual env e1
                 in if bist \<noteq> 0 then Some (ERR_IF, 0, e2)
                    else map_option (\<lambda>e3. (ERR_OK, 1, e3)) (enc_ethernet_setup env (4 * 1024) (hwaddr n) e2))
      in map_option (\<lambda>(retval, state, e). (retval, semaphore_give (n\<lparr>enc_dev := e, enc_state := state, mtu := 1500,
            flags := flags n OR NETIF_FLAG_ETHARP OR NETIF_FLAG_BROADCAST, enc_semph := True\<rparr>))) started)"

section \<open>Polling\<close>













lemma key_pktcnt [simp]: "key ENC_EPKTCNT = pktcnt_key"
  by (simp add: key_def registers)



definition started :: "enc \<Rightarrow> netif" where
  "started e = \<lparr>enc_dev = e, enc_state = 1, flags = 0, hwaddr = [], mtu = 1500, enc_semph = True, input_frames = []\<rparr>"


text \<open>
  C26: The mutex protocol: poll and output block exactly while the mutex is taken (or the chip or a broken buffer chain blocks them);
  when they return the mutex is free, on every path; on an interface that failed to start they answer ERR\_IF
  without a single event on the wire; and a taken mutex is never released by them.
\<close>

theorem mutex_released:
  "(\<not> enc_semph m \<longrightarrow> mchdrv_poll env alloc m = None \<and> mchdrv_linkoutput env p m = None) \<and>
   (mchdrv_poll env alloc m = Some (r, m') \<longrightarrow> enc_semph m \<and> enc_semph m') \<and>
   (mchdrv_linkoutput env p m = Some (r, m') \<longrightarrow> enc_semph m \<and> enc_semph m') \<and>
   (enc_semph m \<and> enc_state m = 0 \<longrightarrow>
      mchdrv_poll env alloc m = Some (ERR_IF, m) \<and> mchdrv_linkoutput env p m = Some (ERR_IF, m))"
  by (auto simp: mchdrv_poll_def mchdrv_linkoutput_def semaphore_take_def semaphore_give_def Let_def split_beta
      split: if_splits Option.bind_splits prod.splits)

lemma mutex_released_witness:
  "mchdrv_poll (\<lambda>_ _. 0) (\<lambda>_ _. True) ((started (fresh_enc 0 0))\<lparr>enc_state := 0\<rparr>) =
     Some (ERR_IF, (started (fresh_enc 0 0))\<lparr>enc_state := 0\<rparr>)"
  using mutex_released [of "(started (fresh_enc 0 0))\<lparr>enc_state := 0\<rparr>"] by (simp add: started_def)

end
