(* ===== verification/Storage.thy ===== *)
theory Storage
  imports Cmd
begin

text \<open>
  The storage task of main_app.c: what is read from flash at start, and one round of the endless loop that
  writes what the command line received. The task shares the variables of cmd.c. The fstorage library is a parameter that
  accepts or refuses each operation; an accepted one acts on a flash whose writes can only clear
  bits. A refused one ends in \<open>app_error_handler\<close>, which never returns.
\<close>

section \<open>Flash\<close>

type_synonym flash = "nat \<Rightarrow> u8"

definition flash_read :: "nat \<Rightarrow> nat \<Rightarrow> flash \<Rightarrow> u8 list" where
  "flash_read a n f = map (\<lambda>i. f (a + i)) [0..<n]"

definition flash_write :: "nat \<Rightarrow> u8 list \<Rightarrow> flash \<Rightarrow> flash" where
  "flash_write a bs f = (\<lambda>x. if a \<le> x \<and> x < a + length bs then f x AND bs ! (x - a) else f x)"

definition flash_erase :: "nat \<Rightarrow> nat \<Rightarrow> flash \<Rightarrow> flash" where
  "flash_erase a pages f = (\<lambda>x. if a \<le> x \<and> x < a + 4096 * pages then 0xff else f x)"

datatype fs_op = FsErase nat nat | FsWrite nat "u8 list"

text \<open>The result code for the last operation of a history.\<close>

type_synonym fs_env = "fs_op list \<Rightarrow> u32"

datatype task_ev = BleText string | TaskDelay nat | SetGpregret nat

record store =
  cmd :: cmd_state
  flash_mem :: flash
  fs_ops :: "fs_op list"
  iM_pulse_ID :: "u8 list"
  config_string1 :: "u8 list"
  API_token1 :: "u8 list"
  API_link1 :: "u8 list"
  is_internet1 :: "u8 list"
  ssid_new :: "u8 list"
  key_new :: "u8 list"
  ssid_len :: u8
  ipaddr_value :: u32
  gw_value :: u32
  mask_value :: u32
  check_internet :: bool
  led_on :: bool
  restart_system :: bool
  is_ble_on :: bool
  task_evs :: "task_ev list"

text \<open>Why a round does not come to its end: error handler, reset, or a memory fault.\<close>

datatype stop = Halted | Reset store | Fault fault

type_synonym run = "stop + store"

fun run_bind :: "run \<Rightarrow> (store \<Rightarrow> run) \<Rightarrow> run" where
  "run_bind (Inl e) f = Inl e"
| "run_bind (Inr s) f = f s"

fun of_res :: "store res \<Rightarrow> run" where
  "of_res (Inl e) = Inl (Fault e)"
| "of_res (Inr s) = Inr s"

definition note_ev :: "task_ev \<Rightarrow> store \<Rightarrow> store" where
  "note_ev e s = s\<lparr>task_evs := task_evs s @ [e]\<rparr>"

definition with_cmd :: "(cmd_state \<Rightarrow> cmd_state) \<Rightarrow> store \<Rightarrow> store" where
  "with_cmd f s = s\<lparr>cmd := f (cmd s)\<rparr>"

text \<open>\<open>nrf_fstorage_write\<close> and \<open>_erase\<close>, each with the error check and the wait that follow.\<close>

definition fs_write :: "fs_env \<Rightarrow> nat \<Rightarrow> u8 list \<Rightarrow> nat \<Rightarrow> store \<Rightarrow> run" where
  "fs_write env a src n s =
     (if length src < n then Inl (Fault Overread)
      else let s1 = s\<lparr>fs_ops := fs_ops s @ [FsWrite a (take n src)]\<rparr>
           in if env (fs_ops s1) \<noteq> 0 then Inl Halted
              else Inr (s1\<lparr>flash_mem := flash_write a (take n src) (flash_mem s1)\<rparr>))"

definition fs_erase :: "fs_env \<Rightarrow> nat \<Rightarrow> nat \<Rightarrow> store \<Rightarrow> run" where
  "fs_erase env a pages s =
     (let s1 = s\<lparr>fs_ops := fs_ops s @ [FsErase a pages]\<rparr>
      in if env (fs_ops s1) \<noteq> 0 then Inl Halted
         else Inr (s1\<lparr>flash_mem := flash_erase a pages (flash_mem s1)\<rparr>))"

section \<open>Start\<close>

text \<open>Four bytes of flash as a number, and back, the least significant first.\<close>

definition le4 :: "u32 \<Rightarrow> u8 list" where
  "le4 w = [ucast w, ucast (drop_bit 8 w), ucast (drop_bit 16 w), ucast (drop_bit 24 w)]"

definition of_le4 :: "u8 list \<Rightarrow> u32" where
  "of_le4 bs = ucast (bs ! 0) OR push_bit 8 (ucast (bs ! 1)) OR push_bit 16 (ucast (bs ! 2)) OR push_bit 24 (ucast (bs ! 3))"

text \<open>A read; its result code is not looked at, and a failed one leaves the array as it was.\<close>

definition read_into :: "(nat \<Rightarrow> bool) \<Rightarrow> nat \<Rightarrow> nat \<Rightarrow> flash \<Rightarrow> u8 list \<Rightarrow> u8 list" where
  "read_into ok a n f old = (if ok a then overwrite 0 (flash_read a n f) old else old)"

definition read_word :: "(nat \<Rightarrow> bool) \<Rightarrow> nat \<Rightarrow> flash \<Rightarrow> u32 \<Rightarrow> u32" where
  "read_word ok a f old = (if ok a then of_le4 (flash_read a 4 f) else old)"

definition storage_read :: "(nat \<Rightarrow> bool) \<Rightarrow> u8 list \<Rightarrow> store \<Rightarrow> store" where
  "storage_read ok uicr s =
     (let f = flash_mem s;
          s1 = s\<lparr>iM_pulse_ID := take 6 uicr,
             config_string1 := read_into ok 0xed000 48 f (config_string1 s),
             API_token1 := read_into ok 0xee200 240 f (API_token1 s),
             API_link1 := read_into ok 0xee100 240 f (API_link1 s),
             ipaddr_value := read_word ok 0xef000 f (ipaddr_value s),
             gw_value := read_word ok 0xef100 f (gw_value s),
             mask_value := read_word ok 0xef200 f (mask_value s),
             cmd := (cmd s)\<lparr>dhcp_check_wifi := read_into ok 0xf0000 8 f (dhcp_check_wifi (cmd s)),
                            dhcp_check_eth := read_into ok 0xf1000 8 f (dhcp_check_eth (cmd s))\<rparr>,
             is_internet1 := read_into ok 0xee000 8 f (is_internet1 s),
             ssid_new := read_into ok 0xee500 80 f (ssid_new s),
             key_new := read_into ok 0xee600 80 f (key_new s)\<rparr>
      in s1\<lparr>ssid_len := of_nat (length (c_str (ssid_new s1)))\<rparr>)"

definition known_dhcp :: "u8 list \<Rightarrow> bool" where
  "known_dhcp m \<longleftrightarrow> take 4 m = ascii ''true'' \<or> take 4 m = ascii ''fals''"

text \<open>
  The default for a network never configured: 240 bytes are written from \<open>true_dhcp\<close>, an array of five bytes; what lies
  behind it is a parameter.
\<close>

definition default_wifi :: "fs_env \<Rightarrow> u8 list \<Rightarrow> store \<Rightarrow> run" where
  "default_wifi env behind s =
     (if known_dhcp (dhcp_check_wifi (cmd s)) then Inr (note_ev (TaskDelay 1) s)
      else run_bind (fs_write env 0xf0000 (ascii ''true'' @ [0] @ behind) 240 s) (\<lambda>s1.
           of_res (res_bind (strcpy (dhcp_check_wifi (cmd s1)) (ascii ''true'' @ [0]))
             (\<lambda>a. Inr (with_cmd (\<lambda>c. c\<lparr>dhcp_check_wifi := a\<rparr>) s1)))))"

definition default_eth :: "fs_env \<Rightarrow> u8 list \<Rightarrow> store \<Rightarrow> run" where
  "default_eth env behind s =
     (if known_dhcp (dhcp_check_eth (cmd s)) then Inr (note_ev (TaskDelay 1) s)
      else run_bind (fs_write env 0xf1000 (ascii ''true'' @ [0] @ behind) 240 s) (\<lambda>s1.
           of_res (res_bind (strcpy (dhcp_check_eth (cmd s1)) (ascii ''true'' @ [0]))
             (\<lambda>a. Inr (with_cmd (\<lambda>c. c\<lparr>dhcp_check_eth := a\<rparr>) s1)))))"

definition storage_init :: "fs_env \<Rightarrow> (nat \<Rightarrow> bool) \<Rightarrow> u8 list \<Rightarrow> u8 list \<Rightarrow> store \<Rightarrow> run" where
  "storage_init env ok uicr behind s =
     run_bind (default_wifi env behind (storage_read ok uicr s)) (default_eth env behind)"

section \<open>One round\<close>

definition test_internet_step :: "store \<Rightarrow> run" where
  "test_internet_step s =
     (if test_internet (cmd s) then
        let s1 = note_ev (TaskDelay 10000) s;
            s2 = note_ev (BleText (if check_internet s1 \<and> led_on s1 then ''success internet\<newline>'' else ''failed internet\<newline>'')) s1
        in Inr (with_cmd (\<lambda>c. c\<lparr>test_internet := False\<rparr>) s2)
      else Inr s)"

definition restart_step :: "store \<Rightarrow> run" where
  "restart_step s = (if restart_system s \<and> \<not> is_ble_on s then Inl (Reset s) else Inr s)"

text \<open>\<open>strncmp(first, command, n) == 0\<close> with the whole command, and a first character replaced by z.\<close>

definition requested :: "u8 list \<Rightarrow> string \<Rightarrow> bool" where
  "requested first command \<longleftrightarrow> take (length command) first = ascii command"

definition forget :: "u8 list \<Rightarrow> u8 list" where
  "forget m = m[0 := of_char CHR ''z'']"

definition token_step :: "fs_env \<Rightarrow> store \<Rightarrow> run" where
  "token_step env s =
     (if requested (API_token_first (cmd s)) ''token'' then
        run_bind (fs_write env 0xee200 (API_token (cmd s)) 240 (note_ev (TaskDelay 100) s)) (\<lambda>s1.
        of_res (res_bind (strcpy (API_token1 s1) (API_token (cmd s1))) (\<lambda>a.
          Inr (with_cmd (\<lambda>c. c\<lparr>API_token := forget (API_token c), API_token_first := forget (API_token_first c)\<rparr>)
            (note_ev (BleText ''success token\<newline>'') (s1\<lparr>API_token1 := a\<rparr>))))))
      else Inr s)"

definition link_step :: "fs_env \<Rightarrow> store \<Rightarrow> run" where
  "link_step env s =
     (if requested (API_link_first (cmd s)) ''link'' then
        run_bind (fs_write env 0xee100 (API_link (cmd s)) 240 (note_ev (TaskDelay 100) s)) (\<lambda>s1.
        of_res (res_bind (strcpy (API_link1 s1) (API_link (cmd s1))) (\<lambda>a.
          Inr (note_ev (BleText ''success link\<newline>'')
            (with_cmd (\<lambda>c. c\<lparr>API_link := forget (API_link c), API_link_first := forget (API_link_first c)\<rparr>)
              (s1\<lparr>API_link1 := a\<rparr>))))))
      else Inr s)"

definition ssid_step :: "fs_env \<Rightarrow> store \<Rightarrow> run" where
  "ssid_step env s =
     (if ssid_changed (cmd s) then
        run_bind (fs_write env 0xee500 (ssid_saved_copy (cmd s)) 80 (note_ev (TaskDelay 100) s))
          (\<lambda>s1. Inr (with_cmd (\<lambda>c. c\<lparr>ssid_changed := False\<rparr>) s1))
      else Inr s)"

definition key_step :: "fs_env \<Rightarrow> store \<Rightarrow> run" where
  "key_step env s =
     (if key_changed (cmd s) then
        run_bind (fs_write env 0xee600 (key_copy (cmd s)) 80 (note_ev (TaskDelay 100) s))
          (\<lambda>s1. Inr (with_cmd (\<lambda>c. c\<lparr>key_changed := False\<rparr>) s1))
      else Inr s)"

text \<open>The tests \<open>rc == NRF_SUCCESS\<close> behind an error check always hold.\<close>

definition internet_step :: "fs_env \<Rightarrow> store \<Rightarrow> run" where
  "internet_step env s =
     (if requested (is_internet_first (cmd s)) ''internet'' then
        run_bind (fs_erase env 0xee000 1 s) (\<lambda>s1.
        run_bind (fs_write env 0xee000 (is_internet (cmd s1)) 240 (note_ev (TaskDelay 100) s1)) (\<lambda>s2.
        of_res (res_bind (strcpy (is_internet1 s2) (is_internet (cmd s2))) (\<lambda>a.
          Inr (with_cmd (\<lambda>c. c\<lparr>is_internet := forget (is_internet c), is_internet_first := forget (is_internet_first c)\<rparr>)
            (note_ev (BleText ''success wifi_eth\<newline>'') (note_ev (TaskDelay 100) (s2\<lparr>is_internet1 := a\<rparr>))))))))
      else Inr s)"

definition config_step :: "fs_env \<Rightarrow> store \<Rightarrow> run" where
  "config_step env s =
     (if c_str (config_string (cmd s)) \<noteq> ascii ''z'' then
        run_bind (fs_erase env 0xed000 1 s) (\<lambda>s1.
        run_bind (fs_write env 0xed000 (config_string (cmd s1)) 240 (note_ev (TaskDelay 100) s1)) (\<lambda>s2.
        of_res (res_bind (memcpy (config_string1 s2) (config_string (cmd s2)) 48) (\<lambda>a.
          res_bind (strcpy (config_string (cmd s2)) (ascii ''z'' @ [0])) (\<lambda>b.
          Inr (note_ev (BleText ''success equipment\<newline>'')
            (with_cmd (\<lambda>c. c\<lparr>config_string := b\<rparr>) (s2\<lparr>config_string1 := a\<rparr>))))))))
      else Inr s)"

definition ip_step :: "fs_env \<Rightarrow> store \<Rightarrow> run" where
  "ip_step env s =
     (if c_str (ipaddress_changed (cmd s)) = ascii ''changed'' then
        run_bind (fs_erase env 0xef000 1 s) (\<lambda>s1.
        run_bind (fs_write env 0xef000 (le4 (ipaddr (cmd s1))) 4 (note_ev (TaskDelay 100) s1)) (\<lambda>s2.
        run_bind (fs_write env 0xef100 (le4 (gwaddr (cmd s2))) 4 (note_ev (TaskDelay 100) (note_ev (TaskDelay 100) s2))) (\<lambda>s3.
        run_bind (fs_write env 0xef200 (le4 (netmask (cmd s3))) 4 (note_ev (TaskDelay 100) s3)) (\<lambda>s4.
        of_res (res_bind (strcpy (ipaddress_changed (cmd s4)) (ascii ''unchanged'' @ [0])) (\<lambda>a.
          Inr (with_cmd (\<lambda>c. c\<lparr>ipaddress_changed := a\<rparr>) (note_ev (TaskDelay 100) s4))))))))
      else Inr s)"

definition dhcp_step :: "fs_env \<Rightarrow> store \<Rightarrow> run" where
  "dhcp_step env s =
     (if c_str (dhcp_check_changed (cmd s)) = ascii ''true'' then
        run_bind (fs_erase env 0xf0000 1 s) (\<lambda>s1.
        run_bind (fs_write env 0xf0000 (dhcp_check_wifi (cmd s1)) 8 (note_ev (TaskDelay 100) s1)) (\<lambda>s2.
        run_bind (fs_erase env 0xf1000 1 (note_ev (TaskDelay 100) s2)) (\<lambda>s3.
        run_bind (fs_write env 0xf1000 (dhcp_check_eth (cmd s3)) 8 (note_ev (TaskDelay 100) s3)) (\<lambda>s4.
        of_res (res_bind (strcpy (dhcp_check_changed (cmd s4)) (ascii ''false'' @ [0])) (\<lambda>a.
          Inr (with_cmd (\<lambda>c. c\<lparr>dhcp_check_changed := a\<rparr>) (note_ev (TaskDelay 100) s4))))))))
      else Inr s)"

definition update_step :: "store \<Rightarrow> run" where
  "update_step s =
     (if c_str (update (cmd s)) = ascii ''true'' then Inl (Reset (note_ev (SetGpregret 0xB1) s))
      else Inr (note_ev (TaskDelay 100) s))"

definition storage_round :: "fs_env \<Rightarrow> store \<Rightarrow> run" where
  "storage_round env s =
     fold (\<lambda>step r. run_bind r step)
       [test_internet_step, restart_step, token_step env, link_step env, ssid_step env, key_step env,
        internet_step env, config_step env, ip_step env, dhcp_step env, update_step] (Inr s)"

section \<open>Requests\<close>

datatype request = Token | Link | Ssid | Key | Internet | Config | Ip | Dhcp

fun pending :: "cmd_state \<Rightarrow> request \<Rightarrow> bool" where
  "pending c Token \<longleftrightarrow> requested (API_token_first c) ''token''"
| "pending c Link \<longleftrightarrow> requested (API_link_first c) ''link''"
| "pending c Ssid \<longleftrightarrow> ssid_changed c"
| "pending c Key \<longleftrightarrow> key_changed c"
| "pending c Internet \<longleftrightarrow> requested (is_internet_first c) ''internet''"
| "pending c Config \<longleftrightarrow> c_str (config_string c) \<noteq> ascii ''z''"
| "pending c Ip \<longleftrightarrow> c_str (ipaddress_changed c) = ascii ''changed''"
| "pending c Dhcp \<longleftrightarrow> c_str (dhcp_check_changed c) = ascii ''true''"

text \<open>What serving a request does to the flash.\<close>

fun serve :: "request \<Rightarrow> cmd_state \<Rightarrow> flash \<Rightarrow> flash" where
  "serve Token c = flash_write 0xee200 (API_token c)"
| "serve Link c = flash_write 0xee100 (API_link c)"
| "serve Ssid c = flash_write 0xee500 (ssid_saved_copy c)"
| "serve Key c = flash_write 0xee600 (key_copy c)"
| "serve Internet c = flash_write 0xee000 (is_internet c) \<circ> flash_erase 0xee000 1"
| "serve Config c = flash_write 0xed000 (config_string c) \<circ> flash_erase 0xed000 1"
| "serve Ip c = flash_write 0xef200 (le4 (netmask c)) \<circ> flash_write 0xef100 (le4 (gwaddr c)) \<circ>
     flash_write 0xef000 (le4 (ipaddr c)) \<circ> flash_erase 0xef000 1"
| "serve Dhcp c = flash_write 0xf1000 (take 8 (dhcp_check_eth c)) \<circ> flash_erase 0xf1000 1 \<circ>
     flash_write 0xf0000 (take 8 (dhcp_check_wifi c)) \<circ> flash_erase 0xf0000 1"

definition effect :: "request \<Rightarrow> cmd_state \<Rightarrow> flash \<Rightarrow> flash" where
  "effect r c f = (if pending c r then serve r c f else f)"

text \<open>
  Array sizes: those of the command line, which \<open>cmd_parse\<close> keeps, and those of the task's own copies. Three requests make the task copy a string by
  \<open>strcpy\<close>; the command line fills these arrays byte by byte from the line buffer, so nothing guarantees that they end.
\<close>

definition store_sizes :: "store \<Rightarrow> bool" where
  "store_sizes s \<longleftrightarrow> cmd_inv (cmd s) \<and> length (config_string1 s) = 240 \<and> length (API_token1 s) = 240 \<and>
     length (API_link1 s) = 240 \<and> length (is_internet1 s) = 240"

fun ends :: "cmd_state \<Rightarrow> request \<Rightarrow> bool" where
  "ends c Token \<longleftrightarrow> 0 \<in> set (API_token c)"
| "ends c Link \<longleftrightarrow> 0 \<in> set (API_link c)"
| "ends c Internet \<longleftrightarrow> 0 \<in> set (is_internet c)"
| "ends c _ \<longleftrightarrow> True"

definition store_inv :: "store \<Rightarrow> bool" where
  "store_inv s \<longleftrightarrow> store_sizes s \<and> (\<forall>r. pending (cmd s) r \<longrightarrow> ends (cmd s) r)"

definition post :: "request \<Rightarrow> store \<Rightarrow> store \<Rightarrow> bool" where
  "post r s s' \<longleftrightarrow> store_sizes s' \<and> flash_mem s' = effect r (cmd s) (flash_mem s) \<and> (pending (cmd s) r \<longrightarrow> ends (cmd s) r) \<and>
     (\<forall>q. pending (cmd s') q \<longleftrightarrow> q \<noteq> r \<and> pending (cmd s) q) \<and>
     (\<forall>q. q \<noteq> r \<longrightarrow> serve q (cmd s') = serve q (cmd s) \<and> ends (cmd s') q = ends (cmd s) q) \<and>
     restart_system s' = restart_system s \<and> is_ble_on s' = is_ble_on s \<and> update (cmd s') = update (cmd s)"

text \<open>
  A step stops early only where \<open>m\<close> allows it, leaves an array only where \<open>x\<close> allows it and then by writing, and when it ends the
  condition holds.
\<close>

fun good :: "bool \<Rightarrow> bool \<Rightarrow> run \<Rightarrow> (store \<Rightarrow> bool) \<Rightarrow> bool" where
  "good m x (Inr s) Q \<longleftrightarrow> Q s"
| "good m x (Inl (Fault f)) Q \<longleftrightarrow> x \<and> f = Overwrite"
| "good m x (Inl Halted) Q \<longleftrightarrow> m"
| "good m x (Inl (Reset s)) Q \<longleftrightarrow> m"

lemma good_bind: "good m x r Q \<Longrightarrow> (\<And>s. Q s \<Longrightarrow> good m x (f s) R) \<Longrightarrow> good m x (run_bind r f) R"
  by (cases "(m, x, r, Q)" rule: good.cases) auto

lemma good_mono: "good m x r Q \<Longrightarrow> (\<And>s. Q s \<Longrightarrow> R s) \<Longrightarrow> good m x r R"
  by (cases "(m, x, r, Q)" rule: good.cases) auto

lemma good_write:
  "n \<le> length src \<Longrightarrow> m \<or> (\<forall>h. env h = 0) \<Longrightarrow>
     good m x (fs_write env a src n s) (\<lambda>t. \<exists>ops. t = s\<lparr>fs_ops := ops, flash_mem := flash_write a (take n src) (flash_mem s)\<rparr>)"
  by (auto simp: fs_write_def Let_def)

lemma good_erase:
  "m \<or> (\<forall>h. env h = 0) \<Longrightarrow> good m x (fs_erase env a k s) (\<lambda>t. \<exists>ops. t = s\<lparr>fs_ops := ops, flash_mem := flash_erase a k (flash_mem s)\<rparr>)"
  by (auto simp: fs_erase_def Let_def)

text \<open>A string that ends is copied; one that does not fill its array overruns the one it is copied to.\<close>

lemma strcpy_array:
  assumes "length src = n" "length dst = n"
  shows "strcpy dst src = (if 0 \<in> set src then Inr (overwrite 0 (c_str src @ [0]) dst) else Inl Overwrite)"
proof (cases "0 \<in> set src")
  case True
  then have "length (c_str src) < n" using assms(1) by (induction src arbitrary: n) (auto simp: c_str_def)
  then show ?thesis using True assms by (simp add: strcpy_ok)
next
  case False
  then have "c_str src = src" by (simp add: c_str_def) (metis takeWhile_eq_all_conv)
  then show ?thesis using False assms by (simp add: strcpy_def)
qed

lemma c_str_less: "0 \<in> set m \<Longrightarrow> length (c_str m) < length m"
  by (induction m) (auto simp: c_str_def)

lemma not_requested_forget [simp]: "\<not> requested (forget m) ''token''" "\<not> requested (forget m) ''link''"
  "\<not> requested (forget m) ''internet''"
  by (cases m; simp add: requested_def forget_def ascii_def)+

lemma length_forget [simp]: "length (forget m) = length m"
  by (simp add: forget_def)

lemma note_ev_fields [simp]:
  "cmd (note_ev e s) = cmd s" "flash_mem (note_ev e s) = flash_mem s" "API_token1 (note_ev e s) = API_token1 s"
  "API_link1 (note_ev e s) = API_link1 s" "is_internet1 (note_ev e s) = is_internet1 s"
  "config_string1 (note_ev e s) = config_string1 s" "restart_system (note_ev e s) = restart_system s"
  "is_ble_on (note_ev e s) = is_ble_on s"
  by (simp_all add: note_ev_def)

lemma with_cmd_fields [simp]:
  "cmd (with_cmd f s) = f (cmd s)" "flash_mem (with_cmd f s) = flash_mem s" "API_token1 (with_cmd f s) = API_token1 s"
  "API_link1 (with_cmd f s) = API_link1 s" "is_internet1 (with_cmd f s) = is_internet1 s"
  "config_string1 (with_cmd f s) = config_string1 s" "restart_system (with_cmd f s) = restart_system s"
  "is_ble_on (with_cmd f s) = is_ble_on s"
  by (simp_all add: with_cmd_def)

lemma all_request: "(\<forall>q. P q) \<longleftrightarrow> P Token \<and> P Link \<and> P Ssid \<and> P Key \<and> P Internet \<and> P Config \<and> P Ip \<and> P Dhcp"
  by (metis request.exhaust)

lemmas post_simps = post_def all_request store_sizes_def effect_def inv_defs

lemma post_idle: "store_sizes s \<Longrightarrow> \<not> pending (cmd s) r \<Longrightarrow> post r s s"
  by (auto simp: post_def effect_def)

lemma token_good:
  assumes "store_sizes s" "m \<or> (\<forall>h. env h = 0)" "x \<or> (pending (cmd s) Token \<longrightarrow> ends (cmd s) Token)"
  shows "good m x (token_step env s) (post Token s)"
proof (cases "pending (cmd s) Token")
  case True
  have n: "length (API_token (cmd s)) = 240" "length (API_token1 s) = 240" using assms by (simp_all add: store_sizes_def inv_defs)
  show ?thesis
    using True unfolding token_step_def
    by (simp, intro good_bind [OF good_write])
      (use n c_str_less [of "API_token (cmd s)"] assms in \<open>auto simp: strcpy_array [of _ 240] post_simps\<close>)
qed (use assms post_idle [OF assms(1)] in \<open>simp add: token_step_def\<close>)

lemma link_good:
  assumes "store_sizes s" "m \<or> (\<forall>h. env h = 0)" "x \<or> (pending (cmd s) Link \<longrightarrow> ends (cmd s) Link)"
  shows "good m x (link_step env s) (post Link s)"
proof (cases "pending (cmd s) Link")
  case True
  have n: "length (API_link (cmd s)) = 240" "length (API_link1 s) = 240" using assms by (simp_all add: store_sizes_def inv_defs)
  show ?thesis
    using True unfolding link_step_def
    by (simp, intro good_bind [OF good_write])
      (use n c_str_less [of "API_link (cmd s)"] assms in \<open>auto simp: strcpy_array [of _ 240] post_simps\<close>)
qed (use assms post_idle [OF assms(1)] in \<open>simp add: link_step_def\<close>)

lemma ssid_good:
  assumes "store_sizes s" "m \<or> (\<forall>h. env h = 0)" shows "good m x (ssid_step env s) (post Ssid s)"
proof (cases "pending (cmd s) Ssid")
  case True
  have n: "length (ssid_saved_copy (cmd s)) = 80" using assms by (simp add: store_sizes_def inv_defs)
  show ?thesis using True unfolding ssid_step_def
    by (simp, intro good_bind [OF good_write])
      (use n assms in \<open>clarsimp simp: post_simps\<close>)+
qed (use assms post_idle [OF assms(1)] in \<open>simp add: ssid_step_def\<close>)

lemma key_good:
  assumes "store_sizes s" "m \<or> (\<forall>h. env h = 0)" shows "good m x (key_step env s) (post Key s)"
proof (cases "pending (cmd s) Key")
  case True
  have n: "length (key_copy (cmd s)) = 80" using assms by (simp add: store_sizes_def inv_defs)
  show ?thesis using True unfolding key_step_def
    by (simp, intro good_bind [OF good_write])
      (use n assms in \<open>clarsimp simp: post_simps\<close>)+
qed (use assms post_idle [OF assms(1)] in \<open>simp add: key_step_def\<close>)

lemma internet_good:
  assumes "store_sizes s" "m \<or> (\<forall>h. env h = 0)" "x \<or> (pending (cmd s) Internet \<longrightarrow> ends (cmd s) Internet)"
  shows "good m x (internet_step env s) (post Internet s)"
proof (cases "pending (cmd s) Internet")
  case True
  have n: "length (is_internet (cmd s)) = 240" "length (is_internet1 s) = 240" using assms by (simp_all add: store_sizes_def inv_defs)
  show ?thesis
    using True unfolding internet_step_def
    by (simp, intro good_bind [OF good_erase] good_bind [OF good_write])
      (use n c_str_less [of "is_internet (cmd s)"] assms in \<open>auto simp: strcpy_array [of _ 240] post_simps\<close>)
qed (use assms post_idle [OF assms(1)] in \<open>simp add: internet_step_def\<close>)

lemma c_str_copied: "length t < length m \<Longrightarrow> CHR 0x00 \<notin> set t \<Longrightarrow> c_str (overwrite 0 (ascii t @ [0]) m) = ascii t"
  by (simp add: overwrite_def c_str_ascii)

lemma c_str_literals [simp]: "c_str (ascii ''z'' @ [0]) = ascii ''z''" "c_str (ascii ''unchanged'' @ [0]) = ascii ''unchanged''"
  "c_str (ascii ''false'' @ [0]) = ascii ''false''" "c_str (ascii ''true'' @ [0]) = ascii ''true''"
  by (simp_all add: c_str_ascii)

lemma strcpy_literal: "length t < length dst \<Longrightarrow> c_str (ascii t @ [0]) = ascii t \<Longrightarrow>
    strcpy dst (ascii t @ [0]) = Inr (overwrite 0 (ascii t @ [0]) dst)"
  by (simp add: strcpy_def)

lemma config_good:
  assumes "store_sizes s" "m \<or> (\<forall>h. env h = 0)" shows "good m x (config_step env s) (post Config s)"
proof (cases "pending (cmd s) Config")
  case True
  have n: "length (config_string (cmd s)) = 240" "length (config_string1 s) = 240"
    using assms by (simp_all add: store_sizes_def inv_defs)
  show ?thesis
    using True unfolding config_step_def
    by (simp, intro good_bind [OF good_erase] good_bind [OF good_write])
      (use n assms in \<open>auto simp: post_simps memcpy_ok strcpy_literal c_str_copied\<close>)
qed (use assms post_idle [OF assms(1)] in \<open>simp add: config_step_def\<close>)

lemma length_le4 [simp]: "length (le4 w) = 4" "take 4 (le4 w) = le4 w"
  by (simp_all add: le4_def)

lemma ip_good:
  assumes "store_sizes s" "m \<or> (\<forall>h. env h = 0)" shows "good m x (ip_step env s) (post Ip s)"
proof (cases "pending (cmd s) Ip")
  case True
  have n: "length (ipaddress_changed (cmd s)) = 50" using assms by (simp add: store_sizes_def inv_defs)
  have d: "ascii ''unchanged'' \<noteq> ascii ''changed''" by (simp add: ascii_inj)
  show ?thesis
    using True unfolding ip_step_def
    by (simp, intro good_bind [OF good_erase] good_bind [OF good_write])
      (use n d assms in \<open>auto simp: post_simps strcpy_literal c_str_copied\<close>)
qed (use assms post_idle [OF assms(1)] in \<open>simp add: ip_step_def\<close>)

lemma dhcp_good:
  assumes "store_sizes s" "m \<or> (\<forall>h. env h = 0)" shows "good m x (dhcp_step env s) (post Dhcp s)"
proof (cases "pending (cmd s) Dhcp")
  case True
  have n: "length (dhcp_check_changed (cmd s)) = 50" "length (dhcp_check_wifi (cmd s)) = 50"
    "length (dhcp_check_eth (cmd s)) = 50" using assms by (simp_all add: store_sizes_def inv_defs)
  have d: "ascii ''false'' \<noteq> ascii ''true''" by (simp add: ascii_inj)
  show ?thesis
    using True unfolding dhcp_step_def
    by (simp, intro good_bind [OF good_erase] good_bind [OF good_write])
      (use n d assms in \<open>auto simp: post_simps strcpy_literal c_str_copied\<close>)
qed (use assms post_idle [OF assms(1)] in \<open>simp add: dhcp_step_def\<close>)

section \<open>A whole round\<close>

definition served :: "request list \<Rightarrow> store \<Rightarrow> store \<Rightarrow> bool" where
  "served rs s0 s \<longleftrightarrow> store_sizes s \<and> flash_mem s = fold (\<lambda>r. effect r (cmd s0)) rs (flash_mem s0) \<and>
     (\<forall>q \<in> set rs. pending (cmd s0) q \<longrightarrow> ends (cmd s0) q) \<and>
     (\<forall>q. pending (cmd s) q \<longleftrightarrow> q \<notin> set rs \<and> pending (cmd s0) q) \<and>
     (\<forall>q. q \<notin> set rs \<longrightarrow> serve q (cmd s) = serve q (cmd s0) \<and> ends (cmd s) q = ends (cmd s0) q) \<and>
     restart_system s = restart_system s0 \<and> is_ble_on s = is_ble_on s0 \<and> update (cmd s) = update (cmd s0)"

lemma served_snoc: "served rs s0 s \<Longrightarrow> r \<notin> set rs \<Longrightarrow> post r s s' \<Longrightarrow> served (rs @ [r]) s0 s'"
  by (auto simp: served_def post_def effect_def)

text \<open>What the initial state must satisfy for no step to leave an array.\<close>

definition all_end :: "store \<Rightarrow> bool" where
  "all_end s \<longleftrightarrow> (\<forall>r. pending (cmd s) r \<longrightarrow> ends (cmd s) r)"

lemma served_step:
  assumes "served rs s0 s" "r \<notin> set rs" "x \<or> all_end s0"
    "\<And>s. store_sizes s \<Longrightarrow> x \<or> (pending (cmd s) r \<longrightarrow> ends (cmd s) r) \<Longrightarrow> good m x (step s) (post r s)"
  shows "good m x (step s) (served (rs @ [r]) s0)"
proof -
  have "store_sizes s" "x \<or> (pending (cmd s) r \<longrightarrow> ends (cmd s) r)"
    using assms(1-3) by (auto simp: served_def all_end_def)
  then show ?thesis by (rule good_mono [OF assms(4)]) (rule served_snoc [OF assms(1,2)])
qed

lemma served_chain:
  assumes "good m x run (served rs s0)" "x \<or> all_end s0" "r \<notin> set rs"
    "\<And>s. store_sizes s \<Longrightarrow> x \<or> (pending (cmd s) r \<longrightarrow> ends (cmd s) r) \<Longrightarrow> good m x (step s) (post r s)"
  shows "good m x (run_bind run step) (served (rs @ [r]) s0)"
  by (rule good_bind [OF assms(1)]) (rule served_step [OF _ assms(3,2,4)])

lemma test_internet_good: "served [] s0 s \<Longrightarrow> good m x (test_internet_step s) (served [] s0)"
proof -
  assume s: "served [] s0 s"
  have p: "pending (c\<lparr>test_internet := False\<rparr>) q = pending c q" "serve q (c\<lparr>test_internet := False\<rparr>) = serve q c"
    "ends (c\<lparr>test_internet := False\<rparr>) q = ends c q" for c q
    by (cases q; simp)+
  have "store_sizes (with_cmd (\<lambda>c. c\<lparr>test_internet := False\<rparr>) t) = store_sizes t" for t
    by (simp add: store_sizes_def inv_defs)
  moreover have "store_sizes (note_ev e t) = store_sizes t" for e t by (simp add: store_sizes_def)
  ultimately show ?thesis using s by (simp add: test_internet_step_def Let_def served_def p)
qed

lemma restart_good: "m \<or> \<not> restart_system s0 \<or> is_ble_on s0 \<Longrightarrow> served [] s0 s \<Longrightarrow> good m x (restart_step s) (served [] s0)"
  by (auto simp: restart_step_def served_def)

lemma update_good: "m \<or> c_str (update (cmd s0)) \<noteq> ascii ''true'' \<Longrightarrow> served rs s0 s \<Longrightarrow> good m x (update_step s) (served rs s0)"
  by (auto simp: update_step_def served_def store_sizes_def)

abbreviation all_requests :: "request list" where
  "all_requests \<equiv> [Token, Link, Ssid, Key, Internet, Config, Ip, Dhcp]"

definition undisturbed :: "fs_env \<Rightarrow> store \<Rightarrow> bool" where
  "undisturbed env s \<longleftrightarrow> (\<forall>h. env h = 0) \<and> (restart_system s \<longrightarrow> is_ble_on s) \<and> c_str (update (cmd s)) \<noteq> ascii ''true''"

lemma round_steps:
  assumes "store_sizes s" and u: "m \<or> undisturbed env s" and x: "x \<or> all_end s"
  shows "good m x (storage_round env s) (served all_requests s)"
proof -
  have e: "m \<or> (\<forall>h. env h = 0)" and rs: "m \<or> \<not> restart_system s \<or> is_ble_on s"
    and up: "m \<or> c_str (update (cmd s)) \<noteq> ascii ''true''" using u by (auto simp: undisturbed_def)
  from assms(1) have "good m x (Inr s) (served [] s)" by (simp add: served_def)
  then have "good m x (run_bind (Inr s) test_internet_step) (served [] s)"
    by (rule good_bind) (rule test_internet_good)
  then have r0: "good m x (run_bind (run_bind (Inr s) test_internet_step) restart_step) (served [] s)"
    by (rule good_bind) (rule restart_good [OF rs])
  note r1 = served_chain [OF r0 x, where r = Token and step = "token_step env", simplified, OF token_good [OF _ e]]
  note r2 = served_chain [OF r1 x, where r = Link and step = "link_step env", simplified, OF link_good [OF _ e]]
  note r3 = served_chain [OF r2 x, where r = Ssid and step = "ssid_step env", simplified, OF ssid_good [OF _ e]]
  note r4 = served_chain [OF r3 x, where r = Key and step = "key_step env", simplified, OF key_good [OF _ e]]
  note r5 = served_chain [OF r4 x, where r = Internet and step = "internet_step env", simplified, OF internet_good [OF _ e]]
  note r6 = served_chain [OF r5 x, where r = Config and step = "config_step env", simplified, OF config_good [OF _ e]]
  note r7 = served_chain [OF r6 x, where r = Ip and step = "ip_step env", simplified, OF ip_good [OF _ e]]
  note r8 = served_chain [OF r7 x, where r = Dhcp and step = "dhcp_step env", simplified, OF dhcp_good [OF _ e]]
  show ?thesis unfolding storage_round_def
    using good_bind [OF r8, where f = update_step and R = "served all_requests s"] update_good [OF up] by simp
qed

lemma round_good: "store_inv s \<Longrightarrow> undisturbed env s \<Longrightarrow> good False False (storage_round env s) (served all_requests s)"
  by (rule round_steps) (simp_all add: store_inv_def all_end_def)

lemma round_ends:
  assumes "store_inv s" "undisturbed env s" obtains s' where "storage_round env s = Inr s'" "served all_requests s s'"
  using round_good [OF assms]
  by (cases "(False, False, storage_round env s, served all_requests s)" rule: good.cases) auto

lemma round_served: "store_sizes s \<Longrightarrow> storage_round env s = Inr s' \<Longrightarrow> served all_requests s s'"
  using round_steps [of s True env True] by simp

section \<open>Reading back\<close>

lemma length_flash_read [simp]: "length (flash_read a n f) = n"
  by (simp add: flash_read_def)

lemma read_write_same:
  "n \<le> length bs \<Longrightarrow> flash_read a n (flash_write a bs f) = map2 (AND) (flash_read a n f) (take n bs)"
  by (intro nth_equalityI) (auto simp: flash_read_def flash_write_def)

lemma read_write_other:
  "a + n \<le> b \<or> b + length bs \<le> a \<Longrightarrow> flash_read a n (flash_write b bs f) = flash_read a n f"
  by (auto simp: flash_read_def flash_write_def)

lemma read_erase_in:
  "b \<le> a \<Longrightarrow> a + n \<le> b + 4096 * k \<Longrightarrow> flash_read a n (flash_erase b k f) = replicate n 0xff"
  by (intro nth_equalityI) (auto simp: flash_read_def flash_erase_def)

lemma read_erase_other:
  "a + n \<le> b \<or> b + 4096 * k \<le> a \<Longrightarrow> flash_read a n (flash_erase b k f) = flash_read a n f"
  by (auto simp: flash_read_def flash_erase_def)

lemma erased_and: "length bs = n \<Longrightarrow> map2 (AND) (replicate n (0xff :: u8)) bs = bs"
proof -
  have "(0xff :: u8) AND b = b" for b
  proof -
    have "(0xff :: u8) = - 1" by simp
    then show ?thesis by (simp only: and.left_neutral)
  qed
  then show "length bs = n \<Longrightarrow> map2 (AND) (replicate n (0xff :: u8)) bs = bs"
    by (induction bs arbitrary: n) auto
qed

text \<open>The part of the flash a request may change.\<close>

fun area :: "request \<Rightarrow> nat \<times> nat" where
  "area Token = (0xee200, 0xee2f0)"
| "area Link = (0xee100, 0xee1f0)"
| "area Ssid = (0xee500, 0xee550)"
| "area Key = (0xee600, 0xee650)"
| "area Internet = (0xee000, 0xef000)"
| "area Config = (0xed000, 0xee000)"
| "area Ip = (0xef000, 0xf0000)"
| "area Dhcp = (0xf0000, 0xf2000)"

lemma effect_outside:
  assumes "cmd_inv c" "a + n \<le> fst (area q) \<or> snd (area q) \<le> a"
  shows "flash_read a n (effect q c f) = flash_read a n f"
  using assms
  by (cases q) (auto simp: effect_def inv_defs read_write_other read_erase_other)

lemma of_le4_le4 [simp]: "of_le4 (le4 w) = w"
proof (rule bit_word_eqI)
  fix n assume "n < LENGTH(32)"
  then have "n < 32" by simp
  then consider "n < 8" | "8 \<le> n" "n < 16" | "16 \<le> n" "n < 24" | "24 \<le> n" "n < 32" by linarith
  then show "bit (of_le4 (le4 w)) n = bit w n" by cases (auto simp: of_le4_def le4_def bit_simps)
qed

lemma overwrite_all: "length bs = length m \<Longrightarrow> overwrite 0 bs m = bs"
  by (simp add: overwrite_def)

lemma served_read:
  fixes f :: flash
  assumes "cmd_inv c"
  defines "f' \<equiv> fold (\<lambda>r. effect r c) all_requests f"
  shows "pending c Config \<Longrightarrow> flash_read 0xed000 48 f' = take 48 (config_string c)"
    and "pending c Internet \<Longrightarrow> flash_read 0xee000 8 f' = take 8 (is_internet c)"
    and "pending c Ip \<Longrightarrow> flash_read 0xef000 4 f' = le4 (ipaddr c)"
    and "pending c Ip \<Longrightarrow> flash_read 0xef100 4 f' = le4 (gwaddr c)"
    and "pending c Ip \<Longrightarrow> flash_read 0xef200 4 f' = le4 (netmask c)"
    and "pending c Dhcp \<Longrightarrow> flash_read 0xf0000 8 f' = take 8 (dhcp_check_wifi c)"
    and "pending c Dhcp \<Longrightarrow> flash_read 0xf1000 8 f' = take 8 (dhcp_check_eth c)"
proof -
  note sizes = assms(1) [unfolded inv_defs, simplified]
  note rules = f'_def effect_outside [OF assms(1)] sizes
  note here = effect_def read_write_same read_write_other read_erase_in erased_and read_erase_other
  show "pending c Config \<Longrightarrow> flash_read 0xed000 48 f' = take 48 (config_string c)"
    by (simp add: rules) (simp add: here sizes)
  show "pending c Internet \<Longrightarrow> flash_read 0xee000 8 f' = take 8 (is_internet c)"
    by (simp add: rules) (simp add: here sizes)
  show "pending c Ip \<Longrightarrow> flash_read 0xef000 4 f' = le4 (ipaddr c)"
    by (simp add: rules) (simp add: here sizes)
  show "pending c Ip \<Longrightarrow> flash_read 0xef100 4 f' = le4 (gwaddr c)"
    by (simp add: rules) (simp add: here sizes)
  show "pending c Ip \<Longrightarrow> flash_read 0xef200 4 f' = le4 (netmask c)"
    by (simp add: rules) (simp add: here sizes)
  show "pending c Dhcp \<Longrightarrow> flash_read 0xf0000 8 f' = take 8 (dhcp_check_wifi c)"
    by (simp add: rules) (simp add: here sizes)
  show "pending c Dhcp \<Longrightarrow> flash_read 0xf1000 8 f' = take 8 (dhcp_check_eth c)"
    by (simp add: rules) (simp add: here sizes)
qed

lemma shared_page_read:
  fixes f :: flash
  assumes "cmd_inv c"
  defines "f' \<equiv> fold (\<lambda>r. effect r c) all_requests f"
  shows "\<not> pending c Internet \<Longrightarrow> pending c Token \<Longrightarrow> flash_read 0xee200 240 f' = map2 (AND) (flash_read 0xee200 240 f) (API_token c)"
    and "\<not> pending c Internet \<Longrightarrow> pending c Link \<Longrightarrow> flash_read 0xee100 240 f' = map2 (AND) (flash_read 0xee100 240 f) (API_link c)"
    and "pending c Internet \<Longrightarrow> flash_read 0xee200 240 f' = replicate 240 0xff"
    and "pending c Internet \<Longrightarrow> flash_read 0xee100 240 f' = replicate 240 0xff"
    and "pending c Internet \<Longrightarrow> flash_read 0xee500 80 f' = replicate 80 0xff"
    and "pending c Internet \<Longrightarrow> flash_read 0xee600 80 f' = replicate 80 0xff"
proof -
  note sizes = assms(1) [unfolded inv_defs, simplified]
  note rules = f'_def effect_outside [OF assms(1)] sizes
  note here = effect_def read_write_same read_write_other read_erase_in erased_and read_erase_other
  show "\<not> pending c Internet \<Longrightarrow> pending c Token \<Longrightarrow> flash_read 0xee200 240 f' = map2 (AND) (flash_read 0xee200 240 f) (API_token c)"
    by (simp add: rules effect_def [of Internet]) (simp add: here sizes)
  show "\<not> pending c Internet \<Longrightarrow> pending c Link \<Longrightarrow> flash_read 0xee100 240 f' = map2 (AND) (flash_read 0xee100 240 f) (API_link c)"
    by (simp add: rules effect_def [of Internet]) (simp add: here sizes effect_outside [OF assms(1)])
  show "pending c Internet \<Longrightarrow> flash_read 0xee200 240 f' = replicate 240 0xff"
    by (simp add: rules) (simp add: here sizes)
  show "pending c Internet \<Longrightarrow> flash_read 0xee100 240 f' = replicate 240 0xff"
    by (simp add: rules) (simp add: here sizes)
  show "pending c Internet \<Longrightarrow> flash_read 0xee500 80 f' = replicate 80 0xff"
    by (simp add: rules) (simp add: here sizes)
  show "pending c Internet \<Longrightarrow> flash_read 0xee600 80 f' = replicate 80 0xff"
    by (simp add: rules) (simp add: here sizes)
qed

lemma round_flash:
  assumes "store_sizes s" "storage_round env s = Inr s'"
  shows "flash_mem s' = fold (\<lambda>r. effect r (cmd s)) all_requests (flash_mem s)"
  using round_served [OF assms] by (simp add: served_def)

section \<open>Properties\<close>

text \<open>
  C6: With arrays of the declared sizes, which is what the command line leaves, a round of the storage task comes to its end if the library accepts
  every operation, neither a restart nor an update is due and the token, link or interface name that is to be copied ends within its array. If it ends,
  all of these did end, every request has been served (none is pending any more), the flash holds what the requests ask for, in the order of the task,
  and the sizes are kept. It leaves an array in one way only: by the copy of a pending string that does not end.
\<close>

theorem storage_round_serves:
  assumes "store_sizes s"
  shows "(case storage_round env s of
      Inl (Fault f) \<Rightarrow> f = Overwrite \<and> (\<exists>r. pending (cmd s) r \<and> \<not> ends (cmd s) r)
    | Inl Halted \<Rightarrow> \<not> undisturbed env s
    | Inl (Reset s') \<Rightarrow> \<not> undisturbed env s
    | Inr s' \<Rightarrow> (\<forall>r. pending (cmd s) r \<longrightarrow> ends (cmd s) r) \<and> store_inv s' \<and> (\<forall>q. \<not> pending (cmd s') q) \<and>
        flash_mem s' = fold (\<lambda>r. effect r (cmd s)) all_requests (flash_mem s))"
proof -
  have all: "q \<in> set all_requests" for q by (cases q) simp_all
  have "good (\<not> undisturbed env s) (\<not> all_end s) (storage_round env s) (served all_requests s)"
    by (rule round_steps [OF assms]) simp_all
  then show ?thesis
    by (cases "(\<not> undisturbed env s, \<not> all_end s, storage_round env s, served all_requests s)" rule: good.cases)
      (use all in \<open>simp_all del: set_simps list.set add: served_def store_inv_def all_end_def\<close>)
qed

text \<open>
  C8: What a completed round stored in a page it erased first is what the next start reads: equipment configuration, addresses,
  DHCP choices and the chosen interface.
\<close>

theorem storage_survives_restart:
  assumes "store_sizes s" "storage_round env s = Inr s'" "flash_mem t = flash_mem s'"
    and "length (config_string1 t) = 240" "length (is_internet1 t) = 240" "cmd_inv (cmd t)"
  shows "let c = cmd s; b = storage_read (\<lambda>_. True) uicr t
    in (pending c Config \<longrightarrow> take 48 (config_string1 b) = take 48 (config_string c)) \<and>
       (pending c Ip \<longrightarrow> ipaddr_value b = ipaddr c \<and> gw_value b = gwaddr c \<and> mask_value b = netmask c) \<and>
       (pending c Dhcp \<longrightarrow> take 8 (dhcp_check_wifi (cmd b)) = take 8 (dhcp_check_wifi c) \<and>
          take 8 (dhcp_check_eth (cmd b)) = take 8 (dhcp_check_eth c)) \<and>
       (pending c Internet \<longrightarrow> take 8 (is_internet1 b) = take 8 (is_internet c))"
proof -
  have inv: "cmd_inv (cmd s)" using assms(1) by (simp add: store_sizes_def)
  note sizes = assms(6) [unfolded inv_defs, simplified]
  have f: "flash_mem t = fold (\<lambda>r. effect r (cmd s)) all_requests (flash_mem s)"
    using round_flash [OF assms(1,2)] assms(3) by simp
  have at: "take n (overwrite 0 bs m) = bs" if "length bs = n" "n \<le> length m" for n bs m
    using that by (simp add: overwrite_def)
  have b: "take 48 (config_string1 (storage_read (\<lambda>_. True) uicr t)) = flash_read 0xed000 48 (flash_mem t)"
    "take 8 (is_internet1 (storage_read (\<lambda>_. True) uicr t)) = flash_read 0xee000 8 (flash_mem t)"
    "take 8 (dhcp_check_wifi (cmd (storage_read (\<lambda>_. True) uicr t))) = flash_read 0xf0000 8 (flash_mem t)"
    "take 8 (dhcp_check_eth (cmd (storage_read (\<lambda>_. True) uicr t))) = flash_read 0xf1000 8 (flash_mem t)"
    using assms(4,5) sizes by (simp_all add: storage_read_def read_into_def Let_def at)
  have w: "ipaddr_value (storage_read (\<lambda>_. True) uicr t) = of_le4 (flash_read 0xef000 4 (flash_mem t))"
    "gw_value (storage_read (\<lambda>_. True) uicr t) = of_le4 (flash_read 0xef100 4 (flash_mem t))"
    "mask_value (storage_read (\<lambda>_. True) uicr t) = of_le4 (flash_read 0xef200 4 (flash_mem t))"
    by (simp_all add: storage_read_def read_word_def Let_def)
  show ?thesis
    unfolding Let_def b w f using served_read [OF inv, of "flash_mem s"] by simp
qed

text \<open>
  Token, link and WiFi data share a page that only the choice of the interface erases, and they are written without
  erasing: the next start reads the bitwise conjunction of the old and the new token, which is the new token over erased
  flash only; and choosing the interface wipes token, link, network name and key.
\<close>

lemma token_page_shared:
  assumes "store_sizes s" "storage_round env s = Inr s'" "flash_mem t = flash_mem s'"
    and "length (API_token1 t) = 240" "length (API_link1 t) = 240" "length (ssid_new t) = 80" "length (key_new t) = 80"
  shows "let c = cmd s; old = flash_read 0xee200 240 (flash_mem s); b = storage_read (\<lambda>_. True) uicr t
    in (pending c Token \<and> \<not> pending c Internet \<longrightarrow> API_token1 b = map2 (AND) old (API_token c) \<and>
          (old = replicate 240 0xff \<longrightarrow> API_token1 b = API_token c)) \<and>
       (pending c Internet \<longrightarrow> API_token1 b = replicate 240 0xff \<and> API_link1 b = replicate 240 0xff \<and>
          ssid_new b = replicate 80 0xff \<and> key_new b = replicate 80 0xff)"
proof -
  have inv: "cmd_inv (cmd s)" using assms(1) by (simp add: store_sizes_def)
  have f: "flash_mem t = fold (\<lambda>r. effect r (cmd s)) all_requests (flash_mem s)"
    using round_flash [OF assms(1,2)] assms(3) by simp
  have b: "API_token1 (storage_read (\<lambda>_. True) uicr t) = flash_read 0xee200 240 (flash_mem t)"
    "API_link1 (storage_read (\<lambda>_. True) uicr t) = flash_read 0xee100 240 (flash_mem t)"
    "ssid_new (storage_read (\<lambda>_. True) uicr t) = flash_read 0xee500 80 (flash_mem t)"
    "key_new (storage_read (\<lambda>_. True) uicr t) = flash_read 0xee600 80 (flash_mem t)"
    using assms(4-7) by (simp_all add: storage_read_def read_into_def Let_def overwrite_all)
  have "length (API_token (cmd s)) = 240" using inv by (simp add: inv_defs)
  then show ?thesis
    unfolding Let_def b f using shared_page_read [OF inv, of "flash_mem s"] by (simp add: erased_and)
qed

section \<open>A start with requests of every kind\<close>

definition init_store :: store where
  "init_store = \<lparr>cmd = init_cmd, flash_mem = (\<lambda>_. 0xff), fs_ops = [], iM_pulse_ID = replicate 6 0,
     config_string1 = replicate 240 0, API_token1 = replicate 240 0, API_link1 = replicate 240 0,
     is_internet1 = replicate 240 0, ssid_new = replicate 80 0, key_new = replicate 80 0, ssid_len = 0,
     ipaddr_value = 0, gw_value = 0, mask_value = 0, check_internet = False, led_on = False,
     restart_system = False, is_ble_on = False, task_evs = []\<rparr>"

definition demo_store :: store where
  "demo_store = init_store\<lparr>cmd := init_cmd\<lparr>API_token_first := array_of 240 ''token'', API_token := array_of 240 ''abc'',
     config_string := array_of 240 ''config[circuit:1,phase:1,voltage:120,frequen:60]'',
     ipaddress_changed := array_of 50 ''changed'', ipaddr := 0x0100007f\<rparr>\<rparr>"

lemma demo_inv: "store_inv demo_store" "store_sizes demo_store"
  by (simp_all add: store_inv_def store_sizes_def all_request demo_store_def init_store_def inv_defs init_cmd_def array_of_def requested_def)

lemma demo_undisturbed: "undisturbed (\<lambda>_. 0) demo_store"
proof -
  have "array_of 6 ''false'' = ascii ''false'' @ [0]" by (simp add: array_of_def)
  then show ?thesis by (simp add: undisturbed_def demo_store_def init_store_def init_cmd_def ascii_inj)
qed

lemma demo_round: obtains s where "storage_round (\<lambda>_. 0) demo_store = Inr s"
  using round_ends [OF demo_inv(1) demo_undisturbed] by blast

lemma demo_pending: "pending (cmd demo_store) Token" "pending (cmd demo_store) Config" "pending (cmd demo_store) Ip"
  "\<not> pending (cmd demo_store) Internet"
proof -
  show "pending (cmd demo_store) Token" by (simp add: demo_store_def requested_def array_of_def)
  have c: "c_str (array_of n t) = ascii t" if "CHR 0x00 \<notin> set t" "length t < n" for n t
  proof -
    have "replicate (n - length t) (0 :: u8) = 0 # replicate (n - length t - 1) 0"
      using that by (cases "n - length t") auto
    then show ?thesis using that by (simp add: array_of_def c_str_ascii)
  qed
  show "pending (cmd demo_store) Config" by (simp add: demo_store_def c ascii_inj)
  show "pending (cmd demo_store) Ip" by (simp add: demo_store_def c)
  show "\<not> pending (cmd demo_store) Internet"
    by (simp add: demo_store_def init_cmd_def init_store_def requested_def) (simp add: ascii_def)
qed

text \<open>The same with a token that fills its array.\<close>

definition unended_store :: store where
  "unended_store = demo_store\<lparr>cmd := (cmd demo_store)\<lparr>API_token := replicate 240 (of_char CHR ''x'')\<rparr>\<rparr>"

lemma unended: "store_sizes unended_store" "pending (cmd unended_store) Token" "\<not> ends (cmd unended_store) Token" "undisturbed (\<lambda>_. 0) unended_store"
  using demo_inv(2) demo_pending(1) demo_undisturbed
  by (simp_all add: unended_store_def store_sizes_def inv_defs undisturbed_def)

lemma storage_round_serves_witness:
  "(case storage_round (\<lambda>_. 0) demo_store of Inr s \<Rightarrow> \<not> pending (cmd s) Token | Inl e \<Rightarrow> False) \<and>
   storage_round (\<lambda>_. 0) unended_store = Inl (Fault Overwrite)"
proof
  obtain s where s: "storage_round (\<lambda>_. 0) demo_store = Inr s" by (rule demo_round)
  then show "case storage_round (\<lambda>_. 0) demo_store of Inr s \<Rightarrow> \<not> pending (cmd s) Token | Inl e \<Rightarrow> False"
    using storage_round_serves [OF demo_inv(2), of "\<lambda>_. 0"] by (auto dest: spec [where x = Token])
  show "storage_round (\<lambda>_. 0) unended_store = Inl (Fault Overwrite)"
    using storage_round_serves [OF unended(1), of "\<lambda>_. 0"] unended by (auto split: sum.splits stop.splits dest: spec [where x = Token])
qed

lemma storage_survives_restart_witness:
  "\<exists>s'. storage_round (\<lambda>_. 0) demo_store = Inr s' \<and>
     ipaddr_value (storage_read (\<lambda>_. True) [] (init_store\<lparr>flash_mem := flash_mem s'\<rparr>)) = 0x0100007f"
proof -
  obtain s where s: "storage_round (\<lambda>_. 0) demo_store = Inr s" by (rule demo_round)
  have "cmd_inv (cmd (init_store\<lparr>flash_mem := flash_mem s\<rparr>))" by (simp add: init_store_def init_inv)
  then show ?thesis
    using storage_survives_restart [OF demo_inv(2) s, of "init_store\<lparr>flash_mem := flash_mem s\<rparr>" "[]"] demo_pending s
    by (simp add: Let_def init_store_def) (simp add: demo_store_def)
qed

lemma token_page_shared_witness:
  "\<exists>s'. storage_round (\<lambda>_. 0) demo_store = Inr s' \<and>
     API_token1 (storage_read (\<lambda>_. True) [] (init_store\<lparr>flash_mem := flash_mem s'\<rparr>)) = array_of 240 ''abc''"
proof -
  obtain s where s: "storage_round (\<lambda>_. 0) demo_store = Inr s" by (rule demo_round)
  have "flash_read a n (flash_mem demo_store) = replicate n 0xff" for a n
    by (simp add: flash_read_def demo_store_def init_store_def map_replicate_const)
  then show ?thesis
    using token_page_shared [OF demo_inv(2) s, of "init_store\<lparr>flash_mem := flash_mem s\<rparr>" "[]"] demo_pending s
    by (simp add: Let_def init_store_def) (simp add: demo_store_def erased_and array_of_def)
qed

end
