(* ===== verification/Socket_Task.thy ===== *)
theory Socket_Task
  imports Request "HOL-Library.Sublist"
begin

text \<open>
  The client task of socket_test.c: resolving and connecting, the reports about failing connections, the endless loop that
  reads from and writes to the TLS connection, and the ways back to connecting. Sockets, TLS, time and Bluetooth are calls
  appended to a log; the result of a call is a parameter, a function of the log.
\<close>

section \<open>Calls and state\<close>

datatype sock_call =
    GetAddrInfo string | FreeAddrInfo
  | SocketOpen | SocketBind int | SocketConnect int | SocketClose int | SocketSend int nat
  | SetNonBlock int | Select int | FdIsSet int | SocketRecv int
  | TlsAlloc | TlsFree | TlsInput int | TlsRead | TlsWrite string
  | TickCount | SockDelay nat | BleReport string

type_synonym sock_env = "sock_call list \<Rightarrow> int"

text \<open>
  The variables of the task, and those it shares with network.c, cmd.c and the storage task; the texts of the latter are the arrays, with their zero
  bytes. \<open>netif_default\<close> tells whether lwIP has a default interface, that is whether the pointer of that name is not null.
\<close>

record client =
  calls :: "sock_call list"
  socket_fd :: int
  count_check_internet :: u8
  socket_conn_issue :: u8
  count_inside_select :: u8
  restart_pulse_count :: u16
  write_error :: u8
  write_error_count :: u8
  timeout :: u32
  send_period :: u32
  waiting_for_response :: bool
  is_timeout :: bool
  txbuff :: string
  trying_to_connect :: bool
  wifi_disconnected :: bool
  check_internet :: bool
  restart_system :: bool
  API_link1 :: string
  API_token1 :: string
  iM_pulse_ID :: string
  config_string1 :: string
  sensors :: sensors
  netif_default :: bool

definition call :: "sock_env \<Rightarrow> sock_call \<Rightarrow> client \<Rightarrow> int \<times> client" where
  "call env c s = (env (calls s @ [c]), s\<lparr>calls := calls s @ [c]\<rparr>)"

abbreviation perform :: "sock_env \<Rightarrow> sock_call \<Rightarrow> client \<Rightarrow> client" where
  "perform env c s \<equiv> snd (call env c s)"

definition ticks :: "int \<Rightarrow> u32" where "ticks v = of_int v"

section \<open>Sending for TLS\<close>

text \<open>The output handler of the TLS instance: 0 is \<open>NRF_SUCCESS\<close>, anything else an error.\<close>

definition tls_output_handler :: "sock_env \<Rightarrow> nat \<Rightarrow> client \<Rightarrow> int \<times> client" where
  "tls_output_handler env datalen s =
     (if datalen = 0 then (0, s)
      else let (n, s1) = call env (SocketSend (socket_fd s) datalen) s
           in (if n = int datalen then 0 else -1, s1))"

section \<open>Connecting\<close>

text \<open>
  The name is copied from its array and resolved, a socket is opened, bound to the address of the default interface and connected. Every way out but the
  last closes what was opened.
\<close>

definition connect_to_addr :: "sock_env \<Rightarrow> string \<Rightarrow> client \<Rightarrow> (int \<times> client) res" where
  "connect_to_addr env addr s =
     res_bind (c_text addr) (\<lambda>name.
       let (rv, s1) = call env (GetAddrInfo name) s
       in if rv \<noteq> 0 then Inr (-1, s1)
          else let (fd, s2) = call env SocketOpen s1
               in if fd < 0 then Inr (-1, perform env FreeAddrInfo s2)
                  else if \<not> netif_default s2 then Inl NullPointer
                  else let (b, s3) = call env (SocketBind fd) s2
                       in if b = -1 then Inr (-1, perform env FreeAddrInfo (perform env (SocketClose fd) s3))
                          else let (c, s4) = call env (SocketConnect fd) s3
                               in if c < 0 then Inr (-1, perform env (SocketClose fd) (perform env FreeAddrInfo s4))
                                  else Inr (fd, perform env FreeAddrInfo s4))"

text \<open>What is told to the app when connecting failed.\<close>

definition report_failure :: "sock_env \<Rightarrow> client \<Rightarrow> client" where
  "report_failure env s0 =
     (let s = s0\<lparr>check_internet := False\<rparr>
      in if trying_to_connect s then
           let s1 = s\<lparr>socket_conn_issue := socket_conn_issue s + 1\<rparr>
           in if 12 < socket_conn_issue s1
              then (perform env (BleReport ''failed internet\<newline>'') s1)\<lparr>trying_to_connect := False, socket_conn_issue := 0\<rparr>
              else perform env (BleReport ''success trying to connect\<newline>'') s1
         else if wifi_disconnected s then
           let s1 = s\<lparr>count_check_internet := count_check_internet s + 1\<rparr>
           in if 3 < count_check_internet s1
              then (perform env (BleReport ''failed internet\<newline>'') (s1\<lparr>count_check_internet := 0\<rparr>))\<lparr>wifi_disconnected := False, count_check_internet := 0\<rparr>
              else perform env (BleReport ''success trying to connect\<newline>'') s1
         else s)"

text \<open>After a connection: the restart flag, a TLS instance, and the variables of the loop.\<close>

definition start_connection :: "sock_env \<Rightarrow> client \<Rightarrow> client" where
  "start_connection env s =
     (let s1 = s\<lparr>check_internet := True, restart_system := (write_error s = 1 \<or> restart_system s)\<rparr>;
          s2 = perform env TlsAlloc (perform env (SetNonBlock (socket_fd s1)) s1);
          (now, s3) = call env TickCount s2
      in s3\<lparr>timeout := ticks now - send_period s3, is_timeout := False, waiting_for_response := False\<rparr>)"

section \<open>The loop\<close>

datatype next_step = Continue client | Break client | SystemReset client | MemFault fault

text \<open>A quiet socket for ten seconds.\<close>

definition select_timeout :: "sock_env \<Rightarrow> client \<Rightarrow> client" where
  "select_timeout env s =
     (let s1 = (if wifi_disconnected s then
            let t = s\<lparr>count_inside_select := count_inside_select s + 1\<rparr>
            in if 2 < count_inside_select t
               then (perform env (BleReport ''failed internet\<newline>'') t)\<lparr>wifi_disconnected := False, count_inside_select := 0\<rparr>
               else perform env (BleReport ''success trying to connect\<newline>'') t
          else s)
      in s1\<lparr>is_timeout := True\<rparr>)"

text \<open>Sending: two empty writes tell whether the connection is up, then the request if the device is provisioned.\<close>

definition provisioned :: "client \<Rightarrow> bool" where
  "provisioned s \<longleftrightarrow> take 1 (API_token1 s) \<noteq> [CHR 0xFF] \<and> take 1 (API_link1 s) \<noteq> [CHR 0xFF]"

definition send_request :: "sock_env \<Rightarrow> client \<Rightarrow> next_step" where
  "send_request env s =
     (let s1 = perform env (TlsWrite []) s;
          (ret, s2) = call env (TlsWrite []) s1;
          s3 = perform env (SockDelay 500) s2
      in if ret = 0 then
           (if provisioned s3 then
              let (ret1, s4) = call env (TlsWrite (txbuff s3)) s3;
                  s5 = perform env (SockDelay 500) s4
              in if ret1 \<noteq> 0 then Break s5
                 else let (now, s6) = call env TickCount s5
                      in Continue (s6\<lparr>timeout := ticks now, waiting_for_response := True, is_timeout := False,
                           restart_pulse_count := restart_pulse_count s6 + 1\<rparr>)
            else Continue s3)
         else if is_timeout s3 then Break s3 else Continue s3)"

text \<open>From the receive on: data to TLS, data from TLS, and the time to send.\<close>

definition receive_and_send :: "sock_env \<Rightarrow> client \<Rightarrow> next_step" where
  "receive_and_send env s =
     (let (set, s1) = call env (FdIsSet (socket_fd s)) s;
          (r, s2) = (if set \<noteq> 0 then call env (SocketRecv (socket_fd s1)) s1 else (1, s1))
      in if r \<le> 0 then Break s2
         else let s3 = (if set \<noteq> 0 then perform env (TlsInput r) (s2\<lparr>is_timeout := False\<rparr>) else s2);
                  (ret, s4) = call env TlsRead s3;
                  s5 = (if ret = 0 then s4\<lparr>waiting_for_response := False\<rparr> else s4);
                  (now, s6) = call env TickCount s5
              in if send_period s6 < ticks now - timeout s6 then send_request env s6
                 else let s7 = s6\<lparr>write_error_count := write_error_count s6 + 1\<rparr>
                      in Continue (if 200 < write_error_count s7 then s7\<lparr>write_error := 1\<rparr> else s7))"

definition loop_iteration :: "sock_env \<Rightarrow> client \<Rightarrow> next_step" where
  "loop_iteration env s =
     (if 1440 < restart_pulse_count s then SystemReset s
      else case make_request (API_link1 s) (API_token1 s) (iM_pulse_ID s) (config_string1 s) (sensors s) (txbuff s) of
             Inl e \<Rightarrow> MemFault e
           | Inr t \<Rightarrow>
               let (rc, s1) = call env (Select (socket_fd s)) (s\<lparr>txbuff := t\<rparr>)
               in if rc < 0 then Break s1
                  else if rc = 0 then
                    let s2 = select_timeout env s1
                    in if waiting_for_response s2 then Break s2 else receive_and_send env s2
                  else receive_and_send env s1)"

section \<open>The task\<close>

datatype place = Connecting | InLoop | Stopped

type_synonym task = "place \<times> client"

text \<open>One turn of the task at one of its two loops.\<close>

fun task_turn :: "sock_env \<Rightarrow> task \<Rightarrow> task" where
  "task_turn env (Connecting, s) =
     (case connect_to_addr env (API_link1 s) s of
        Inl e \<Rightarrow> (Stopped, s)
      | Inr (fd, s1) \<Rightarrow>
          let s2 = s1\<lparr>socket_fd := fd\<rparr>
          in if fd < 0 then (Connecting, perform env (SockDelay 2000) (report_failure env s2))
             else (InLoop, start_connection env s2))"
| "task_turn env (InLoop, s) =
     (case loop_iteration env s of
        Continue s1 \<Rightarrow> (InLoop, s1)
      | Break s1 \<Rightarrow> (Connecting, perform env (SockDelay 5000) (perform env TlsFree (perform env (SocketClose (socket_fd s1)) s1)))
      | SystemReset s1 \<Rightarrow> (Stopped, s1)
      | MemFault e \<Rightarrow> (Stopped, s))"
| "task_turn env (Stopped, s) = (Stopped, s)"

text \<open>
  Between two turns the other tasks may change what they share with this one: the flags, the provisioning, the sensor values and the default interface.
\<close>

definition others :: "client \<Rightarrow> client \<Rightarrow> bool" where
  "others s t \<longleftrightarrow> (\<exists>a b c d e f g h n. t = s\<lparr>trying_to_connect := a, wifi_disconnected := b, restart_system := c, API_link1 := d,
     API_token1 := e, iM_pulse_ID := f, config_string1 := g, sensors := h, netif_default := n\<rparr>)"

inductive task_reach :: "sock_env \<Rightarrow> client \<Rightarrow> task \<Rightarrow> bool" for env :: sock_env and s0 :: client where
  start: "task_reach env s0 (Connecting, s0)"
| turn: "task_reach env s0 x \<Longrightarrow> task_reach env s0 (task_turn env x)"
| share: "task_reach env s0 (p, s) \<Longrightarrow> others s t \<Longrightarrow> task_reach env s0 (p, t)"

inductive_cases task_reach_cases: "task_reach env s0 x"
inductive_simps task_reach_start: "task_reach env s0 (Connecting, s0)"

section \<open>Resources\<close>

text \<open>How many a log of calls has acquired less how many it has given back: of a socket, by its descriptor, of address lists and of TLS instances.\<close>

datatype resource = Socket int | AddressList | TlsInstance

fun delta :: "resource \<Rightarrow> sock_call \<Rightarrow> int \<Rightarrow> int" where
  "delta (Socket i) SocketOpen r = (if 0 \<le> r \<and> r = i then 1 else 0)"
| "delta (Socket i) (SocketClose fd) r = (if fd = i then -1 else 0)"
| "delta AddressList (GetAddrInfo a) r = (if r = 0 then 1 else 0)"
| "delta AddressList FreeAddrInfo r = -1"
| "delta TlsInstance TlsAlloc r = 1"
| "delta TlsInstance TlsFree r = -1"
| "delta k c r = 0"

fun held_rev :: "sock_env \<Rightarrow> resource \<Rightarrow> sock_call list \<Rightarrow> int" where
  "held_rev env k [] = 0"
| "held_rev env k (c # cs) = held_rev env k cs + delta k c (env (rev (c # cs)))"

definition held :: "sock_env \<Rightarrow> resource \<Rightarrow> client \<Rightarrow> int" where
  "held env k s = held_rev env k (rev (calls s))"

text \<open>What is held when nothing is but the connection with descriptor \<open>fd\<close>, if there is one.\<close>

fun connection :: "int option \<Rightarrow> resource \<Rightarrow> int" where
  "connection c (Socket i) = (if c = Some i then 1 else 0)"
| "connection c AddressList = 0"
| "connection c TlsInstance = (if c = None then 0 else 1)"

lemma held_perform [simp]: "held env k (perform env c s) = held env k s + delta k c (fst (call env c s))"
  by (simp add: held_def call_def)

lemma held_update [simp]:
  "held env k (s\<lparr>check_internet := a\<rparr>) = held env k s" "held env k (s\<lparr>socket_fd := i\<rparr>) = held env k s"
  "held env k (s\<lparr>socket_conn_issue := n\<rparr>) = held env k s" "held env k (s\<lparr>count_check_internet := n\<rparr>) = held env k s"
  "held env k (s\<lparr>count_inside_select := n\<rparr>) = held env k s" "held env k (s\<lparr>wifi_disconnected := a\<rparr>) = held env k s"
  "held env k (s\<lparr>trying_to_connect := a\<rparr>) = held env k s" "held env k (s\<lparr>is_timeout := a\<rparr>) = held env k s"
  "held env k (s\<lparr>waiting_for_response := a\<rparr>) = held env k s" "held env k (s\<lparr>timeout := t\<rparr>) = held env k s"
  "held env k (s\<lparr>restart_pulse_count := p\<rparr>) = held env k s" "held env k (s\<lparr>write_error := n\<rparr>) = held env k s"
  "held env k (s\<lparr>write_error_count := n\<rparr>) = held env k s" "held env k (s\<lparr>txbuff := x\<rparr>) = held env k s"
  "held env k (s\<lparr>restart_system := a\<rparr>) = held env k s"
  by (simp_all add: held_def)

lemma held_others: "others s t \<Longrightarrow> held env k t = held env k s \<and> socket_fd t = socket_fd s"
  by (auto simp: others_def held_def)

lemma perform_fields [simp]:
  "socket_fd (perform env c s) = socket_fd s" "trying_to_connect (perform env c s) = trying_to_connect s"
  "wifi_disconnected (perform env c s) = wifi_disconnected s" "socket_conn_issue (perform env c s) = socket_conn_issue s"
  "API_link1 (perform env c s) = API_link1 s" "API_token1 (perform env c s) = API_token1 s"
  "txbuff (perform env c s) = txbuff s" "send_period (perform env c s) = send_period s" "timeout (perform env c s) = timeout s"
  "restart_pulse_count (perform env c s) = restart_pulse_count s" "netif_default (perform env c s) = netif_default s"
  by (simp_all add: call_def)

lemma connect_held:
  assumes "connect_to_addr env addr s = Inr (fd, s1)"
  shows "held env (Socket i) s1 = held env (Socket i) s + (if 0 \<le> fd \<and> i = fd then 1 else 0)"
    and "held env AddressList s1 = held env AddressList s" and "held env TlsInstance s1 = held env TlsInstance s"
  using assms by (auto simp: connect_to_addr_def c_text_def Let_def split_beta split: if_splits)

lemma report_failure_held [simp]: "held env k (report_failure env s) = held env k s"
  by (cases k) (simp_all add: report_failure_def Let_def)

lemma select_timeout_held [simp]:
  "held env k (select_timeout env s) = held env k s" "socket_fd (select_timeout env s) = socket_fd s"
  by (cases k; simp add: select_timeout_def Let_def)+

fun keeps_held :: "sock_env \<Rightarrow> client \<Rightarrow> next_step \<Rightarrow> bool" where
  "keeps_held env s (Continue t) \<longleftrightarrow> socket_fd t = socket_fd s \<and> (\<forall>k. held env k t = held env k s)"
| "keeps_held env s (Break t) \<longleftrightarrow> socket_fd t = socket_fd s \<and> (\<forall>k. held env k t = held env k s)"
| "keeps_held env s _ \<longleftrightarrow> True"

lemma delta_other [simp]:
  "delta k (TlsWrite t) r = 0" "delta k (SockDelay n) r = 0" "delta k TickCount r = 0" "delta k TlsRead r = 0"
  "delta k (TlsInput n) r = 0" "delta k (FdIsSet n) r = 0" "delta k (SocketRecv n) r = 0" "delta k (Select n) r = 0"
  "delta k (BleReport t) r = 0" "delta k (SetNonBlock n) r = 0"
  by (cases k; simp)+

lemma send_request_held: "keeps_held env s (send_request env s)"
  by (simp add: send_request_def Let_def split_beta)

lemma keeps_held_trans: "keeps_held env t x \<Longrightarrow> keeps_held env s (Continue t) \<Longrightarrow> keeps_held env s x"
  by (cases x) auto

lemma keeps_send:
  "socket_fd t = socket_fd s \<Longrightarrow> (\<And>k. held env k t = held env k s) \<Longrightarrow> keeps_held env s (send_request env t)"
  by (rule keeps_held_trans [OF send_request_held]) simp

lemma receive_and_send_held: "keeps_held env s (receive_and_send env s)"
  by (simp add: receive_and_send_def Let_def split_beta keeps_send)

lemma keeps_receive:
  "socket_fd t = socket_fd s \<Longrightarrow> (\<And>k. held env k t = held env k s) \<Longrightarrow> keeps_held env s (receive_and_send env t)"
  by (rule keeps_held_trans [OF receive_and_send_held]) simp

lemma loop_iteration_held: "keeps_held env s (loop_iteration env s)"
  by (simp add: loop_iteration_def Let_def split_beta keeps_receive split: sum.split)

text \<open>The invariant of the task.\<close>

fun task_inv :: "sock_env \<Rightarrow> task \<Rightarrow> bool" where
  "task_inv env (Connecting, s) \<longleftrightarrow> (\<forall>k. held env k s = connection None k)"
| "task_inv env (InLoop, s) \<longleftrightarrow> (\<forall>k. held env k s = connection (Some (socket_fd s)) k) \<and> 0 \<le> socket_fd s"
| "task_inv env (Stopped, s) \<longleftrightarrow> True"

lemma start_connection_held:
  "held env k (start_connection env t) = held env k t + (if k = TlsInstance then 1 else 0)"
  "socket_fd (start_connection env t) = socket_fd t"
  by (cases k; simp add: start_connection_def Let_def split_beta)+

lemma turn_inv: "task_inv env x \<Longrightarrow> task_inv env (task_turn env x)"
proof (cases "(env, x)" rule: task_turn.cases)
  case (1 env' s)
  assume inv: "task_inv env x"
  show ?thesis
  proof (cases "connect_to_addr env' (API_link1 s) s")
    case (Inr p)
    obtain fd s1 where c: "connect_to_addr env' (API_link1 s) s = Inr (fd, s1)" using Inr by (cases p) simp
    have "held env k (start_connection env (s1\<lparr>socket_fd := fd\<rparr>)) = connection (Some fd) k" if "0 \<le> fd" for k
      using inv 1 connect_held [OF c] that by (cases k) (simp_all add: start_connection_held)
    moreover have "held env k s1 = connection None k" if "fd < 0" for k
      using inv 1 connect_held [OF c] that by (cases k) simp_all
    ultimately show ?thesis using 1 by (simp add: c Let_def start_connection_held)
  qed (use 1 in simp)
next
  case (2 env' s)
  assume inv: "task_inv env x"
  have "held env k t + delta k (SocketClose (socket_fd t)) r + delta k TlsFree r' = connection None k"
    if "held env k t = connection (Some (socket_fd t)) k" for k t r r'
    using that by (cases k) simp_all
  then show ?thesis using inv 2 loop_iteration_held [of env' s] by (cases "loop_iteration env' s") auto
qed simp

lemma share_inv: "task_inv env (p, s) \<Longrightarrow> others s t \<Longrightarrow> task_inv env (p, t)"
proof -
  assume inv: "task_inv env (p, s)" and o: "others s t"
  have "held env k t = held env k s" "socket_fd t = socket_fd s" for k using held_others [OF o, of env k] by simp_all
  then show ?thesis using inv by (cases p) simp_all
qed

text \<open>
  C7: The task leaks nothing, whatever the network does: in every reachable state in which it is about to connect it holds no
  socket, no address list and no TLS instance; while it is in the loop it holds one TLS instance, the socket whose descriptor is \<open>socket_fd\<close>, once, and
  no socket with any other descriptor. That is so however often connections fail, break or time out and whatever the other tasks change meanwhile; a
  socket is counted by the descriptor it was opened with and given back by closing that descriptor.
\<close>

theorem no_resource_leak:
  assumes "task_reach env s0 (p, s)" "calls s0 = []"
  shows "p \<noteq> Stopped \<longrightarrow> held env AddressList s = 0 \<and> held env TlsInstance s = (if p = InLoop then 1 else 0) \<and>
     (\<forall>fd. held env (Socket fd) s = (if p = InLoop \<and> fd = socket_fd s then 1 else 0))"
proof -
  have none: "connection None k = 0" for k by (cases k) simp_all
  have "task_inv env x" if "task_reach env s0 x" for x
    using that by induction (use assms(2) in \<open>simp_all add: held_def none turn_inv share_inv del: task_turn.simps\<close>)
  from this [OF assms(1)] show ?thesis by (cases p) (auto simp: none)
qed

definition init_client :: client where
  "init_client = \<lparr>calls = [], socket_fd = 0, count_check_internet = 0, socket_conn_issue = 0, count_inside_select = 0,
     restart_pulse_count = 0, write_error = 0, write_error_count = 0, timeout = 0, send_period = 50000,
     waiting_for_response = False, is_timeout = False, txbuff = [], trying_to_connect = True, wifi_disconnected = False,
     check_internet = False, restart_system = False, API_link1 = ''host.com'' @ [CHR 0x00], API_token1 = ''tok'' @ [CHR 0x00],
     iM_pulse_ID = ''P6663'' @ [CHR 0x00], config_string1 = config_text 1 1 120 60 @ [CHR 0x00], sensors = init_sensors,
     netif_default = True\<rparr>"

lemma init_connects: "fst (task_turn (\<lambda>_. 4) (Connecting, init_client)) = Connecting"
  "fst (task_turn (\<lambda>cs. if last cs = SocketOpen then 4 else 0) (Connecting, init_client)) = InLoop"
  "socket_fd (snd (task_turn (\<lambda>cs. if last cs = SocketOpen then 4 else 0) (Connecting, init_client))) = 4"
  by (simp_all add: connect_to_addr_def c_text_def call_def Let_def init_client_def start_connection_def)

lemma no_resource_leak_witness:
  "held (\<lambda>cs. if last cs = SocketOpen then 4 else 0) (Socket 4)
     (snd (task_turn (\<lambda>cs. if last cs = SocketOpen then 4 else 0) (Connecting, init_client))) = 1"
proof -
  let ?env = "\<lambda>cs. if last cs = SocketOpen then 4 else (0 :: int)"
  let ?x = "task_turn ?env (Connecting, init_client)"
  have "task_reach ?env init_client (fst ?x, snd ?x)" by (simp only: prod.collapse task_reach.start task_reach.turn)
  moreover have "calls init_client = []" by (simp add: init_client_def)
  ultimately show ?thesis using no_resource_leak [of ?env init_client "fst ?x" "snd ?x"] init_connects by simp
qed

section \<open>Reports\<close>

fun reports_of :: "sock_call list \<Rightarrow> string list" where
  "reports_of [] = []"
| "reports_of (BleReport t # cs) = t # reports_of cs"
| "reports_of (c # cs) = reports_of cs"

definition reports :: "client \<Rightarrow> string list" where
  "reports s = reports_of (calls s)"

lemma reports_of_append [simp]: "reports_of (xs @ ys) = reports_of xs @ reports_of ys"
  by (induction xs rule: reports_of.induct) simp_all

lemma reports_perform [simp]:
  "reports (perform env (BleReport t) s) = reports s @ [t]" "reports (perform env (SockDelay n) s) = reports s"
  by (simp_all add: reports_def call_def)

lemma connect_keeps:
  assumes "connect_to_addr env a s = Inr (fd, s1)"
  shows "reports s1 = reports s" "trying_to_connect s1 = trying_to_connect s" "wifi_disconnected s1 = wifi_disconnected s"
    "socket_conn_issue s1 = socket_conn_issue s" "API_link1 s1 = API_link1 s"
  using assms by (auto simp: connect_to_addr_def c_text_def call_def reports_def Let_def split_beta split: if_splits)

text \<open>An attempt that fails, without touching memory it must not.\<close>

definition connect_fails :: "sock_env \<Rightarrow> client \<Rightarrow> bool" where
  "connect_fails env s \<longleftrightarrow> (case connect_to_addr env (API_link1 s) s of Inl e \<Rightarrow> False | Inr (fd, t) \<Rightarrow> fd < 0)"

text \<open>One failing turn while connecting was asked for.\<close>

lemma failing_turn:
  assumes "connect_fails env s" "\<not> wifi_disconnected s"
  defines "x \<equiv> task_turn env (Connecting, s)"
  shows "fst x = Connecting" "API_link1 (snd x) = API_link1 s" "\<not> wifi_disconnected (snd x)"
    "trying_to_connect s \<Longrightarrow> socket_conn_issue s < 12 \<Longrightarrow>
       reports (snd x) = reports s @ [''success trying to connect\<newline>''] \<and> trying_to_connect (snd x) \<and>
       socket_conn_issue (snd x) = socket_conn_issue s + 1"
    "trying_to_connect s \<Longrightarrow> socket_conn_issue s = 12 \<Longrightarrow>
       reports (snd x) = reports s @ [''failed internet\<newline>''] \<and> \<not> trying_to_connect (snd x)"
    "\<not> trying_to_connect s \<Longrightarrow> reports (snd x) = reports s \<and> \<not> trying_to_connect (snd x)"
proof -
  obtain fd s1 where c: "connect_to_addr env (API_link1 s) s = Inr (fd, s1)" "fd < 0"
    using assms(1) by (auto simp: connect_fails_def split: sum.splits)
  define s2 where "s2 = s1\<lparr>socket_fd := fd, check_internet := False\<rparr>"
  have x: "x = (Connecting, perform env (SockDelay 2000) (report_failure env (s1\<lparr>socket_fd := fd\<rparr>)))"
    using c(2) by (simp add: x_def c(1))
  note k = connect_keeps [OF c(1)]
  have u: "reports (t\<lparr>check_internet := b\<rparr>) = reports t" "reports (t\<lparr>socket_fd := i\<rparr>) = reports t"
    "reports (t\<lparr>socket_conn_issue := n\<rparr>) = reports t" "reports (t\<lparr>trying_to_connect := b\<rparr>) = reports t" for t b i n
    by (simp_all add: reports_def)
  show "fst x = Connecting" by (simp add: x)
  show "API_link1 (snd x) = API_link1 s" using assms(2) by (simp add: x report_failure_def Let_def k)
  show "\<not> wifi_disconnected (snd x)" using assms(2) by (simp add: x report_failure_def Let_def k)
  show "reports (snd x) = reports s @ [''success trying to connect\<newline>''] \<and> trying_to_connect (snd x) \<and>
      socket_conn_issue (snd x) = socket_conn_issue s + 1" if "trying_to_connect s" "socket_conn_issue s < 12"
  proof -
    have "\<not> 12 < socket_conn_issue s + 1" using that(2) by (simp add: not_less inc_le)
    then show ?thesis using that(1) by (simp add: x report_failure_def Let_def k u)
  qed
  show "reports (snd x) = reports s @ [''failed internet\<newline>''] \<and> \<not> trying_to_connect (snd x)"
    if "trying_to_connect s" "socket_conn_issue s = 12"
    using that by (simp add: x report_failure_def Let_def k u)
  show "reports (snd x) = reports s \<and> \<not> trying_to_connect (snd x)" if "\<not> trying_to_connect s"
    using that assms(2) by (simp add: x report_failure_def Let_def k u)
qed

lemma failing_turns:
  assumes "\<And>t. API_link1 t = API_link1 s \<Longrightarrow> connect_fails env t"
    and "trying_to_connect s" "socket_conn_issue s = 0" "\<not> wifi_disconnected s"
  defines "x n \<equiv> (task_turn env ^^ n) (Connecting, s)"
  shows "fst (x n) = Connecting \<and> API_link1 (snd (x n)) = API_link1 s \<and> \<not> wifi_disconnected (snd (x n)) \<and>
    (if n \<le> 12 then reports (snd (x n)) = reports s @ replicate n ''success trying to connect\<newline>'' \<and>
       trying_to_connect (snd (x n)) \<and> socket_conn_issue (snd (x n)) = of_nat n
     else reports (snd (x n)) = reports s @ replicate 12 ''success trying to connect\<newline>'' @ [''failed internet\<newline>''] \<and>
       \<not> trying_to_connect (snd (x n)))"
proof (induction n)
  case 0
  show ?case using assms(2-4) by (simp add: x_def)
next
  case (Suc n)
  let ?t = "snd (x n)"
  have "fst (x n) = Connecting" using Suc by blast
  then have "x n = (Connecting, ?t)" by (cases "x n") simp
  then have step: "x (Suc n) = task_turn env (Connecting, ?t)" by (simp only: x_def funpow.simps o_apply)
  note turn = failing_turn [of env ?t, folded step]
  have fail: "connect_fails env ?t" "\<not> wifi_disconnected ?t" using Suc assms(1) by auto
  note stay = turn(1-3) [OF fail]
  consider "n < 12" | "n = 12" | "12 < n" by linarith
  then show ?case
  proof cases
    case 1
    then have "socket_conn_issue ?t = of_nat n" using Suc by simp
    moreover have "(of_nat n :: u8) < 12" using 1 by (simp add: word_less_nat_alt unat_of_nat take_bit_eq_mod)
    ultimately show ?thesis using turn(4) [OF fail] stay Suc 1 by (simp add: replicate_append_same)
  next
    case 2
    then show ?thesis using turn(5) [OF fail] stay Suc by simp
  next
    case 3
    then show ?thesis using turn(6) [OF fail] stay Suc by simp
  qed
qed

text \<open>
  When the app asked for a connection and every attempt fails, the app is told twelve times that the device is trying,
  the thirteenth time that it failed, and nothing after that; the counter does not overflow. (The comments in the code
  say that twelve failures in a row are reported as the failure; its comparison \<open>> 12\<close> makes them thirteen.)
\<close>

lemma failing_connection_reports:
  assumes "\<And>t. API_link1 t = API_link1 s \<Longrightarrow> connect_fails env t"
    and "trying_to_connect s" "socket_conn_issue s = 0" "\<not> wifi_disconnected s"
  shows "reports (snd ((task_turn env ^^ n) (Connecting, s))) =
    reports s @ take n (replicate 12 ''success trying to connect\<newline>'' @ [''failed internet\<newline>''])"
  using failing_turns [OF assms, of n] by (auto split: if_splits)

lemma failing_connection_demo:
  "reports (snd ((task_turn (\<lambda>_. -1) ^^ 20) (Connecting, init_client))) =
     replicate 12 ''success trying to connect\<newline>'' @ [''failed internet\<newline>'']"
  using failing_connection_reports [of init_client "\<lambda>_. -1" 20]
  by (simp add: connect_fails_def connect_to_addr_def c_text_def call_def Let_def init_client_def reports_def)

section \<open>Sending\<close>

fun writes_data :: "string \<Rightarrow> sock_call \<Rightarrow> bool" where
  "writes_data d (TlsWrite t) \<longleftrightarrow> t = d \<and> d \<noteq> []"
| "writes_data d _ \<longleftrightarrow> False"


text \<open>From \<open>s\<close> to \<open>t\<close> nothing was sent, and what decides about sending is unchanged.\<close>

definition quiet :: "client \<Rightarrow> client \<Rightarrow> bool" where
  "quiet s t \<longleftrightarrow> (\<exists>cs. calls t = calls s @ cs \<and> (\<forall>c \<in> set cs. \<forall>d. \<not> writes_data d c)) \<and>
     API_link1 t = API_link1 s \<and> API_token1 t = API_token1 s \<and> txbuff t = txbuff s \<and> timeout t = timeout s \<and>
     send_period t = send_period s \<and> restart_pulse_count t = restart_pulse_count s"

lemma quiet_refl: "calls t = calls s \<Longrightarrow> API_link1 t = API_link1 s \<Longrightarrow> API_token1 t = API_token1 s \<Longrightarrow> txbuff t = txbuff s \<Longrightarrow>
    timeout t = timeout s \<Longrightarrow> send_period t = send_period s \<Longrightarrow> restart_pulse_count t = restart_pulse_count s \<Longrightarrow> quiet s t"
  by (simp add: quiet_def)








lemma quiet_updates [simp]:
  "quiet s (t\<lparr>is_timeout := a\<rparr>) = quiet s t" "quiet s (t\<lparr>waiting_for_response := a\<rparr>) = quiet s t"
  "quiet s (t\<lparr>wifi_disconnected := a\<rparr>) = quiet s t" "quiet s (t\<lparr>count_inside_select := n\<rparr>) = quiet s t"
  "quiet s (t\<lparr>write_error_count := n\<rparr>) = quiet s t" "quiet s (t\<lparr>write_error := n\<rparr>) = quiet s t"
  by (simp_all add: quiet_def)

lemma quiet_self [simp]: "quiet s s"
  by (simp add: quiet_refl)







end
