(* ===== verification/Network.thy ===== *)
theory Network
  imports Cmd Mchdrv
begin

text \<open>
  The network task, network.c: the queue by which the command line reaches it, the callback of the WiFi driver, the
  two polls, the choice of the default interface and the start of both interfaces. The WiFi driver, lwIP and Bluetooth are calls noted in order;
  the Ethernet side is the model of mchdrv.c. The variables of cmd.c are the field \<open>cmd\<close>.
\<close>

section \<open>State\<close>

datatype nif = Enc | Winc

record wifi_conn_param =
  Ssid :: "u8 list"
  AuthInfo :: "u8 list"
  u8SsidLen :: u8
  u8SecType :: u8
  u16Ch :: nat

datatype network_msg =
    REQ_CONNECT wifi_conn_param | REQ_SCAN | REQ_DISCONNECT | REQ_CONNECT_DEFAULT | REQ_NETWORK_CHECK
  | REQ_SETTINGS_SHOW | REQ_SETTINGS_SHOW_WIFI | REQ_IPSETTINGS ipconfig

datatype net_ev =
    BleText "u8 list" | NetDelay nat | Led bool
  | M2mConnect "u8 list" u8 u8 "u8 list" nat | M2mScan | M2mDisconnect | M2mDefaultConnect
  | GetConnectionInfo | ReqScanResult u8
  | DhcpStart nif | DhcpStop nif | SetAddr nif u32 u32 u32 | SetDefault "nif option" | NetifAdd nif | NetifUp nif

record net =
  cmd :: cmd_state
  WifiConQ :: "network_msg option"
  enc_netif :: netif
  enc_bound :: bool
  enc_addr :: "u32 \<times> u32 \<times> u32"
  winc_flags :: u8
  winc_bound :: bool
  winc_addr :: "u32 \<times> u32 \<times> u32"
  winc_hwaddr :: "u8 list"
  winc_semph :: bool
  mac_id :: "u8 list"
  mac_id_wifi :: "u8 list"
  netif_default :: "nif option"
  led_on :: bool
  count_led_on :: u8
  trying_to_connect :: bool
  wifi_disconnected :: bool
  wifi_autoconnect :: bool
  wifi_conn_info_resp :: bool
  u8ScanResultIdx :: u8
  num_ap_found :: u8
  ap_check_timeout :: u16
  dhcp_timeout :: u16
  is_internet1 :: "u8 list"
  ssid_new :: "u8 list"
  key_new :: "u8 list"
  ssid_len :: u8
  ipaddr_value :: u32
  gw_value :: u32
  mask_value :: u32
  nev :: "net_ev list"

definition emit_ev :: "net_ev \<Rightarrow> net \<Rightarrow> net" where
  "emit_ev e s = s\<lparr>nev := nev s @ [e]\<rparr>"

text \<open>Addresses are kept as the triple of address, netmask and gateway.\<close>

definition NETIF_FLAG_UP :: u8 where "NETIF_FLAG_UP = 0x01"
definition NETIF_FLAG_DHCP :: u8 where "NETIF_FLAG_DHCP = 0x08"

section \<open>The queue\<close>

text \<open>It has room for one message; a sender does not wait.\<close>

definition network_msg_send :: "network_msg \<Rightarrow> net \<Rightarrow> int \<times> net" where
  "network_msg_send m s = (if WifiConQ s = None then (0, s\<lparr>WifiConQ := Some m\<rparr>) else (-1, s))"

text \<open>
  The two enterprise cases copy from the message to a pointer that was never set; the model calls that a write out of bounds.
\<close>

definition wifi_msg_connect :: "u8 list \<Rightarrow> u8 \<Rightarrow> u8 \<Rightarrow> u8 list \<Rightarrow> nat \<Rightarrow> net \<Rightarrow> (int \<times> net) res" where
  "wifi_msg_connect pcSsid len sec pvAuthInfo ch s =
     res_bind (memcpy (replicate 65 0) pcSsid (uint len)) (\<lambda>ssid.
     let send = (\<lambda>auth. Inr (network_msg_send (REQ_CONNECT \<lparr>Ssid = ssid, AuthInfo = auth, u8SsidLen = len, u8SecType = sec, u16Ch = ch\<rparr>) s))
     in if sec = SEC_OPEN then send (replicate 65 0)
        else if sec = SEC_WPA_PSK then res_bind (strncpy (replicate 65 0) pvAuthInfo 65) send
        else if sec = SEC_WEP \<or> sec = SEC_802_1X then Inl Overwrite
        else Inr (-1, s))"

definition network_msg_ipconfig :: "ipconfig \<Rightarrow> net \<Rightarrow> int \<times> net" where
  "network_msg_ipconfig c = network_msg_send (REQ_IPSETTINGS c)"

definition wifi_msg_disconnect :: "net \<Rightarrow> int \<times> net" where
  "wifi_msg_disconnect = network_msg_send REQ_DISCONNECT"

definition wifi_msg_scan :: "net \<Rightarrow> int \<times> net" where
  "wifi_msg_scan = network_msg_send REQ_SCAN"

definition wifi_msg_connect_default :: "net \<Rightarrow> int \<times> net" where
  "wifi_msg_connect_default = network_msg_send REQ_CONNECT_DEFAULT"

definition network_msg_check :: "net \<Rightarrow> int \<times> net" where
  "network_msg_check = network_msg_send REQ_NETWORK_CHECK"

definition network_msg_show_settings :: "net \<Rightarrow> int \<times> net" where
  "network_msg_show_settings = network_msg_send REQ_SETTINGS_SHOW"

definition network_msg_show_settings_wifi :: "net \<Rightarrow> int \<times> net" where
  "network_msg_show_settings_wifi = network_msg_send REQ_SETTINGS_SHOW_WIFI"

text \<open>What the command line asks of the network: its messages, as the calls they stand for.\<close>

fun carry_out :: "cmd_out \<Rightarrow> net \<Rightarrow> (int \<times> net) res" where
  "carry_out (WifiConnect ssid len sec auth ch) s = wifi_msg_connect ssid len sec auth ch s"
| "carry_out (MsgIpconfig c) s = Inr (network_msg_ipconfig c s)"
| "carry_out WifiConnectDefault s = Inr (wifi_msg_connect_default s)"
| "carry_out WifiDisconnect s = Inr (wifi_msg_disconnect s)"
| "carry_out WifiScan s = Inr (wifi_msg_scan s)"
| "carry_out ShowSettings s = Inr (network_msg_show_settings s)"
| "carry_out ShowSettingsWifi s = Inr (network_msg_show_settings_wifi s)"
| "carry_out (BleSend t) s = Inr (0, emit_ev (BleText t) s)"
| "carry_out SystemReset s = Inr (0, s)"

section \<open>Settings as text\<close>

definition hex_digit :: "nat \<Rightarrow> u8" where
  "hex_digit n = (if n < 10 then 0x30 + of_nat n else 0x57 + of_nat n)"

definition hex :: "u8 \<Rightarrow> u8 list" where
  "hex b = (if b < 16 then [hex_digit (unat b)] else [hex_digit (unat b div 16), hex_digit (unat b mod 16)])"

fun join :: "u8 \<Rightarrow> u8 list list \<Rightarrow> u8 list" where
  "join c [] = []"
| "join c [t] = t"
| "join c (t # u # ts) = t @ [c] @ join c (u # ts)"

text \<open>An address in memory order, the least significant byte first, with dots.\<close>

definition dotted :: "u32 \<Rightarrow> u8 list" where
  "dotted a = join 0x2E (map (\<lambda>i. decimal (unat (drop_bit (8 * i) a AND 0xff))) [0, 1, 2, 3])"

definition settings_text :: "string \<Rightarrow> u8 list \<Rightarrow> u32 \<times> u32 \<times> u32 \<Rightarrow> u8 list \<Rightarrow> u8 list" where
  "settings_text name mac addr dhcp_check =
     ascii name @ join 0x3A (map (\<lambda>i. hex (mac ! i)) [0..<6]) @ ascii ''||'' @
     (case addr of (ip, nm, gw) \<Rightarrow> join 0x23 [dotted ip, dotted nm, dotted gw,
        ascii (if take 4 dhcp_check = ascii ''true'' then ''dhcp'' else ''custom'')]) @ [0x0A]"

definition network_show_settings :: "net \<Rightarrow> net" where
  "network_show_settings s =
     emit_ev (BleText (settings_text ''success mac_'' (mac_id s) (enc_addr s) (dhcp_check_eth (cmd s)))) s"

definition network_show_settings_wifi :: "net \<Rightarrow> net" where
  "network_show_settings_wifi s =
     emit_ev (BleText (settings_text ''success wifimac_'' (mac_id_wifi s) (winc_addr s) (dhcp_check_wifi (cmd s)))) s"

section \<open>Handling a message\<close>

fun handle_msg :: "network_msg \<Rightarrow> net \<Rightarrow> net" where
  "handle_msg (REQ_CONNECT p) s = emit_ev (M2mConnect (Ssid p) (u8SsidLen p) (u8SecType p) (AuthInfo p) (u16Ch p)) s"
| "handle_msg REQ_SCAN s = emit_ev M2mScan s"
| "handle_msg REQ_DISCONNECT s = (emit_ev M2mDisconnect s)\<lparr>wifi_autoconnect := False\<rparr>"
| "handle_msg REQ_CONNECT_DEFAULT s = (emit_ev M2mDefaultConnect s)\<lparr>wifi_autoconnect := True\<rparr>"
| "handle_msg REQ_NETWORK_CHECK s = s"
| "handle_msg REQ_SETTINGS_SHOW s = network_show_settings s"
| "handle_msg REQ_SETTINGS_SHOW_WIFI s = network_show_settings_wifi s"
| "handle_msg (REQ_IPSETTINGS c) s =
     (case (case ip_iface c of IFACE_ETH \<Rightarrow> Some Enc | IFACE_WLAN \<Rightarrow> Some Winc | IFACE_NONE \<Rightarrow> None) of
        None \<Rightarrow> s
      | Some n \<Rightarrow>
          if ip_dhcp c then emit_ev (BleText (ascii ''success ipconfig dhcp saved\<newline>'')) (emit_ev (DhcpStart n) s)
          else emit_ev (BleText (ascii ''success ipconfig saved\<newline>''))
                 (emit_ev (SetAddr n (ip_addr c) (ip_mask c) (ip_gw c)) (emit_ev (DhcpStop n) s)))"

definition wifi_check_connect_queue :: "net \<Rightarrow> net" where
  "wifi_check_connect_queue s = (case WifiConQ s of None \<Rightarrow> s | Some m \<Rightarrow> handle_msg m (s\<lparr>WifiConQ := None\<rparr>))"

section \<open>The callback of the WiFi driver\<close>

datatype wifi_evt =
    ConStateChanged u8 | DhcpConf | ConnInfo "u8 list" | ScanDone "8 word" u8 | ScanResult u8 "u8 list"
  | DefaultConnectFailed | OtherWifiEvt

definition M2M_WIFI_DISCONNECTED :: u8 where "M2M_WIFI_DISCONNECTED = 0"
definition M2M_WIFI_CONNECTED :: u8 where "M2M_WIFI_CONNECTED = 1"
definition M2M_WIFI_UNDEF :: u8 where "M2M_WIFI_UNDEF = 0xff"

definition sec_str :: "string list" where
  "sec_str = [''null'', ''open'', ''wpa_psk'', ''wep'', ''802_1x'']"

text \<open>\<open>%d\<close> of a signed byte.\<close>

definition signed_text :: "8 word \<Rightarrow> u8 list" where
  "signed_text w = (if sint w < 0 then 0x2D # decimal (nat (- sint w)) else decimal (nat (sint w)))"

definition scan_text :: "u8 \<Rightarrow> u8 list \<Rightarrow> u8 list" where
  "scan_text auth ssid =
     take 255 (ascii ''success wifi scan_'' @ ascii (sec_str ! unat auth) @ ascii ''  Name:'' @ c_str ssid @ [0x0A])"

text \<open>The text for the app, the result of \<open>snprintf\<close> tested before it is sent, and the next index.\<close>

fun wifi_cb :: "wifi_evt \<Rightarrow> net \<Rightarrow> net res" where
  "wifi_cb (ConStateChanged st) s = Inr
     (if st = M2M_WIFI_CONNECTED then
        (emit_ev GetConnectionInfo (s\<lparr>trying_to_connect := True, wifi_disconnected := False, winc_flags := winc_flags s OR NETIF_FLAG_LINK_UP\<rparr>))
          \<lparr>wifi_conn_info_resp := True, wifi_autoconnect := True\<rparr>
      else if st = M2M_WIFI_DISCONNECTED \<or> st = M2M_WIFI_UNDEF then
        (emit_ev (BleText (ascii ''wifi disconnected from AP\<newline>''))
          (if try_connect (cmd s) then s\<lparr>wifi_disconnected := True, cmd := (cmd s)\<lparr>try_connect := False\<rparr>\<rparr> else s))
          \<lparr>winc_flags := winc_flags s AND NOT NETIF_FLAG_LINK_UP\<rparr>
      else s)"
| "wifi_cb DhcpConf s = Inr s"
| "wifi_cb (ConnInfo ssid) s = Inr s"
| "wifi_cb (ScanDone state n) s = Inr
     (if state = 0 then
        (let s1 = s\<lparr>u8ScanResultIdx := 0\<rparr>
         in if 1 \<le> n then (emit_ev (ReqScanResult 0) s1)\<lparr>u8ScanResultIdx := 1\<rparr> else s1)
      else emit_ev (BleText (ascii ''wifi AP scan error <'' @ signed_text state @ ascii ''>\<newline>'')) s)"
| "wifi_cb (ScanResult auth ssid) s =
     (if 5 \<le> auth then Inl Overread
      else let s1 = emit_ev (NetDelay 300) (emit_ev (BleText (scan_text auth ssid)) s)
           in Inr (if u8ScanResultIdx s1 < num_ap_found s1
                   then (emit_ev (ReqScanResult (u8ScanResultIdx s1)) s1)\<lparr>u8ScanResultIdx := u8ScanResultIdx s1 + 1\<rparr>
                   else s1))"
| "wifi_cb DefaultConnectFailed s = Inr s"
| "wifi_cb OtherWifiEvt s = Inr s"

fun wifi_cbs :: "wifi_evt list \<Rightarrow> net \<Rightarrow> net res" where
  "wifi_cbs [] s = Inr s"
| "wifi_cbs (e # es) s = res_bind (wifi_cb e s) (wifi_cbs es)"

section \<open>Polling\<close>

text \<open>
  A poll of the WiFi chip: whether it succeeded, the size it reports, and the callbacks it makes. A round may wait for a mutex or a chip for ever.
\<close>

type_synonym hif = "net \<Rightarrow> bool \<times> nat \<times> wifi_evt list"

datatype outcome = Blocked | Faulted fault | Done net

fun outcome_of :: "net res \<Rightarrow> outcome" where
  "outcome_of (Inl e) = Faulted e"
| "outcome_of (Inr s) = Done s"

fun and_then :: "outcome \<Rightarrow> (net \<Rightarrow> outcome) \<Rightarrow> outcome" where
  "and_then (Done s) f = f s"
| "and_then Blocked f = Blocked"
| "and_then (Faulted e) f = Faulted e"

text \<open>The loop, with the counter \<open>i\<close> decreased after every poll that succeeded.\<close>

fun winc_loop :: "hif \<Rightarrow> nat \<Rightarrow> net \<Rightarrow> net res" where
  "winc_loop hif 0 s = Inr s"
| "winc_loop hif (Suc i) s =
     (case hif s of (ok, sz, evs) \<Rightarrow> res_bind (wifi_cbs evs s) (\<lambda>s1.
        if ok \<and> i \<noteq> 0 \<and> sz \<noteq> 0 then winc_loop hif i s1 else Inr s1))"

definition net_winc_poll :: "hif \<Rightarrow> net \<Rightarrow> outcome" where
  "net_winc_poll hif s =
     (if \<not> winc_semph s then Blocked
      else outcome_of (res_bind (winc_loop hif 64 (s\<lparr>winc_semph := False\<rparr>)) (\<lambda>s1.
        let t = ap_check_timeout s1; s2 = s1\<lparr>ap_check_timeout := t - 1\<rparr>;
            s3 = (if t = 0 then (emit_ev GetConnectionInfo s2)\<lparr>ap_check_timeout := 30000\<rparr> else s2)
        in Inr (s3\<lparr>winc_semph := True\<rparr>))))"

definition net_enc_poll :: "chip_env \<Rightarrow> (enc \<Rightarrow> u16 \<Rightarrow> bool) \<Rightarrow> net \<Rightarrow> outcome" where
  "net_enc_poll chip pbuf_alloc s =
     (case mchdrv_poll chip pbuf_alloc (enc_netif s) of None \<Rightarrow> Blocked | Some (_, n) \<Rightarrow> Done (s\<lparr>enc_netif := n\<rparr>))"

section \<open>The default interface\<close>

definition usable :: "u8 \<Rightarrow> bool \<Rightarrow> bool" where
  "usable fl bound \<longleftrightarrow> (fl AND NETIF_FLAG_DHCP = 0 \<or> bound) \<and> fl AND NETIF_FLAG_LINK_UP \<noteq> 0"

abbreviation "enc_ready s \<equiv> usable (flags (enc_netif s)) (enc_bound s)"
abbreviation "winc_ready s \<equiv> usable (winc_flags s) (winc_bound s)"

definition use_netif :: "nif \<Rightarrow> net \<Rightarrow> net" where
  "use_netif n s = (if netif_default s = Some n then s
     else (emit_ev (Led True) (emit_ev (SetDefault (Some n)) s))\<lparr>netif_default := Some n, led_on := True\<rparr>)"

text \<open>The answer to a request of the app to connect, after eleven checks of the connection.\<close>

definition report_connected :: "net \<Rightarrow> net" where
  "report_connected s =
     (if keyflag (cmd s) \<and> keyconnect (cmd s) \<and> led_on s then
        let s1 = s\<lparr>count_led_on := count_led_on s + 1\<rparr>
        in if 10 < count_led_on s1
           then (emit_ev (BleText (ascii ''success connected\<newline>'')) (s1\<lparr>count_led_on := 0\<rparr>))
             \<lparr>trying_to_connect := False, cmd := (cmd s1)\<lparr>keyflag := False, keyconnect := False\<rparr>\<rparr>
           else s1
      else s)"

definition update_default :: "net \<Rightarrow> net" where
  "update_default s =
     (if enc_ready s then use_netif Enc s
      else if winc_ready s then report_connected (use_netif Winc s)
      else (emit_ev (Led False) (emit_ev (SetDefault None) s))\<lparr>netif_default := None, led_on := False\<rparr>)"

definition poll :: "chip_env \<Rightarrow> (enc \<Rightarrow> u16 \<Rightarrow> bool) \<Rightarrow> hif \<Rightarrow> net \<Rightarrow> outcome" where
  "poll chip pbuf_alloc hif s =
     (if take 4 (is_internet1 s) = ascii ''wifi'' then net_winc_poll hif s
      else if take 8 (is_internet1 s) = ascii ''ethernet'' then net_enc_poll chip pbuf_alloc s
      else Done s)"

text \<open>One round of the endless loop; every second round looks at the interfaces.\<close>

definition network_round :: "chip_env \<Rightarrow> (enc \<Rightarrow> u16 \<Rightarrow> bool) \<Rightarrow> hif \<Rightarrow> net \<Rightarrow> outcome" where
  "network_round chip pbuf_alloc hif s =
     and_then (poll chip pbuf_alloc hif s) (\<lambda>s1.
       let s2 = wifi_check_connect_queue s1;
           t = dhcp_timeout s2; s3 = s2\<lparr>dhcp_timeout := t - 1\<rparr>;
           s4 = (if t = 0 then update_default (s3\<lparr>dhcp_timeout := 1\<rparr>) else s3)
       in Done (emit_ev (NetDelay 10) s4))"

section \<open>Start\<close>

text \<open>
  The WiFi interface: whether the chip answers, and its hardware address, are parameters. \<open>netif_add\<close> sets the
  addresses, clears the flags and calls the init function; \<open>netif_set_up\<close> sets a flag.
\<close>

definition blink :: "net \<Rightarrow> net" where
  "blink s = emit_ev (Led False) (emit_ev (NetDelay 100) (emit_ev (Led True) s))"

definition net_add_winc_netif :: "bool \<Rightarrow> u8 list \<Rightarrow> net \<Rightarrow> net" where
  "net_add_winc_netif m2m_wifi_init mac s =
     (if \<not> m2m_wifi_init then s
      else let s1 = (emit_ev (M2mConnect (ssid_new s) (ssid_len s) SEC_WPA_PSK (key_new s) 255) s)\<lparr>wifi_autoconnect := True\<rparr>;
               s2 = (emit_ev (NetifAdd Winc) s1)\<lparr>winc_addr := (0, 0xffffffff, 0), winc_hwaddr := mac, winc_semph := True\<rparr>;
               s3 = (emit_ev (NetifUp Winc) s2)\<lparr>winc_flags := NETIF_FLAG_BROADCAST OR NETIF_FLAG_ETHARP OR NETIF_FLAG_UP\<rparr>
           in if take 4 (dhcp_check_wifi (cmd s3)) = ascii ''true'' then blink (emit_ev (DhcpStart Winc) s3)
              else s3\<lparr>winc_addr := (ipaddr_value s3, mask_value s3, gw_value s3)\<rparr>)"

text \<open>The Ethernet interface takes the end of its address from the WiFi interface if that is up.\<close>

definition enc_hwaddr :: "net \<Rightarrow> u8 list" where
  "enc_hwaddr s = [0x02, 0x04, 0xa3] @
     (if winc_flags s AND NETIF_FLAG_UP \<noteq> 0 then map ((!) (winc_hwaddr s)) [3, 4, 5] else [0x03, 0x03, 0x03])"

definition keep_mac_ids :: "net \<Rightarrow> net res" where
  "keep_mac_ids s =
     (if winc_flags s AND NETIF_FLAG_UP \<noteq> 0 then
        res_bind (memcpy (mac_id s) (hwaddr (enc_netif s)) 12) (\<lambda>a.
        res_bind (memcpy (mac_id_wifi s) (winc_hwaddr s) 12) (\<lambda>b. Inr (s\<lparr>mac_id := a, mac_id_wifi := b\<rparr>)))
      else Inr s)"

definition add_enc :: "chip_env \<Rightarrow> net \<Rightarrow> outcome" where
  "add_enc chip s =
     (let s1 = (emit_ev (NetifAdd Enc) s)\<lparr>enc_addr := (0, 0xffffffff, 0), enc_netif := (enc_netif s)\<lparr>flags := 0\<rparr>\<rparr>
      in case mchdrv_init chip (enc_netif s1) of
           None \<Rightarrow> Blocked
         | Some (ERR_IF, n) \<Rightarrow> Done (s1\<lparr>enc_netif := n\<rparr>)
         | Some (ERR_OK, n) \<Rightarrow>
             let s2 = (emit_ev (NetifUp Enc) s1)\<lparr>enc_netif :=
                   n\<lparr>flags := NETIF_FLAG_BROADCAST OR NETIF_FLAG_ETHARP OR NETIF_FLAG_LINK_UP OR NETIF_FLAG_UP\<rparr>\<rparr>
             in Done (if take 4 (dhcp_check_eth (cmd s2)) \<noteq> ascii ''fals'' then blink (emit_ev (DhcpStart Enc) s2)
                      else blink (s2\<lparr>enc_addr := (ipaddr_value s2, mask_value s2, gw_value s2)\<rparr>)))"

definition net_add_enc_netif :: "chip_env \<Rightarrow> net \<Rightarrow> outcome" where
  "net_add_enc_netif chip s =
     and_then (outcome_of (keep_mac_ids (s\<lparr>enc_netif := (enc_netif s)\<lparr>hwaddr := enc_hwaddr s\<rparr>\<rparr>))) (add_enc chip)"

definition ethernet_init_inside_thread :: "bool \<Rightarrow> u8 list \<Rightarrow> chip_env \<Rightarrow> net \<Rightarrow> outcome" where
  "ethernet_init_inside_thread m2m_wifi_init mac chip s = net_add_enc_netif chip (net_add_winc_netif m2m_wifi_init mac s)"

section \<open>What follows the links\<close>

text \<open>The interface that should be the default: Ethernet if it is usable, else WiFi.\<close>

definition selected :: "net \<Rightarrow> nif option" where
  "selected s = (if enc_ready s then Some Enc else if winc_ready s then Some Winc else None)"

text \<open>What only \<open>update_default\<close> and the round itself change.\<close>

definition same_choice :: "net \<Rightarrow> net \<Rightarrow> bool" where
  "same_choice s t \<longleftrightarrow> netif_default t = netif_default s \<and> led_on t = led_on s \<and> dhcp_timeout t = dhcp_timeout s"

lemma same_choice_refl [simp]: "same_choice s s"
  by (simp add: same_choice_def)

lemma same_choice_trans: "same_choice s t \<Longrightarrow> same_choice t u \<Longrightarrow> same_choice s u"
  by (simp add: same_choice_def)

lemma same_choice_ev [simp]: "same_choice s (emit_ev e t) = same_choice s t"
  by (simp add: same_choice_def emit_ev_def)

lemma wifi_cb_choice: "wifi_cb e s = Inr t \<Longrightarrow> same_choice s t"
  by (cases "(e, s)" rule: wifi_cb.cases) (auto simp: same_choice_def emit_ev_def Let_def split: if_splits)

lemma wifi_cbs_choice: "wifi_cbs es s = Inr t \<Longrightarrow> same_choice s t"
  by (induction es arbitrary: s) (auto simp: res_bind_Inr dest: wifi_cb_choice intro: same_choice_trans)

lemma winc_loop_choice: "winc_loop hif i s = Inr t \<Longrightarrow> same_choice s t"
proof (induction i arbitrary: s)
  case (Suc i)
  obtain ok sz evs where h: "hif s = (ok, sz, evs)" by (cases "hif s")
  with Suc.prems obtain s1 where "wifi_cbs evs s = Inr s1" "s1 = t \<or> winc_loop hif i s1 = Inr t"
    by (auto simp: res_bind_Inr split: if_splits)
  then show ?case using Suc.IH wifi_cbs_choice same_choice_trans by blast
qed simp

lemma outcome_of_Done: "outcome_of r = Done t \<longleftrightarrow> r = Inr t"
  by (cases r) auto

lemma and_then_Done: "and_then r f = Done t \<longleftrightarrow> (\<exists>s. r = Done s \<and> f s = Done t)"
  by (cases r) auto

lemma net_winc_poll_choice:
  assumes "net_winc_poll hif s = Done t"
  shows "same_choice s t"
proof -
  have "winc_semph s" using assms by (simp add: net_winc_poll_def split: if_splits)
  then obtain s1 where w: "winc_loop hif 64 (s\<lparr>winc_semph := False\<rparr>) = Inr s1" and
    s1: "t = (let k = ap_check_timeout s1; s2 = s1\<lparr>ap_check_timeout := k - 1\<rparr>;
            s3 = (if k = 0 then (emit_ev GetConnectionInfo s2)\<lparr>ap_check_timeout := 30000\<rparr> else s2)
        in s3\<lparr>winc_semph := True\<rparr>)"
    using assms by (auto simp: net_winc_poll_def outcome_of_Done res_bind_Inr Let_def simp del: winc_loop.simps)
  have t: "same_choice s1 t" unfolding s1 by (simp add: Let_def same_choice_def emit_ev_def)
  show ?thesis using same_choice_trans [OF winc_loop_choice [OF w] t] by (simp add: same_choice_def)
qed

lemma poll_choice: "poll chip a hif s = Done t \<Longrightarrow> same_choice s t"
  by (auto simp: poll_def net_enc_poll_def same_choice_def split: if_splits option.splits dest!: net_winc_poll_choice)

lemma handle_msg_choice: "same_choice s (handle_msg m s)"
  by (cases m) (auto simp: network_show_settings_def network_show_settings_wifi_def same_choice_def emit_ev_def
      split: option.split iface.split)

lemma queue_choice: "same_choice s (wifi_check_connect_queue s)"
  using handle_msg_choice [of "s\<lparr>WifiConQ := None\<rparr>"]
  by (auto simp: wifi_check_connect_queue_def same_choice_def split: option.split)

lemma report_connected_choice: "same_choice s (report_connected s)"
  by (simp add: report_connected_def Let_def same_choice_def emit_ev_def)

lemma report_connected_ready [simp]:
  "enc_ready (report_connected s) = enc_ready s" "winc_ready (report_connected s) = winc_ready s"
  by (simp_all add: report_connected_def Let_def emit_ev_def)

lemma use_netif_ready [simp]:
  "enc_ready (use_netif n s) = enc_ready s" "winc_ready (use_netif n s) = winc_ready s"
  by (simp_all add: use_netif_def emit_ev_def)

definition led_ok :: "net \<Rightarrow> bool" where
  "led_ok s \<longleftrightarrow> led_on s = (netif_default s \<noteq> None) \<and> dhcp_timeout s \<le> 1"

lemma update_default_choice:
  "netif_default (update_default s) = selected (update_default s)"
  "led_ok s \<Longrightarrow> led_ok (update_default s)"
proof -
  have r: "netif_default (report_connected s) = netif_default s" "led_on (report_connected s) = led_on s"
    "dhcp_timeout (report_connected s) = dhcp_timeout s" for s
    using report_connected_choice [of s] by (simp_all add: same_choice_def)
  have u: "netif_default (use_netif n s) = Some n" for n s by (simp add: use_netif_def)
  show "netif_default (update_default s) = selected (update_default s)"
    by (simp add: update_default_def selected_def u r emit_ev_def)
  assume "led_ok s"
  then show "led_ok (update_default s)"
    by (auto simp: update_default_def led_ok_def r use_netif_def emit_ev_def)
qed

lemma u16_at_most_1: "n \<le> 1 \<Longrightarrow> n \<noteq> 0 \<Longrightarrow> n = (1 :: u16)"
  by (meson antisym word_le_sub1 not_less word_less_1)

lemma round_choice:
  assumes "network_round chip a hif s = Done t" "led_ok s"
  shows "led_ok t" "dhcp_timeout s = 0 \<Longrightarrow> netif_default t = selected t" "dhcp_timeout s \<noteq> 0 \<Longrightarrow> dhcp_timeout t = 0"
proof -
  obtain s1 where p: "poll chip a hif s = Done s1"
    and t: "t = (let s2 = wifi_check_connect_queue s1; k = dhcp_timeout s2; s3 = s2\<lparr>dhcp_timeout := k - 1\<rparr>
      in emit_ev (NetDelay 10) (if k = 0 then update_default (s3\<lparr>dhcp_timeout := 1\<rparr>) else s3))"
    using assms(1) by (auto simp: network_round_def and_then_Done Let_def)
  define s2 where "s2 = wifi_check_connect_queue s1"
  have c: "same_choice s s2" using same_choice_trans [OF poll_choice [OF p] queue_choice] by (simp add: s2_def)
  then have ok: "led_ok s2" "dhcp_timeout s2 = dhcp_timeout s" using assms(2) by (simp_all add: same_choice_def led_ok_def)
  define s3 where "s3 = s2\<lparr>dhcp_timeout := 1\<rparr>"
  have ok3: "led_ok s3" using ok by (simp add: s3_def led_ok_def)
  have ev: "selected (emit_ev e u) = selected u" "netif_default (emit_ev e u) = netif_default u" "led_ok (emit_ev e u) = led_ok u"
    "dhcp_timeout (emit_ev e u) = dhcp_timeout u" for e u
    by (simp_all add: selected_def emit_ev_def led_ok_def)
  have t': "t = emit_ev (NetDelay 10) (if dhcp_timeout s = 0 then update_default s3 else s2\<lparr>dhcp_timeout := dhcp_timeout s - 1\<rparr>)"
    using t ok(2) by (simp add: Let_def s2_def s3_def)
  have one: "dhcp_timeout s = 1" if "dhcp_timeout s \<noteq> 0"
    using that assms(2) u16_at_most_1 by (simp add: led_ok_def)
  show "led_ok t"
  proof (cases "dhcp_timeout s = 0")
    case True
    then show ?thesis using update_default_choice(2) [OF ok3] by (simp add: t' ev)
  next
    case False
    then show ?thesis using ok(1) by (simp add: t' ev one) (simp add: led_ok_def)
  qed
  show "dhcp_timeout s = 0 \<Longrightarrow> netif_default t = selected t" using update_default_choice(1) [of s3] by (simp add: t' ev)
  show "dhcp_timeout s \<noteq> 0 \<Longrightarrow> dhcp_timeout t = 0" using one by (simp add: t' ev)
qed

section \<open>Runs of the task\<close>

text \<open>
  Between two rounds lwIP, the command line and the storage task may change anything but the choice of the interface and the
  counter of the loop; chip and driver may answer differently in every round.
\<close>

inductive net_reach :: "net \<Rightarrow> net \<Rightarrow> bool" for s0 :: net where
  start: "net_reach s0 s0"
| do_round: "net_reach s0 s \<Longrightarrow> network_round chip a hif s = Done t \<Longrightarrow> net_reach s0 t"
| others: "net_reach s0 s \<Longrightarrow> same_choice s t \<Longrightarrow> net_reach s0 t"

inductive_cases net_reachE: "net_reach s0 s"

lemma net_reach_led: "net_reach s0 s \<Longrightarrow> led_ok s0 \<Longrightarrow> led_ok s"
  by (induction rule: net_reach.induct) (auto dest: round_choice(1) simp: same_choice_def led_ok_def)

definition init_net :: net where
  "init_net = \<lparr>cmd = init_cmd, WifiConQ = None,
     enc_netif = \<lparr>enc_dev = \<lparr>last_used_register = 0, rxbufsize = 0, next_frame_location = 0, wire = []\<rparr>, enc_state = 0, flags = 0, hwaddr = replicate 6 0, mtu = 0, enc_semph = False, input_frames = []\<rparr>,
     enc_bound = False, enc_addr = (0, 0, 0), winc_flags = 0, winc_bound = False, winc_addr = (0, 0, 0), winc_hwaddr = replicate 6 0,
     winc_semph = False, mac_id = replicate 6 0, mac_id_wifi = replicate 6 0, netif_default = None, led_on = False,
     count_led_on = 0, trying_to_connect = False, wifi_disconnected = False, wifi_autoconnect = False,
     wifi_conn_info_resp = False, u8ScanResultIdx = 0, num_ap_found = 0, ap_check_timeout = 0, dhcp_timeout = 1,
     is_internet1 = replicate 240 0, ssid_new = replicate 80 0, key_new = replicate 80 0, ssid_len = 0, ipaddr_value = 0,
     gw_value = 0, mask_value = 0, nev = []\<rparr>"

lemma led_init: "led_ok init_net"
  by (simp add: led_ok_def init_net_def)

text \<open>
  C22: The LED is on exactly while a default interface is chosen, in every state the task reaches, however links and leases come and go. And
  the choice follows the links: of any two consecutive rounds, one ends with the default interface being Ethernet if
  its link is up and it has an address, else WiFi if it has, else none.
\<close>

theorem interface_follows_links:
  assumes "net_reach s0 s" "led_ok s0"
    and "network_round chip a hif s = Done t" "same_choice t t'" "network_round chip' a' hif' t' = Done u"
  shows "led_on s = (netif_default s \<noteq> None) \<and> led_on u = (netif_default u \<noteq> None) \<and>
     (netif_default t = selected t \<or> netif_default u = selected u)"
proof -
  have s: "led_ok s" by (rule net_reach_led [OF assms(1,2)])
  have t: "led_ok t'" using round_choice(1) [OF assms(3) s] assms(4) by (simp add: same_choice_def led_ok_def)
  have "netif_default t = selected t \<or> netif_default u = selected u"
    using round_choice(2,3) [OF assms(3) s] round_choice(2) [OF assms(5) t] assms(4) by (auto simp: same_choice_def)
  then show ?thesis using s round_choice(1) [OF assms(5) t] by (simp add: led_ok_def)
qed

lemma interface_follows_links_witness:
  "\<exists>t u. network_round (\<lambda>_ _. 0) (\<lambda>_ _. True) (\<lambda>_. (True, 0, [])) (init_net\<lparr>winc_flags := 0x10\<rparr>) = Done t \<and>
     network_round (\<lambda>_ _. 0) (\<lambda>_ _. True) (\<lambda>_. (True, 0, [])) t = Done u \<and>
     netif_default u = Some Winc \<and> led_on u"
proof -
  define chip :: chip_env where "chip = (\<lambda>_ _. 0)"
  define a :: "enc \<Rightarrow> u16 \<Rightarrow> bool" where "a = (\<lambda>_ _. True)"
  define hif :: hif where "hif = (\<lambda>_. (True, 0, []))"
  define s where "s = init_net\<lparr>winc_flags := 0x10\<rparr>"
  define t where "t = emit_ev (NetDelay 10) (s\<lparr>dhcp_timeout := 0\<rparr>)"
  define u where "u = emit_ev (NetDelay 10) (update_default (t\<lparr>dhcp_timeout := 1\<rparr>))"
  have "replicate 4 (0 :: u8) \<noteq> ascii ''wifi''" "replicate 8 (0 :: u8) \<noteq> ascii ''ethernet''" by code_simp+
  note defs = network_round_def poll_def init_net_def wifi_check_connect_queue_def emit_ev_def this
  have st: "network_round chip a hif s = Done t" by (simp add: defs s_def t_def)
  have tu: "network_round chip a hif t = Done u" by (simp add: defs s_def t_def u_def Let_def)
  have "led_ok s" by (simp add: led_ok_def s_def init_net_def)
  from interface_follows_links [OF net_reach.start this st same_choice_refl tu]
  have "netif_default t = selected t \<or> netif_default u = selected u" "led_on u = (netif_default u \<noteq> None)" by simp_all
  moreover have "selected t = Some Winc" "netif_default t = None" "selected u = Some Winc"
    by (simp_all add: selected_def usable_def s_def t_def u_def init_net_def emit_ev_def update_default_def use_netif_def
        report_connected_def NETIF_FLAG_DHCP_def NETIF_FLAG_LINK_UP_def init_cmd_def)
  ultimately show ?thesis using st tu unfolding s_def chip_def a_def hif_def by auto
qed

section \<open>Scanning\<close>

fun requested_index :: "net_ev \<Rightarrow> u8 list" where
  "requested_index (ReqScanResult k) = [k]"
| "requested_index _ = []"

fun text_of :: "net_ev \<Rightarrow> u8 list list" where
  "text_of (BleText t) = [t]"
| "text_of _ = []"

definition requests :: "net \<Rightarrow> u8 list" where "requests s = concat (map requested_index (nev s))"
definition texts :: "net \<Rightarrow> u8 list list" where "texts s = concat (map text_of (nev s))"

text \<open>The results after \<open>k\<close> requests, the first \<open>k - 1\<close> of which are answered.\<close>

lemma scan_results:
  assumes "u8ScanResultIdx s = of_nat k" "num_ap_found s = of_nat n" "n < 256" "k + length aps = n + 1" "0 < k"
    and "\<forall>ap \<in> set aps. fst ap < 5"
  shows "\<exists>t. wifi_cbs (map (\<lambda>ap. ScanResult (fst ap) (snd ap)) aps) s = Inr t \<and>
     requests t = requests s @ map of_nat [k..<n] \<and> texts t = texts s @ map (\<lambda>ap. scan_text (fst ap) (snd ap)) aps"
  using assms
proof (induction aps arbitrary: s k)
  case Nil
  then show ?case by simp
next
  case (Cons ap aps)
  obtain auth ssid where ap: "ap = (auth, ssid)" by (cases ap)
  have a: "\<not> 5 \<le> auth" using Cons.prems(6) by (auto simp: ap not_le)
  define s1 where "s1 = emit_ev (NetDelay 300) (emit_ev (BleText (scan_text auth ssid)) s)"
  show ?case
  proof (cases "k < n")
    case True
    define s2 where "s2 = (emit_ev (ReqScanResult (of_nat k)) s1)\<lparr>u8ScanResultIdx := of_nat k + 1\<rparr>"
    have less: "(of_nat k :: u8) < of_nat n" using True Cons.prems(3) by (simp add: word_less_nat_alt unat_of_nat)
    have cb: "wifi_cb (ScanResult auth ssid) s = Inr s2"
      using Cons.prems(1,2) less a by (simp add: s2_def s1_def emit_ev_def)
    have "\<exists>t. wifi_cbs (map (\<lambda>ap. ScanResult (fst ap) (snd ap)) aps) s2 = Inr t \<and>
     requests t = requests s2 @ map of_nat [Suc k..<n] \<and> texts t = texts s2 @ map (\<lambda>ap. scan_text (fst ap) (snd ap)) aps"
      by (rule Cons.IH) (use Cons.prems in \<open>auto simp: s2_def s1_def emit_ev_def\<close>)
    moreover have "requests s2 = requests s @ [of_nat k]" "texts s2 = texts s @ [scan_text auth ssid]"
      by (simp_all add: s2_def s1_def emit_ev_def requests_def texts_def)
    moreover have "[k..<n] = k # [Suc k..<n]" using True by (rule upt_conv_Cons)
    ultimately show ?thesis using cb by (auto simp: ap)
  next
    case False
    then have "k = n" "aps = []" using Cons.prems(4) by auto
    then have "wifi_cb (ScanResult auth ssid) s = Inr s1"
      using Cons.prems(1,2) a by (simp add: s1_def emit_ev_def)
    then show ?thesis using \<open>k = n\<close> \<open>aps = []\<close> by (simp add: ap s1_def emit_ev_def requests_def texts_def)
  qed
qed

text \<open>
  C35: A scan reports everything that was found: after a successful scan with n access points, n of them, the driver answering every request
  with the access point of that index, the requests are for the indices 0 to n - 1, each once and in order, and the app receives one line for
  every access point, in that order, with its security type and name.
\<close>

theorem scan_reports_all:
  assumes "length aps < 256" "num_ap_found s = of_nat (length aps)" "\<forall>ap \<in> set aps. fst ap < 5"
  shows "\<exists>t. wifi_cbs (ScanDone 0 (of_nat (length aps)) # map (\<lambda>ap. ScanResult (fst ap) (snd ap)) aps) s = Inr t \<and>
     requests t = requests s @ map of_nat [0..<length aps] \<and>
     texts t = texts s @ map (\<lambda>ap. scan_text (fst ap) (snd ap)) aps"
proof (cases aps)
  case Nil
  then show ?thesis by (simp add: requests_def texts_def word_le_nat_alt)
next
  case (Cons ap rest)
  let ?n = "length aps"
  have "0 < ?n" using Cons by simp
  then have one: "(1 :: u8) \<le> of_nat ?n" using assms(1) unfolding word_le_nat_alt unat_of_nat by (simp add: Suc_le_eq)
  define s1 where "s1 = (emit_ev (ReqScanResult 0) (s\<lparr>u8ScanResultIdx := 0\<rparr>))\<lparr>u8ScanResultIdx := 1\<rparr>"
  have cb: "wifi_cb (ScanDone 0 (of_nat ?n)) s = Inr s1" using one by (simp add: s1_def)
  have "\<exists>t. wifi_cbs (map (\<lambda>ap. ScanResult (fst ap) (snd ap)) aps) s1 = Inr t \<and>
     requests t = requests s1 @ map of_nat [1..<?n] \<and> texts t = texts s1 @ map (\<lambda>ap. scan_text (fst ap) (snd ap)) aps"
    by (rule scan_results) (use assms in \<open>auto simp: s1_def emit_ev_def\<close>)
  moreover have "requests s1 = requests s @ [0]" "texts s1 = texts s"
    by (simp_all add: s1_def emit_ev_def requests_def texts_def)
  moreover have "[0..<?n] = 0 # [1..<?n]" using Cons by (simp add: upt_conv_Cons del: upt_Suc)
  ultimately show ?thesis using cb by auto
qed

lemma scan_reports_all_witness:
  "\<exists>t. wifi_cbs [ScanDone 0 2, ScanResult 2 (ascii ''home'' @ [0]), ScanResult 1 (ascii ''cafe'' @ [0])] (init_net\<lparr>num_ap_found := 2\<rparr>) = Inr t \<and>
     texts t = [ascii ''success wifi scan_wpa_psk  Name:home\<newline>'', ascii ''success wifi scan_open  Name:cafe\<newline>'']"
proof -
  have "scan_text 2 (ascii ''home'' @ [0]) = ascii ''success wifi scan_wpa_psk  Name:home\<newline>''"
    "scan_text 1 (ascii ''cafe'' @ [0]) = ascii ''success wifi scan_open  Name:cafe\<newline>''"
    by (simp_all add: scan_text_def sec_str_def c_str_def ascii_def)
  then show ?thesis
    using scan_reports_all [of "[(2, ascii ''home'' @ [0]), (1, ascii ''cafe'' @ [0])]" "init_net\<lparr>num_ap_found := 2\<rparr>"]
    by (auto simp: texts_def init_net_def)
qed

text \<open>Starting with the WiFi interface present reads and writes twelve bytes where the arrays hold six.\<close>

lemma wifi_start_overruns_mac:
  assumes "length (winc_hwaddr s) = 6" "length (mac_id s) = 6" "length (mac_id_wifi s) = 6" "length mac = 6"
  shows "ethernet_init_inside_thread True mac chip s = Faulted Overread"
proof -
  have up: "winc_flags (net_add_winc_netif True mac s) AND NETIF_FLAG_UP \<noteq> 0"
    by (simp add: net_add_winc_netif_def Let_def blink_def emit_ev_def NETIF_FLAG_UP_def NETIF_FLAG_BROADCAST_def NETIF_FLAG_ETHARP_def)
  then have "length (enc_hwaddr (net_add_winc_netif True mac s)) = 6" by (simp add: enc_hwaddr_def)
  then show ?thesis using up
    by (simp add: ethernet_init_inside_thread_def net_add_enc_netif_def keep_mac_ids_def memcpy_def)
qed

end
