(* ===== verification/Provisioning.thy ===== *)
theory Provisioning
  imports Network
begin

text \<open>
  From the app to the radio: the command lines that set up the WiFi connection, followed through the command line, the message queue
  and the network task.
\<close>

text \<open>A network name or key that fits a line of the protocol.\<close>

definition plain :: "nat \<Rightarrow> u8 list \<Rightarrow> bool" where
  "plain n t \<longleftrightarrow> t \<noteq> [] \<and> length t \<le> n \<and> (\<forall>b \<in> set t. b \<noteq> 0 \<and> b \<noteq> 0x0D \<and> b \<noteq> 0x0A)"

definition wifi_lines :: "u8 list \<Rightarrow> u8 list \<Rightarrow> u8 list list" where
  "wifi_lines ssid psk = [ascii ''wifi ssid '' @ ssid, ascii ''wifi key '' @ psk, ascii ''wifi connect wpa'']"

text \<open>An array of \<open>n\<close> bytes holding a text and zeros.\<close>

definition padded :: "nat \<Rightarrow> u8 list \<Rightarrow> u8 list" where
  "padded n t = t @ replicate (n - length t) 0"

lemma c_str_end: "0 \<notin> set t \<Longrightarrow> c_str (t @ 0 # r) = t"
  by (induction t) (auto simp: c_str_def)

lemma c_str_whole: "0 \<notin> set t \<Longrightarrow> c_str t = t"
  by (induction t) (auto simp: c_str_def)

lemma plain_0: "plain n t \<Longrightarrow> 0 \<notin> set t"
  by (auto simp: plain_def)

lemma overwrite_end: "length t < length m \<Longrightarrow> (overwrite 0 t m)[length t := 0] = t @ 0 # drop (Suc (length t)) m"
  using Cons_nth_drop_Suc [of "length t" m] by (simp add: overwrite_def flip: Cons_nth_drop_Suc)

section \<open>The three lines\<close>

lemma ssid_line:
  assumes "cmd_inv s" "plain 32 ssid"
  defines "t \<equiv> s\<lparr>buf_p := overwrite 0 (ascii ''wifi ssid '' @ ssid) (buf_p s), buf_len := 10 + length ssid\<rparr>"
  shows "run_line tick text (ascii ''wifi ssid '' @ ssid) s = Inr (emit (BleSend (ascii ''success ssid\<newline>''))
     (s\<lparr>times_count := times_count s + 1,
        wifi_param := (wifi_param s)\<lparr>ssid_saved := ssid @ 0 # drop (Suc (length ssid)) (ssid_saved (wifi_param s)),
          ssid_saved_len := of_nat (length ssid)\<rparr>,
        ssid_saved_copy := ssid @ 0 # drop (Suc (length ssid)) (ssid_saved_copy s), ssid_changed := True, buf_len := 0,
        buf_p := overwrite 5 (ascii ''success ssid\<newline>'' @ [0]) (overwrite 0 (ascii ''wifi ssid '' @ ssid) (buf_p s))\<rparr>))"
proof -
  note sizes = assms(1) [unfolded inv_defs, simplified]
  have len: "0 < length ssid" "length ssid \<le> 32" using assms(2) by (auto simp: plain_def)
  let ?u = "t\<lparr>times_count := times_count s + 1\<rparr>"
  have buf: "buf_p ?u = ascii ''wifi ssid '' @ ssid @ drop (10 + length ssid) (buf_p s)"
    by (simp add: t_def overwrite_def eval_nat_numeral)
  have c: "is_cmd ?u 0 (10 + length ssid) ''wifi ''" "is_cmd ?u 5 (5 + length ssid) ''ssid ''"
    using len unfolding is_cmd_def cmd_cmp_def buf by (simp_all add: ascii_def)
  have d: "drop 10 (buf_p ?u) = ssid @ drop (10 + length ssid) (buf_p s)" unfolding buf by simp
  have m: "memcpy (ssid_saved (wifi_param s)) (drop 10 (buf_p ?u)) (int (length ssid)) = Inr (overwrite 0 ssid (ssid_saved (wifi_param s)))"
    using len sizes unfolding d by (simp add: memcpy_def)
  have e: "(overwrite 0 ssid (ssid_saved (wifi_param s)))[length ssid := 0] = ssid @ 0 # drop (Suc (length ssid)) (ssid_saved (wifi_param s))"
    by (rule overwrite_end) (use len sizes in simp)
  have z: "c_str (ssid @ 0 # r) = ssid" for r by (rule c_str_end [OF plain_0 [OF assms(2)]])
  have f: "strcpy (ssid_saved_copy s) (ssid @ 0 # drop (Suc (length ssid)) (ssid_saved (wifi_param s))) =
      Inr (ssid @ 0 # drop (Suc (length ssid)) (ssid_saved_copy s))"
    using len sizes by (simp add: strcpy_def z overwrite_def)
  have t: "wifi_param ?u = wifi_param s" "ssid_saved_copy ?u = ssid_saved_copy s" by (simp_all add: t_def)
  have p: "cmd_parse tick text (10 + length ssid) t = cmd_wifi_ssid 5 10 (length ssid) ?u"
    using c by (simp add: cmd_parse_def Let_def cmd_wifi_def) (simp add: t_def)
  have l: "length (buf_p ?u) = 256" unfolding buf using len sizes by simp
  have "\<not> SSID_MAX_LEN < length ssid" using len by (simp add: SSID_MAX_LEN_def)
  then have r: "cmd_parse tick text (10 + length ssid) t = Inr (emit (BleSend (ascii ''success ssid\<newline>''))
     (t\<lparr>times_count := times_count s + 1,
        wifi_param := (wifi_param s)\<lparr>ssid_saved := ssid @ 0 # drop (Suc (length ssid)) (ssid_saved (wifi_param s)),
          ssid_saved_len := of_nat (length ssid)\<rparr>,
        ssid_saved_copy := ssid @ 0 # drop (Suc (length ssid)) (ssid_saved_copy s), ssid_changed := True,
        buf_p := overwrite 5 (ascii ''success ssid\<newline>'' @ [0]) (buf_p t)\<rparr>))"
    unfolding p cmd_wifi_ssid_def Let_def t m res_bind.simps e
    using l by (simp add: f t [simplified] answer_in_place_def)
  have n: "length (ascii ''wifi ssid '' @ ssid) = 10 + length ssid" by simp
  show ?thesis unfolding run_line_def n t_def [symmetric] r by (simp add: emit_def) (simp add: t_def)
qed

lemma key_line:
  assumes "cmd_inv s" "plain 64 psk"
  defines "t \<equiv> s\<lparr>buf_p := overwrite 0 (ascii ''wifi key '' @ psk) (buf_p s), buf_len := 9 + length psk\<rparr>"
  shows "run_line tick text (ascii ''wifi key '' @ psk) s = Inr (emit (BleSend (ascii ''success key\<newline>''))
     (s\<lparr>times_count := times_count s + 1,
        wifi_param := (wifi_param s)\<lparr>wkey := psk @ 0 # drop (Suc (length psk)) (wkey (wifi_param s))\<rparr>,
        key_copy := psk @ 0 # drop (Suc (length psk)) (key_copy s), key_changed := True, keyflag := True, buf_len := 0,
        buf_p := overwrite 5 (ascii ''success key\<newline>'' @ [0]) (overwrite 0 (ascii ''wifi key '' @ psk) (buf_p s))\<rparr>))"
proof -
  note sizes = assms(1) [unfolded inv_defs, simplified]
  have len: "0 < length psk" "length psk \<le> 64" using assms(2) by (auto simp: plain_def)
  let ?u = "t\<lparr>times_count := times_count s + 1\<rparr>"
  have buf: "buf_p ?u = ascii ''wifi key '' @ psk @ drop (9 + length psk) (buf_p s)"
    by (simp add: t_def overwrite_def eval_nat_numeral)
  have c: "is_cmd ?u 0 (9 + length psk) ''wifi ''" "\<not> is_cmd ?u 5 (4 + length psk) ''ssid ''"
    "is_cmd ?u 5 (4 + length psk) ''key ''"
    using len unfolding is_cmd_def cmd_cmp_def buf by (simp_all add: ascii_def)
  have d: "drop 9 (buf_p ?u) = psk @ drop (9 + length psk) (buf_p s)" unfolding buf by simp
  have m: "memcpy (wkey (wifi_param s)) (drop 9 (buf_p ?u)) (int (length psk)) = Inr (overwrite 0 psk (wkey (wifi_param s)))"
    using len sizes unfolding d by (simp add: memcpy_def)
  have e: "(overwrite 0 psk (wkey (wifi_param s)))[length psk := 0] = psk @ 0 # drop (Suc (length psk)) (wkey (wifi_param s))"
    by (rule overwrite_end) (use len sizes in simp)
  have z: "c_str (psk @ 0 # r) = psk" for r by (rule c_str_end [OF plain_0 [OF assms(2)]])
  have f: "strcpy (key_copy s) (psk @ 0 # drop (Suc (length psk)) (wkey (wifi_param s))) =
      Inr (psk @ 0 # drop (Suc (length psk)) (key_copy s))"
    using len sizes by (simp add: strcpy_def z overwrite_def)
  have t: "wifi_param ?u = wifi_param s" "key_copy ?u = key_copy s" by (simp_all add: t_def)
  have p: "cmd_parse tick text (9 + length psk) t = cmd_wifi_key 5 9 (length psk) ?u"
    using c by (simp add: cmd_parse_def Let_def cmd_wifi_def) (simp add: t_def)
  have l: "length (buf_p ?u) = 256" unfolding buf using len sizes by simp
  have "\<not> KEY_MAX_LEN < length psk" using len by (simp add: KEY_MAX_LEN_def)
  then have r: "cmd_parse tick text (9 + length psk) t = Inr (emit (BleSend (ascii ''success key\<newline>''))
     (t\<lparr>times_count := times_count s + 1,
        wifi_param := (wifi_param s)\<lparr>wkey := psk @ 0 # drop (Suc (length psk)) (wkey (wifi_param s))\<rparr>,
        key_copy := psk @ 0 # drop (Suc (length psk)) (key_copy s), key_changed := True, keyflag := True,
        buf_p := overwrite 5 (ascii ''success key\<newline>'' @ [0]) (buf_p t)\<rparr>))"
    unfolding p cmd_wifi_key_def Let_def t m res_bind.simps e
    using l by (simp add: f t [simplified] answer_in_place_def)
  have n: "length (ascii ''wifi key '' @ psk) = 9 + length psk" by simp
  show ?thesis unfolding run_line_def n t_def [symmetric] r by (simp add: emit_def) (simp add: t_def)
qed

text \<open>The message of the third line, and what the network task makes of it.\<close>

lemma connect_line:
  assumes "cmd_inv s"
  defines "t \<equiv> s\<lparr>buf_p := overwrite 0 (ascii ''wifi connect wpa'') (buf_p s), buf_len := 16\<rparr>"
  shows "run_line tick text (ascii ''wifi connect wpa'') s = Inr (emit
       (WifiConnect (ssid_saved (wifi_param s)) (ssid_saved_len (wifi_param s)) SEC_WPA_PSK
         (take 65 (c_str (wkey (wifi_param s)) @ replicate 65 0) @ replicate 63 0) 255)
       (s\<lparr>times_count := times_count s + 1, keyconnect := True, try_connect := True, buf_len := 0,
          buf_p := overwrite 0 (ascii ''wifi connect wpa'') (buf_p s)\<rparr>))"
proof -
  note sizes = assms(1) [unfolded inv_defs, simplified]
  let ?u = "t\<lparr>times_count := times_count s + 1\<rparr>"
  have buf: "buf_p ?u = ascii ''wifi connect wpa'' @ drop 16 (buf_p s)"
    by (simp add: t_def overwrite_def eval_nat_numeral)
  have c: "is_cmd ?u 0 16 ''wifi ''" "\<not> is_cmd ?u 5 11 ''ssid ''" "\<not> is_cmd ?u 5 11 ''key ''" "\<not> is_cmd ?u 5 11 ''keyind ''"
    "\<not> is_cmd ?u 5 11 ''login ''" "is_cmd ?u 5 11 ''connect ''" "is_cmd (?u\<lparr>keyconnect := True\<rparr>) 13 3 ''wpa''"
    unfolding is_cmd_def cmd_cmp_def buf by (simp_all add: t_def overwrite_def ascii_def)
  have "strncpy (replicate 128 0) (wkey (wifi_param s)) 65 = Inr (take 65 (c_str (wkey (wifi_param s)) @ replicate 65 0) @ replicate 63 0)"
    by (simp add: strncpy_def overwrite_def)
  moreover have "cmd_wifi 5 11 ?u = cmd_wifi_connect 13 3 (?u\<lparr>keyconnect := True\<rparr>)" using c by (simp add: cmd_wifi_def)
  ultimately have r: "cmd_parse tick text 16 t = Inr (emit
       (WifiConnect (ssid_saved (wifi_param s)) (ssid_saved_len (wifi_param s)) SEC_WPA_PSK
         (take 65 (c_str (wkey (wifi_param s)) @ replicate 65 0) @ replicate 63 0) 255)
       (t\<lparr>times_count := times_count s + 1, keyconnect := True, try_connect := True\<rparr>))"
    using c(1,7) by (simp add: cmd_parse_def Let_def cmd_wifi_connect_def sectype_of_def auth_buff_def t_def)
  have n: "length (ascii ''wifi connect wpa'') = 16" by simp
  show ?thesis unfolding run_line_def n t_def [symmetric] r by (simp add: emit_def) (simp add: t_def)
qed

lemma connect_message:
  assumes "plain 32 ssid" "plain 64 psk" "WifiConQ s = None"
  shows "\<exists>t. carry_out (WifiConnect (ssid @ 0 # r) (of_nat (length ssid)) SEC_WPA_PSK (take 65 (psk @ replicate 65 0) @ replicate 63 0) 255) s
      = Inr (0, t) \<and>
    wifi_check_connect_queue t = emit_ev (M2mConnect (padded 65 ssid) (of_nat (length ssid)) SEC_WPA_PSK (padded 65 psk) 255) s"
proof -
  have len: "length ssid \<le> 32" "length psk \<le> 64" using assms(1,2) by (simp_all add: plain_def)
  have "uint (of_nat (length ssid) :: u8) = int (length ssid)" using len by (simp add: uint_nat unat_of_nat)
  then have m: "memcpy (replicate 65 0) (ssid @ 0 # r) (uint (of_nat (length ssid) :: u8)) = Inr (padded 65 ssid)"
    using len by (simp add: memcpy_def overwrite_def padded_def)
  have "replicate (65 - length psk) (0 :: u8) = 0 # replicate (64 - length psk) 0"
    using len by (simp add: Suc_diff_le flip: replicate_Suc)
  then have t: "take 65 (psk @ replicate 65 0) = psk @ 0 # replicate (64 - length psk) (0 :: u8)" using len by simp
  have "strncpy (replicate 65 0) (take 65 (psk @ replicate 65 0) @ replicate 63 0) 65 = Inr (padded 65 psk)"
    unfolding t using len by (simp add: strncpy_def c_str_end [OF plain_0 [OF assms(2)]] overwrite_def padded_def)
  then show ?thesis
    using m assms(3) by (simp add: wifi_msg_connect_def Let_def SEC_WPA_PSK_def SEC_OPEN_def network_msg_send_def
        wifi_check_connect_queue_def emit_ev_def)
qed

section \<open>The whole session\<close>

text \<open>What the three lines leave behind in the variables of the command line.\<close>

definition same_requests :: "cmd_state \<Rightarrow> cmd_state \<Rightarrow> bool" where
  "same_requests c c' \<longleftrightarrow> API_token_first c' = API_token_first c \<and> API_link_first c' = API_link_first c \<and>
     is_internet_first c' = is_internet_first c \<and> API_token c' = API_token c \<and> API_link c' = API_link c \<and> is_internet c' = is_internet c \<and> update c' = update c"

definition provisioned_as :: "u8 list \<Rightarrow> u8 list \<Rightarrow> cmd_state \<Rightarrow> cmd_state \<Rightarrow> bool" where
  "provisioned_as ssid psk c c' \<longleftrightarrow>
     outbox c' = outbox c @ [BleSend (ascii ''success ssid\<newline>''), BleSend (ascii ''success key\<newline>''),
       WifiConnect (ssid @ 0 # drop (Suc (length ssid)) (ssid_saved (wifi_param c))) (of_nat (length ssid)) SEC_WPA_PSK
         (take 65 (psk @ replicate 65 0) @ replicate 63 0) 255] \<and>
     ssid_changed c' \<and> key_changed c' \<and> keyflag c' \<and> keyconnect c' \<and> try_connect c' \<and>
     ssid_saved_copy c' = ssid @ 0 # drop (Suc (length ssid)) (ssid_saved_copy c) \<and>
     key_copy c' = psk @ 0 # drop (Suc (length psk)) (key_copy c) \<and>
     same_requests c c' \<and> cmd_inv c' \<and> buf_len c' = 0"

lemma run_wifi_lines:
  assumes "cmd_inv c" "plain 32 ssid" "plain 64 psk"
  shows "\<exists>c'. run_lines tick text (wifi_lines ssid psk) c = Inr c' \<and> provisioned_as ssid psk c c'"
proof -
  note len = assms(2,3) [unfolded plain_def]
  note sizes = assms(1) [unfolded inv_defs, simplified]
  obtain c1 where c1: "run_line tick text (ascii ''wifi ssid '' @ ssid) c = Inr c1" "cmd_inv c1"
    "outbox c1 = outbox c @ [BleSend (ascii ''success ssid\<newline>'')]" "ssid_changed c1"
    "ssid_saved (wifi_param c1) = ssid @ 0 # drop (Suc (length ssid)) (ssid_saved (wifi_param c))"
    "ssid_saved_len (wifi_param c1) = of_nat (length ssid)"
    "ssid_saved_copy c1 = ssid @ 0 # drop (Suc (length ssid)) (ssid_saved_copy c)" "same_requests c c1" "key_copy c1 = key_copy c"
    by (rule that [OF ssid_line [OF assms(1,2)]]) (use sizes len in \<open>simp_all add: emit_def inv_defs same_requests_def\<close>)
  note sizes1 = c1(2) [unfolded inv_defs, simplified]
  obtain c2 where c2: "run_line tick text (ascii ''wifi key '' @ psk) c1 = Inr c2" "cmd_inv c2"
    "outbox c2 = outbox c1 @ [BleSend (ascii ''success key\<newline>'')]" "ssid_changed c2" "key_changed c2" "keyflag c2"
    "ssid_saved (wifi_param c2) = ssid_saved (wifi_param c1)" "ssid_saved_len (wifi_param c2) = ssid_saved_len (wifi_param c1)"
    "ssid_saved_copy c2 = ssid_saved_copy c1" "c_str (wkey (wifi_param c2)) = psk"
    "key_copy c2 = psk @ 0 # drop (Suc (length psk)) (key_copy c1)" "same_requests c1 c2"
    by (rule that [OF key_line [OF c1(2) assms(3)]])
      (use sizes1 len c1(4) in \<open>simp_all add: emit_def inv_defs same_requests_def c_str_end [OF plain_0 [OF assms(3)]]\<close>)
  note sizes2 = c2(2) [unfolded inv_defs, simplified]
  show ?thesis using connect_line [OF c2(2)] sizes2 c1 c2
    by (simp add: wifi_lines_def provisioned_as_def emit_def inv_defs same_requests_def)
qed

section \<open>Properties\<close>

lemma wifi_lines_are_lines: "plain 32 ssid \<Longrightarrow> plain 64 psk \<Longrightarrow> \<forall>l \<in> set (wifi_lines ssid psk). is_line l"
  by (auto simp: wifi_lines_def is_line_def plain_def ascii_def)

definition wifi_session :: "u8 list \<Rightarrow> u8 list \<Rightarrow> u8 list" where
  "wifi_session ssid psk = concat (map (\<lambda>l. l @ [0x0A]) (wifi_lines ssid psk))"

lemma feed_wifi_session:
  assumes "cmd_inv c" "buf_len c = 0" "plain 32 ssid" "plain 64 psk"
  obtains c' where "cmd_feed tick text (wifi_session ssid psk) c = Inr (0, c')" "provisioned_as ssid psk c c'"
  using run_wifi_lines [OF assms(1,3,4), of tick "text"] assms(1)
    feed_lines [OF wifi_lines_are_lines [OF assms(3,4)] assms(2), of tick "text"]
  by (auto simp: wifi_session_def inv_defs)

text \<open>
  C5: From the app to the radio: when the command line has no unfinished line and no connection request is waiting, the three lines that give the name of a WiFi network, its key and
  ask for a connection are taken, the first two answered with their success line, and the message they leave in the queue makes the network task hand exactly that
  name, its length and that key, each followed by zeros only, to the WiFi chip, for any channel; nothing else changes. A name may have 32 bytes, a key 64.
\<close>

theorem wifi_provisioning:
  assumes "cmd_inv c" "buf_len c = 0" "plain 32 ssid" "plain 64 psk" "WifiConQ s = None"
  shows "\<exists>c' m t. cmd_feed tick text (wifi_session ssid psk) c = Inr (0, c') \<and>
     outbox c' = outbox c @ [BleSend (ascii ''success ssid\<newline>''), BleSend (ascii ''success key\<newline>''), m] \<and>
     carry_out m s = Inr (0, t) \<and>
     wifi_check_connect_queue t = emit_ev (M2mConnect (padded 65 ssid) (of_nat (length ssid)) SEC_WPA_PSK (padded 65 psk) 255) s"
proof -
  obtain c' where c': "cmd_feed tick text (wifi_session ssid psk) c = Inr (0, c')" "provisioned_as ssid psk c c'"
    using feed_wifi_session [OF assms(1-4)] .
  from connect_message [OF assms(3-5), of "drop (Suc (length ssid)) (ssid_saved (wifi_param c))"] obtain t where
    "carry_out (WifiConnect (ssid @ 0 # drop (Suc (length ssid)) (ssid_saved (wifi_param c))) (of_nat (length ssid)) SEC_WPA_PSK
       (take 65 (psk @ replicate 65 0) @ replicate 63 0) 255) s = Inr (0, t)"
    "wifi_check_connect_queue t = emit_ev (M2mConnect (padded 65 ssid) (of_nat (length ssid)) SEC_WPA_PSK (padded 65 psk) 255) s"
    by blast
  with c' show ?thesis unfolding provisioned_as_def by blast
qed

lemma wifi_provisioning_witness:
  "\<exists>c' m t. cmd_feed 0 [] (wifi_session (ascii ''home'') (ascii ''secret'')) init_cmd = Inr (0, c') \<and>
     carry_out m init_net = Inr (0, t) \<and>
     nev (wifi_check_connect_queue t) = [M2mConnect (padded 65 (ascii ''home'')) 4 SEC_WPA_PSK (padded 65 (ascii ''secret'')) 255]"
proof -
  have "plain 32 (ascii ''home'')" "plain 64 (ascii ''secret'')" by (simp_all add: plain_def ascii_def)
  moreover have "buf_len init_cmd = 0" "WifiConQ init_net = None" by (simp_all add: init_cmd_def init_net_def)
  ultimately obtain c' m t where "cmd_feed 0 [] (wifi_session (ascii ''home'') (ascii ''secret'')) init_cmd = Inr (0, c')"
    "carry_out m init_net = Inr (0, t)"
    "wifi_check_connect_queue t = emit_ev (M2mConnect (padded 65 (ascii ''home'')) (of_nat (length (ascii ''home''))) SEC_WPA_PSK
       (padded 65 (ascii ''secret'')) 255) init_net"
    using wifi_provisioning [OF init_inv, of "ascii ''home''" "ascii ''secret''" init_net 0 "[]"] by blast
  moreover have "nev (emit_ev e init_net) = [e]" for e by (simp add: emit_ev_def init_net_def)
  moreover have "(of_nat (length (ascii ''home'')) :: u8) = 4" by simp
  ultimately show ?thesis by metis
qed

end
