(* ===== verification/Reconnect.thy ===== *)
theory Reconnect
  imports Provisioning Storage
begin








end
