(* ===== verification/Sensors_Task.thy ===== *)
theory Sensors_Task
  imports Temperature Htu21d Analog Power_Meter Ble_Sensors
begin

text \<open>
  The sensors task of main_app.c: one round through all drivers, which share the four packets, and the notification at its end. Every driver
  keeps its own variables; the packets are handed from one to the next. A driver is a writer of some fields of the packets, which is the
  contract of the locale below; the round rests on its laws.
\<close>

section \<open>Writers of the packets\<close>

definition only_in :: "sfield set \<Rightarrow> sensors \<Rightarrow> sensors \<Rightarrow> bool" where
  "only_in F s t \<longleftrightarrow> (\<forall>k. pkey (state_of k t) = pkey (state_of k s) \<and>
     (\<forall>f. f \<notin> F \<longrightarrow> pval (state_of k t) f = pval (state_of k s) f))"

lemma only_in_refl [simp]: "only_in F s s"
  by (simp add: only_in_def)

lemma only_in_trans: "only_in F s t \<Longrightarrow> only_in G t u \<Longrightarrow> only_in (F \<union> G) s u"
  by (simp add: only_in_def del: state_of.simps)

lemma only_in_same: "only_in F s t \<Longrightarrow> only_in F t u \<Longrightarrow> only_in F s u"
  using only_in_trans [of F s t F u] by simp

lemma only_in_mono: "only_in F s t \<Longrightarrow> F \<subseteq> G \<Longrightarrow> only_in G s t"
  by (auto simp: only_in_def simp del: state_of.simps)

lemma only_in_store: "f \<in> F \<Longrightarrow> only_in F s (store_from n f v s)"
  by (auto simp: only_in_def store_from_def)

lemma only_inD: "only_in F s t \<Longrightarrow> f \<notin> F \<Longrightarrow> pval (state_of k t) f = pval (state_of k s) f"
  by (simp add: only_in_def del: state_of.simps)

text \<open>
  Every driver stores a reading with one call of \<open>store_from\<close>, from the circuit the field belongs to on. So whatever relation between packets
  is reflexive, transitive and established by such a store holds across every driver; two such relations are used here.
\<close>

definition circuit_of :: "sfield \<Rightarrow> nat" where
  "circuit_of f = (if f \<in> {sltc21, lltc21, spc21, llpc21} then 2 else if f \<in> {sltc31, lltc31, spc31, llpc31} then 3
     else if f \<in> {sltc41, lltc41, spc41, llpc41} then 4 else 1)"

lemma circuit_of_pos [simp]: "Suc 0 \<le> circuit_of f" "0 < circuit_of f"
  by (simp_all add: circuit_of_def)

locale store_relation =
  fixes R :: "sfield set \<Rightarrow> sensors \<Rightarrow> sensors \<Rightarrow> bool"
  assumes refl: "R F s s"
    and same: "R F s t \<Longrightarrow> R F t u \<Longrightarrow> R F s u"
    and mono: "R F s t \<Longrightarrow> F \<subseteq> G \<Longrightarrow> R G s t"
    and store: "f \<in> F \<Longrightarrow> n \<le> circuit_of f \<Longrightarrow> R F s (store_from n f v s)"

interpretation only: store_relation only_in
  by unfold_locales (auto intro: only_in_same only_in_mono only_in_store)

text \<open>The packets agree on some fields: a field has the same value in every packet that has it.\<close>

definition agree :: "sfield set \<Rightarrow> sensors \<Rightarrow> bool" where
  "agree E s \<longleftrightarrow> (\<forall>f \<in> E. \<forall>k. circuit_of f \<le> k \<longrightarrow> pval (state_of k s) f = pval (state_of 4 s) f)"

lemma store_from_any:
  "pval (state_of k (store_from n f v s)) g = (if g = f \<and> (n \<le> k \<or> k = 0 \<or> 3 < k) then v else pval (state_of k s) g)"
  by (auto simp: store_from_def)

lemma agree_store: "agree E s \<Longrightarrow> n \<le> circuit_of f \<Longrightarrow> agree (insert f E) (store_from n f v s)"
  unfolding agree_def store_from_any by (auto simp del: state_of.simps)

lemma agree_mono: "agree E s \<Longrightarrow> D \<subseteq> E \<Longrightarrow> agree D s"
  unfolding agree_def by blast

lemma agree_stored: "agree E s \<Longrightarrow> f \<in> E \<Longrightarrow> n \<le> circuit_of f \<Longrightarrow> agree E (store_from n f v s)"
  using agree_store [of E s n f v] by (simp add: insert_absorb)

interpretation spread: store_relation "\<lambda>F s t. \<forall>E. agree E s \<longrightarrow> agree E t"
  by unfold_locales (auto intro: agree_mono [OF agree_store])

section \<open>The drivers as writers\<close>

lemma hout_frame [simp]:
  "hout (tick s) = hout s" "hout (snd (start_xfer env c b s)) = hout s" "hout (wait_done n s) = hout s"
  "hout (delay m s) = hout s"
proof -
  have d: "hout (deliver s) = hout s" for s
    by (simp add: deliver_def twi_handler_def split: option.split nat.split twi_evt.split)
  show t: "hout (tick s) = hout s" for s by (simp add: tick_def d)
  show "hout (snd (start_xfer env c b s)) = hout s" by (simp add: start_xfer_def d split_beta Let_def)
  show "hout (wait_done n s) = hout s"
    by (induction n s rule: wait_done.induct) (subst wait_done.simps, simp add: t)
  show "hout (delay m s) = hout s" by (induction m arbitrary: s) (simp_all add: t)
qed

lemma hout_commands [simp]:
  "hout (command env a b s) = hout s" "hout (tcaselect env p s) = hout s" "hout (soft_reset_htu21 env s) = hout s"
  "hout (tempRead_command env s) = hout s" "hout (humRead_command env s) = hout s" "hout (hw_reinit s) = hout s"
  by (simp_all add: command_def tcaselect_def soft_reset_htu21_def tempRead_command_def humRead_command_def hw_reinit_def
      split_beta Let_def)

abbreviation "port_fields p \<equiv> set_option (temp_field p) \<union> set_option (hum_field p)"

definition meter_fields :: "sfield set" where
  "meter_fields = {uUei1, uUei2, uUei3, iUei1, iUei2, iUei3, powerFactor, activeWatts}"

definition pressure_fields :: "sfield set" where
  "pressure_fields = {spc11, llpc11, spc21, llpc21, spc31, llpc31, spc41, llpc41}"

definition temperature_fields :: "sfield set" where
  "temperature_fields = {sltc11, lltc11, sltc21, lltc21, sltc31, lltc31, sltc41, lltc41}"

lemma xfer_pout: "xfer env behind second c s = Some t \<Longrightarrow> pout t = pout s"
  by (auto simp: xfer_def Let_def split_beta split: if_splits)

lemma configure_pout: "configure env behind c s = Some t \<Longrightarrow> pout t = pout s"
  by (auto simp: configure_def clear_buf_def bind_eq_Some_conv dest: xfer_pout)

lemma measure_pout: "measure_reg env behind second c f conv s = Some t \<Longrightarrow> \<exists>v. pout t = store_from 1 f v (pout s)"
  by (auto simp: measure_reg_def clear_buf_def bind_eq_Some_conv Let_def dest!: xfer_pout split: if_splits)

lemma configure_bindE:
  assumes "Option.bind (configure env behind c s) g = Some t" obtains u where "pout u = pout s" "g u = Some t"
  using assms by (auto simp: bind_eq_Some_conv dest: configure_pout)

lemma configure_if_bindE:
  assumes "Option.bind (if b then configure env behind c s else configure env behind d s) g = Some t"
  obtains u where "pout u = pout s" "g u = Some t"
  using assms by (auto elim: configure_bindE split: if_splits)

lemma measure_bindE:
  assumes "Option.bind (measure_reg env behind second c f conv s) g = Some t"
  obtains u v where "pout u = store_from 1 f v (pout s)" "g u = Some t"
  using assms by (auto simp: bind_eq_Some_conv dest: measure_pout)

lemma energy_pout:
  assumes "energy_measurement env behind eq config m = Some t"
  obtains u1 u2 u3 i1 i2 i3 f w where "pout t =
     store_from 1 activeWatts w (store_from 1 powerFactor f (store_from 1 iUei3 i3 (store_from 1 iUei2 i2 (store_from 1 iUei1 i1
       (store_from 1 uUei3 u3 (store_from 1 uUei2 u2 (store_from 1 uUei1 u1 (pout m))))))))"
  using assms unfolding energy_measurement_def
  by (elim configure_bindE configure_if_bindE measure_bindE) (drule configure_pout, simp only:)

context store_relation
begin

lemma commit: "n \<le> circuit_of f \<Longrightarrow> R {f} (out s) (out (commit n f get s))"
  by (auto simp: commit_def Let_def intro: store refl)

lemma read_temperature: "n \<le> circuit_of f \<Longrightarrow> R {f} (out (snd ts)) (out (snd (read_temperature n f env x ts)))"
  using commit by (simp add: read_temperature_def split_beta Let_def)

lemma count_bad: "set_option fo \<subseteq> F \<Longrightarrow> R F (hout s) (hout (count_bad fo s))"
  by (auto simp: count_bad_def Let_def store refl split: option.split)

lemma store_good: "set_option fo \<subseteq> F \<Longrightarrow> R F (hout s) (hout (store_good fo v s))"
  by (auto simp: store_good_def store refl split: option.split)

lemma take_reading: "R (port_fields p) (hout s) (hout (snd (take_temp p s)))" "R (port_fields p) (hout s) (hout (snd (take_hum p s)))"
  using count_bad [of _ "port_fields p" "s\<lparr>rawTemperature := v\<rparr>" for v] count_bad [of _ "port_fields p" "s\<lparr>rawHumidity := v\<rparr>" for v]
    store_good [of _ "port_fields p" "s\<lparr>rawTemperature := v, tempTemperature := w\<rparr>" for v w]
    store_good [of _ "port_fields p" "s\<lparr>rawHumidity := v, humHumidity := w\<rparr>" for v w]
  by (simp_all add: take_temp_def take_hum_def Let_def)

lemma read_sensor:
  "R (port_fields p) (hout s) (hout (snd (read_sensor_data_temp env p s)))"
  "R (port_fields p) (hout s) (hout (snd (read_sensor_data_HUM env p s)))"
proof -
  have h: "hout (snd (start_xfer env c b (s\<lparr>m_xfer_done := False\<rparr>))) = hout s" for c b by simp
  show "R (port_fields p) (hout s) (hout (snd (read_sensor_data_temp env p s)))"
    using take_reading(1) [of p "wait_done 0 (snd (start_xfer env (Rx HTU21D_ADDRESS 3) TempBuf (s\<lparr>m_xfer_done := False\<rparr>)))"]
    by (simp add: read_sensor_data_temp_def split_beta Let_def h refl)
  show "R (port_fields p) (hout s) (hout (snd (read_sensor_data_HUM env p s)))"
    using take_reading(2) [of p "wait_done 0 (snd (start_xfer env (Rx HTU21D_ADDRESS 3) HumBuf (s\<lparr>m_xfer_done := False\<rparr>)))"]
    by (simp add: read_sensor_data_HUM_def split_beta Let_def h refl)
qed

lemma sample_port: "R (port_fields p) (hout s) (hout (sample_port env p s))"
proof -
  define a where "a = delay 50 (tempRead_command env (delay 50 (soft_reset_htu21 env (delay 50 (tcaselect env p (hw_reinit (delay 200 s)))))))"
  define b where "b = snd (read_sensor_data_temp env p a)"
  have "hout a = hout s" by (simp add: a_def)
  then have "R (port_fields p) (hout s) (hout b)" using read_sensor(1) [of p a env] by (simp add: b_def)
  moreover have "R (port_fields p) (hout b) (hout (snd (read_sensor_data_HUM env p (delay 50 (humRead_command env (delay 100 b))))))"
    using read_sensor(2) [of p "delay 50 (humRead_command env (delay 100 b))" env] by simp
  ultimately have "R (port_fields p) (hout s) (hout (snd (read_sensor_data_HUM env p (delay 50 (humRead_command env (delay 100 b))))))"
    by (rule same)
  then show ?thesis by (simp only: sample_port_def Let_def a_def b_def)
qed

lemma wire: "f \<in> F \<Longrightarrow> R F (snd ts) (snd (wire env p f ts))"
  by (cases ts) (simp add: wire_spec store)

lemma thermostat: "R {wire1_orange, wire2_white, wire3_yellow} (snd ts) (snd (thermostat_signals env ts))"
proof -
  let ?F = "{wire1_orange, wire2_white, wire3_yellow}"
  define a where "a = wire env 25 wire1_orange (fst ts @ [CfgIn 10 False, CfgIn 39 False, CfgIn 25 True], snd ts)"
  define b where "b = wire env 10 wire2_white a"
  have "R ?F (snd ts) (snd a)" unfolding a_def by (rule wire [of _ _ "(x, snd ts)" for x, unfolded snd_conv]) simp
  moreover have "R ?F (snd a) (snd b)" unfolding b_def by (rule wire) simp
  moreover have "R ?F (snd b) (snd (thermostat_signals env ts))"
    unfolding thermostat_signals_def a_def [symmetric] b_def [symmetric] by (rule wire) simp
  ultimately show ?thesis using same by blast
qed

lemma store_unless_nan: "f \<in> F \<Longrightarrow> n \<le> circuit_of f \<Longrightarrow> R F s (store_unless_nan n f p s)"
  by (simp add: store_unless_nan_def store refl)

lemma saadc: "R pressure_fields s (saadc_callback is_done buffer s)"
proof -
  have st: "R pressure_fields t (store_unless_nan n f p t)" if "f \<in> pressure_fields" "n \<le> circuit_of f" for n f p t
    using that by (rule store_unless_nan)
  have m: "R pressure_fields s (store_unless_nan n f p t)" if "R pressure_fields s t" "f \<in> pressure_fields" "n \<le> circuit_of f" for n f p t
    using same [OF that(1) st [OF that(2,3)]] .
  show ?thesis
    unfolding saadc_callback_def Let_def by (simp add: refl) (intro impI m st; simp add: pressure_fields_def circuit_of_def)
qed

lemma energy: "energy_measurement env behind eq config m = Some t \<Longrightarrow> R meter_fields (pout m) (pout t)"
proof -
  assume "energy_measurement env behind eq config m = Some t"
  from energy_pout [OF this] obtain u1 u2 u3 i1 i2 i3 f w where t: "pout t =
     store_from 1 activeWatts w (store_from 1 powerFactor f (store_from 1 iUei3 i3 (store_from 1 iUei2 i2 (store_from 1 iUei1 i1
       (store_from 1 uUei3 u3 (store_from 1 uUei2 u2 (store_from 1 uUei1 u1 (pout m))))))))" .
  have st: "R meter_fields s (store_from 1 f v u)" if "R meter_fields s u" "f \<in> meter_fields" for f v s u
    using same [OF that(1) store [OF that(2)]] by simp
  show ?thesis unfolding t by (intro st refl) (simp_all add: meter_fields_def)
qed

end

text \<open>The contract of one driver: it writes its own fields only.\<close>

locale packet_writer =
  fixes step :: "'s \<Rightarrow> 's" and packets :: "'s \<Rightarrow> sensors" and fields :: "sfield set"
  assumes writes: "only_in fields (packets s) (packets (step s))"
begin

lemma keeps_others: "f \<notin> fields \<Longrightarrow> pval (state_of k (packets (step s))) f = pval (state_of k (packets s)) f"
  using only_inD [OF writes] .

lemma repeated: "only_in fields (packets s) (packets ((step ^^ n) s))"
  by (induction n) (auto intro: only_in_same writes)

end

interpretation ds18b20: packet_writer "read_temperature (circuit_of f) f env x" "\<lambda>ts. out (snd ts)" "{f}" for f env x
  by unfold_locales (rule only.read_temperature [OF order.refl])

interpretation htu: packet_writer "sample_port env p" hout "port_fields p" for env p
  by unfold_locales (rule only.sample_port)

interpretation thermostat: packet_writer "thermostat_signals env" snd "{wire1_orange, wire2_white, wire3_yellow}" for env
  by unfold_locales (rule only.thermostat)

interpretation saadc: packet_writer "saadc_callback is_done buffer" "\<lambda>s. s" pressure_fields for is_done buffer
  by unfold_locales (rule only.saadc)

section \<open>One round\<close>

record sampler =
  packets :: sensors
  onewire :: trace
  tchans :: "sfield \<Rightarrow> tchan"
  wires :: "wire_ev list"
  meter_dev :: meter
  htu_dev :: htu
  notified :: "(nat \<times> (u8 \<times> cfloat) list) option list"

text \<open>The hardware: the one-wire pins, the thermostat pins, the meter, the I2C bus, and what the converter delivers in this round.\<close>

record hardware =
  one_wire_env :: gpio_env
  thermostat_env :: wire_env
  meter_env :: spi_env
  behind_cmd :: "meter_cmd \<Rightarrow> u8 list"
  same_string :: "u8 \<Rightarrow> u8 \<Rightarrow> bool"
  i2c_env :: twi_env
  convert_err :: u32
  conversion_done :: bool
  samples :: "16 word list"

definition read_temperatures :: "gpio_env \<Rightarrow> trace \<times> temp_state \<Rightarrow> trace \<times> temp_state" where
  "read_temperatures env ts =
     Read_Temperature_lltc41 env 44 (Read_Temperature_sltc41 env 27 (Read_Temperature_lltc31 env 6 (Read_Temperature_sltc31 env 7
    (Read_Temperature_lltc21 env 8 (Read_Temperature_sltc21 env 40 (Read_Temperature_lltc11 env 11 (Read_Temperature_sltc11 env 33 ts)))))))"

definition temperature_stage :: "hardware \<Rightarrow> sampler \<Rightarrow> sampler" where
  "temperature_stage hw s =
     (let (tr, t) = read_temperatures (one_wire_env hw) (onewire s, \<lparr>chan = tchans s, out = packets s\<rparr>)
      in s\<lparr>onewire := tr, tchans := chan t, packets := out t\<rparr>)"

definition thermostat_stage :: "hardware \<Rightarrow> sampler \<Rightarrow> sampler" where
  "thermostat_stage hw s =
     (let (w, p) = thermostat_signals (thermostat_env hw) (wires s, packets s) in s\<lparr>wires := w, packets := p\<rparr>)"

definition meter_stage :: "hardware \<Rightarrow> u8 list \<Rightarrow> sampler \<Rightarrow> sampler option" where
  "meter_stage hw config s =
     map_option (\<lambda>m. s\<lparr>meter_dev := m, packets := pout m\<rparr>)
       (energy_measurement (meter_env hw) (behind_cmd hw) (same_string hw) config ((meter_dev s)\<lparr>pout := packets s\<rparr>))"

definition port_stage :: "hardware \<Rightarrow> u8 \<Rightarrow> sampler \<Rightarrow> sampler" where
  "port_stage hw p s =
     (let h = sample_port (i2c_env hw) p ((htu_dev s)\<lparr>hout := packets s\<rparr>) in s\<lparr>htu_dev := h, packets := hout h\<rparr>)"

definition notify_stage :: "u8 list \<Rightarrow> u8 list \<Rightarrow> sampler \<Rightarrow> sampler" where
  "notify_stage reset_pulse config s =
     (let (n, p) = ble_sensors_update reset_pulse config (packets s) in s\<lparr>packets := p, notified := notified s @ [n]\<rparr>)"

text \<open>
  The body of the endless loop. The conversion started first ends in the interrupt of Analog, taken to arrive before the readings that follow; an error of the
  converter or of the meter ends in the error handler.
\<close>

definition sensors_round :: "hardware \<Rightarrow> u8 list \<Rightarrow> u8 list \<Rightarrow> sampler \<Rightarrow> sampler option" where
  "sensors_round hw reset_pulse config s =
     (if convert_err hw \<noteq> 0 then None
      else let s1 = s\<lparr>packets := saadc_callback (conversion_done hw) (samples hw) (packets s)\<rparr>;
               s2 = thermostat_stage hw (temperature_stage hw s1)
           in map_option (\<lambda>s3. notify_stage reset_pulse config (port_stage hw 6 (port_stage hw 4 (port_stage hw 2 s3))))
                (meter_stage hw config s2))"

section \<open>No driver disturbs another\<close>

context store_relation
begin

lemma temperature_stage: "R temperature_fields (packets s) (packets (temperature_stage hw s))"
proof -
  have r: "R temperature_fields (out (snd ts)) (out (snd (read_temperature n f env x ts)))"
    if "f \<in> temperature_fields" "n \<le> circuit_of f" for n f env x ts
    by (rule mono [OF read_temperature]) (use that in simp_all)
  have m: "R temperature_fields p (out (snd (read_temperature n f env x ts)))"
    if "R temperature_fields p (out (snd ts))" "f \<in> temperature_fields" "n \<le> circuit_of f" for p n f env x ts
    using same [OF that(1) r [OF that(2,3)]] .
  have "R temperature_fields (out (snd ts)) (out (snd (read_temperatures env ts)))" for env ts
    unfolding read_temperatures_def Read_Temperature_sltc11_def Read_Temperature_lltc11_def Read_Temperature_sltc21_def
      Read_Temperature_lltc21_def Read_Temperature_sltc31_def Read_Temperature_lltc31_def Read_Temperature_sltc41_def Read_Temperature_lltc41_def
    by (intro m r) (simp_all add: temperature_fields_def circuit_of_def)
  from this [of "(onewire s, \<lparr>chan = tchans s, out = packets s\<rparr>)"] show ?thesis
    by (simp add: temperature_stage_def split_beta)
qed

lemma thermostat_stage: "R {wire1_orange, wire2_white, wire3_yellow} (packets s) (packets (thermostat_stage hw s))"
  using thermostat [of "(wires s, packets s)"] by (simp add: thermostat_stage_def split_beta)

lemma port_stage: "R (port_fields p) (packets s) (packets (port_stage hw p s))"
  using sample_port [of p "(htu_dev s)\<lparr>hout := packets s\<rparr>"] by (simp add: port_stage_def Let_def)

lemma meter_stage: "meter_stage hw config s = Some t \<Longrightarrow> R meter_fields (packets s) (packets t)"
  using energy [of "meter_env hw" "behind_cmd hw" "same_string hw" config "(meter_dev s)\<lparr>pout := packets s\<rparr>"]
  by (auto simp: meter_stage_def)

end

lemma only_in_keep: "only_in F s t \<Longrightarrow> G \<inter> F = {} \<Longrightarrow> \<forall>f \<in> G. pval (state_of k t) f = pval (state_of k s) f"
  by (auto simp del: state_of.simps dest: only_inD)

lemma only_in_key: "only_in F s t \<Longrightarrow> pkey (state_of k t) = pkey (state_of k s)"
  by (simp add: only_in_def del: state_of.simps)

text \<open>The stages of a round, one after the other: what lies before a stage is kept up to the end.\<close>

abbreviation wire_fields :: "sfield set" where
  "wire_fields \<equiv> {wire1_orange, wire2_white, wire3_yellow}"

definition round_stages :: "hardware \<Rightarrow> u8 list \<Rightarrow> sampler \<Rightarrow> sampler \<Rightarrow> sampler \<Rightarrow> sampler \<Rightarrow> sampler \<Rightarrow> sampler \<Rightarrow> sampler \<Rightarrow> bool" where
  "round_stages hw config a b c d e f g \<longleftrightarrow> b = temperature_stage hw a \<and> c = thermostat_stage hw b \<and> meter_stage hw config c = Some d \<and>
     e = port_stage hw 2 d \<and> f = port_stage hw 4 e \<and> g = port_stage hw 6 f"

lemma port_pairs: "port_fields 2 = {oadb10, oarh10}" "port_fields 4 = {radb10, rarh10}" "port_fields 6 = {sadb10, sarh10}"
  by (auto simp: temp_field_def hum_field_def)

lemma stages_keep:
  assumes "round_stages hw config a b c d e f g"
  shows "only_in {sadb10, sarh10} (packets f) (packets g)" "only_in ({radb10, rarh10} \<union> {sadb10, sarh10}) (packets e) (packets g)"
    "only_in ({oadb10, oarh10} \<union> ({radb10, rarh10} \<union> {sadb10, sarh10})) (packets d) (packets g)"
    "only_in (meter_fields \<union> ({oadb10, oarh10} \<union> ({radb10, rarh10} \<union> {sadb10, sarh10}))) (packets c) (packets g)"
    "only_in (wire_fields \<union> (meter_fields \<union> ({oadb10, oarh10} \<union> ({radb10, rarh10} \<union> {sadb10, sarh10})))) (packets b) (packets g)"
    "only_in (temperature_fields \<union> (wire_fields \<union> (meter_fields \<union> ({oadb10, oarh10} \<union> ({radb10, rarh10} \<union> {sadb10, sarh10}))))) (packets a) (packets g)"
proof -
  have m: "meter_stage hw config c = Some d" and st: "b = temperature_stage hw a" "c = thermostat_stage hw b" "e = port_stage hw 2 d"
    "f = port_stage hw 4 e" "g = port_stage hw 6 f"
    using assms unfolding round_stages_def by blast+
  have st: "only_in temperature_fields (packets a) (packets b)" "only_in wire_fields (packets b) (packets c)"
    "only_in meter_fields (packets c) (packets d)" "only_in {oadb10, oarh10} (packets d) (packets e)"
    "only_in {radb10, rarh10} (packets e) (packets f)" "only_in {sadb10, sarh10} (packets f) (packets g)"
    using only.temperature_stage [of a hw] only.thermostat_stage [of b hw] only.meter_stage [OF m]
      only.port_stage [of 2 d hw] only.port_stage [of 4 e hw] only.port_stage [of 6 f hw]
    by (simp_all only: st [symmetric] port_pairs)
  show f: "only_in {sadb10, sarh10} (packets f) (packets g)" by (rule st(6))
  show e: "only_in ({radb10, rarh10} \<union> {sadb10, sarh10}) (packets e) (packets g)" by (rule only_in_trans [OF st(5) f])
  show d: "only_in ({oadb10, oarh10} \<union> ({radb10, rarh10} \<union> {sadb10, sarh10})) (packets d) (packets g)" by (rule only_in_trans [OF st(4) e])
  show c: "only_in (meter_fields \<union> ({oadb10, oarh10} \<union> ({radb10, rarh10} \<union> {sadb10, sarh10}))) (packets c) (packets g)"
    by (rule only_in_trans [OF st(3) d])
  show b: "only_in (wire_fields \<union> (meter_fields \<union> ({oadb10, oarh10} \<union> ({radb10, rarh10} \<union> {sadb10, sarh10})))) (packets b) (packets g)"
    by (rule only_in_trans [OF st(2) c])
  show "only_in (temperature_fields \<union> (wire_fields \<union> (meter_fields \<union> ({oadb10, oarh10} \<union> ({radb10, rarh10} \<union> {sadb10, sarh10}))))) (packets a) (packets g)"
    by (rule only_in_trans [OF st(1) b])
qed

lemma stages_notify_nothing: "round_stages hw config a b c d e f g \<Longrightarrow> notified g = notified a"
  by (auto simp: round_stages_def port_stage_def meter_stage_def thermostat_stage_def temperature_stage_def split_beta Let_def)

lemma channel_field: "i < 8 \<Longrightarrow> fst (channels ! i) \<in> pressure_fields"
proof -
  assume "i < 8"
  then have "i \<in> {0, 1, 2, 3, 4, 5, 6, 7}" by auto
  then show ?thesis by (elim insertE emptyE) (simp_all add: channels_def pressure_fields_def)
qed

lemma pressures_last:
  assumes "round_stages hw config a b c d e f g" "packets a = saadc_callback True (samples hw) s" "i < 8" "channels ! i = (x, n, gain, offset)" "n \<le> k" "k \<in> {1..4}"
  shows "x \<notin> meter_fields" "pval (state_of k (packets g)) x = Fin (pressure_q gain offset (sint (samples hw ! i)))"
proof -
  have "x \<in> pressure_fields" using channel_field [OF assms(3)] assms(4) by simp
  then have x: "x \<notin> meter_fields" "pval (state_of k (packets g)) x = pval (state_of k (packets a)) x"
    by (auto simp: temperature_fields_def meter_fields_def pressure_fields_def simp del: state_of.simps intro!: only_inD [OF stages_keep(6) [OF assms(1)]])
  show "x \<notin> meter_fields" by (rule x(1))
  show "pval (state_of k (packets g)) x = Fin (pressure_q gain offset (sint (samples hw ! i)))"
    using callback_stores [OF assms(3,4), of k "samples hw" s] assms(2,5,6) x(2) by (simp del: state_of.simps)
qed

text \<open>
  C11: One round of the sensors task for a configured system: the app is notified exactly once, with the packet of that system, which carries
  in every field the value its own driver left there in this round, no driver disturbing another's: the pressures
  the converter's samples stand for, the temperatures after the eight readers, the wires, the meter's registers
  (\<open>lost\<close> in the phases the system does not have), and temperature and humidity of each of the three air sensors; the keys are untouched.
\<close>

theorem round_notifies_all_readings:
  assumes "sensors_round hw reset_pulse (ascii (config_text k p v q) @ 0 # r) s = Some s'" "conversion_done hw"
    and "k \<in> {1..4}" "(p, v, q, missing) \<in> set missing_phases" "\<not> str_is reset_pulse ''reset_pulse!''"
  shows "let sampled = s\<lparr>packets := saadc_callback True (samples hw) (packets s)\<rparr>;
      temps = temperature_stage hw sampled; wired = thermostat_stage hw temps
    in \<exists>metered P. meter_stage hw (ascii (config_text k p v q) @ 0 # r) wired = Some metered \<and>
      notified s' = notified s @ [Some (sizeof_state k, serialise k P)] \<and> pkey P = pkey (state_of k (packets s)) \<and>
      (\<forall>i < 8. let (f, n, gain, offset) = channels ! i
         in n \<le> k \<longrightarrow> pval P f = Fin (pressure_q gain offset (sint (samples hw ! i)))) \<and>
      (\<forall>f \<in> temperature_fields. pval P f = pval (state_of k (packets temps)) f) \<and>
      (\<forall>f \<in> {wire1_orange, wire2_white, wire3_yellow}. pval P f = pval (state_of k (packets wired)) f) \<and>
      (\<forall>f \<in> meter_fields. pval P f = (if f \<in> set missing then lost_value else pval (state_of k (packets metered)) f)) \<and>
      (\<forall>f \<in> port_fields 2. pval P f = pval (state_of k (packets (port_stage hw 2 metered))) f) \<and>
      (\<forall>f \<in> port_fields 4. pval P f = pval (state_of k (packets (port_stage hw 4 (port_stage hw 2 metered)))) f) \<and>
      (\<forall>f \<in> port_fields 6. pval P f = pval (state_of k (packets (port_stage hw 6 (port_stage hw 4 (port_stage hw 2 metered))))) f)"
proof -
  define config where "config = ascii (config_text k p v q) @ 0 # r"
  define a where "a = s\<lparr>packets := saadc_callback True (samples hw) (packets s)\<rparr>"
  define b where "b = temperature_stage hw a"
  define c where "c = thermostat_stage hw b"
  obtain d where d: "meter_stage hw config c = Some d"
    and s': "s' = notify_stage reset_pulse config (port_stage hw 6 (port_stage hw 4 (port_stage hw 2 d)))"
    using assms(1,2) by (auto simp: sensors_round_def Let_def a_def b_def c_def config_def split: if_splits)
  define e where "e = port_stage hw 2 d"
  define f where "f = port_stage hw 4 e"
  define g where "g = port_stage hw 6 f"
  define P where "P = blank missing (state_of k (packets g))"
  have st: "round_stages hw config a b c d e f g" using d by (simp add: round_stages_def b_def c_def e_def f_def g_def)
  have pa: "packets a = saadc_callback True (samples hw) (packets s)" by (simp add: a_def)
  note fields = temperature_fields_def meter_fields_def
  have "set missing \<subseteq> meter_fields" using assms(4) by (auto simp: missing_phases_def meter_fields_def)
  then have P: "pval P x = pval (state_of k (packets g)) x" if "x \<notin> meter_fields" for x
    using that by (auto simp: P_def simp del: state_of.simps)
  have press: "\<forall>i<8. case channels ! i of (x, n, gain, offset) \<Rightarrow> n \<le> k \<longrightarrow> pval P x = Fin (pressure_q gain offset (sint (samples hw ! i)))"
    using pressures_last [OF st pa _ _ _ assms(3)] P by (auto simp del: state_of.simps split: prod.splits)
  have keys: "pkey P = pkey (state_of k (packets s))"
    using only_in_key [OF stages_keep(6) [OF st], of k] only_in_key [OF saadc.writes [where s = "packets s" and is_done = True and buffer = "samples hw"], of k]
    by (simp add: P_def a_def del: state_of.simps)
  have "ble_sensors_update reset_pulse config (packets g) = notify k missing (packets g)"
    using update_selected [OF config_no_nul assms(5), of k p v q r "packets g"] config_selected [OF assms(3,4)] by (simp add: config_def)
  then have sent: "notified s' = notified s @ [Some (sizeof_state k, serialise k P)]"
    using stages_notify_nothing [OF st] set_state_simps [OF assms(3,3)]
    unfolding s' e_def [symmetric] f_def [symmetric] g_def [symmetric] by (simp add: notify_stage_def notify_def Let_def P_def a_def del: state_of.simps)
  have temps: "\<forall>x \<in> temperature_fields. pval P x = pval (state_of k (packets b)) x"
    using only_in_keep [OF stages_keep(5) [OF st], of temperature_fields k] P by (auto simp: fields simp del: state_of.simps)
  have wired: "\<forall>x \<in> wire_fields. pval P x = pval (state_of k (packets c)) x"
    using only_in_keep [OF stages_keep(4) [OF st], of wire_fields k] P by (auto simp: fields simp del: state_of.simps)
  have metered: "\<forall>x \<in> meter_fields. pval P x = (if x \<in> set missing then lost_value else pval (state_of k (packets d)) x)"
    using only_in_keep [OF stages_keep(3) [OF st], of meter_fields k] by (auto simp: P_def fields simp del: state_of.simps)
  have air: "\<forall>x \<in> {oadb10, oarh10}. pval P x = pval (state_of k (packets e)) x"
    "\<forall>x \<in> {radb10, rarh10}. pval P x = pval (state_of k (packets f)) x" "\<forall>x \<in> {sadb10, sarh10}. pval P x = pval (state_of k (packets g)) x"
    using only_in_keep [OF stages_keep(2) [OF st], of "{oadb10, oarh10}" k] only_in_keep [OF stages_keep(1) [OF st], of "{radb10, rarh10}" k] P
    by (auto simp: fields simp del: state_of.simps)
  show ?thesis
    unfolding Let_def config_def [symmetric] a_def [symmetric] b_def [symmetric] c_def [symmetric]
    by (rule exI [of _ d], rule exI [of _ P], intro conjI)
      (use d sent keys press temps wired metered air in \<open>simp_all only: port_pairs e_def [symmetric] f_def [symmetric] g_def [symmetric]\<close>)
qed

definition demo_hw :: hardware where
  "demo_hw = \<lparr>one_wire_env = (\<lambda>_. False), thermostat_env = (\<lambda>_ _. False), meter_env = meter_answers (\<lambda>_. 0), behind_cmd = (\<lambda>_. [0, 0]),
     same_string = (=), i2c_env = (\<lambda>_ _. (1, None)), convert_err = 0, conversion_done = True, samples = 2505 # replicate 7 0\<rparr>"

definition demo_sampler :: sampler where
  "demo_sampler = \<lparr>packets = init_sensors, onewire = [], tchans = (\<lambda>_. zero_chan), wires = [],
     meter_dev = \<lparr>m_rx_buf = [], m_rx_buf2 = [], pout = init_sensors, spi_log = []\<rparr>, htu_dev = init_htu, notified = []\<rparr>"

lemma meter_answers_round: "\<exists>m. energy_measurement (meter_answers regs) behind same config s = Some m"
  by (cases "same (config ! 23) 0x31") (simp_all add: energy_measurement_def step_defs conversions del: state_of.simps)

lemma round_notifies_all_readings_witness:
  "\<exists>s' P. sensors_round demo_hw (replicate 30 0) (ascii (config_text 1 1 120 60) @ [0]) demo_sampler = Some s' \<and>
     notified s' = [Some (sizeof_state 1, serialise 1 P)] \<and> pval P spc11 = Fin (pressure_q 10 (22 / 10) 2505) \<and> pval P uUei2 = lost_value"
proof -
  have e: "convert_err demo_hw = 0" "conversion_done demo_hw" "samples demo_hw = 2505 # replicate 7 0" by (simp_all add: demo_hw_def)
  have "\<exists>u. meter_stage demo_hw config t = Some u" for config t
    using meter_answers_round by (simp add: meter_stage_def demo_hw_def)
  then obtain s' where s': "sensors_round demo_hw (replicate 30 0) (ascii (config_text 1 1 120 60) @ [0]) demo_sampler = Some s'"
    using e by (fastforce simp: sensors_round_def Let_def)
  have m: "(1, 120, 60, [uUei2, uUei3, iUei2, iUei3]) \<in> set missing_phases" by (simp add: missing_phases_def)
  have r: "\<not> str_is (replicate 30 0) ''reset_pulse!''" by code_simp
  have k: "(1 :: nat) \<in> {1..4}" by simp
  have v: "sint (2505 :: 16 word) = 2505" by code_simp
  from round_notifies_all_readings [OF s' e(2) k m r] obtain metered :: sampler and P where
    n: "notified s' = notified demo_sampler @ [Some (sizeof_state 1, serialise 1 P)]" and
    p: "\<forall>i < 8. case channels ! i of (f, n, gain, offset) \<Rightarrow> n \<le> 1 \<longrightarrow> pval P f = Fin (pressure_q gain offset (sint (samples demo_hw ! i)))" and
    l: "\<forall>f \<in> meter_fields. pval P f = (if f \<in> set [uUei2, uUei3, iUei2, iUei3] then lost_value else pval (state_of 1 (packets metered)) f)"
    unfolding Let_def by (elim exE conjE) (rule that, assumption+)
  have "pval P spc11 = Fin (pressure_q 10 (22 / 10) 2505)" using p [THEN spec, of 0] by (simp add: e v channels_def)
  moreover have "pval P uUei2 = lost_value" using l [THEN bspec, of uUei2] by (simp add: meter_fields_def)
  moreover have "notified s' = [Some (sizeof_state 1, serialise 1 P)]" using n by (simp add: demo_sampler_def)
  ultimately show ?thesis using s' by blast
qed


section \<open>Agreement of the packets\<close>

lemma meter_stage_agree:
  assumes "meter_stage hw config s = Some t" "agree E (packets s)" shows "agree (E \<union> meter_fields) (packets t)"
proof -
  obtain m where m: "energy_measurement (meter_env hw) (behind_cmd hw) (same_string hw) config ((meter_dev s)\<lparr>pout := packets s\<rparr>) = Some m"
    "packets t = pout m" using assms(1) by (auto simp: meter_stage_def)
  from energy_pout [OF m(1)] obtain u1 u2 u3 i1 i2 i3 f w where p: "pout m =
     store_from 1 activeWatts w (store_from 1 powerFactor f (store_from 1 iUei3 i3 (store_from 1 iUei2 i2 (store_from 1 iUei1 i1
       (store_from 1 uUei3 u3 (store_from 1 uUei2 u2 (store_from 1 uUei1 u1 (pout ((meter_dev s)\<lparr>pout := packets s\<rparr>)))))))))" .
  have "agree (insert activeWatts (insert powerFactor (insert iUei3 (insert iUei2 (insert iUei1 (insert uUei3 (insert uUei2 (insert uUei1 E))))))))
      (pout m)" unfolding p by (intro agree_store) (simp_all add: assms(2))
  then show ?thesis unfolding m(2) by (rule agree_mono) (auto simp: meter_fields_def)
qed

text \<open>After a round every field but the blanked phases agrees, in the packet that was notified and in the fourth.\<close>

lemma round_agree:
  assumes "sensors_round hw reset_pulse (ascii (config_text k p v q) @ 0 # r) s = Some s'"
    and "k \<in> {1..4}" "(p, v, q, missing) \<in> set missing_phases" "\<not> str_is reset_pulse ''reset_pulse!''"
    and "agree (- meter_fields) (packets s)"
  shows "agree (- set missing) (packets s')" "\<exists>n P. notified s' = n @ [Some (sizeof_state k, serialise k P)] \<and>
     (\<forall>f. f \<notin> set missing \<and> circuit_of f \<le> k \<longrightarrow> pval P f = pval (sensors_state4 (packets s')) f)"
proof -
  define a where "a = s\<lparr>packets := saadc_callback (conversion_done hw) (samples hw) (packets s)\<rparr>"
  define c where "c = thermostat_stage hw (temperature_stage hw a)"
  obtain d where d: "meter_stage hw (ascii (config_text k p v q) @ 0 # r) c = Some d"
    and s': "s' = notify_stage reset_pulse (ascii (config_text k p v q) @ 0 # r) (port_stage hw 6 (port_stage hw 4 (port_stage hw 2 d)))"
    using assms(1) by (auto simp: sensors_round_def Let_def a_def c_def split: if_splits)
  define g where "g = port_stage hw 6 (port_stage hw 4 (port_stage hw 2 d))"
  have "agree (- meter_fields) (packets c)"
    using assms(5) spread.saadc spread.temperature_stage [where s = a and hw = hw] spread.thermostat_stage [where s = "temperature_stage hw a" and hw = hw]
    by (simp add: c_def a_def)
  from meter_stage_agree [OF d this] have "agree UNIV (packets d)" by simp
  then have g: "agree UNIV (packets g)"
    using spread.port_stage [where p = "2" and s = d and hw = hw] spread.port_stage [where p = "4" and s = "port_stage hw 2 d" and hw = hw]
      spread.port_stage [where p = "6" and s = "port_stage hw 4 (port_stage hw 2 d)" and hw = hw]
    unfolding g_def by blast
  have u: "ble_sensors_update reset_pulse (ascii (config_text k p v q) @ 0 # r) (packets g) = notify k missing (packets g)"
    using update_selected [OF config_no_nul assms(4), of k p v q r "packets g"] config_selected [OF assms(2,3)] by simp
  have s'g: "notified s' = notified g @ [Some (sizeof_state k, serialise k (state_of k (set_state k (blank missing) (packets g))))]"
    "packets s' = set_state k (blank missing) (packets g)"
    using u by (simp_all add: s' g_def [symmetric] notify_stage_def notify_def Let_def)
  have set: "pval (state_of j (packets s')) f = pval (state_of j (packets g)) f" if "f \<notin> set missing" for j f
  proof -
    have "pval (state_of j (packets s')) f = pval (state_of j (packets g)) f" if "j \<in> {1..4}" for j
      using \<open>f \<notin> set missing\<close> set_state_simps [OF assms(2) that] unfolding s'g(2) by (simp del: state_of.simps)
    from this [of j] this [of 4] show ?thesis by (cases "j \<in> {1..4}") auto
  qed
  show "agree (- set missing) (packets s')" using g set unfolding agree_def by (simp del: state_of.simps)
  have "pval (state_of k (packets s')) f = pval (sensors_state4 (packets s')) f" if "f \<notin> set missing" "circuit_of f \<le> k" for f
    using g set [OF that(1), of k] set [OF that(1), of 4] that(2) unfolding agree_def by (simp del: state_of.simps add: state_of.simps [of 4])
  then show "\<exists>n P. notified s' = n @ [Some (sizeof_state k, serialise k P)] \<and>
     (\<forall>f. f \<notin> set missing \<and> circuit_of f \<le> k \<longrightarrow> pval P f = pval (sensors_state4 (packets s')) f)"
    using s'g by (intro exI [of _ "notified g"] exI [of _ "state_of k (packets s')"]) (simp del: state_of.simps)
qed

end
