(* ===== verification/Winc_Netif.thy ===== *)
theory Winc_Netif
  imports Prelude
begin

text \<open>
  The lwIP side of the WiFi chip, winc1500netif/winc1500netif.c: assembling received frames in chains of pool buffers, sending,
  and the initialisation. Buffers are blocks of a heap named by the number of their allocation; whether the pool has one left, and what an
  unused one contains, is a parameter. The loop of the chip's driver that receives a frame piece by piece and calls back, in m2m_wifi.c, is modelled too.
\<close>

section \<open>Buffers and state\<close>

definition PBUF_POOL_BUFSIZE :: nat where "PBUF_POOL_BUFSIZE = 256"
definition ETH_PAD_SIZE :: nat where "ETH_PAD_SIZE = 2"
definition WINC_RX_BUF_SZ :: nat where "WINC_RX_BUF_SZ = PBUF_POOL_BUFSIZE - ETH_PAD_SIZE"

record pbuf =
  payload :: "u8 list"
  plen :: nat
  tot_len :: nat
  pnext :: "nat option"

type_synonym heap = "nat \<Rightarrow> pbuf"

text \<open>Where the driver puts the next bytes: the buffer of network.c, \<open>rx_buf\<close>, or a pool buffer from an offset on.\<close>

datatype place = EthBuffer | RxBuf | InPbuf nat nat

text \<open>A frame handed to lwIP is the first buffer of a chain and the heap as it is then.\<close>

datatype winc_ev = Input nat heap | PbufFree nat

record winc =
  blocks :: heap
  n_alloc :: nat
  rx_first :: "nat option"
  rx_last :: "nat option"
  rx_buf :: "u8 list"
  eth_buffer :: "u8 list"
  rcv_buf :: place
  rcv_size :: nat
  wevs :: "winc_ev list"

type_synonym pool = "nat \<Rightarrow> u8 list option"

text \<open>\<open>pbuf_alloc(PBUF_RAW, PBUF_POOL_BUFSIZE, PBUF_POOL)\<close>\<close>

definition pbuf_alloc :: "pool \<Rightarrow> winc \<Rightarrow> nat option \<times> winc" where
  "pbuf_alloc pool s =
     (let i = n_alloc s; s1 = s\<lparr>n_alloc := i + 1\<rparr>
      in case pool i of
           None \<Rightarrow> (None, s1)
         | Some content \<Rightarrow> (Some i, s1\<lparr>blocks := (blocks s)(i := \<lparr>payload = content, plen = 256, tot_len = 256, pnext = None\<rparr>)\<rparr>))"

definition set_block :: "nat \<Rightarrow> (pbuf \<Rightarrow> pbuf) \<Rightarrow> winc \<Rightarrow> winc" where
  "set_block i f s = s\<lparr>blocks := (blocks s)(i := f (blocks s i))\<rparr>"

definition set_receive_buffer :: "place \<Rightarrow> nat \<Rightarrow> winc \<Rightarrow> winc" where
  "set_receive_buffer b sz s = s\<lparr>rcv_buf := b, rcv_size := sz\<rparr>"

section \<open>Receiving\<close>

text \<open>
  \<open>winc_netif_rx_callback\<close> for an Ethernet packet, with \<open>sz\<close> bytes received and \<open>rem\<close> still to come; \<open>input_ok\<close> is whether lwIP
  takes a frame. The first buffer: when none is there yet, the bytes are in \<open>rx_buf\<close> and are copied.
\<close>

definition first_buffer :: "pool \<Rightarrow> nat \<Rightarrow> winc \<Rightarrow> (bool \<times> winc) res" where
  "first_buffer pool sz s =
     (if rx_first s \<noteq> None then Inr (True, s)
      else let (p, s1) = pbuf_alloc pool s; s2 = s1\<lparr>rx_first := p, rx_last := p\<rparr>
           in case p of
                None \<Rightarrow> Inr (False, set_receive_buffer RxBuf WINC_RX_BUF_SZ s2)
              | Some i \<Rightarrow>
                  if length (rx_buf s2) < sz then Inl Overread
                  else if length (payload (blocks s2 i)) < ETH_PAD_SIZE + sz then Inl Overwrite
                  else Inr (True, set_block i (\<lambda>b. b\<lparr>payload := overwrite ETH_PAD_SIZE (take sz (rx_buf s2)) (payload b)\<rparr>) s2))"

definition deliver :: "(heap \<Rightarrow> nat \<Rightarrow> bool) \<Rightarrow> nat \<Rightarrow> winc \<Rightarrow> winc" where
  "deliver input_ok i s =
     (if input_ok (blocks s) i then s\<lparr>wevs := wevs s @ [Input i (blocks s)]\<rparr> else s\<lparr>wevs := wevs s @ [PbufFree i]\<rparr>)"

text \<open>The end: the driver gets the next buffer, behind the padding when it is the first of a chain.\<close>

definition reload :: "nat option \<Rightarrow> winc \<Rightarrow> winc" where
  "reload p s0 =
     (let s = s0\<lparr>rx_last := p\<rparr>
      in if rx_first s = rx_last s
         then set_receive_buffer (case rx_first s of None \<Rightarrow> RxBuf | Some i \<Rightarrow> InPbuf i ETH_PAD_SIZE) (PBUF_POOL_BUFSIZE - ETH_PAD_SIZE) s
         else set_receive_buffer (case p of None \<Rightarrow> RxBuf | Some i \<Rightarrow> InPbuf i 0) PBUF_POOL_BUFSIZE s)"

definition rx_packet :: "pool \<Rightarrow> (heap \<Rightarrow> nat \<Rightarrow> bool) \<Rightarrow> nat \<Rightarrow> nat \<Rightarrow> winc \<Rightarrow> winc" where
  "rx_packet pool input_ok sz0 rem s0 =
     (let (p, s) = pbuf_alloc pool s0; first = the (rx_first s); lst = the (rx_last s);
          is_first = (rx_first s = rx_last s);
          sz = (if is_first then sz0 + ETH_PAD_SIZE else sz0);
          s1 = (if is_first then set_block lst (\<lambda>b. b\<lparr>tot_len := (sz + rem) mod 65536\<rparr>) s else s);
          s2 = set_block lst (\<lambda>b. b\<lparr>plen := sz\<rparr>) s1
      in if rem = 0 then reload p ((deliver input_ok first s2)\<lparr>rx_first := p\<rparr>)
         else case p of
                None \<Rightarrow> set_receive_buffer RxBuf WINC_RX_BUF_SZ (s2\<lparr>wevs := wevs s2 @ [PbufFree first], rx_first := None\<rparr>)
              | Some i \<Rightarrow> reload p (set_block lst (\<lambda>b. b\<lparr>pnext := p\<rparr>) (set_block i (\<lambda>b. b\<lparr>tot_len := rem\<rparr>) s2)))"

definition winc_netif_rx_callback :: "pool \<Rightarrow> (heap \<Rightarrow> nat \<Rightarrow> bool) \<Rightarrow> nat \<Rightarrow> nat \<Rightarrow> winc \<Rightarrow> winc res" where
  "winc_netif_rx_callback pool input_ok sz rem s =
     res_bind (first_buffer pool sz s) (\<lambda>(ok, s1). Inr (if ok then rx_packet pool input_ok sz rem s1 else s1))"

section \<open>The driver's loop\<close>

text \<open>The bytes of a transfer land where the driver was told to put them.\<close>

definition land_bytes :: "u8 list \<Rightarrow> winc \<Rightarrow> winc" where
  "land_bytes bs s = (case rcv_buf s of
       EthBuffer \<Rightarrow> s\<lparr>eth_buffer := overwrite 0 bs (eth_buffer s)\<rparr>
     | RxBuf \<Rightarrow> s\<lparr>rx_buf := overwrite 0 bs (rx_buf s)\<rparr>
     | InPbuf i k \<Rightarrow> set_block i (\<lambda>b. b\<lparr>payload := overwrite k bs (payload b)\<rparr>) s)"

text \<open>
  \<open>do ... while (remaining > 0)\<close> over the rest of the packet; \<open>hif_ok\<close> is whether the transfer that leaves so many bytes succeeds. The receive
  buffer always has room, so every turn takes something; the fuel is the number of turns.
\<close>

fun eth_loop :: "pool \<Rightarrow> (heap \<Rightarrow> nat \<Rightarrow> bool) \<Rightarrow> (nat \<Rightarrow> bool) \<Rightarrow> nat \<Rightarrow> u8 list \<Rightarrow> winc \<Rightarrow> winc res" where
  "eth_loop pool input_ok hif_ok 0 data s = Inr s"
| "eth_loop pool input_ok hif_ok (Suc fuel) data s =
     (let n = min (length data) (rcv_size s); rest = drop n data
      in if \<not> hif_ok (length rest) then Inr s
         else res_bind (winc_netif_rx_callback pool input_ok n (length rest) (land_bytes (take n data) s)) (\<lambda>s1.
           if rest = [] then Inr s1 else eth_loop pool input_ok hif_ok fuel rest s1))"

definition receive_packet :: "pool \<Rightarrow> (heap \<Rightarrow> nat \<Rightarrow> bool) \<Rightarrow> (nat \<Rightarrow> bool) \<Rightarrow> u8 list \<Rightarrow> winc \<Rightarrow> winc res" where
  "receive_packet pool input_ok hif_ok data s = eth_loop pool input_ok hif_ok (Suc (length data)) data s"

text \<open>The state at start, and the buffer network.c registers for it: 2048 bytes that the callback never looks at.\<close>

definition init_winc :: winc where
  "init_winc = \<lparr>blocks = (\<lambda>_. \<lparr>payload = [], plen = 0, tot_len = 0, pnext = None\<rparr>), n_alloc = 0, rx_first = None, rx_last = None,
     rx_buf = replicate 254 0, eth_buffer = replicate 2048 0, rcv_buf = EthBuffer, rcv_size = 2048, wevs = []\<rparr>"

section \<open>Chains\<close>

text \<open>The buffers of a chain, what they hold, and the total lengths lwIP expects: of a buffer, the bytes from there on.\<close>

fun linked :: "heap \<Rightarrow> nat list \<Rightarrow> bool" where
  "linked h [] = True"
| "linked h [i] = (pnext (h i) = None)"
| "linked h (i # j # is) = (pnext (h i) = Some j \<and> linked h (j # is))"

definition held :: "pbuf \<Rightarrow> u8 list" where
  "held b = take (plen b) (payload b)"

definition chain_bytes :: "heap \<Rightarrow> nat list \<Rightarrow> u8 list" where
  "chain_bytes h is = concat (map (\<lambda>i. held (h i)) is)"

fun totals :: "heap \<Rightarrow> nat list \<Rightarrow> nat \<Rightarrow> bool" where
  "totals h [] n \<longleftrightarrow> n = 0"
| "totals h (i # is) n \<longleftrightarrow> tot_len (h i) = n \<and> plen (h i) \<le> n \<and> plen (h i) = length (held (h i)) \<and> totals h is (n - plen (h i))"

text \<open>A buffer chain as lwIP gets it: from its first buffer, following the links.\<close>

fun follow :: "nat \<Rightarrow> heap \<Rightarrow> nat option \<Rightarrow> nat list" where
  "follow 0 h p = []"
| "follow (Suc k) h None = []"
| "follow (Suc k) h (Some i) = i # follow k h (pnext (h i))"

definition frame_bytes :: "heap \<Rightarrow> nat \<Rightarrow> u8 list" where
  "frame_bytes h i = drop ETH_PAD_SIZE (chain_bytes h (follow (Suc (tot_len (h i))) h (Some i)))"

definition frame_ok :: "heap \<Rightarrow> nat \<Rightarrow> bool" where
  "frame_ok h i \<longleftrightarrow> totals h (follow (Suc (tot_len (h i))) h (Some i)) (tot_len (h i))"

lemma linked_append:
  "linked h (is @ [i]) \<Longrightarrow> i \<noteq> j \<Longrightarrow> j \<notin> set is \<Longrightarrow> i \<notin> set is \<Longrightarrow> pnext (h' i) = Some j \<Longrightarrow> pnext (h' j) = None \<Longrightarrow>
   (\<And>k. k \<in> set is \<Longrightarrow> pnext (h' k) = pnext (h k)) \<Longrightarrow> linked h' (is @ [i, j])"
proof (induction "is")
  case (Cons k ks)
  then show ?case by (cases ks) auto
qed simp

lemma follow_linked: "linked h (i # is) \<Longrightarrow> length is < k \<Longrightarrow> follow k h (Some i) = i # is"
proof (induction "is" arbitrary: i k)
  case Nil
  then obtain m where "k = Suc m" by (cases k) auto
  then show ?case using Nil by (cases m) auto
next
  case (Cons j js)
  then obtain m where "k = Suc m" by (cases k) auto
  then show ?case using Cons by simp
qed

lemma linked_cong: "(\<And>k. k \<in> set is \<Longrightarrow> pnext (h' k) = pnext (h k)) \<Longrightarrow> linked h' is = linked h is"
  by (induction h "is" rule: linked.induct) simp_all

lemma chain_cong: "(\<And>k. k \<in> set is \<Longrightarrow> held (h' k) = held (h k)) \<Longrightarrow> chain_bytes h' is = chain_bytes h is"
  by (simp add: chain_bytes_def cong: map_cong)

text \<open>Open chains: all buffers but the last are complete, \<open>n\<close> is the length of the whole frame.\<close>

fun totals_open :: "heap \<Rightarrow> nat list \<Rightarrow> nat \<Rightarrow> nat \<Rightarrow> bool" where
  "totals_open h [] n m \<longleftrightarrow> n = m"
| "totals_open h (i # is) n m \<longleftrightarrow> tot_len (h i) = n \<and> 0 < plen (h i) \<and> plen (h i) \<le> n \<and> plen (h i) = length (held (h i)) \<and>
     totals_open h is (n - plen (h i)) m"

lemma totals_open_cong: "(\<And>k. k \<in> set is \<Longrightarrow> h' k = h k) \<Longrightarrow> totals_open h' is n m = totals_open h is n m"
  by (induction h "is" n m rule: totals_open.induct) simp_all

lemma totals_open_snoc:
  "totals_open h (is @ [i]) n m \<longleftrightarrow> (\<exists>k. totals_open h is n k \<and> tot_len (h i) = k \<and> 0 < plen (h i) \<and> plen (h i) \<le> k \<and>
     plen (h i) = length (held (h i)) \<and> k - plen (h i) = m)"
  by (induction h "is" n m rule: totals_open.induct) auto

lemma totals_open_closed: "totals_open h is n 0 \<Longrightarrow> totals h is n"
  by (induction h "is" n "0 :: nat" rule: totals_open.induct) auto

lemma totals_open_le: "totals_open h is n m \<Longrightarrow> m + length is \<le> n"
proof (induction h "is" n m rule: totals_open.induct)
  case (2 h i "is" n m)
  have p: "0 < plen (h i)" "plen (h i) \<le> n" "totals_open h is (n - plen (h i)) m"
    using 2(2) unfolding totals_open.simps by blast+
  from 2(1) [OF p(3)] p(1,2) show ?case by simp
qed simp

section \<open>One callback\<close>

text \<open>
  A frame of \<open>n\<close> bytes, padding included, under construction: \<open>is\<close> are complete, \<open>l\<close> is the next to be filled, \<open>m\<close> bytes
  are missing.
\<close>

definition pad :: "nat list \<Rightarrow> nat" where
  "pad is = (if is = [] then 2 else 0)"

definition building :: "winc \<Rightarrow> nat list \<Rightarrow> nat \<Rightarrow> nat \<Rightarrow> nat \<Rightarrow> bool" where
  "building s is l n m \<longleftrightarrow> rx_first s = Some (hd (is @ [l])) \<and> rx_last s = Some l \<and> distinct (is @ [l]) \<and>
     (\<forall>i \<in> set (is @ [l]). i < n_alloc s) \<and> linked (blocks s) (is @ [l]) \<and> length (payload (blocks s l)) = 256 \<and>
     totals_open (blocks s) is n m \<and> (is \<noteq> [] \<longrightarrow> tot_len (blocks s l) = m)"

definition waiting :: "winc \<Rightarrow> nat list \<Rightarrow> nat \<Rightarrow> nat \<Rightarrow> nat \<Rightarrow> bool" where
  "waiting s is l n m \<longleftrightarrow> building s is l n m \<and> rcv_buf s = InPbuf l (pad is) \<and> rcv_size s = 256 - pad is"

definition event_of :: "(heap \<Rightarrow> nat \<Rightarrow> bool) \<Rightarrow> heap \<Rightarrow> nat \<Rightarrow> winc_ev" where
  "event_of input_ok h i = (if input_ok h i then Input i h else PbufFree i)"

text \<open>The heap when the last buffer is complete.\<close>

definition completed :: "heap \<Rightarrow> nat list \<Rightarrow> nat \<Rightarrow> nat \<Rightarrow> nat \<Rightarrow> heap" where
  "completed h is l n k = h(l := (h l)\<lparr>tot_len := (if is = [] then n else tot_len (h l)), plen := pad is + k\<rparr>)"

lemma completed_chain:
  assumes "building s is l n m" "0 < pad is + k" "pad is + k \<le> 256" "m = pad is + k + rem"
  defines "h \<equiv> completed (blocks s) is l n k"
  shows "totals_open h (is @ [l]) n rem" "linked h (is @ [l])"
    "chain_bytes h (is @ [l]) = chain_bytes (blocks s) is @ take (pad is + k) (payload (blocks s l))"
proof -
  have b: "l \<notin> set is" "linked (blocks s) (is @ [l])" "length (payload (blocks s l)) = 256" "totals_open (blocks s) is n m"
    "is \<noteq> [] \<longrightarrow> tot_len (blocks s l) = m"
    using assms(1) by (auto simp: building_def)
  have same: "h i = blocks s i" if "i \<in> set is" for i using that b(1) by (auto simp: h_def completed_def)
  have hl: "plen (h l) = pad is + k" "tot_len (h l) = m" "held (h l) = take (pad is + k) (payload (blocks s l))"
    using b(4,5) by (auto simp: h_def completed_def held_def)
  have "totals_open h is n m" using b(4) totals_open_cong [of "is" h "blocks s"] same by blast
  then show "totals_open h (is @ [l]) n rem"
    using assms(2-4) b(3) hl by (auto simp: totals_open_snoc)
  have "pnext (h i) = pnext (blocks s i)" for i by (simp add: h_def completed_def)
  then show "linked h (is @ [l])" using b(2) linked_cong [of "is @ [l]" h "blocks s"] by blast
  show "chain_bytes h (is @ [l]) = chain_bytes (blocks s) is @ take (pad is + k) (payload (blocks s l))"
    using hl(3) same by (simp add: chain_bytes_def cong: map_cong)
qed

lemma is_first_iff: "building s is l n m \<Longrightarrow> (rx_first s = rx_last s) = (is = [])"
  by (cases "is") (auto simp: building_def)

lemma rx_packet_split:
  assumes "building s is l n m" "m = pad is + k + rem" "n < 65536" "pbuf_alloc pool s = (p, t)"
  shows "rx_packet pool input_ok k rem s =
     (let t2 = t\<lparr>blocks := completed (blocks t) is l n k\<rparr>
      in if rem = 0 then reload p ((deliver input_ok (hd (is @ [l])) t2)\<lparr>rx_first := p\<rparr>)
         else case p of
                None \<Rightarrow> set_receive_buffer RxBuf WINC_RX_BUF_SZ (t2\<lparr>wevs := wevs t2 @ [PbufFree (hd (is @ [l]))], rx_first := None\<rparr>)
              | Some i \<Rightarrow> reload p (set_block l (\<lambda>b. b\<lparr>pnext := p\<rparr>) (set_block i (\<lambda>b. b\<lparr>tot_len := rem\<rparr>) t2)))"
proof -
  have f: "rx_first t = rx_first s" "rx_last t = rx_last s"
    using assms(4) by (auto simp: pbuf_alloc_def Let_def split: option.splits)
  have r: "rx_first s = Some (hd (is @ [l]))" "rx_last s = Some l" using assms(1) by (simp_all add: building_def)
  have n: "is = [] \<Longrightarrow> n = m" using assms(1) by (simp add: building_def)
  let ?sz = "if is = [] then k + ETH_PAD_SIZE else k"
  have c: "set_block l (\<lambda>b. b\<lparr>plen := ?sz\<rparr>) (if is = [] then set_block l (\<lambda>b. b\<lparr>tot_len := (?sz + rem) mod 65536\<rparr>) t else t) =
      t\<lparr>blocks := completed (blocks t) is l n k\<rparr>"
    using n assms(2,3) by (cases "is = []") (simp_all add: set_block_def completed_def pad_def ETH_PAD_SIZE_def)
  show ?thesis
    unfolding rx_packet_def assms(4) prod.case Let_def f is_first_iff [OF assms(1)] unfolding r option.sel c ..
qed

lemma pbuf_alloc_frame:
  assumes "pbuf_alloc pool s = (p, t)"
  shows "p = None \<or> p = Some (n_alloc s)" "n_alloc t = Suc (n_alloc s)" "wevs t = wevs s" "rx_buf t = rx_buf s"
    "i < n_alloc s \<Longrightarrow> blocks t i = blocks s i" "rx_first t = rx_first s" "rx_last t = rx_last s"
    "p = Some i \<Longrightarrow> pnext (blocks t i) = None \<and> pool i = Some (payload (blocks t i))"
  using assms by (auto simp: pbuf_alloc_def Let_def split: option.splits)

definition glue_ready :: "winc \<Rightarrow> bool" where
  "glue_ready s \<longleftrightarrow> length (rx_buf s) = 254 \<and>
     ((rx_first s = None \<and> rcv_buf s = RxBuf \<and> rcv_size s = 254) \<or> (\<exists>l. waiting s [] l 0 0))"

lemma ready_waiting: "waiting s [] l n n \<Longrightarrow> waiting s [] l m m"
  by (simp add: waiting_def building_def)

text \<open>The pool hands out whole buffers.\<close>

definition pool_ok :: "pool \<Rightarrow> bool" where
  "pool_ok pool \<longleftrightarrow> (\<forall>i c. pool i = Some c \<longrightarrow> length c = 256)"

lemma completed_cong: "h' l = h l \<Longrightarrow> i = l \<or> h' i = h i \<Longrightarrow> completed h' is l n k i = completed h is l n k i"
  by (auto simp: completed_def)

lemma rx_packet_last:
  assumes "building s is l n m" "m = pad is + k" "0 < m" "m \<le> 256" "n < 65536" "pool_ok pool"
    and "length (rx_buf s) = 254"
  shows "\<exists>h. wevs (rx_packet pool input_ok k 0 s) = wevs s @ [event_of input_ok h (hd (is @ [l]))] \<and>
     linked h (is @ [l]) \<and> totals_open h (is @ [l]) n 0 \<and>
     chain_bytes h (is @ [l]) = chain_bytes (blocks s) is @ take m (payload (blocks s l)) \<and>
     glue_ready (rx_packet pool input_ok k 0 s)"
proof -
  obtain p t where a: "pbuf_alloc pool s = (p, t)" by (cases "pbuf_alloc pool s")
  note fr = pbuf_alloc_frame [OF a]
  have old: "\<forall>i \<in> set (is @ [l]). i < n_alloc s" using assms(1) by (simp add: building_def)
  have bt: "building t is l n m"
  proof -
    have "blocks t i = blocks s i" if "i \<in> set (is @ [l])" for i using that old fr(5) by blast
    then show ?thesis using assms(1) linked_cong [of "is @ [l]" "blocks t" "blocks s"] totals_open_cong [of "is" "blocks t" "blocks s"] fr
      by (auto simp: building_def)
  qed
  let ?h = "completed (blocks t) is l n k"
  have "chain_bytes (blocks t) is = chain_bytes (blocks s) is" "blocks t l = blocks s l"
    using old fr(5) by (auto intro!: chain_cong)
  then have ch: "totals_open ?h (is @ [l]) n 0" "linked ?h (is @ [l])"
    "chain_bytes ?h (is @ [l]) = chain_bytes (blocks s) is @ take m (payload (blocks s l))"
    using completed_chain [OF bt, of k 0] assms(2-4) by simp_all
  have r: "rx_packet pool input_ok k 0 s =
      reload p ((deliver input_ok (hd (is @ [l])) (t\<lparr>blocks := ?h\<rparr>))\<lparr>rx_first := p\<rparr>)"
    using rx_packet_split [OF assms(1) _ assms(5) a, of k 0] assms(2) by simp
  have d: "deliver input_ok i u = u\<lparr>wevs := wevs u @ [event_of input_ok (blocks u) i]\<rparr>" for i u
    by (simp add: deliver_def event_of_def)
  have "glue_ready (rx_packet pool input_ok k 0 s)"
  proof (cases p)
    case None
    then show ?thesis using fr(4) assms(7)
      by (simp add: r d reload_def glue_ready_def set_receive_buffer_def PBUF_POOL_BUFSIZE_def ETH_PAD_SIZE_def Let_def)
  next
    case (Some j)
    then have "j = n_alloc s" "pnext (blocks t j) = None" "length (payload (blocks t j)) = 256" "j \<noteq> l"
      using fr(1,8) assms(6) old by (auto simp: pool_ok_def)
    then have "waiting (rx_packet pool input_ok k 0 s) [] j 0 0"
      using Some fr(2) by (simp add: r d reload_def set_receive_buffer_def PBUF_POOL_BUFSIZE_def ETH_PAD_SIZE_def Let_def
          waiting_def building_def pad_def completed_def)
    then show ?thesis using fr(4) assms(7)
      by (auto simp: glue_ready_def r d reload_def set_receive_buffer_def Let_def)
  qed
  moreover have "wevs (rx_packet pool input_ok k 0 s) = wevs s @ [event_of input_ok ?h (hd (is @ [l]))]"
    by (simp add: r d reload_def set_receive_buffer_def Let_def fr)
  ultimately show ?thesis using ch by blast
qed

lemma rx_packet_more:
  assumes "building s is l n m" "m = pad is + k + rem" "0 < rem" "pad is + k = 256" "n < 65536"
    and "pool (n_alloc s) = Some c" "length c = 256"
  shows "waiting (rx_packet pool input_ok k rem s) (is @ [l]) (n_alloc s) n rem"
    "chain_bytes (blocks (rx_packet pool input_ok k rem s)) (is @ [l]) = chain_bytes (blocks s) is @ payload (blocks s l)"
    "wevs (rx_packet pool input_ok k rem s) = wevs s" "rx_buf (rx_packet pool input_ok k rem s) = rx_buf s"
proof -
  define i where "i = n_alloc s"
  define t where "t = snd (pbuf_alloc pool s)"
  have a: "pbuf_alloc pool s = (Some i, t)" using assms(6) by (simp add: pbuf_alloc_def t_def i_def Let_def)
  note fr = pbuf_alloc_frame [OF a]
  have old: "\<forall>j \<in> set (is @ [l]). j < i" using assms(1) by (simp add: building_def i_def)
  have same: "blocks t j = blocks s j" if "j \<in> set (is @ [l])" for j using that old fr(5) unfolding i_def by blast
  have bs: "distinct (is @ [l])" "linked (blocks s) (is @ [l])" "length (payload (blocks s l)) = 256" "totals_open (blocks s) is n m"
    "rx_first s = Some (hd (is @ [l]))" "is \<noteq> [] \<longrightarrow> tot_len (blocks s l) = m"
    using assms(1) by (simp_all add: building_def)
  have bt: "building t is l n m"
    using assms(1) same old fr linked_cong [of "is @ [l]" "blocks t" "blocks s"] totals_open_cong [of "is" "blocks t" "blocks s"]
    by (auto simp: building_def i_def)
  let ?h = "completed (blocks t) is l n k"
  let ?g = "?h(i := (?h i)\<lparr>tot_len := rem\<rparr>)"
  define F where "F = ?g(l := (?g l)\<lparr>pnext := Some i\<rparr>)"
  have il: "i \<noteq> l" "i \<notin> set is" "l \<notin> set is" using old bs(1) by auto
  have ch: "totals_open ?h (is @ [l]) n rem" "linked ?h (is @ [l])"
    "chain_bytes ?h (is @ [l]) = chain_bytes (blocks t) is @ take 256 (payload (blocks t l))"
    using completed_chain [OF bt, of k rem] assms(2,4) by simp_all
  have tt: "chain_bytes (blocks t) is = chain_bytes (blocks s) is" "blocks t l = blocks s l"
    using same by (auto intro!: chain_cong)
  have r: "rx_packet pool input_ok k rem s = reload (Some i) (t\<lparr>blocks := F\<rparr>)"
    using rx_packet_split [OF assms(1,2,5) a] assms(3) by (simp add: Let_def set_block_def F_def)
  have h: "held (F j) = held (?h j)" "plen (F j) = plen (?h j)" "j \<noteq> i \<Longrightarrow> tot_len (F j) = tot_len (?h j)" for j
    by (auto simp: held_def F_def)
  have "totals_open F (is @ [l]) n rem"
  proof -
    have e: "totals_open F ks a b = totals_open ?h ks a b" if "i \<notin> set ks" for ks a b
      using that by (induction ks arbitrary: a) (simp_all add: h)
    show ?thesis using ch(1) e [of "is @ [l]"] il by simp
  qed
  moreover have "linked F (is @ [l, i])"
    by (rule linked_append [OF ch(2)]) (use il fr(8) in \<open>auto simp: completed_def F_def\<close>)
  moreover have "chain_bytes F (is @ [l]) = chain_bytes (blocks s) is @ payload (blocks s l)"
    using ch(3) tt bs(3) chain_cong [of "is @ [l]" F ?h] h(1) by simp
  moreover have "length (payload (F i)) = 256" "tot_len (F i) = rem"
    using fr(8) [OF refl] assms(6,7) il by (auto simp: completed_def F_def i_def)
  ultimately have w: "building (t\<lparr>blocks := F, rx_last := Some i\<rparr>) (is @ [l]) i n rem"
    "chain_bytes F (is @ [l]) = chain_bytes (blocks s) is @ payload (blocks s l)"
    using old fr bs il by (auto simp: building_def i_def less_Suc_eq hd_append)
  have ne: "rx_first s \<noteq> Some i" using bs(5) old by (cases "is") auto
  have rr: "rx_packet pool input_ok k rem s = (t\<lparr>blocks := F, rx_last := Some i\<rparr>)\<lparr>rcv_buf := InPbuf i 0, rcv_size := 256\<rparr>"
    using ne fr(6) by (simp add: r reload_def Let_def set_receive_buffer_def PBUF_POOL_BUFSIZE_def)
  show "waiting (rx_packet pool input_ok k rem s) (is @ [l]) (n_alloc s) n rem"
    using w(1) unfolding rr by (simp add: waiting_def building_def pad_def i_def)
  show "chain_bytes (blocks (rx_packet pool input_ok k rem s)) (is @ [l]) = chain_bytes (blocks s) is @ payload (blocks s l)"
    using w(2) unfolding rr by simp
  show "wevs (rx_packet pool input_ok k rem s) = wevs s" "rx_buf (rx_packet pool input_ok k rem s) = rx_buf s"
    unfolding rr using fr by simp_all
qed

section \<open>A packet\<close>

definition plenty :: "pool \<Rightarrow> bool" where
  "plenty pool \<longleftrightarrow> (\<forall>i. \<exists>c. pool i = Some c \<and> length c = 256)"

text \<open>What becomes of a frame of \<open>n\<close> bytes: the event, the chain in it, and the bytes behind the padding.\<close>

definition framed :: "(heap \<Rightarrow> nat \<Rightarrow> bool) \<Rightarrow> winc \<Rightarrow> winc \<Rightarrow> nat \<Rightarrow> u8 list \<Rightarrow> bool" where
  "framed input_ok s s' n bytes \<longleftrightarrow> glue_ready s' \<and> (\<exists>h js. js \<noteq> [] \<and> wevs s' = wevs s @ [event_of input_ok h (hd js)] \<and>
     linked h js \<and> totals_open h js n 0 \<and> drop 2 (chain_bytes h js) = bytes)"

lemma turn_last:
  assumes "building u is l n (pad is + length data)" "take (length data) (drop (pad is) (payload (blocks u l))) = data"
    and "pad is + length data \<le> 256" "0 < pad is + length data" "n < 65536" "plenty pool" "length (rx_buf u) = 254"
    and "is \<noteq> [] \<longrightarrow> 2 \<le> length (chain_bytes (blocks u) is)"
  shows "framed input_ok u (rx_packet pool input_ok (length data) 0 u) n (drop 2 (chain_bytes (blocks u) is) @ data)"
proof -
  have "pool_ok pool" using assms(6) unfolding plenty_def pool_ok_def by (metis option.inject)
  from rx_packet_last [OF assms(1) refl assms(4,3,5) this assms(7), of input_ok] obtain h where
    h: "wevs (rx_packet pool input_ok (length data) 0 u) = wevs u @ [event_of input_ok h (hd (is @ [l]))]"
    "linked h (is @ [l])" "totals_open h (is @ [l]) n 0"
    "chain_bytes h (is @ [l]) = chain_bytes (blocks u) is @ take (pad is + length data) (payload (blocks u l))"
    "glue_ready (rx_packet pool input_ok (length data) 0 u)" by blast
  have "drop (pad is) (take (pad is + length data) (payload (blocks u l))) = data" using assms(2) by (simp add: drop_take)
  then have "drop 2 (chain_bytes h (is @ [l])) = drop 2 (chain_bytes (blocks u) is) @ data"
    using assms(8) unfolding h(4) by (cases "is = []") (simp_all add: pad_def chain_bytes_def)
  then show ?thesis unfolding framed_def using h by blast
qed

text \<open>Bytes that land in the buffer that waits.\<close>

lemma landed:
  fixes s :: winc
  assumes "building s is l n todo" "rcv_buf s = InPbuf l (pad is)" "length d \<le> 256 - pad is" and u: "u = land_bytes d s"
  shows "building u is l n todo" "chain_bytes (blocks u) is = chain_bytes (blocks s) is" "take (length d) (drop (pad is) (payload (blocks u l))) = d"
    "length (payload (blocks u l)) = 256" "rx_buf u = rx_buf s" "wevs u = wevs s"
proof -
  have pl: "length (payload (blocks s l)) = 256" "l \<notin> set is" "pad is \<le> 2" using assms(1) by (simp_all add: building_def pad_def)
  have u: "u = set_block l (\<lambda>b. b\<lparr>payload := overwrite (pad is) d (payload b)\<rparr>) s" using u by (simp add: land_bytes_def assms(2))
  have same: "blocks u j = blocks s j" if "j \<in> set is" for j using that pl(2) by (auto simp: u set_block_def)
  show len: "length (payload (blocks u l)) = 256" using pl(1,3) assms(3) by (simp add: u set_block_def)
  show f: "rx_buf u = rx_buf s" "wevs u = wevs s" by (simp_all add: u set_block_def)
  show "chain_bytes (blocks u) is = chain_bytes (blocks s) is" using same by (intro chain_cong) simp
  show "take (length d) (drop (pad is) (payload (blocks u l))) = d"
    using overwrite_at [of "pad is" d "payload (blocks s l)"] pl assms(3) by (simp add: u set_block_def)
  have "pnext (blocks u j) = pnext (blocks s j)" for j by (simp add: u set_block_def)
  moreover have "tot_len (blocks u l) = tot_len (blocks s l)" "rx_last u = rx_last s" "n_alloc u = n_alloc s" "rx_first u = rx_first s"
    by (simp_all add: u set_block_def)
  ultimately show "building u is l n todo"
    using assms(1) len f linked_cong [of "is @ [l]" "blocks u" "blocks s"] totals_open_cong [of "is" "blocks u" "blocks s"] same
    by (simp add: building_def)
qed

lemma eth_loop_waiting:
  assumes "waiting s is l n (pad is + length data)" "n < 65536" "0 < pad is + length data" "length data < fuel"
    and "length (rx_buf s) = 254" "is \<noteq> [] \<longrightarrow> 2 \<le> length (chain_bytes (blocks s) is)" "plenty pool"
  shows "\<exists>s'. eth_loop pool input_ok (\<lambda>_. True) fuel data s = Inr s' \<and>
     framed input_ok s s' n (drop 2 (chain_bytes (blocks s) is) @ data)"
  using assms(1-6)
proof (induction fuel arbitrary: s "is" l data)
  case (Suc fuel)
  let ?k = "min (length data) (256 - pad is)"
  let ?rest = "drop ?k data"
  define u where "u = land_bytes (take ?k data) s"
  have w: "building s is l n (pad is + length data)" "rcv_buf s = InPbuf l (pad is)" "rcv_size s = 256 - pad is"
    using Suc.prems(1) by (simp_all add: waiting_def)
  have p2: "pad is \<le> 2" by (simp add: pad_def)
  have "length (take ?k data) = ?k" "length (take ?k data) \<le> 256 - pad is" by simp_all
  note l = landed [OF w(1,2) this(2) u_def, unfolded this(1)]
  note bu = l(1) and cu = l(2) and got = l(3) and len = l(4) and fu = l(5,6)
  have fb: "first_buffer pool ?k u = Inr (True, u)" using bu by (simp add: first_buffer_def building_def)
  have step: "eth_loop pool input_ok (\<lambda>_. True) (Suc fuel) data s =
      (if ?rest = [] then Inr (rx_packet pool input_ok ?k (length ?rest) u)
       else eth_loop pool input_ok (\<lambda>_. True) fuel ?rest (rx_packet pool input_ok ?k (length ?rest) u))"
    by (simp add: w(3) u_def [symmetric] winc_netif_rx_callback_def fb Let_def)
  show ?case
  proof (cases "?rest = []")
    case True
    then have k: "?k = length data" "pad is + length data \<le> 256" using p2 by (auto simp: min_def split: if_splits)
    have "framed input_ok u (rx_packet pool input_ok (length data) 0 u) n (drop 2 (chain_bytes (blocks u) is) @ data)"
      by (rule turn_last [OF bu]) (use got k Suc.prems cu fu assms(7) in simp_all)
    then show ?thesis using step True k(1) cu by (simp add: framed_def fu)
  next
    case False
    then have k: "pad is + ?k = 256" "0 < length ?rest" "pad is + length data = pad is + ?k + length ?rest" using p2 by auto
    obtain c where c: "pool (n_alloc u) = Some c" "length c = 256" using assms(7) unfolding plenty_def by blast
    let ?v = "rx_packet pool input_ok ?k (length ?rest) u"
    note more = rx_packet_more [OF bu k(3,2,1) Suc.prems(2), of pool c input_ok, OF c]
    have cb: "drop 2 (chain_bytes (blocks ?v) (is @ [l])) = drop 2 (chain_bytes (blocks s) is) @ take ?k data"
    proof -
      have "drop (pad is) (payload (blocks u l)) = take ?k data" using got len k(1) by (simp add: min_def split: if_splits)
      then show ?thesis unfolding more(2) cu using Suc.prems(6) by (cases "is = []") (simp_all add: pad_def chain_bytes_def)
    qed
    have "\<exists>s'. eth_loop pool input_ok (\<lambda>_. True) fuel ?rest ?v = Inr s' \<and>
       framed input_ok ?v s' n (drop 2 (chain_bytes (blocks ?v) (is @ [l])) @ ?rest)"
    proof (rule Suc.IH)
      show "waiting ?v (is @ [l]) (n_alloc u) n (pad (is @ [l]) + length ?rest)" using more(1) by (simp add: pad_def)
      show "length ?rest < fuel" using Suc.prems(4) k p2 by auto
    qed (use Suc.prems k more fu len in \<open>auto simp: chain_bytes_def\<close>)
    then show ?thesis using step False cb more(3) fu by (auto simp: framed_def)
  qed
qed simp

lemma framed_follow:
  assumes "linked h js" "totals_open h js n 0" "js \<noteq> []"
  shows "tot_len (h (hd js)) = n" "frame_bytes h (hd js) = drop 2 (chain_bytes h js)" "frame_ok h (hd js)"
proof -
  obtain i ks where js: "js = i # ks" using assms(3) by (cases js) auto
  show t: "tot_len (h (hd js)) = n" using assms(2) by (simp add: js)
  have "length ks < Suc (tot_len (h i))" using totals_open_le [OF assms(2)] t by (simp add: js)
  then have f: "follow (Suc (tot_len (h i))) h (Some i) = js" using follow_linked assms(1) by (simp add: js del: follow.simps)
  then show "frame_bytes h (hd js) = drop 2 (chain_bytes h js)"
    by (simp add: frame_bytes_def ETH_PAD_SIZE_def js del: follow.simps)
  have "totals h js n" by (rule totals_open_closed [OF assms(2)])
  then show "frame_ok h (hd js)" using f t unfolding frame_ok_def js list.sel by (simp only:)
qed

text \<open>The first piece of a packet when no buffer was waiting: it is copied from \<open>rx_buf\<close>.\<close>

lemma receive_without_buffer:
  assumes "rx_first s = None" "rcv_buf s = RxBuf" "rcv_size s = 254" "length (rx_buf s) = 254" "plenty pool" "length data + 2 < 65536"
  shows "\<exists>s'. receive_packet pool input_ok (\<lambda>_. True) data s = Inr s' \<and> framed input_ok s s' (length data + 2) data"
proof -
  let ?k = "min (length data) 254"
  let ?rest = "drop ?k data"
  obtain c where c: "pool (n_alloc s) = Some c" "length c = 256" using assms(5) unfolding plenty_def by blast
  define t where "t = s\<lparr>rx_buf := overwrite 0 (take ?k data) (rx_buf s)\<rparr>"
  define l where "l = n_alloc s"
  define u where "u = t\<lparr>n_alloc := Suc l, blocks := (blocks s)(l := \<lparr>payload = overwrite 2 (take ?k data) c, plen = 256, tot_len = 256, pnext = None\<rparr>),
    rx_first := Some l, rx_last := Some l\<rparr>"
  have rb: "length (rx_buf t) = 254" "take ?k (rx_buf t) = take ?k data"
    using assms(4) overwrite_at [of 0 "take ?k data" "rx_buf s"] by (simp_all add: t_def)
  have fb: "first_buffer pool ?k t = Inr (True, u)"
    using assms(1) c rb by (simp add: first_buffer_def pbuf_alloc_def t_def u_def l_def Let_def set_block_def ETH_PAD_SIZE_def)
  have bu: "building u [] l (length data + 2) (pad [] + length data)"
    using c by (simp add: building_def u_def pad_def)
  have ev: "wevs u = wevs s" "rx_buf u = rx_buf t" by (simp_all add: u_def t_def)
  have pl: "payload (blocks u l) = overwrite 2 (take ?k data) c" by (simp add: u_def)
  have got: "take ?k (drop (pad []) (payload (blocks u l))) = take ?k data"
    using overwrite_at [of 2 "take ?k data" c] c by (simp add: pl pad_def)
  have step: "receive_packet pool input_ok (\<lambda>_. True) data s =
      (if ?rest = [] then Inr (rx_packet pool input_ok ?k (length ?rest) u)
       else eth_loop pool input_ok (\<lambda>_. True) (length data) ?rest (rx_packet pool input_ok ?k (length ?rest) u))"
    by (simp add: receive_packet_def assms(2,3) land_bytes_def t_def [symmetric] winc_netif_rx_callback_def fb Let_def)
  show ?thesis
  proof (cases "?rest = []")
    case True
    then have k: "?k = length data" "pad [] + length data \<le> 256" by (auto simp: pad_def)
    have "framed input_ok u (rx_packet pool input_ok (length data) 0 u) (length data + 2) (drop 2 (chain_bytes (blocks u) []) @ data)"
      by (rule turn_last [OF bu]) (use got k assms(5,6) ev rb in \<open>simp_all add: pad_def\<close>)
    then show ?thesis using step True k(1) ev by (simp add: framed_def chain_bytes_def)
  next
    case False
    then have k: "pad [] + ?k = 256" "0 < length ?rest" "pad [] + length data = pad [] + ?k + length ?rest" by (auto simp: pad_def)
    let ?v = "rx_packet pool input_ok ?k (length ?rest) u"
    have cu: "pool (n_alloc u) = Some (the (pool (n_alloc u)))" "length (the (pool (n_alloc u))) = 256"
      using assms(5) unfolding plenty_def by (metis option.sel)+
    note more = rx_packet_more [OF bu k(3,2,1) assms(6), of pool _ input_ok, OF cu]
    have "drop 2 (payload (blocks u l)) = take ?k data" using got c k(1) by (simp add: pl pad_def min_def overwrite_def split: if_splits)
    then have cb: "drop 2 (chain_bytes (blocks ?v) [l]) = take ?k data" using more(2) by (simp add: chain_bytes_def)
    have len: "2 \<le> length (chain_bytes (blocks ?v) [l])" using more(2) c by (simp add: chain_bytes_def pl overwrite_def)
    have "\<exists>s'. eth_loop pool input_ok (\<lambda>_. True) (length data) ?rest ?v = Inr s' \<and>
       framed input_ok ?v s' (length data + 2) (drop 2 (chain_bytes (blocks ?v) [l]) @ ?rest)"
      by (rule eth_loop_waiting) (use more k ev rb assms(5,6) len in \<open>auto simp: pad_def\<close>)
    then show ?thesis using step False cb more(3) ev by (auto simp: framed_def)
  qed
qed

lemma receive_framed:
  assumes "glue_ready s" "plenty pool" "length data + 2 < 65536"
  shows "\<exists>s'. receive_packet pool input_ok (\<lambda>_. True) data s = Inr s' \<and> framed input_ok s s' (length data + 2) data"
proof (cases "rx_first s")
  case None
  then have "rcv_buf s = RxBuf" "rcv_size s = 254" "length (rx_buf s) = 254"
    using assms(1) by (auto simp: glue_ready_def waiting_def building_def)
  from receive_without_buffer [OF None this assms(2,3)] show ?thesis .
next
  case (Some l)
  then obtain l where w: "waiting s [] l 0 0" using assms(1) by (auto simp: glue_ready_def)
  have w': "waiting s [] l (length data + 2) (pad [] + length data)"
    using ready_waiting [OF w, of "length data + 2"] by (simp add: pad_def add.commute)
  have len: "length (rx_buf s) = 254" using assms(1) by (simp add: glue_ready_def)
  have "\<exists>s'. eth_loop pool input_ok (\<lambda>_. True) (Suc (length data)) data s = Inr s' \<and>
     framed input_ok s s' (length data + 2) (drop 2 (chain_bytes (blocks s) []) @ data)"
    by (rule eth_loop_waiting [OF w']) (use assms len in \<open>simp_all add: pad_def\<close>)
  then show ?thesis by (simp add: receive_packet_def chain_bytes_def)
qed


text \<open>Several packets one after the other, and what lwIP should get for one: a chain whose lengths agree and that holds the packet.\<close>

fun receive_packets :: "pool \<Rightarrow> (heap \<Rightarrow> nat \<Rightarrow> bool) \<Rightarrow> (nat \<Rightarrow> bool) \<Rightarrow> u8 list list \<Rightarrow> winc \<Rightarrow> winc res" where
  "receive_packets pool input_ok hif_ok [] s = Inr s"
| "receive_packets pool input_ok hif_ok (d # ds) s =
     res_bind (receive_packet pool input_ok hif_ok d s) (receive_packets pool input_ok hif_ok ds)"

definition delivers :: "(heap \<Rightarrow> nat \<Rightarrow> bool) \<Rightarrow> u8 list \<Rightarrow> winc_ev \<Rightarrow> bool" where
  "delivers input_ok d e \<longleftrightarrow> (\<exists>h i. e = event_of input_ok h i \<and> frame_bytes h i = d \<and> frame_ok h i \<and> tot_len (h i) = length d + 2)"

lemma framed_delivers:
  assumes "framed input_ok s s' (length d + 2) d"
  shows "\<exists>e. wevs s' = wevs s @ [e] \<and> delivers input_ok d e \<and> glue_ready s'"
proof -
  obtain h js where h: "js \<noteq> []" "wevs s' = wevs s @ [event_of input_ok h (hd js)]" "linked h js" "totals_open h js (length d + 2) 0"
    "drop 2 (chain_bytes h js) = d" "glue_ready s'" using assms unfolding framed_def by blast
  show ?thesis using h framed_follow [OF h(3,4,1)] unfolding delivers_def by blast
qed

lemma receive_ready:
  assumes "glue_ready s" "plenty pool" "\<forall>d \<in> set ds. length d + 2 < 65536"
  shows "\<exists>s' es. receive_packets pool input_ok (\<lambda>_. True) ds s = Inr s' \<and> wevs s' = wevs s @ es \<and> list_all2 (delivers input_ok) ds es"
  using assms(1,3)
proof (induction ds arbitrary: s)
  case (Cons d ds)
  obtain s1 where s1: "receive_packet pool input_ok (\<lambda>_. True) d s = Inr s1" "framed input_ok s s1 (length d + 2) d"
    using receive_framed [OF Cons.prems(1) assms(2)] Cons.prems(2) by (metis list.set_intros(1))
  obtain e where e: "wevs s1 = wevs s @ [e]" "delivers input_ok d e" "glue_ready s1" using framed_delivers [OF s1(2)] by blast
  obtain s' es where "receive_packets pool input_ok (\<lambda>_. True) ds s1 = Inr s'" "wevs s' = wevs s1 @ es"
    "list_all2 (delivers input_ok) ds es" using Cons.IH [OF e(3)] Cons.prems(2) by (meson list.set_intros(2))
  then show ?case using s1(1) e by (intro exI [of _ s'] exI [of _ "e # es"]) simp
qed simp

text \<open>The first packet lands in the buffer of network.c, but the callback copies from its own.\<close>

lemma first_packet:
  assumes "length d \<le> 254" "plenty pool"
  shows "\<exists>s'. receive_packet pool input_ok (\<lambda>_. True) d init_winc = Inr s' \<and>
    framed input_ok init_winc s' (length d + 2) (replicate (length d) 0)"
proof -
  let ?t = "land_bytes d init_winc"
  obtain c where c: "pool 0 = Some c" "length c = 256" using assms(2) unfolding plenty_def by blast
  have len: "min (length d) (rcv_size init_winc) = length d" using assms(1) by (simp add: init_winc_def)
  define u where "u = ?t\<lparr>n_alloc := Suc 0, blocks := (blocks ?t)(0 := \<lparr>payload = overwrite 2 (replicate (length d) 0) c, plen = 256, tot_len = 256,
    pnext = None\<rparr>), rx_first := Some 0, rx_last := Some 0\<rparr>"
  have t: "rx_first ?t = None" "n_alloc ?t = 0" "rx_buf ?t = replicate 254 0" "wevs ?t = []" by (simp_all add: land_bytes_def init_winc_def)
  have fb: "first_buffer pool (length d) ?t = Inr (True, u)"
    using assms(1) c t by (simp add: first_buffer_def pbuf_alloc_def u_def Let_def set_block_def ETH_PAD_SIZE_def min_def)
  have bu: "building u [] 0 (length d + 2) (pad [] + length (replicate (length d) (0 :: u8)))"
    using assms(1) c by (simp add: building_def u_def pad_def overwrite_def min_def)
  have step: "receive_packet pool input_ok (\<lambda>_. True) d init_winc = Inr (rx_packet pool input_ok (length d) 0 u)"
    using fb by (simp add: receive_packet_def len winc_netif_rx_callback_def Let_def)
  have "framed input_ok u (rx_packet pool input_ok (length (replicate (length d) (0 :: u8))) 0 u) (length d + 2)
      (drop 2 (chain_bytes (blocks u) []) @ replicate (length d) 0)"
    by (rule turn_last [OF bu]) (use assms c t overwrite_at [of 2 "replicate (length d) 0" c] in \<open>simp_all add: pad_def u_def\<close>)
  then show ?thesis using step t by (simp add: framed_def u_def init_winc_def chain_bytes_def)
qed

lemma first_packet_faults: "254 < length d \<Longrightarrow> pool 0 = Some c \<Longrightarrow>
    receive_packet pool input_ok (\<lambda>_. True) d init_winc = Inl Overread"
  by (simp add: receive_packet_def winc_netif_rx_callback_def first_buffer_def pbuf_alloc_def land_bytes_def init_winc_def Let_def)

text \<open>
  C32: From the state network.c starts with, while the pool has a buffer for every piece and transfers succeed: a first frame of at most 254 bytes, received into the buffer of network.c,
  arrives as zeros of its length (a longer one is the fault of \<open>first_packet_faults\<close>); every frame after it reaches lwIP, or is freed by the callback when lwIP refuses
  it, as one chain of buffers in the order of arrival: its lengths agree, its bytes behind the padding are those received, whatever the length up to 65533 bytes.
\<close>

theorem winc_frames_delivered:
  assumes "plenty pool" "length d \<le> 254" "\<forall>x \<in> set ds. length x + 2 < 65536"
  shows "\<exists>s' e es. receive_packets pool input_ok (\<lambda>_. True) (d # ds) init_winc = Inr s' \<and> wevs s' = e # es \<and>
     delivers input_ok (replicate (length d) 0) e \<and> list_all2 (delivers input_ok) ds es"
proof -
  obtain s1 where s1: "receive_packet pool input_ok (\<lambda>_. True) d init_winc = Inr s1"
    "framed input_ok init_winc s1 (length d + 2) (replicate (length d) 0)" using first_packet [OF assms(2,1)] by blast
  obtain e where e: "wevs s1 = wevs init_winc @ [e]" "delivers input_ok (replicate (length d) 0) e" "glue_ready s1"
    using framed_delivers [of input_ok init_winc s1 "replicate (length d) 0"] s1(2) by auto
  show ?thesis using receive_ready [OF e(3) assms(1,3), of input_ok] s1(1) e by (auto simp: init_winc_def)
qed

lemma winc_frames_delivered_witness:
  "\<exists>s' e es. receive_packets (\<lambda>_. Some (replicate 256 7)) (\<lambda>_ _. True) (\<lambda>_. True) [replicate 60 1, replicate 600 2] init_winc = Inr s' \<and>
     wevs s' = e # es \<and> delivers (\<lambda>_ _. True) (replicate 60 0) e \<and> list_all2 (delivers (\<lambda>_ _. True)) [replicate 600 2] es"
  using winc_frames_delivered [of "\<lambda>_. Some (replicate 256 7)" "replicate 60 1" "[replicate 600 2]" "\<lambda>_ _. True"]
  by (simp add: plenty_def)


section \<open>Every pool, every failure\<close>

text \<open>The driver's view is right: it always writes within the buffer it was given, and that buffer is the last of the chain.\<close>

definition winc_ok :: "winc \<Rightarrow> bool" where
  "winc_ok s \<longleftrightarrow> length (rx_buf s) = 254 \<and>
     (case rx_first s of
        None \<Rightarrow> rcv_buf s = RxBuf \<and> rcv_size s = 254
      | Some f \<Rightarrow> \<exists>l k. rx_last s = Some l \<and> length (payload (blocks s l)) = 256 \<and> k = (if f = l then 2 else 0) \<and>
          rcv_buf s = InPbuf l k \<and> rcv_size s = 256 - k)"

definition room :: "winc \<Rightarrow> nat" where
  "room s = (case rcv_buf s of EthBuffer \<Rightarrow> length (eth_buffer s) | RxBuf \<Rightarrow> length (rx_buf s) | InPbuf i k \<Rightarrow> length (payload (blocks s i)) - k)"

lemma winc_ok_room: "winc_ok s \<Longrightarrow> rcv_size s \<le> room s"
  by (auto simp: winc_ok_def room_def split: option.splits)

text \<open>Between the transfer and the callback the sizes are the same.\<close>

lemma winc_ok_hif: "winc_ok s \<Longrightarrow> length bs \<le> rcv_size s \<Longrightarrow> winc_ok (land_bytes bs s)"
  by (auto simp: winc_ok_def land_bytes_def set_block_def split: option.splits if_splits)

lemma reload_ok:
  assumes "length (rx_buf s) = 254" "rx_first s = None \<Longrightarrow> p = None" "\<And>i. p = Some i \<Longrightarrow> length (payload (blocks s i)) = 256"
    and "rx_first s \<noteq> None \<Longrightarrow> p \<noteq> None"
  shows "winc_ok (reload p s)"
  using assms by (cases p; cases "rx_first s")
    (auto simp: winc_ok_def reload_def Let_def set_receive_buffer_def PBUF_POOL_BUFSIZE_def ETH_PAD_SIZE_def)

lemma rx_packet_ok:
  assumes "length (rx_buf s) = 254" "rx_first s = Some f" "pool_ok pool"
  shows "winc_ok (rx_packet pool input_ok k rem s)"
proof -
  obtain p t where a: "pbuf_alloc pool s = (p, t)" by (cases "pbuf_alloc pool s")
  note fr = pbuf_alloc_frame [OF a]
  have pl: "length (payload (blocks t i)) = 256" if "p = Some i" for i
    using fr(8) [OF that] assms(3) by (auto simp: pool_ok_def)
  show ?thesis
  proof (cases "rem = 0 \<or> p \<noteq> None")
    case True
    then show ?thesis unfolding rx_packet_def a prod.case Let_def
      using pl fr assms(1,2)
      by (auto intro!: reload_ok simp: deliver_def set_block_def split: option.splits)
  next
    case False
    then show ?thesis using fr(4) assms(1)
      by (simp add: rx_packet_def a Let_def winc_ok_def set_receive_buffer_def set_block_def WINC_RX_BUF_SZ_def PBUF_POOL_BUFSIZE_def ETH_PAD_SIZE_def)
  qed
qed

lemma callback_ok:
  assumes "winc_ok s" "pool_ok pool" "sz \<le> rcv_size s"
  shows "\<exists>s'. winc_netif_rx_callback pool input_ok sz rem s = Inr s' \<and> winc_ok s'"
proof (cases "rx_first s")
  case None
  then have s: "length (rx_buf s) = 254" "sz \<le> 254" using assms by (simp_all add: winc_ok_def)
  show ?thesis
  proof (cases "pool (n_alloc s)")
    case None
    with \<open>rx_first s = None\<close> s show ?thesis
      by (simp add: winc_netif_rx_callback_def first_buffer_def pbuf_alloc_def Let_def winc_ok_def set_receive_buffer_def
          WINC_RX_BUF_SZ_def PBUF_POOL_BUFSIZE_def ETH_PAD_SIZE_def)
  next
    case (Some c)
    then have "length c = 256" using assms(2) by (auto simp: pool_ok_def)
    with Some None s obtain u where "first_buffer pool sz s = Inr (True, u)" "rx_first u \<noteq> None" "length (rx_buf u) = 254"
      by (simp add: first_buffer_def pbuf_alloc_def Let_def set_block_def ETH_PAD_SIZE_def)
    then show ?thesis using rx_packet_ok assms(2) by (auto simp: winc_netif_rx_callback_def)
  qed
next
  case (Some f)
  then show ?thesis using assms rx_packet_ok [OF _ Some]
    by (simp add: winc_netif_rx_callback_def first_buffer_def winc_ok_def)
qed

lemma eth_loop_ok:
  assumes "winc_ok s" "pool_ok pool"
  shows "\<exists>s'. eth_loop pool input_ok hif_ok fuel data s = Inr s' \<and> winc_ok s'"
  using assms(1)
proof (induction fuel arbitrary: data s)
  case (Suc fuel)
  let ?n = "min (length data) (rcv_size s)"
  have "winc_ok (land_bytes (take ?n data) s)" using Suc.prems by (simp add: winc_ok_hif)
  moreover have "rcv_size (land_bytes bs s) = rcv_size s" for bs by (simp add: land_bytes_def set_block_def split: place.splits)
  ultimately obtain t where "winc_netif_rx_callback pool input_ok ?n (length (drop ?n data)) (land_bytes (take ?n data) s) = Inr t" "winc_ok t"
    using callback_ok [OF _ assms(2), of "land_bytes (take ?n data) s" ?n input_ok "length (drop ?n data)"] by auto
  then show ?case using Suc.IH [of t] Suc.prems by (simp add: Let_def)
qed simp

text \<open>
  The state network.c leaves: the driver was given a buffer of 2048 bytes that is not the one the callback looks into. It lasts until a transfer succeeds.
\<close>

definition fresh :: "winc \<Rightarrow> bool" where
  "fresh s \<longleftrightarrow> rx_first s = None \<and> length (rx_buf s) = 254 \<and> length (eth_buffer s) = 2048 \<and> rcv_buf s = EthBuffer \<and> rcv_size s = 2048"

lemma fresh_room: "fresh s \<Longrightarrow> rcv_size s \<le> room s"
  by (simp add: fresh_def room_def)

lemma fresh_land: "fresh s \<Longrightarrow> length bs \<le> 2048 \<Longrightarrow> fresh (land_bytes bs s) \<and> n_alloc (land_bytes bs s) = n_alloc s"
  by (simp add: fresh_def land_bytes_def)

lemma fresh_callback:
  assumes "fresh s" "pool_ok pool"
  shows "case winc_netif_rx_callback pool input_ok sz rem s of
      Inl e \<Rightarrow> e = Overread \<and> 254 < sz \<and> pool (n_alloc s) \<noteq> None
    | Inr s' \<Rightarrow> winc_ok s' \<and> \<not> (254 < sz \<and> pool (n_alloc s) \<noteq> None)"
proof (cases "pool (n_alloc s)")
  case None
  then show ?thesis using assms(1)
    by (simp add: fresh_def winc_netif_rx_callback_def first_buffer_def pbuf_alloc_def Let_def winc_ok_def set_receive_buffer_def
        WINC_RX_BUF_SZ_def PBUF_POOL_BUFSIZE_def ETH_PAD_SIZE_def)
next
  case (Some c)
  then have c: "length c = 256" using assms(2) by (auto simp: pool_ok_def)
  show ?thesis
  proof (cases "254 < sz")
    case True
    then show ?thesis using assms(1) Some
      by (simp add: fresh_def winc_netif_rx_callback_def first_buffer_def pbuf_alloc_def Let_def)
  next
    case False
    then obtain u where "first_buffer pool sz s = Inr (True, u)" "rx_first u \<noteq> None" "length (rx_buf u) = 254"
      using assms(1) Some c by (simp add: fresh_def first_buffer_def pbuf_alloc_def Let_def set_block_def ETH_PAD_SIZE_def)
    then show ?thesis using rx_packet_ok assms(2) False by (auto simp: winc_netif_rx_callback_def)
  qed
qed

text \<open>A packet whose first transfer fails leaves the state; the first one that arrives decides.\<close>

lemma fresh_packet:
  assumes "fresh s" "pool_ok pool"
  shows "case receive_packet pool input_ok hif_ok d s of
      Inl e \<Rightarrow> e = Overread \<and> hif_ok (length d - 2048) \<and> 254 < length d \<and> pool (n_alloc s) \<noteq> None
    | Inr s' \<Rightarrow> if hif_ok (length d - 2048) then winc_ok s' \<and> \<not> (254 < length d \<and> pool (n_alloc s) \<noteq> None) else s' = s"
proof (cases "hif_ok (length d - 2048)")
  case True
  let ?n = "min (length d) 2048"
  let ?u = "land_bytes (take ?n d) s"
  have u: "fresh ?u" "n_alloc ?u = n_alloc s" using fresh_land [OF assms(1), of "take ?n d"] by simp_all
  have r: "length (drop ?n d) = length d - 2048" by simp
  have s: "rcv_size s = 2048" using assms(1) by (simp add: fresh_def)
  note c = fresh_callback [OF u(1) assms(2), where input_ok = input_ok and sz = ?n and rem = "length d - 2048", unfolded u(2)]
  show ?thesis
  proof (cases "winc_netif_rx_callback pool input_ok ?n (length d - 2048) ?u")
    case (Inl e)
    then show ?thesis using c True by (simp add: receive_packet_def Let_def s r del: length_drop)
  next
    case (Inr t)
    then obtain s' where "eth_loop pool input_ok hif_ok (length d) (drop ?n d) t = Inr s'" "winc_ok s'"
      using eth_loop_ok [OF _ assms(2)] c by (metis sum.simps(6))
    then show ?thesis using c True Inr by (auto simp: receive_packet_def Let_def s r simp del: length_drop)
  qed
next
  case False
  moreover have "length d - min (length d) 2048 = length d - 2048" by (simp add: min_def)
  ultimately show ?thesis using assms(1) by (simp add: receive_packet_def fresh_def Let_def)
qed

lemma packets_ok: "winc_ok s \<Longrightarrow> pool_ok pool \<Longrightarrow> \<exists>s'. receive_packets pool input_ok hif_ok ds s = Inr s' \<and> winc_ok s'"
proof (induction ds arbitrary: s)
  case (Cons d ds)
  obtain t where "receive_packet pool input_ok hif_ok d s = Inr t" "winc_ok t"
    using eth_loop_ok [OF Cons.prems] unfolding receive_packet_def by blast
  then show ?case using Cons by simp
qed simp

text \<open>The first packet that arrives in the initial state is longer than the buffer the callback copies from, and the pool has a buffer for it.\<close>

definition first_overruns :: "pool \<Rightarrow> (nat \<Rightarrow> bool) \<Rightarrow> u8 list list \<Rightarrow> winc \<Rightarrow> bool" where
  "first_overruns pool hif_ok ds s \<longleftrightarrow> fresh s \<and>
     (case dropWhile (\<lambda>d. \<not> hif_ok (length d - 2048)) ds of [] \<Rightarrow> False | d # _ \<Rightarrow> 254 < length d \<and> pool (n_alloc s) \<noteq> None)"

lemma not_both: "winc_ok s \<Longrightarrow> \<not> fresh s"
  by (auto simp: winc_ok_def fresh_def)

text \<open>
  C21: From the state network.c leaves at start, or any later one, packets of any length, a pool that runs out at any moment and transfers that fail
  at any moment leave the driver in a state where the size it goes by is the room it has, and no transfer and no copy leaves a buffer, with exactly one
  exception: the callback reads past \<open>rx_buf\<close> when the first packet that arrives is longer than 254 bytes and the pool has a buffer.
\<close>

theorem winc_receive_safe:
  assumes "winc_ok s \<or> fresh s" "pool_ok pool"
  shows "case receive_packets pool input_ok hif_ok ds s of
      Inl e \<Rightarrow> e = Overread \<and> first_overruns pool hif_ok ds s
    | Inr s' \<Rightarrow> \<not> first_overruns pool hif_ok ds s \<and> (winc_ok s' \<or> fresh s') \<and> rcv_size s' \<le> room s'"
  using assms(1)
proof
  assume "winc_ok s"
  then show ?thesis using packets_ok [OF _ assms(2), of s input_ok hif_ok ds] not_both winc_ok_room by (auto simp: first_overruns_def)
next
  assume f: "fresh s"
  then show ?thesis
  proof (induction ds)
    case Nil
    then show ?case by (simp add: first_overruns_def fresh_room)
  next
    case (Cons d ds)
    note p = fresh_packet [OF f assms(2), where input_ok = input_ok and hif_ok = hif_ok and d = d]
    show ?case
    proof (cases "hif_ok (length d - 2048)")
      case False
      then have "receive_packet pool input_ok hif_ok d s = Inr s" using p by (simp split: sum.splits)
      moreover have "first_overruns pool hif_ok (d # ds) s = first_overruns pool hif_ok ds s" using False by (simp add: first_overruns_def)
      ultimately show ?thesis using Cons by (simp split: sum.splits)
    next
      case True
      show ?thesis
      proof (cases "receive_packet pool input_ok hif_ok d s")
        case (Inr t)
        then show ?thesis using p True packets_ok [OF _ assms(2), of t input_ok hif_ok ds] winc_ok_room by (auto simp: first_overruns_def)
      qed (use p True f in \<open>simp add: first_overruns_def\<close>)
    qed
  qed
qed

text \<open>A pool that runs out after a first packet that fits, and a first packet that does not.\<close>

lemma winc_receive_safe_witness:
  "(\<exists>s'. receive_packets (\<lambda>i. if i = 1 then None else Some (replicate 256 0)) (\<lambda>_ _. True) (\<lambda>_. True) [[2, 3], replicate 300 1] init_winc = Inr s' \<and>
     (winc_ok s' \<or> fresh s') \<and> rcv_size s' \<le> room s') \<and>
   receive_packets (\<lambda>i. if i = 1 then None else Some (replicate 256 0)) (\<lambda>_ _. True) (\<lambda>_. True) [replicate 300 1] init_winc = Inl Overread"
proof -
  let ?pool = "\<lambda>i :: nat. if i = 1 then None else Some (replicate 256 (0 :: u8))"
  have f: "winc_ok init_winc \<or> fresh init_winc" "fresh init_winc" "n_alloc init_winc = 0" by (simp_all add: fresh_def init_winc_def)
  have p: "pool_ok ?pool" by (simp add: pool_ok_def)
  show ?thesis
    using winc_receive_safe [OF f(1) p, where input_ok = "\<lambda>_ _. True" and hif_ok = "\<lambda>_. True" and ds = "[[2, 3], replicate 300 1]"]
      winc_receive_safe [OF f(1) p, where input_ok = "\<lambda>_ _. True" and hif_ok = "\<lambda>_. True" and ds = "[replicate 300 1]"]
    by (auto simp: first_overruns_def f(2,3) split: sum.splits)
qed

end
