(* ===== verification/Winc_Tx.thy ===== *)
theory Winc_Tx
  imports Winc_Netif
begin

text \<open>
  Sending through the WiFi chip: \<open>winc_netif_tx\<close> and \<open>winc_netif_tx_from_queue\<close> of winc1500netif.c, and the initialisation of the
  interface. A chain of packet buffers is the list of their contents with the total length its first buffer states; whether the chip takes a packet is a parameter, a
  function of the number of the attempt.
\<close>

definition WINC_TX_BUF_SIZE :: nat where "WINC_TX_BUF_SIZE = 1536"

datatype tx_ev = Attempt "u8 list" bool | Tick | PbufRef | PbufUnref

record winc_tx =
  tx_buf :: "u8 list"
  semph_free :: bool
  posted :: nat
  xmits :: nat
  attempts :: nat
  tx_evs :: "tx_ev list"

datatype tx_err = ERR_OK | ERR_BUF

definition tx_event :: "tx_ev \<Rightarrow> winc_tx \<Rightarrow> winc_tx" where
  "tx_event e s = s\<lparr>tx_evs := tx_evs s @ [e]\<rparr>"

text \<open>The driver refuses an empty packet by itself.\<close>

definition m2m_wifi_send_ethernet_pkt :: "(nat \<Rightarrow> bool) \<Rightarrow> u8 list \<Rightarrow> winc_tx \<Rightarrow> bool \<times> winc_tx" where
  "m2m_wifi_send_ethernet_pkt accept bs s =
     (let ok = (bs \<noteq> [] \<and> accept (attempts s)) in (ok, tx_event (Attempt bs ok) (s\<lparr>attempts := attempts s + 1\<rparr>)))"

text \<open>\<open>left\<close> is the number of attempts up to the hundredth.\<close>

fun send_tries :: "(nat \<Rightarrow> bool) \<Rightarrow> u8 list \<Rightarrow> nat \<Rightarrow> winc_tx \<Rightarrow> winc_tx" where
  "send_tries accept bs 0 s = s"
| "send_tries accept bs (Suc left) s =
     (let (ok, s1) = m2m_wifi_send_ethernet_pkt accept bs s
      in if ok then s1 else if left = 0 then s1 else send_tries accept bs left (tx_event Tick s1))"

definition winc_netif_tx_from_queue :: "(nat \<Rightarrow> bool) \<Rightarrow> bool \<Rightarrow> u8 list \<Rightarrow> winc_tx \<Rightarrow> winc_tx" where
  "winc_netif_tx_from_queue accept pb bs s =
     (let s1 = send_tries accept bs 100 s in if pb then tx_event PbufUnref s1 else s1)"

text \<open>The copy into \<open>tx_buf\<close>, from an offset on.\<close>

fun copy_chain :: "nat \<Rightarrow> u8 list list \<Rightarrow> u8 list \<Rightarrow> (nat \<times> u8 list) res" where
  "copy_chain k [] buf = Inr (k, buf)"
| "copy_chain k (q # qs) buf =
     (if length buf < k + length q then Inl Overwrite else copy_chain (k + length q) qs (overwrite k q buf))"

text \<open>\<open>size\<close> bytes from behind the padding; the size is a 16-bit number for the driver.\<close>

definition frame_at :: "u8 list \<Rightarrow> nat \<Rightarrow> u8 list res" where
  "frame_at buf len =
     (let n = (len + 65536 - ETH_PAD_SIZE) mod 65536
      in if length buf < ETH_PAD_SIZE + n then Inl Overread else Inr (take n (drop ETH_PAD_SIZE buf)))"

text \<open>The chain is not empty. \<open>None\<close>: the mutex is not free, and the caller waits.\<close>

definition winc_netif_tx :: "(nat \<Rightarrow> bool) \<Rightarrow> nat \<Rightarrow> u8 list list \<Rightarrow> winc_tx \<Rightarrow> (tx_err \<times> winc_tx) res option" where
  "winc_netif_tx accept tot p s0 =
     (if \<not> semph_free s0 then None
      else let s = s0\<lparr>semph_free := False\<rparr>
           in Some (if WINC_TX_BUF_SIZE < tot then Inr (ERR_BUF, s\<lparr>semph_free := True\<rparr>)
              else res_bind
                (if tot = length (hd p) then res_bind (frame_at (hd p) (length (hd p))) (\<lambda>bs. Inr (True, bs, tx_event PbufRef s))
                 else res_bind (copy_chain 0 p (tx_buf s)) (\<lambda>(n, buf). res_bind (frame_at buf n) (\<lambda>bs. Inr (False, bs, s\<lparr>tx_buf := buf\<rparr>))))
                (\<lambda>(pb, bs, s1). let s2 = winc_netif_tx_from_queue accept pb bs (s1\<lparr>posted := posted s1 + 1\<rparr>)
                   in Inr (ERR_OK, s2\<lparr>xmits := xmits s2 + 1, semph_free := True\<rparr>))))"

text \<open>\<open>winc_netif_init\<close>: what it writes into the interface; the mutex is created free unless there is no memory.\<close>

record winc_if =
  if_name :: "char \<times> char"
  if_mtu :: nat
  if_hwaddr :: "u8 list"
  if_flags :: u8

definition winc_netif_low_level_init :: "u8 list \<Rightarrow> winc_if \<Rightarrow> winc_if" where
  "winc_netif_low_level_init mac n = n\<lparr>if_hwaddr := mac, if_mtu := 1500, if_flags := if_flags n OR 0x02 OR 0x20\<rparr>"

definition winc_netif_init :: "bool \<Rightarrow> u8 list \<Rightarrow> winc_if \<Rightarrow> winc_tx \<Rightarrow> bool \<times> winc_if \<times> winc_tx" where
  "winc_netif_init mutex_made mac n s =
     (let n1 = winc_netif_low_level_init mac (n\<lparr>if_name := (CHR ''e'', CHR ''n'')\<rparr>)
      in if mutex_made then (True, n1, s\<lparr>semph_free := True\<rparr>) else (False, n1, s\<lparr>semph_free := False\<rparr>))"

section \<open>Attempts\<close>

text \<open>What \<open>k\<close> attempts look like: all but the last are refused and followed by a tick.\<close>

definition attempts_of :: "u8 list \<Rightarrow> nat \<Rightarrow> bool \<Rightarrow> tx_ev list" where
  "attempts_of bs k ok = concat (replicate (k - 1) [Attempt bs False, Tick]) @ [Attempt bs ok]"

lemma send_tries_attempts:
  assumes "bs \<noteq> []" "0 < left"
  shows "\<exists>k. 0 < k \<and> k \<le> left \<and> (\<forall>j < k - 1. \<not> accept (attempts s + j)) \<and> (accept (attempts s + (k - 1)) \<or> k = left) \<and>
    send_tries accept bs left s = s\<lparr>attempts := attempts s + k, tx_evs := tx_evs s @ attempts_of bs k (accept (attempts s + (k - 1)))\<rparr>"
  using assms(2)
proof (induction left arbitrary: s)
  case (Suc left)
  show ?case
  proof (cases "accept (attempts s) \<or> left = 0")
    case True
    then show ?thesis using assms(1)
      by (intro exI [of _ 1]) (auto simp: m2m_wifi_send_ethernet_pkt_def tx_event_def attempts_of_def Let_def)
  next
    case False
    define t where "t = s\<lparr>attempts := attempts s + 1, tx_evs := tx_evs s @ [Attempt bs False, Tick]\<rparr>"
    have st: "send_tries accept bs (Suc left) s = send_tries accept bs left t"
      using False by (simp add: m2m_wifi_send_ethernet_pkt_def tx_event_def t_def Let_def)
    have at: "attempts t = Suc (attempts s)" by (simp add: t_def)
    obtain k where k: "0 < k" "k \<le> left" "\<forall>j < k - 1. \<not> accept (attempts t + j)" "accept (attempts t + (k - 1)) \<or> k = left"
      "send_tries accept bs left t = t\<lparr>attempts := attempts t + k, tx_evs := tx_evs t @ attempts_of bs k (accept (attempts t + (k - 1)))\<rparr>"
      using Suc.IH [of t] False by auto
    have n: "attempts t + (k - 1) = attempts s + k" using k(1) at by simp
    have "\<not> accept (attempts s + j)" if "j < k" for j
      using that False k(3) at by (cases j) auto
    moreover have "attempts_of bs (Suc k) b = [Attempt bs False, Tick] @ attempts_of bs k b" for b
      using k(1) by (cases k) (simp_all add: attempts_of_def)
    ultimately show ?thesis using k(1,2,4) unfolding st k(5) n
      by (intro exI [of _ "Suc k"]) (auto simp: t_def)
  qed
qed simp

section \<open>The frame\<close>

lemma copy_chain_fits:
  "k + length (concat qs) \<le> length buf \<Longrightarrow> copy_chain k qs buf = Inr (k + length (concat qs), overwrite k (concat qs) buf)"
proof (induction k qs buf rule: copy_chain.induct)
  case (2 k q qs buf)
  have "overwrite (k + length q) (concat qs) (overwrite k q buf) = overwrite k (concat (q # qs)) buf"
    using 2(2) by (simp add: overwrite_def min.absorb2 ac_simps)
  then show ?case using 2 by (simp add: add.assoc)
qed (simp add: overwrite_def)

lemma frame_at_inside: "2 \<le> n \<Longrightarrow> n \<le> length buf \<Longrightarrow> n \<le> 1536 \<Longrightarrow> frame_at buf n = Inr (drop 2 (take n buf))"
proof -
  assume n: "2 \<le> n" "n \<le> length buf" "n \<le> 1536"
  then have "n + 65536 - 2 = (n - 2) + 65536" by simp
  then have "(n + 65536 - 2) mod 65536 = n - 2" using n(3) by (simp only: mod_add_self2) simp
  then show ?thesis using n by (simp add: frame_at_def ETH_PAD_SIZE_def drop_take Let_def)
qed

text \<open>The hundred attempts: what they leave of the state, and how often the frame was offered.\<close>

lemma frame_offered:
  assumes "bs \<noteq> []"
  obtains k where "0 < k" "k \<le> 100" "\<forall>j < k - 1. \<not> accept (attempts t + j)" "accept (attempts t + (k - 1)) \<or> k = 100"
    "send_tries accept bs 100 t = t\<lparr>attempts := attempts t + k, tx_evs := tx_evs t @ attempts_of bs k (accept (attempts t + (k - 1)))\<rparr>"
  using send_tries_attempts [OF assms zero_less_numeral, where accept = accept and s = t] by blast

definition frame_sent :: "(nat \<Rightarrow> bool) \<Rightarrow> u8 list list \<Rightarrow> nat \<Rightarrow> winc_tx \<Rightarrow> (tx_ev list \<Rightarrow> tx_ev list) \<Rightarrow> bool" where
  "frame_sent accept p tot s around \<longleftrightarrow> (\<exists>s' k. winc_netif_tx accept tot p s = Some (Inr (ERR_OK, s')) \<and> semph_free s' \<and> length (tx_buf s') = 1536 \<and>
     0 < k \<and> k \<le> 100 \<and> (\<forall>j < k - 1. \<not> accept (attempts s + j)) \<and> (accept (attempts s + (k - 1)) \<or> k = 100) \<and>
     tx_evs s' = tx_evs s @ around (attempts_of (drop 2 (concat p)) k (accept (attempts s + (k - 1)))))"

lemma sent_in_place:
  assumes "semph_free s" "length (tx_buf s) = 1536" "p \<noteq> []" "tot = length (concat p)" "2 < tot" "tot \<le> 1536" "tot = length (hd p)"
  shows "frame_sent accept p tot s (\<lambda>m. [PbufRef] @ m @ [PbufUnref])"
proof -
  have cp: "concat p = hd p" using assms(3,4,7) by (cases p) auto
  have fa: "frame_at (hd p) (length (hd p)) = Inr (drop 2 (concat p))"
    using frame_at_inside [of "length (hd p)" "hd p"] assms(5-7) cp by simp
  define t where "t = s\<lparr>semph_free := False, tx_evs := tx_evs s @ [PbufRef], posted := posted s + 1\<rparr>"
  have t: "attempts t = attempts s" "tx_buf t = tx_buf s" "tx_evs t = tx_evs s @ [PbufRef]" by (simp_all add: t_def)
  obtain k where k: "0 < k" "k \<le> 100" "\<forall>j < k - 1. \<not> accept (attempts t + j)" "accept (attempts t + (k - 1)) \<or> k = 100"
    "send_tries accept (drop 2 (concat p)) 100 t = t\<lparr>attempts := attempts t + k,
       tx_evs := tx_evs t @ attempts_of (drop 2 (concat p)) k (accept (attempts t + (k - 1)))\<rparr>"
    by (rule frame_offered [of "drop 2 (concat p)" accept t]) (use assms(4,5) in simp_all)
  define u where "u = (let s2 = tx_event PbufUnref (send_tries accept (drop 2 (concat p)) 100 t) in s2\<lparr>xmits := xmits s2 + 1, semph_free := True\<rparr>)"
  have r: "winc_netif_tx accept tot p s = Some (Inr (ERR_OK, u))"
    using assms(1,6,7) by (simp add: winc_netif_tx_def WINC_TX_BUF_SIZE_def fa winc_netif_tx_from_queue_def tx_event_def t_def u_def Let_def
        del: send_tries.simps)
  show ?thesis
    unfolding frame_sent_def r
    by (intro exI [of _ u] exI [of _ k] conjI) (use k(1-4) assms(2) in \<open>simp_all add: u_def k(5) t tx_event_def Let_def\<close>)
qed

lemma sent_copied:
  assumes "semph_free s" "length (tx_buf s) = 1536" "tot = length (concat p)" "2 < tot" "tot \<le> 1536" "tot \<noteq> length (hd p)"
  shows "frame_sent accept p tot s (\<lambda>m. m)"
proof -
  have cc: "copy_chain 0 p (tx_buf s) = Inr (tot, overwrite 0 (concat p) (tx_buf s))"
    using copy_chain_fits [of 0 p "tx_buf s"] assms(2,3,5) by simp
  have fa: "frame_at (overwrite 0 (concat p) (tx_buf s)) tot = Inr (drop 2 (concat p))"
    using frame_at_inside [of tot "overwrite 0 (concat p) (tx_buf s)"] assms(2-5) by (simp add: overwrite_def)
  define t where "t = s\<lparr>semph_free := False, tx_buf := overwrite 0 (concat p) (tx_buf s), posted := posted s + 1\<rparr>"
  have t: "attempts t = attempts s" "tx_buf t = overwrite 0 (concat p) (tx_buf s)" "tx_evs t = tx_evs s" by (simp_all add: t_def)
  obtain k where k: "0 < k" "k \<le> 100" "\<forall>j < k - 1. \<not> accept (attempts t + j)" "accept (attempts t + (k - 1)) \<or> k = 100"
    "send_tries accept (drop 2 (concat p)) 100 t = t\<lparr>attempts := attempts t + k,
       tx_evs := tx_evs t @ attempts_of (drop 2 (concat p)) k (accept (attempts t + (k - 1)))\<rparr>"
    by (rule frame_offered [of "drop 2 (concat p)" accept t]) (use assms(3,4) in simp_all)
  define u where "u = (let s2 = send_tries accept (drop 2 (concat p)) 100 t in s2\<lparr>xmits := xmits s2 + 1, semph_free := True\<rparr>)"
  have r: "winc_netif_tx accept tot p s = Some (Inr (ERR_OK, u))"
    using assms(1,5,6) by (simp add: winc_netif_tx_def WINC_TX_BUF_SIZE_def cc fa winc_netif_tx_from_queue_def t_def u_def Let_def
        del: send_tries.simps)
  show ?thesis
    unfolding frame_sent_def r
    by (intro exI [of _ u] exI [of _ k] conjI) (use k(1-4) assms(2,3,5) in \<open>simp_all add: u_def k(5) t Let_def del: send_tries.simps\<close>)
qed

text \<open>
  C34: A frame of at most 1536 bytes with its padding, however it is spread over buffers, is offered to the radio without the padding, unchanged and again after
  every refusal until it is taken or has been offered a hundred times; a longer one is refused with ERR_BUF and offered never. The buffer that is
  sent in place is referenced before and released after; the mutex is free again.
\<close>

theorem winc_tx_sends:
  assumes "semph_free s" "length (tx_buf s) = 1536" "p \<noteq> []" "tot = length (concat p)" "2 < tot"
  shows "\<exists>e s' k. winc_netif_tx accept tot p s = Some (Inr (e, s')) \<and> semph_free s' \<and> length (tx_buf s') = 1536 \<and>
     (if 1536 < tot then e = ERR_BUF \<and> tx_evs s' = tx_evs s
      else e = ERR_OK \<and> 0 < k \<and> k \<le> 100 \<and> (\<forall>j < k - 1. \<not> accept (attempts s + j)) \<and> (accept (attempts s + (k - 1)) \<or> k = 100) \<and>
        tx_evs s' = tx_evs s @ (let m = attempts_of (drop 2 (concat p)) k (accept (attempts s + (k - 1)))
          in if tot = length (hd p) then [PbufRef] @ m @ [PbufUnref] else m))"
proof (cases "1536 < tot")
  case True
  then show ?thesis using assms by (simp add: winc_netif_tx_def WINC_TX_BUF_SIZE_def)
next
  case False
  then have "frame_sent accept p tot s (if tot = length (hd p) then (\<lambda>m. [PbufRef] @ m @ [PbufUnref]) else (\<lambda>m. m))"
    using sent_in_place [OF assms] sent_copied [OF assms(1,2,4,5)] by simp
  then obtain s' k where "winc_netif_tx accept tot p s = Some (Inr (ERR_OK, s'))" "semph_free s'" "length (tx_buf s') = 1536"
    "0 < k \<and> k \<le> 100 \<and> (\<forall>j < k - 1. \<not> accept (attempts s + j)) \<and> (accept (attempts s + (k - 1)) \<or> k = 100)"
    "tx_evs s' = tx_evs s @ (if tot = length (hd p) then (\<lambda>m. [PbufRef] @ m @ [PbufUnref]) else (\<lambda>m. m))
       (attempts_of (drop 2 (concat p)) k (accept (attempts s + (k - 1))))"
    unfolding frame_sent_def by blast
  with False show ?thesis by (intro exI [of _ ERR_OK] exI [of _ s'] exI [of _ k], cases "tot = length (hd p)") (simp_all only: Let_def if_True if_False simp_thms)
qed

lemma winc_tx_sends_witness:
  "\<exists>e s' k. winc_netif_tx (\<lambda>n. 3 \<le> n) 6 [[0, 0, 1], [2, 3, 4]]
     \<lparr>tx_buf = replicate 1536 0, semph_free = True, posted = 0, xmits = 0, attempts = 0, tx_evs = []\<rparr> = Some (Inr (e, s')) \<and>
   e = ERR_OK \<and> tx_evs s' = attempts_of [1, 2, 3, 4] k True"
proof -
  let ?s = "\<lparr>tx_buf = replicate 1536 0, semph_free = True, posted = 0, xmits = 0, attempts = 0, tx_evs = []\<rparr> :: winc_tx"
  obtain e s' k where h: "winc_netif_tx (\<lambda>n. 3 \<le> n) 6 [[0, 0, 1], [2, 3, 4]] ?s = Some (Inr (e, s'))" "e = ERR_OK" "0 < k" "k \<le> 100"
    "\<forall>j < k - 1. \<not> 3 \<le> j" "3 \<le> k - 1 \<or> k = 100" "tx_evs s' = attempts_of [1, 2, 3, 4] k (3 \<le> k - 1)"
    using winc_tx_sends [of ?s "[[0, 0, 1], [2, 3, 4]]" 6 "\<lambda>n. 3 \<le> n"] by auto
  then show ?thesis by fastforce
qed

end
