(* ===== verification/OneWire_Isr.thy ===== *)
theory OneWire_Isr
  imports OneWire_Bus
begin

text \<open>
  onewire.c: the one-wire master that a timer drives. The four compare channels of the timer, the two links (PPI) from a compare event to
  the pin, the pin and the semaphore are part of the state; the handler of the timer's interrupt runs when a channel with an interrupt is reached, without delay.
  Times are microseconds. What the pin reads when it is sampled is a parameter, a function of what happened on the wire; so is the length of a tick.
  The driver calls that return an error code are taken to succeed.
\<close>

section \<open>State\<close>

datatype ost = READY | RESET | WRITE | READ
datatype chan = C0 | C1 | C2 | C3

datatype wire_ev = Edge nat bool | Sample nat bool

text \<open>
  \<open>onewire_t\<close> with the buffer it points into and the position in it; then the timer, with the time it was cleared last; the links, each with its channel and
  whether it is enabled; the level of the pin; the semaphore.
\<close>

record ow =
  ostate :: ost
  presence :: bool
  ibit :: nat
  nbytes :: u8
  obuf :: "u8 list"
  pos :: nat
  cc :: "chan \<Rightarrow> nat"
  inten :: "chan set"
  stops :: "chan set"
  running :: bool
  counter :: nat
  base :: nat
  link0 :: chan
  on0 :: bool
  link1 :: chan
  on1 :: bool
  level :: bool
  given :: bool
  wlog :: "wire_ev list"

type_synonym device = "wire_ev list \<Rightarrow> bool"

definition now :: "ow \<Rightarrow> nat" where "now s = base s + counter s"

definition set_pin :: "bool \<Rightarrow> ow \<Rightarrow> ow" where
  "set_pin b s = (if level s = b then s else s\<lparr>level := b, wlog := wlog s @ [Edge (now s) b]\<rparr>)"

definition toggle_pin :: "ow \<Rightarrow> ow" where
  "toggle_pin s = set_pin (\<not> level s) s"

definition sample_pin :: "device \<Rightarrow> ow \<Rightarrow> bool \<times> ow" where
  "sample_pin dev s = (let b = dev (wlog s) in (b, s\<lparr>wlog := wlog s @ [Sample (now s) b]\<rparr>))"

text \<open>\<open>nrf_drv_timer_compare\<close> and \<open>nrf_drv_timer_extended_compare\<close> with a stop\<close>

definition compare :: "chan \<Rightarrow> nat \<Rightarrow> bool \<Rightarrow> ow \<Rightarrow> ow" where
  "compare k t irq s = s\<lparr>cc := (cc s)(k := t), inten := (if irq then insert k (inten s) else inten s - {k})\<rparr>"

definition compare_stop :: "chan \<Rightarrow> nat \<Rightarrow> ow \<Rightarrow> ow" where
  "compare_stop k t s = (compare k t True s)\<lparr>stops := insert k (stops s)\<rparr>"

definition restart :: "ow \<Rightarrow> ow" where
  "restart s = s\<lparr>base := now s, counter := 0, running := True\<rparr>"

section \<open>The interrupt\<close>

text \<open>The end of a bit: the next bit, or the first of the next byte.\<close>

definition next_bit :: "ow \<Rightarrow> ow" where
  "next_bit s = (if ibit s + 1 > 7 then s\<lparr>ibit := 0, pos := pos s + 1, nbytes := nbytes s - 1\<rparr> else s\<lparr>ibit := ibit s + 1\<rparr>)"

definition low_time :: "bool \<Rightarrow> nat" where
  "low_time b = (if b then 5 else 100)"

definition write_slot :: "ow \<Rightarrow> ow res" where
  "write_slot s =
     (if nbytes s = 0 then Inr (s\<lparr>given := True\<rparr>)
      else if length (obuf s) \<le> pos s then Inl Overread
      else Inr (restart (set_pin False (compare_stop C1 120
             (next_bit (compare C0 (low_time (bit (obuf s ! pos s) (ibit s))) False s))))))"

definition read_slot :: "device \<Rightarrow> ow \<Rightarrow> ow res" where
  "read_slot dev s =
     (let (b, s1) = sample_pin dev s
      in if b \<and> length (obuf s1) \<le> pos s1 then Inl Overwrite
         else let s2 = (if b then s1\<lparr>obuf := (obuf s1)[pos s1 := obuf s1 ! pos s1 OR 2 ^ ibit s1]\<rparr> else s1);
                  s3 = next_bit s2
              in Inr (if ibit s2 + 1 > 7 \<and> nbytes s3 = 0 then s3\<lparr>on0 := False\<rparr> else s3))"

fun timer_onewire_event_handler :: "device \<Rightarrow> chan \<Rightarrow> ow \<Rightarrow> ow res" where
  "timer_onewire_event_handler dev C0 s = (if ostate s = WRITE then write_slot s else if ostate s = READ then read_slot dev s else Inr s)"
| "timer_onewire_event_handler dev C1 s = (if ostate s = WRITE then write_slot s else if ostate s = READ then read_slot dev s else Inr s)"
| "timer_onewire_event_handler dev C2 s =
     (if ostate s = RESET then let (b, s1) = sample_pin dev s in Inr (if b then s1 else s1\<lparr>presence := True\<rparr>)
      else if ostate s = READ then
        (if nbytes s = 0 then Inr (s\<lparr>given := True\<rparr>)
         else Inr (restart (toggle_pin s)))
      else Inr s)"
| "timer_onewire_event_handler dev C3 s = Inr (if ostate s = RESET then s\<lparr>given := True\<rparr> else s)"

section \<open>The timer\<close>

text \<open>The next channel the counter reaches, of those that do something: an interrupt, a stop or an enabled link.\<close>

definition live :: "ow \<Rightarrow> chan \<Rightarrow> bool" where
  "live s k \<longleftrightarrow> k \<in> inten s \<or> k \<in> stops s \<or> (on0 s \<and> link0 s = k) \<or> (on1 s \<and> link1 s = k)"

fun earliest :: "(chan \<Rightarrow> nat) \<Rightarrow> chan list \<Rightarrow> chan option" where
  "earliest t [] = None"
| "earliest t (k # ks) = (case earliest t ks of None \<Rightarrow> Some k | Some j \<Rightarrow> if t k \<le> t j then Some k else Some j)"

definition next_chan :: "ow \<Rightarrow> chan option" where
  "next_chan s = earliest (cc s) (filter (\<lambda>k. live s k \<and> counter s < cc s k) [C0, C1, C2, C3])"

definition compare_event :: "device \<Rightarrow> chan \<Rightarrow> ow \<Rightarrow> ow res" where
  "compare_event dev k s =
     (let s1 = s\<lparr>counter := cc s k\<rparr>;
          s2 = (if on0 s1 \<and> link0 s1 = k then toggle_pin s1 else s1);
          s3 = (if on1 s2 \<and> link1 s2 = k then toggle_pin s2 else s2);
          s4 = (if k \<in> stops s3 then s3\<lparr>running := False\<rparr> else s3)
      in if k \<in> inten s4 then timer_onewire_event_handler dev k s4 else Inr s4)"

text \<open>
  Waiting for the semaphore up to a time: events happen until it is given, the timer has stopped, or the next event would be
  too late. Time grows with every event, so that many events as microseconds are left are enough.
\<close>

fun wait_events :: "device \<Rightarrow> nat \<Rightarrow> nat \<Rightarrow> ow \<Rightarrow> ow res" where
  "wait_events dev 0 deadline s = Inr s"
| "wait_events dev (Suc n) deadline s =
     (if given s \<or> \<not> running s then Inr s
      else case next_chan s of
             None \<Rightarrow> Inr s
           | Some k \<Rightarrow> if deadline < base s + cc s k then Inr s
               else res_bind (compare_event dev k s) (wait_events dev n deadline))"

text \<open>\<open>xSemaphoreTake\<close> with a timeout: whether it was given, and then it is not any more.\<close>

definition semaphore_wait :: "device \<Rightarrow> nat \<Rightarrow> ow \<Rightarrow> (bool \<times> ow) res" where
  "semaphore_wait dev us s =
     res_bind (wait_events dev (Suc us) (now s + us) s) (\<lambda>s1. Inr (given s1, s1\<lparr>given := False\<rparr>))"

section \<open>The operations\<close>

definition timer_init :: "ow \<Rightarrow> ow" where
  "timer_init s = s\<lparr>inten := {}, stops := {}, running := False, base := now s, counter := 0\<rparr>"

definition links_off :: "ow \<Rightarrow> ow" where
  "links_off s = s\<lparr>on0 := False, on1 := False\<rparr>"

definition enable_timer :: "ow \<Rightarrow> ow" where
  "enable_timer s = s\<lparr>running := True\<rparr>"

text \<open>The end of every operation: timer and links off, the pin released, ready again.\<close>

definition finish :: "ow \<Rightarrow> ow" where
  "finish s = (links_off (set_pin True (s\<lparr>inten := {}, stops := {}, running := False\<rparr>)))\<lparr>ostate := READY\<rparr>"

definition onewire_reset :: "device \<Rightarrow> nat \<Rightarrow> ow \<Rightarrow> (int \<times> ow) res" where
  "onewire_reset dev tick_us s0 =
     (if ostate s0 \<noteq> READY then Inr (2, s0)
      else let s = set_pin True (s0\<lparr>ostate := RESET, presence := False\<rparr>);
               s1 = compare_stop C3 960 (compare C2 550 True (compare C1 480 False (compare C0 10 False (timer_init s))));
               s2 = enable_timer (s1\<lparr>link0 := C0, link1 := C1, on0 := True, on1 := True\<rparr>)
           in res_bind (semaphore_wait dev (10 * tick_us) s2) (\<lambda>(ok, s3).
                Inr (let ret = (if ok then 0 else 1) in if ret = 0 \<and> \<not> presence s3 then 3 else ret, finish s3)))"

text \<open>The caller's buffer is the argument \<open>buff\<close>; \<open>nbytes\<close> is a byte, \<open>len\<close> a 16-bit number.\<close>

definition onewire_write :: "device \<Rightarrow> nat \<Rightarrow> u8 list \<Rightarrow> u16 \<Rightarrow> ow \<Rightarrow> (int \<times> ow) res" where
  "onewire_write dev tick_us buff len s0 =
     (if ostate s0 \<noteq> READY then Inr (2, s0)
      else if len = 0 then Inr (0, s0)
      else if buff = [] then Inl Overread
      else let s = set_pin True (s0\<lparr>ostate := WRITE, nbytes := ucast len, ibit := 0, obuf := buff, pos := 0\<rparr>);
               s1 = compare C0 (low_time (bit (buff ! 0) 0)) False (compare_stop C1 120 (timer_init s));
               s2 = s1\<lparr>ibit := ibit s1 + 1, link0 := C0, on0 := True\<rparr>;
               s3 = enable_timer (set_pin False s2)
           in res_bind (semaphore_wait dev (300 * tick_us) s3) (\<lambda>(ok, s4). Inr (if ok then 0 else 1, finish s4)))"

definition onewire_read :: "device \<Rightarrow> nat \<Rightarrow> u8 list \<Rightarrow> u16 \<Rightarrow> ow \<Rightarrow> (int \<times> ow) res" where
  "onewire_read dev tick_us buff len s0 =
     (if ostate s0 \<noteq> READY then Inr (2, s0)
      else if len = 0 then Inr (0, s0)
      else if length buff < unat len then Inl Overwrite
      else let s = set_pin True (s0\<lparr>ostate := READ, nbytes := ucast len, ibit := 0, obuf := overwrite 0 (replicate (unat len) 0) buff, pos := 0\<rparr>);
               s1 = compare_stop C2 120 (compare C1 5 True (compare C0 2 False (timer_init s)));
               s2 = s1\<lparr>link0 := C1, link1 := C2, on0 := True\<rparr>;
               s3 = enable_timer (set_pin False s2)
           in res_bind (semaphore_wait dev (300 * tick_us) s3) (\<lambda>(ok, s4). Inr (if ok then 0 else 1, finish s4)))"

text \<open>\<open>onewire_init\<close> allocates the links and creates the semaphore, which has not been given.\<close>

definition onewire_init :: "ow \<Rightarrow> int \<times> ow" where
  "onewire_init s = (0, s\<lparr>given := False\<rparr>)"


section \<open>A reset\<close>

definition idle :: "ow \<Rightarrow> bool" where
  "idle s \<longleftrightarrow> ostate s = READY \<and> \<not> on0 s \<and> \<not> on1 s \<and> \<not> given s \<and> level s"

lemmas drive_defs = set_pin_def toggle_pin_def sample_pin_def compare_def compare_stop_def restart_def timer_init_def links_off_def
  enable_timer_def finish_def now_def Let_def

lemma wait_step:
  "\<not> given s \<Longrightarrow> running s \<Longrightarrow> next_chan s = Some k \<Longrightarrow> base s + cc s k \<le> deadline \<Longrightarrow> compare_event dev k s = Inr s1 \<Longrightarrow>
   wait_events dev (Suc n) deadline s = wait_events dev n deadline s1"
  by simp

lemma wait_given: "given s \<Longrightarrow> 0 < n \<Longrightarrow> wait_events dev n deadline s = Inr s"
  by (cases n) simp_all

definition reset_edges :: "nat \<Rightarrow> wire_ev list" where
  "reset_edges t = [Edge (t + 10) False, Edge (t + 480) True]"

lemma onewire_reset_pulse:
  assumes "idle s" "96 \<le> tick_us"
  shows "\<exists>s'. onewire_reset dev tick_us s = Inr (if dev (wlog s @ reset_edges (now s)) then 3 else 0, s') \<and> idle s' \<and>
     wlog s' = wlog s @ reset_edges (now s) @ [Sample (now s + 550) (dev (wlog s @ reset_edges (now s)))]"
proof -
  obtain n where n: "10 * tick_us = Suc (Suc (Suc (Suc n)))" using assms(2) by (cases tick_us) (auto simp: numeral_eq_Suc)
  have big: "960 \<le> Suc (Suc (Suc (Suc n)))" using n assms(2) by simp
  show ?thesis
    using assms(1) big unfolding onewire_reset_def semaphore_wait_def n idle_def reset_edges_def
    by (simp add: drive_defs next_chan_def live_def compare_event_def)
qed


section \<open>Writing\<close>

text \<open>What a master sends for a list of bits: a slot of 120 microseconds for each, low for a short or a long time.\<close>

fun write_wire :: "nat \<Rightarrow> bool list \<Rightarrow> wire_ev list" where
  "write_wire t [] = []"
| "write_wire t (b # bs) = Edge t False # Edge (t + low_time b) True # write_wire (t + 120) bs"

definition bit_at :: "u8 list \<Rightarrow> nat \<Rightarrow> bool" where
  "bit_at mem j = bit (mem ! (j div 8)) (j mod 8)"

definition bits_from :: "u8 list \<Rightarrow> nat \<Rightarrow> nat \<Rightarrow> bool list" where
  "bits_from mem j n = map (bit_at mem) [j..<n]"

lemma bits_from_simps:
  "j < n \<Longrightarrow> bits_from mem j n = bit_at mem j # bits_from mem (Suc j) n" "bits_from mem n n = []"
  by (simp_all add: bits_from_def upt_conv_Cons)

lemma bits_from_bytes: "bits_from ds 0 (8 * length ds) = concat (map bits_of_byte ds)"
proof (induction ds rule: rev_induct)
  case (snoc d ds)
  have u: "[0..<8 * length (ds @ [d])] = [0..<8 * length ds] @ map (\<lambda>i. 8 * length ds + i) [0..<8]"
    using upt_add_eq_append [of 0 "8 * length ds" 8] map_add_upt [of "8 * length ds" 8] by (simp add: add.commute)
  have old: "bit_at (ds @ [d]) j = bit_at ds j" if "j < 8 * length ds" for j
    using that by (simp add: bit_at_def nth_append less_mult_imp_div_less mult.commute)
  have new: "bit_at (ds @ [d]) (8 * length ds + i) = bit d i" if "i < 8" for i
    using that by (simp add: bit_at_def)
  have "bits_from (ds @ [d]) 0 (8 * length (ds @ [d])) =
      map (bit_at (ds @ [d])) [0..<8 * length ds] @ map (\<lambda>i. bit_at (ds @ [d]) (8 * length ds + i)) [0..<8]"
    unfolding bits_from_def u by simp
  also have "\<dots> = bits_from ds 0 (8 * length ds) @ bits_of_byte d"
    using old new by (simp add: bits_from_def bits_of_byte_def)
  finally show ?case using snoc by simp
qed (simp add: bits_from_def)

text \<open>At the start of slot \<open>j\<close> of \<open>8 * n\<close>: the low phase has begun, the next bit to prepare is \<open>j + 1\<close>.\<close>

definition writing :: "u8 list \<Rightarrow> nat \<Rightarrow> nat \<Rightarrow> ow \<Rightarrow> bool" where
  "writing mem n j s \<longleftrightarrow> ostate s = WRITE \<and> obuf s = mem \<and> pos s = Suc j div 8 \<and> ibit s = Suc j mod 8 \<and>
     unat (nbytes s) = n - Suc j div 8 \<and> cc s C0 = low_time (bit_at mem j) \<and> cc s C1 = 120 \<and> inten s = {C1} \<and> stops s = {C1} \<and>
     running s \<and> counter s = 0 \<and> on0 s \<and> link0 s = C0 \<and> \<not> on1 s \<and> \<not> given s \<and> \<not> level s"

lemma low_time_bounds: "0 < low_time b" "low_time b < 120" "low_time b \<le> 120" "low_time b \<noteq> 120" "\<not> 120 \<le> low_time b"
  by (simp_all add: low_time_def)

definition high :: "ow \<Rightarrow> ow" where
  "high s = s\<lparr>counter := cc s C0, level := True, wlog := wlog s @ [Edge (base s + cc s C0) True]\<rparr>"

lemma writing_high:
  assumes "writing mem n j s" "base s + 120 \<le> d"
  shows "wait_events dev (Suc m) d s = wait_events dev m d (high s)"
proof (rule wait_step)
  show "next_chan s = Some C0" using assms(1) low_time_bounds
    by (auto simp: writing_def next_chan_def live_def)
  show "base s + cc s C0 \<le> d" using assms low_time_bounds(2) [of "bit_at mem j"] by (simp add: writing_def)
  show "compare_event dev C0 s = Inr (high s)" using assms(1)
    by (simp add: writing_def compare_event_def drive_defs high_def)
qed (use assms(1) in \<open>simp_all add: writing_def\<close>)

lemma suc_div_8: "Suc k div 8 = (if k mod 8 = 7 then Suc (k div 8) else k div 8)" "Suc k mod 8 = (if k mod 8 = 7 then 0 else Suc (k mod 8))"
  by (auto simp: div_Suc mod_Suc)

lemma write_turn:
  assumes "writing mem n j s" "Suc j < 8 * n" "n \<le> length mem" "base s + 120 \<le> d" "n < 256"
  shows "\<exists>s'. wait_events dev (Suc (Suc m)) d s = wait_events dev m d s' \<and> writing mem n (Suc j) s' \<and> base s' = base s + 120 \<and>
    wlog s' = wlog s @ [Edge (base s + low_time (bit_at mem j)) True, Edge (base s + 120) False]"
proof -
  define q r where "q = Suc j div 8" and "r = Suc j mod 8"
  have w: "ostate s = WRITE" "obuf s = mem" "pos s = q" "ibit s = r" "unat (nbytes s) = n - q"
    "cc s C0 = low_time (bit_at mem j)" "cc s C1 = 120" "inten s = {C1}" "stops s = {C1}" "running s" "counter s = 0" "on0 s"
    "link0 s = C0" "\<not> on1 s" "\<not> given s" "\<not> level s" using assms(1) by (simp_all add: writing_def q_def r_def)
  have p: "q < n" using assms(2) by (simp add: q_def less_mult_imp_div_less mult.commute)
  then have nb: "nbytes s \<noteq> 0" using w(5) by (metis unat_0 zero_less_diff less_numeral_extra(3))
  have more: "Suc (Suc j) div 8 = (if r = 7 then Suc q else q)" "Suc (Suc j) mod 8 = (if r = 7 then 0 else Suc r)"
    unfolding q_def r_def by (rule suc_div_8)+
  have r8: "r < 8" unfolding r_def by (rule mod_less_divisor) simp
  have bt: "bit_at mem (Suc j) = bit (mem ! q) r" by (simp add: bit_at_def q_def r_def)
  have less: "unat (nbytes s - 1) = unat (nbytes s) - 1" using nb by (simp add: unat_minus_one)
  define x where "x = high s\<lparr>counter := 120, running := False\<rparr>"
  have x: "nbytes x \<noteq> 0" "obuf x = mem" "pos x = q" "ibit x = r" "ostate x = WRITE" using w nb by (simp_all add: x_def high_def)
  define v where "v = next_bit (compare C0 (low_time (bit_at mem (Suc j))) False x)"
  define s' where "s' = restart (set_pin False (compare_stop C1 120 v))"
  have ev: "compare_event dev C1 (high s) = Inr s'"
  proof -
    have "compare_event dev C1 (high s) = timer_onewire_event_handler dev C1 x"
      using w by (simp add: compare_event_def high_def x_def)
    also have "\<dots> = Inr s'" using x p assms(3) by (simp add: write_slot_def s'_def v_def bt)
    finally show ?thesis .
  qed
  have "wait_events dev (Suc (Suc m)) d s = wait_events dev m d s'"
  proof -
    have "next_chan (high s) = Some C1" using w low_time_bounds by (auto simp: high_def next_chan_def live_def)
    then show ?thesis unfolding writing_high [OF assms(1,4)]
      by (intro wait_step) (use w assms(4) ev in \<open>simp_all add: high_def\<close>)
  qed
  moreover have "writing mem n (Suc j) s'"
    using w p less more r8 unfolding writing_def
    by (cases "r = 7") (simp_all add: s'_def v_def x_def next_bit_def high_def drive_defs)
  moreover have "base s' = base s + 120" "wlog s' = wlog s @ [Edge (base s + low_time (bit_at mem j)) True, Edge (base s + 120) False]"
    using w by (auto simp: s'_def v_def x_def next_bit_def high_def drive_defs)
  ultimately show ?thesis by blast
qed

lemma write_last:
  assumes "writing mem n j s" "nbytes s = 0" "base s + 120 \<le> d"
  shows "\<exists>s'. wait_events dev (Suc (Suc m)) d s = wait_events dev m d s' \<and> given s' \<and> level s' \<and>
    wlog s' = wlog s @ [Edge (base s + low_time (bit_at mem j)) True]"
proof -
  have w: "ostate s = WRITE" "cc s C0 = low_time (bit_at mem j)" "cc s C1 = 120" "inten s = {C1}" "stops s = {C1}" "running s" "on0 s"
    "link0 s = C0" "\<not> on1 s" "\<not> given s" "\<not> level s" using assms(1) by (simp_all add: writing_def)
  define s' where "s' = high s\<lparr>counter := 120, running := False, given := True\<rparr>"
  have ev: "compare_event dev C1 (high s) = Inr s'"
    using w assms(2) by (simp add: compare_event_def high_def write_slot_def s'_def)
  have "next_chan (high s) = Some C1" using w low_time_bounds by (auto simp: high_def next_chan_def live_def)
  then have "wait_events dev (Suc (Suc m)) d s = wait_events dev m d s'" unfolding writing_high [OF assms(1,3)]
    by (intro wait_step) (use w assms(3) ev in \<open>simp_all add: high_def\<close>)
  moreover have "given s'" "level s'" "wlog s' = wlog s @ [Edge (base s + low_time (bit_at mem j)) True]"
    using w by (simp_all add: s'_def high_def)
  ultimately show ?thesis by blast
qed

lemma write_slots:
  assumes "writing mem n j s" "j < 8 * n" "n \<le> length mem" "n < 256" "base s + 120 * (8 * n - j) \<le> d" "2 * (8 * n - j) < m"
  shows "\<exists>s'. wait_events dev m d s = Inr s' \<and> given s' \<and> level s' \<and>
    wlog s' = wlog s @ tl (write_wire (base s) (bits_from mem j (8 * n)))"
  using assms
proof (induction "8 * n - Suc j" arbitrary: j s m)
  case 0
  then have j: "Suc j = 8 * n" by simp
  obtain m' where m: "m = Suc (Suc (Suc m'))" using 0 j by (cases m; cases "m - 1"; cases "m - 2") auto
  have d0: "base s + 120 \<le> d" using 0 j by simp
  have "unat (nbytes s) = n - Suc j div 8" using 0(2) by (simp add: writing_def)
  then have nb: "nbytes s = 0" unfolding j by (simp add: unat_eq_zero)
  from write_last [OF 0(2) nb d0, of dev "Suc m'"] obtain s' where s': "wait_events dev m d s = wait_events dev (Suc m') d s'" "given s'" "level s'"
    "wlog s' = wlog s @ [Edge (base s + low_time (bit_at mem j)) True]" unfolding m by blast
  moreover have "bits_from mem j (8 * n) = [bit_at mem j]" unfolding j [symmetric] by (simp add: bits_from_simps)
  ultimately show ?case by simp
next
  case (Suc r)
  then have j: "Suc j < 8 * n" by simp
  obtain m' where m: "m = Suc (Suc m')" using Suc.prems j by (cases m; cases "m - 1") auto
  have d: "base s + 120 \<le> d" using Suc.prems(5) j by (simp add: diff_mult_distrib2)
  obtain t where t: "wait_events dev m d s = wait_events dev m' d t" "writing mem n (Suc j) t" "base t = base s + 120"
    "wlog t = wlog s @ [Edge (base s + low_time (bit_at mem j)) True, Edge (base s + 120) False]"
    using write_turn [OF Suc.prems(1) j Suc.prems(3) d Suc.prems(4), of dev m'] unfolding m by blast
  have "\<exists>s'. wait_events dev m' d t = Inr s' \<and> given s' \<and> level s' \<and>
      wlog s' = wlog t @ tl (write_wire (base t) (bits_from mem (Suc j) (8 * n)))"
    by (rule Suc.hyps(1)) (use Suc.hyps(2) Suc.prems j t m in auto)
  moreover have "bits_from mem j (8 * n) = bit_at mem j # bit_at mem (Suc j) # bits_from mem (Suc (Suc j)) (8 * n)"
    "bits_from mem (Suc j) (8 * n) = bit_at mem (Suc j) # bits_from mem (Suc (Suc j)) (8 * n)"
    using j by (simp_all add: bits_from_simps)
  ultimately show ?case using t by auto
qed


lemma bits_from_take: "n \<le> length mem \<Longrightarrow> bits_from mem 0 (8 * n) = concat (map bits_of_byte (take n mem))"
proof -
  assume n: "n \<le> length mem"
  then have "bits_from mem 0 (8 * n) = bits_from (take n mem) 0 (8 * n)"
    by (simp add: bits_from_def bit_at_def less_mult_imp_div_less mult.commute)
  then show ?thesis using bits_from_bytes [of "take n mem"] n by (simp add: min_absorb2)
qed

lemma unat_low_byte: "unat (ucast (w :: u16) :: u8) = unat w mod 256"
  by (simp add: unsigned_ucast_eq take_bit_eq_mod)

text \<open>The state in which \<open>onewire_write\<close> starts to wait.\<close>

lemma write_started:
  assumes "idle s" "len \<noteq> 0" "buff \<noteq> []" "n = unat len mod 256"
  shows "\<exists>t. onewire_write dev tick_us buff len s =
      res_bind (semaphore_wait dev (300 * tick_us) t) (\<lambda>(ok, s4). Inr (if ok then 0 else 1, finish s4)) \<and>
    writing buff n 0 t \<and> base t = now s \<and> wlog t = wlog s @ [Edge (now s) False]"
proof -
  define t where "t = enable_timer (set_pin False ((compare C0 (low_time (bit (buff ! 0) 0)) False (compare_stop C1 120 (timer_init
    (s\<lparr>ostate := WRITE, nbytes := ucast len, ibit := 0, obuf := buff, pos := 0\<rparr>))))\<lparr>ibit := 1, link0 := C0, on0 := True\<rparr>))"
  have "set_pin True (s\<lparr>ostate := WRITE, nbytes := ucast len, ibit := 0, obuf := buff, pos := 0\<rparr>) =
      s\<lparr>ostate := WRITE, nbytes := ucast len, ibit := 0, obuf := buff, pos := 0\<rparr>" using assms(1) by (simp add: idle_def set_pin_def)
  then have "onewire_write dev tick_us buff len s =
      res_bind (semaphore_wait dev (300 * tick_us) t) (\<lambda>(ok, s4). Inr (if ok then 0 else 1, finish s4))"
    using assms(1-3) unfolding onewire_write_def t_def by (simp add: idle_def Let_def compare_def compare_stop_def timer_init_def)
  moreover have "writing buff n 0 t" "base t = now s" "wlog t = wlog s @ [Edge (now s) False]"
    using assms by (auto simp: t_def writing_def idle_def drive_defs bit_at_def unat_low_byte)
  ultimately show ?thesis by blast
qed

lemma finish_idle: "idle (finish (s\<lparr>given := False\<rparr>))"
  by (simp add: idle_def drive_defs)

lemma finish_wlog: "level s \<Longrightarrow> wlog (finish (s\<lparr>given := False\<rparr>)) = wlog s"
  by (simp add: drive_defs)

lemma onewire_write_wire:
  assumes "idle s" "0 < unat len" "unat len < 256" "unat len \<le> length buff" "976 \<le> tick_us"
  shows "\<exists>s'. onewire_write dev tick_us buff len s = Inr (0, s') \<and> idle s' \<and>
    wlog s' = wlog s @ write_wire (now s) (concat (map bits_of_byte (take (unat len) buff)))"
proof -
  let ?n = "unat len"
  have nz: "len \<noteq> 0" "buff \<noteq> []" "?n = unat len mod 256" using assms by auto
  obtain t where t: "onewire_write dev tick_us buff len s =
      res_bind (semaphore_wait dev (300 * tick_us) t) (\<lambda>(ok, s4). Inr (if ok then 0 else 1, finish s4))"
    "writing buff ?n 0 t" "base t = now s" "wlog t = wlog s @ [Edge (now s) False]"
    using write_started [OF assms(1) nz] by blast
  have nt: "now t = base t" using t(2) by (simp add: writing_def now_def)
  obtain u where u: "wait_events dev (Suc (300 * tick_us)) (now t + 300 * tick_us) t = Inr u" "given u" "level u"
    "wlog u = wlog t @ tl (write_wire (base t) (bits_from buff 0 (8 * ?n)))"
    using write_slots [OF t(2) _ assms(4,3), of "now t + 300 * tick_us" "Suc (300 * tick_us)" dev] assms(2,3,5) nt by auto
  have "write_wire (now s) (bits_from buff 0 (8 * ?n)) = Edge (now s) False # tl (write_wire (now s) (bits_from buff 0 (8 * ?n)))"
    using assms(2) by (simp add: bits_from_simps)
  then have "wlog (finish (u\<lparr>given := False\<rparr>)) = wlog s @ write_wire (now s) (concat (map bits_of_byte (take ?n buff)))"
    using u(3,4) t(3,4) bits_from_take [OF assms(4)] by (simp add: finish_wlog)
  then show ?thesis using t(1) u(1,2) finish_idle [of u] by (auto simp: semaphore_wait_def)
qed

text \<open>A length of 256, or a multiple of it, is cut to 0 when it is stored in a byte: one bit is sent, and the result is success.\<close>

lemma onewire_write_truncates:
  assumes "idle s" "len \<noteq> 0" "unat len mod 256 = 0" "buff \<noteq> []" "1 \<le> tick_us"
  shows "\<exists>s'. onewire_write dev tick_us buff len s = Inr (0, s') \<and> wlog s' = wlog s @ write_wire (now s) [bit (buff ! 0) 0]"
proof -
  obtain t where t: "onewire_write dev tick_us buff len s =
      res_bind (semaphore_wait dev (300 * tick_us) t) (\<lambda>(ok, s4). Inr (if ok then 0 else 1, finish s4))"
    "writing buff 0 0 t" "base t = now s" "wlog t = wlog s @ [Edge (now s) False]"
    using write_started [OF assms(1,2,4), of 0] assms(3) by auto
  have nb: "nbytes t = 0" using t(2) by (simp add: writing_def unat_eq_zero)
  have nt: "now t = base t" using t(2) by (simp add: writing_def now_def)
  have d: "base t + 120 \<le> now t + 300 * tick_us" using assms(5) nt by simp
  obtain m where m: "300 * tick_us = Suc (Suc m)" using assms(5) by (cases "300 * tick_us"; cases "300 * tick_us - 1") auto
  obtain u where "wait_events dev (Suc (300 * tick_us)) (now t + 300 * tick_us) t = wait_events dev (Suc m) (now t + 300 * tick_us) u" "given u" "level u"
    "wlog u = wlog t @ [Edge (base t + low_time (bit_at buff 0)) True]"
    using write_last [OF t(2) nb d, of dev "Suc m"] unfolding m by blast
  then show ?thesis using t(1,3,4) by (auto simp: semaphore_wait_def finish_wlog bit_at_def)
qed


section \<open>Reading\<close>

text \<open>A device that answers its read slots, when so many samples have been taken, with the bits of some bytes.\<close>

definition samples :: "wire_ev list \<Rightarrow> nat" where
  "samples log = length (filter (\<lambda>e. case e of Sample _ _ \<Rightarrow> True | _ \<Rightarrow> False) log)"

lemma samples_simps [simp]:
  "samples [] = 0" "samples (log @ log') = samples log + samples log'" "samples (Edge t b # log) = samples log"
  "samples (Sample t b # log) = Suc (samples log)"
  by (simp_all add: samples_def)

definition answers_from :: "nat \<Rightarrow> u8 list \<Rightarrow> device \<Rightarrow> bool" where
  "answers_from k ds dev \<longleftrightarrow> (\<forall>log. k \<le> samples log \<longrightarrow> dev log = bit_at ds (samples log - k))"

fun read_wire :: "nat \<Rightarrow> bool list \<Rightarrow> wire_ev list" where
  "read_wire t [] = []"
| "read_wire t (b # bs) = Edge t False # Edge (t + 5) True # Sample (t + 5) b # read_wire (t + 120) bs"

lemma bit_at_or:
  assumes "j < 8 * length mem" "i < 8 * length mem"
  shows "bit_at (mem[j div 8 := mem ! (j div 8) OR 2 ^ (j mod 8)]) i \<longleftrightarrow> bit_at mem i \<or> i = j"
proof -
  have p: "j div 8 < length mem" using assms(1) by (simp add: less_mult_imp_div_less mult.commute)
  have e: "i div 8 = j div 8 \<and> i mod 8 = j mod 8 \<longleftrightarrow> i = j" by (metis div_mult_mod_eq)
  have "bit (2 ^ (j mod 8) :: u8) (i mod 8) \<longleftrightarrow> i mod 8 = j mod 8" by (auto simp: bit_exp_iff)
  then show ?thesis using p e by (auto simp: bit_at_def nth_list_update bit_or_iff)
qed

text \<open>At the start of slot \<open>j\<close>: the first \<open>j\<close> bits are in the buffer, the others of the first \<open>n\<close> bytes are clear.\<close>

definition reading :: "u8 list \<Rightarrow> u8 list \<Rightarrow> nat \<Rightarrow> nat \<Rightarrow> ow \<Rightarrow> bool" where
  "reading ds buff n j s \<longleftrightarrow> ostate s = READ \<and> length (obuf s) = length buff \<and> drop n (obuf s) = drop n buff \<and>
     (\<forall>i < 8 * n. bit_at (obuf s) i = (i < j \<and> bit_at ds i)) \<and> pos s = j div 8 \<and> ibit s = j mod 8 \<and> unat (nbytes s) = n - j div 8 \<and>
     cc s C1 = 5 \<and> cc s C2 = 120 \<and> inten s = {C1, C2} \<and> stops s = {C2} \<and> running s \<and> counter s = 0 \<and> on0 s \<and> link0 s = C1 \<and>
     \<not> on1 s \<and> \<not> given s \<and> \<not> level s"

text \<open>After the sample of slot \<open>j\<close>.\<close>

definition sampled :: "u8 list \<Rightarrow> u8 list \<Rightarrow> nat \<Rightarrow> nat \<Rightarrow> ow \<Rightarrow> bool" where
  "sampled ds buff n j s \<longleftrightarrow> ostate s = READ \<and> length (obuf s) = length buff \<and> drop n (obuf s) = drop n buff \<and>
     (\<forall>i < 8 * n. bit_at (obuf s) i = (i < Suc j \<and> bit_at ds i)) \<and> pos s = Suc j div 8 \<and> ibit s = Suc j mod 8 \<and>
     unat (nbytes s) = n - Suc j div 8 \<and> cc s C1 = 5 \<and> cc s C2 = 120 \<and> inten s = {C1, C2} \<and> stops s = {C2} \<and> running s \<and>
     counter s = 5 \<and> (on0 s \<or> Suc j = 8 * n) \<and> link0 s = C1 \<and> \<not> on1 s \<and> \<not> given s \<and> level s"

lemma drop_update: "p < n \<Longrightarrow> drop n (xs[p := x]) = drop n xs"
  by (simp add: drop_update_cancel)

lemma read_sample:
  assumes "reading ds buff n j s" "j < 8 * n" "n \<le> length buff" "n < 256" "base s + 120 \<le> d" "samples (wlog s) = k + j" "answers_from k ds dev"
  shows "\<exists>s'. wait_events dev (Suc m) d s = wait_events dev m d s' \<and> sampled ds buff n j s' \<and> base s' = base s \<and>
    wlog s' = wlog s @ [Edge (base s + 5) True, Sample (base s + 5) (bit_at ds j)]"
proof -
  define q r where "q = j div 8" and "r = j mod 8"
  have w: "ostate s = READ" "length (obuf s) = length buff" "drop n (obuf s) = drop n buff" "\<forall>i < 8 * n. bit_at (obuf s) i = (i < j \<and> bit_at ds i)"
    "pos s = q" "ibit s = r" "unat (nbytes s) = n - q" "cc s C1 = 5" "cc s C2 = 120" "inten s = {C1, C2}" "stops s = {C2}"
    "running s" "counter s = 0" "on0 s" "link0 s = C1" "\<not> on1 s" "\<not> given s" "\<not> level s"
    using assms(1) by (simp_all add: reading_def q_def r_def)
  have p: "q < n" "r < 8" using assms(2) by (simp_all add: q_def r_def less_mult_imp_div_less mult.commute)
  have more: "Suc j div 8 = (if r = 7 then Suc q else q)" "Suc j mod 8 = (if r = 7 then 0 else Suc r)"
    unfolding q_def r_def by (rule suc_div_8)+
  have nb: "nbytes s \<noteq> 0" using w(7) p by (metis unat_0 zero_less_diff less_numeral_extra(3))
  have less: "unat (nbytes s - 1) = unat (nbytes s) - 1" using nb by (simp add: unat_minus_one)
  have z: "nbytes s - 1 = 0 \<longleftrightarrow> n - q = 1" using less w(7) p by (metis diff_is_0_eq' diff_self_eq_0 le_numeral_extra(4) less_one linorder_le_less_linear nat_less_le unat_eq_zero zero_less_diff)
  define b where "b = bit_at ds j"
  define mem where "mem = (if b then (obuf s)[q := obuf s ! q OR 2 ^ r] else obuf s)"
  define t where "t = s\<lparr>counter := 5, level := True, wlog := wlog s @ [Edge (base s + 5) True, Sample (base s + 5) b]\<rparr>"
  define x where "x = (if b then t\<lparr>obuf := mem\<rparr> else t)"
  have x: "ostate x = READ" "obuf x = mem" "pos x = q" "ibit x = r" "nbytes x = nbytes s" "cc x = cc s" "inten x = {C1, C2}" "stops x = {C2}"
    "running x" "counter x = 5" "on0 x" "link0 x = C1" "\<not> on1 x" "\<not> given x" "level x" "base x = base s"
    "wlog x = wlog s @ [Edge (base s + 5) True, Sample (base s + 5) b]"
    using w by (simp_all add: x_def t_def mem_def)
  define y where "y = next_bit x"
  define s' where "s' = (if r + 1 > 7 \<and> nbytes y = 0 then y\<lparr>on0 := False\<rparr> else y)"
  have len: "\<not> length buff \<le> q" using p assms(3) by simp
  have dv: "dev (wlog s @ [Edge (base s + 5) True]) = b" using assms(6,7) by (simp add: answers_from_def b_def)
  have ev: "compare_event dev C1 s = Inr s'"
  proof -
    have "compare_event dev C1 s = read_slot dev (s\<lparr>counter := 5, level := True, wlog := wlog s @ [Edge (base s + 5) True]\<rparr>)"
      using w by (simp add: compare_event_def toggle_pin_def set_pin_def now_def)
    also have "\<dots> = (let s3 = next_bit x in Inr (if ibit x + 1 > 7 \<and> nbytes s3 = 0 then s3\<lparr>on0 := False\<rparr> else s3))"
      using w(2,5,6,13) len dv by (cases b) (auto simp: read_slot_def sample_pin_def now_def x_def t_def b_def mem_def Let_def)
    also have "\<dots> = Inr s'" using x(4) by (simp add: s'_def y_def Let_def)
    finally show ?thesis .
  qed
  have "next_chan s = Some C1" using w by (simp add: next_chan_def live_def)
  then have "wait_events dev (Suc m) d s = wait_events dev m d s'"
    by (intro wait_step) (use w assms(5) ev in simp_all)
  moreover have "sampled ds buff n j s'"
  proof -
    have m1: "length mem = length buff" "drop n mem = drop n buff" using w p by (simp_all add: mem_def drop_update)
    have m2: "\<forall>i < 8 * n. bit_at mem i = (i < Suc j \<and> bit_at ds i)"
    proof (intro allI impI)
      fix i assume i: "i < 8 * n"
      have "bit_at mem i \<longleftrightarrow> bit_at (obuf s) i \<or> (b \<and> i = j)"
        using bit_at_or [of j "obuf s" i] i assms(2,3) w(2) unfolding mem_def q_def r_def by auto
      then show "bit_at mem i = (i < Suc j \<and> bit_at ds i)" using w(4) i by (auto simp: b_def less_Suc_eq)
    qed
    have last: "r = 7 \<Longrightarrow> n - q = 1 \<Longrightarrow> Suc j = 8 * n"
    proof -
      assume a: "r = 7" "n - q = 1"
      have "j = 8 * q + r" by (simp add: q_def r_def)
      then show "Suc j = 8 * n" using a by simp
    qed
    show ?thesis using w p less m1 m2 more last z unfolding sampled_def
      by (cases "r = 7"; cases "n - q = 1") (simp_all add: s'_def y_def x next_bit_def)
  qed
  moreover have "base s' = base s" "wlog s' = wlog s @ [Edge (base s + 5) True, Sample (base s + 5) (bit_at ds j)]"
    by (simp_all add: s'_def y_def x next_bit_def) (simp add: b_def)
  ultimately show ?thesis by blast
qed


lemma read_next:
  assumes "sampled ds buff n j s" "Suc j < 8 * n" "n < 256" "base s + 120 \<le> d"
  shows "\<exists>s'. wait_events dev (Suc m) d s = wait_events dev m d s' \<and> reading ds buff n (Suc j) s' \<and> base s' = base s + 120 \<and>
    wlog s' = wlog s @ [Edge (base s + 120) False]"
proof -
  define q where "q = Suc j div 8"
  have w: "ostate s = READ" "unat (nbytes s) = n - q" "cc s C1 = 5" "cc s C2 = 120" "inten s = {C1, C2}" "stops s = {C2}" "running s"
    "counter s = 5" "on0 s" "link0 s = C1" "\<not> on1 s" "\<not> given s" "level s"
    using assms(1,2) by (auto simp: sampled_def q_def)
  have "q < n" using assms(2) by (simp add: q_def less_mult_imp_div_less mult.commute)
  then have nb: "nbytes s \<noteq> 0" using w(2) by (metis unat_0 zero_less_diff less_numeral_extra(3))
  define s' where "s' = s\<lparr>base := base s + 120, counter := 0, running := True, level := False, wlog := wlog s @ [Edge (base s + 120) False]\<rparr>"
  have "compare_event dev C2 s = Inr s'"
    using w nb by (simp add: compare_event_def toggle_pin_def set_pin_def restart_def now_def s'_def)
  moreover have "next_chan s = Some C2" using w by (simp add: next_chan_def live_def)
  ultimately have "wait_events dev (Suc m) d s = wait_events dev m d s'"
    by (intro wait_step) (use w assms(4) in simp_all)
  moreover have "reading ds buff n (Suc j) s'" using assms(1) w(7,9) by (simp add: sampled_def reading_def s'_def)
  ultimately show ?thesis by (auto simp: s'_def)
qed

lemma read_last:
  assumes "sampled ds buff n j s" "Suc j = 8 * n" "base s + 120 \<le> d"
  shows "\<exists>s'. wait_events dev (Suc m) d s = wait_events dev m d s' \<and> given s' \<and> level s' \<and> wlog s' = wlog s \<and> obuf s' = obuf s"
proof -
  have w: "ostate s = READ" "unat (nbytes s) = n - Suc j div 8" "cc s C1 = 5" "cc s C2 = 120" "inten s = {C1, C2}" "stops s = {C2}" "running s"
    "counter s = 5" "link0 s = C1" "\<not> on1 s" "\<not> given s" "level s"
    using assms(1) by (auto simp: sampled_def)
  have nb: "nbytes s = 0" using w(2) unfolding assms(2) by (simp add: unat_eq_zero)
  define s' where "s' = s\<lparr>counter := 120, running := False, given := True\<rparr>"
  have "compare_event dev C2 s = Inr s'" using w nb by (simp add: compare_event_def s'_def)
  moreover have "next_chan s = Some C2" using w by (simp add: next_chan_def live_def)
  ultimately have "wait_events dev (Suc m) d s = wait_events dev m d s'"
    by (intro wait_step) (use w assms(3) in simp_all)
  then show ?thesis using w by (auto simp: s'_def)
qed

lemma read_slots:
  assumes "reading ds buff n j s" "j < 8 * n" "n \<le> length buff" "n < 256" "base s + 120 * (8 * n - j) \<le> d" "2 * (8 * n - j) < m"
    and "samples (wlog s) = k + j" "answers_from k ds dev"
  shows "\<exists>s' o'. wait_events dev m d s = Inr s' \<and> given s' \<and> level s' \<and> sampled ds buff n (8 * n - 1) o' \<and> obuf s' = obuf o' \<and>
    wlog s' = wlog s @ tl (read_wire (base s) (bits_from ds j (8 * n)))"
  using assms(1-7)
proof (induction "8 * n - Suc j" arbitrary: j s m)
  case 0
  then have j: "Suc j = 8 * n" by simp
  obtain m' where m: "m = Suc (Suc (Suc m'))" using 0 j by (cases m; cases "m - 1"; cases "m - 2") auto
  have d: "base s + 120 \<le> d" using 0 j by simp
  obtain t where t: "wait_events dev m d s = wait_events dev (Suc (Suc m')) d t" "sampled ds buff n j t" "base t = base s"
    "wlog t = wlog s @ [Edge (base s + 5) True, Sample (base s + 5) (bit_at ds j)]"
    using read_sample [OF 0(2-5) d 0(8) assms(8), of "Suc (Suc m')"] unfolding m by blast
  have dt: "base t + 120 \<le> d" using d t(3) by simp
  obtain u where u: "wait_events dev (Suc (Suc m')) d t = wait_events dev (Suc m') d u" "given u" "level u" "wlog u = wlog t" "obuf u = obuf t"
    using read_last [OF t(2) j dt, of dev "Suc m'"] by blast
  have "bits_from ds j (8 * n) = [bit_at ds j]" unfolding j [symmetric] by (simp add: bits_from_simps)
  moreover have "8 * n - 1 = j" using j by simp
  ultimately show ?case using t u by (intro exI [of _ u] exI [of _ t]) simp
next
  case (Suc r)
  then have j: "Suc j < 8 * n" by simp
  obtain m' where m: "m = Suc (Suc m')" using Suc.prems j by (cases m; cases "m - 1") auto
  have d: "base s + 120 \<le> d" using Suc.prems(5) j by (simp add: diff_mult_distrib2)
  obtain t where t: "wait_events dev m d s = wait_events dev (Suc m') d t" "sampled ds buff n j t" "base t = base s"
    "wlog t = wlog s @ [Edge (base s + 5) True, Sample (base s + 5) (bit_at ds j)]"
    using read_sample [OF Suc.prems(1-4) d Suc.prems(7) assms(8), of "Suc m'"] unfolding m by blast
  have dt: "base t + 120 \<le> d" using d t(3) by simp
  obtain u where u: "wait_events dev (Suc m') d t = wait_events dev m' d u" "reading ds buff n (Suc j) u" "base u = base t + 120"
    "wlog u = wlog t @ [Edge (base t + 120) False]"
    using read_next [OF t(2) j Suc.prems(4) dt, of dev m'] by blast
  have "\<exists>s' o'. wait_events dev m' d u = Inr s' \<and> given s' \<and> level s' \<and> sampled ds buff n (8 * n - 1) o' \<and> obuf s' = obuf o' \<and>
      wlog s' = wlog u @ tl (read_wire (base u) (bits_from ds (Suc j) (8 * n)))"
    by (rule Suc.hyps(1)) (use Suc.hyps(2) Suc.prems j t u m in auto)
  moreover have "bits_from ds j (8 * n) = bit_at ds j # bit_at ds (Suc j) # bits_from ds (Suc (Suc j)) (8 * n)"
    "bits_from ds (Suc j) (8 * n) = bit_at ds (Suc j) # bits_from ds (Suc (Suc j)) (8 * n)"
    using j by (simp_all add: bits_from_simps)
  ultimately show ?case using t u by auto
qed

lemma bytes_eqI:
  assumes "\<forall>i < 8 * n. bit_at xs i = bit_at ys i" "n \<le> length xs" "n \<le> length ys" shows "take n xs = take n ys"
proof (rule nth_equalityI)
  fix i assume "i < length (take n xs)"
  then have i: "i < n" by simp
  have "xs ! i = ys ! i"
  proof (rule u8_bit_eqI)
    fix b :: nat assume b: "b < 8"
    then have "bit_at xs (8 * i + b) = bit_at ys (8 * i + b)" using assms(1) i by simp
    then show "bit (xs ! i) b = bit (ys ! i) b" using b by (simp add: bit_at_def)
  qed
  then show "take n xs ! i = take n ys ! i" using i by simp
qed (use assms in simp)

lemma onewire_read_bytes:
  assumes "idle s" "0 < unat len" "unat len < 256" "unat len \<le> length buff" "unat len \<le> length ds" "976 \<le> tick_us"
    and "answers_from (samples (wlog s)) ds dev"
  shows "\<exists>s'. onewire_read dev tick_us buff len s = Inr (0, s') \<and> idle s' \<and>
    obuf s' = take (unat len) ds @ drop (unat len) buff \<and>
    wlog s' = wlog s @ read_wire (now s) (concat (map bits_of_byte (take (unat len) ds)))"
proof -
  let ?n = "unat len" let ?k = "samples (wlog s)"
  define mem where "mem = overwrite 0 (replicate ?n (0 :: u8)) buff"
  define t where "t = enable_timer (set_pin False ((compare_stop C2 120 (compare C1 5 True (compare C0 2 False (timer_init
    (s\<lparr>ostate := READ, nbytes := ucast len, ibit := 0, obuf := mem, pos := 0\<rparr>)))))\<lparr>link0 := C1, link1 := C2, on0 := True\<rparr>))"
  have nz: "len \<noteq> 0" "?n mod 256 = ?n" using assms by auto
  have "set_pin True (s\<lparr>ostate := READ, nbytes := ucast len, ibit := 0, obuf := mem, pos := 0\<rparr>) =
      s\<lparr>ostate := READ, nbytes := ucast len, ibit := 0, obuf := mem, pos := 0\<rparr>" using assms(1) by (simp add: idle_def set_pin_def)
  then have r: "onewire_read dev tick_us buff len s =
      res_bind (semaphore_wait dev (300 * tick_us) t) (\<lambda>(ok, s4). Inr (if ok then 0 else 1, finish s4))" for dev
    using assms(1,4) nz unfolding onewire_read_def t_def mem_def by (simp add: idle_def Let_def)
  have m: "length mem = length buff" "drop ?n mem = drop ?n buff" "\<forall>i < 8 * ?n. \<not> bit_at mem i"
    using assms(4) by (auto simp: mem_def overwrite_def bit_at_def nth_append less_mult_imp_div_less mult.commute)
  have rd: "reading ds buff ?n 0 t"
    using assms(1) m nz by (auto simp: t_def reading_def idle_def drive_defs unat_low_byte)
  have bt: "base t = now s" "wlog t = wlog s @ [Edge (now s) False]" "samples (wlog t) = ?k" "now t = base t"
    using assms(1) by (simp_all add: t_def idle_def drive_defs)
  obtain u v where u: "wait_events dev (Suc (300 * tick_us)) (now t + 300 * tick_us) t = Inr u" "given u" "level u"
    "sampled ds buff ?n (8 * ?n - 1) v" "obuf u = obuf v" "wlog u = wlog t @ tl (read_wire (base t) (bits_from ds 0 (8 * ?n)))"
    using read_slots [OF rd _ assms(4,3), of "now t + 300 * tick_us" "Suc (300 * tick_us)" ?k dev] assms(2,3,6,7) bt by auto
  have "take ?n (obuf v) = take ?n ds"
    by (rule bytes_eqI) (use u(4) assms in \<open>auto simp: sampled_def\<close>)
  moreover have "drop ?n (obuf v) = drop ?n buff" using u(4) by (simp add: sampled_def)
  ultimately have ob: "obuf u = take ?n ds @ drop ?n buff" using u(5) by (metis append_take_drop_id)
  have "read_wire (now s) (bits_from ds 0 (8 * ?n)) = Edge (now s) False # tl (read_wire (now s) (bits_from ds 0 (8 * ?n)))"
    using assms(2) by (simp add: bits_from_simps)
  then have "wlog (finish (u\<lparr>given := False\<rparr>)) = wlog s @ read_wire (now s) (concat (map bits_of_byte (take ?n ds)))"
    using u(3,6) bt bits_from_take [OF assms(5)] by (simp add: finish_wlog)
  moreover have "obuf (finish (u\<lparr>given := False\<rparr>)) = obuf u" by (simp add: drive_defs)
  ultimately show ?thesis using r u(1,2) finish_idle [of u] ob by (auto simp: semaphore_wait_def)
qed


section \<open>A transaction\<close>

lemma samples_write_wire [simp]: "samples (write_wire t bs) = 0"
  by (induction t bs rule: write_wire.induct) simp_all

text \<open>
  C23: A reset, a command of up to 255 bytes and an answer of up to 255 bytes, each within its timeout: the wire carries the reset
  pulse of 470 microseconds, then one slot of 120 for every bit, least significant first, short for a one and long for a zero, then the read slots; a present
  device gives success, its bytes fill the caller's buffer and nothing behind them, and the driver is idle again.
\<close>

theorem onewire_transaction:
  assumes "idle s" "976 \<le> tick_us"
    and "0 < unat lw" "unat lw < 256" "unat lw \<le> length ws"
    and "0 < unat lr" "unat lr < 256" "unat lr \<le> length buff" "unat lr \<le> length ds"
    and "\<forall>log. samples log = samples (wlog s) \<longrightarrow> \<not> dev log" "answers_from (Suc (samples (wlog s))) ds dev"
  shows "\<exists>s1 s2 s3. onewire_reset dev tick_us s = Inr (0, s1) \<and> onewire_write dev tick_us ws lw s1 = Inr (0, s2) \<and>
    onewire_read dev tick_us buff lr s2 = Inr (0, s3) \<and> idle s3 \<and> obuf s3 = take (unat lr) ds @ drop (unat lr) buff \<and>
    wlog s3 = wlog s @ [Edge (now s + 10) False, Edge (now s + 480) True, Sample (now s + 550) False] @
      write_wire (now s1) (concat (map bits_of_byte (take (unat lw) ws))) @
      read_wire (now s2) (concat (map bits_of_byte (take (unat lr) ds)))"
proof -
  have nd: "\<not> dev (wlog s @ reset_edges (now s))" using assms(10) by (simp add: reset_edges_def)
  obtain s1 where s1: "onewire_reset dev tick_us s = Inr (0, s1)" "idle s1"
    "wlog s1 = wlog s @ [Edge (now s + 10) False, Edge (now s + 480) True, Sample (now s + 550) False]"
    using onewire_reset_pulse [OF assms(1), of tick_us dev] assms(2) nd by (auto simp: reset_edges_def)
  obtain s2 where s2: "onewire_write dev tick_us ws lw s1 = Inr (0, s2)" "idle s2"
    "wlog s2 = wlog s1 @ write_wire (now s1) (concat (map bits_of_byte (take (unat lw) ws)))"
    using onewire_write_wire [OF s1(2) assms(3,4,5,2)] by blast
  have k: "answers_from (samples (wlog s2)) ds dev" using assms(11) s1(3) s2(3) by simp
  obtain s3 where "onewire_read dev tick_us buff lr s2 = Inr (0, s3)" "idle s3" "obuf s3 = take (unat lr) ds @ drop (unat lr) buff"
    "wlog s3 = wlog s2 @ read_wire (now s2) (concat (map bits_of_byte (take (unat lr) ds)))"
    using onewire_read_bytes [OF s2(2) assms(6-9,2) k] by blast
  then show ?thesis using s1 s2 by auto
qed

definition idle_ow :: ow where
  "idle_ow = \<lparr>ostate = READY, presence = False, ibit = 0, nbytes = 0, obuf = [], pos = 0, cc = (\<lambda>_. 0), inten = {}, stops = {}, running = False,
     counter = 0, base = 0, link0 = C0, on0 = False, link1 = C0, on1 = False, level = True, given = False, wlog = []\<rparr>"

lemma onewire_transaction_witness:
  "\<exists>s1 s2 s3. onewire_reset (\<lambda>log. 0 < samples log \<and> bit_at [0x50, 0x05] (samples log - 1)) 1000 idle_ow = Inr (0, s1) \<and>
     onewire_write (\<lambda>log. 0 < samples log \<and> bit_at [0x50, 0x05] (samples log - 1)) 1000 [0xCC, 0xBE] 2 s1 = Inr (0, s2) \<and>
     onewire_read (\<lambda>log. 0 < samples log \<and> bit_at [0x50, 0x05] (samples log - 1)) 1000 [1, 2, 3] 2 s2 = Inr (0, s3) \<and>
     obuf s3 = [0x50, 0x05, 3]"
proof -
  let ?dev = "\<lambda>log. 0 < samples log \<and> bit_at [0x50, 0x05] (samples log - 1)"
  have "idle idle_ow" "\<forall>log. samples log = samples (wlog idle_ow) \<longrightarrow> \<not> ?dev log"
    "answers_from (Suc (samples (wlog idle_ow))) [0x50, 0x05] ?dev"
    by (auto simp: idle_def idle_ow_def answers_from_def)
  from onewire_transaction [OF this(1) _ _ _ _ _ _ _ _ this(2,3),
      where tick_us = "1000" and lw = "2" and ws = "[0xCC, 0xBE]" and lr = "2" and buff = "[1, 2, 3]"]
  show ?thesis by auto
qed

end
