(* ===== verification/Uplink.thy ===== *)
theory Uplink
  imports Sensors_Task Request
begin

text \<open>
  The two ways a reading leaves the device: the packet notified over Bluetooth and the request sent to the server. They are built from different packets of
  the sensor state; this theory shows that they carry the same values.
\<close>

section \<open>The members of the request\<close>

lemma expected_parts_cases:
  assumes "(p, v, q, missing) \<in> set missing_phases"
  shows "missing = [] \<or> missing = [uUei3, iUei3] \<or> missing = [uUei2, uUei3, iUei2, iUei3]"
  using assms by (auto simp: missing_phases_def)

text \<open>Only fields of the configured circuits and phases are printed.\<close>

lemma part_text_same:
  assumes "k \<in> {1..4}" "(p, v, q, missing) \<in> set missing_phases"
    and "\<And>f. f \<notin> set missing \<Longrightarrow> circuit_of f \<le> k \<Longrightarrow> st f = st' f"
  shows "map (part_text token pulse st) (expected_parts k missing) = map (part_text token pulse st') (expected_parts k missing)"
proof (rule map_cong [OF refl])
  define E where "E = set (expected_parts k missing)"
  fix x assume "x \<in> set (expected_parts k missing)"
  then have x: "x \<in> E" by (simp add: E_def)
  have ph: "Phase2 \<in> E \<longrightarrow> uUei2 \<notin> set missing \<and> iUei2 \<notin> set missing" "Phase3 \<in> E \<longrightarrow> uUei3 \<notin> set missing \<and> iUei3 \<notin> set missing"
    using expected_parts_cases [OF assms(2)] set_take_subset [of k "[Circuit1, Circuit2, Circuit3, Circuit4]"]
    by (auto simp: expected_parts_def E_def)
  have ci: "Circuit2 \<in> E \<longrightarrow> 2 \<le> k" "Circuit3 \<in> E \<longrightarrow> 3 \<le> k" "Circuit4 \<in> E \<longrightarrow> 4 \<le> k"
    using struct_cases [OF assms(1)] set_take_subset [of "3 - length missing div 2" "[Phase1, Phase2, Phase3]"]
    by (auto simp: expected_parts_def E_def)
  have mi: "f \<in> meter_fields" if "f \<in> set missing" for f
    using expected_parts_cases [OF assms(2)] that by (auto simp: meter_fields_def)
  have one: "uUei1 \<notin> set missing" "iUei1 \<notin> set missing" "powerFactor \<notin> set missing" "activeWatts \<notin> set missing"
    using expected_parts_cases [OF assms(2)] by auto
  have same: "st f = st' f" if "f \<notin> meter_fields" "circuit_of f \<le> k" for f using assms(3) mi that by blast
  have k1: "Suc 0 \<le> k" using assms(1) by simp
  show "part_text token pulse st x = part_text token pulse st' x"
    using x ph ci one k1
    by (cases x) (simp_all add: same assms(3) circuit_of_def meter_fields_def prepare_data_string_circuit1_def prepare_data_string_circuit2_def
        prepare_data_string_circuit3_def prepare_data_string_circuit4_def prepare_data_string_phase1_def prepare_data_string_phase2_def
        prepare_data_string_phase3_def prepare_data_string_last_def)
qed

text \<open>
  C4: After a round of the sensors task the app and the server are told the same: the request, which is built from the fourth packet, is the one that would be built
  from the packet the app was just notified of, whichever of the four that was, for every link, token and pulse number. What makes it so is kept by the
  round: all packets agree on every field outside the meter, and a round rewrites the meter's fields in all of them.
\<close>

theorem app_and_server_agree:
  assumes "sensors_round hw reset_pulse (ascii (config_text k p v q) @ 0 # r) s = Some s'"
    and "k \<in> {1..4}" "(p, v, q, missing) \<in> set missing_phases" "\<not> str_is reset_pulse ''reset_pulse!''"
    and "agree (- meter_fields) (packets s)"
  shows "agree (- meter_fields) (packets s') \<and> (\<exists>ns P. notified s' = ns @ [Some (sizeof_state k, serialise k P)] \<and>
    build_request link token pulse (config_text k p v q) (packets s') old =
    build_request link token pulse (config_text k p v q) ((packets s')\<lparr>sensors_state4 := P\<rparr>) old)"
proof
  have "- meter_fields \<subseteq> - set missing" using expected_parts_cases [OF assms(3)] by (auto simp: meter_fields_def)
  then show "agree (- meter_fields) (packets s')" using agree_mono [OF round_agree(1) [OF assms]] by blast
  obtain ns P where P: "notified s' = ns @ [Some (sizeof_state k, serialise k P)]"
    "\<And>f. f \<notin> set missing \<Longrightarrow> circuit_of f \<le> k \<Longrightarrow> pval P f = pval (sensors_state4 (packets s')) f"
    using round_agree(2) [OF assms] by blast
  have m: "map (part_text token pulse (pval (sensors_state4 (packets s')))) (expected_parts k missing) =
      map (part_text token pulse (pval P)) (expected_parts k missing)"
    by (rule part_text_same [OF assms(2,3), symmetric]) (rule P(2))
  have e: "sensors_state4 ((packets s')\<lparr>sensors_state4 := P\<rparr>) = P" by simp
  have "build_request link token pulse (config_text k p v q) (packets s') old =
      build_request link token pulse (config_text k p v q) ((packets s')\<lparr>sensors_state4 := P\<rparr>) old"
    unfolding build_request_def Let_def body_parts_config [OF assms(2,3)] option.simps m e ..
  with P(1) show "\<exists>ns P. notified s' = ns @ [Some (sizeof_state k, serialise k P)] \<and>
    build_request link token pulse (config_text k p v q) (packets s') old =
    build_request link token pulse (config_text k p v q) ((packets s')\<lparr>sensors_state4 := P\<rparr>) old" by blast
qed

lemma app_and_server_agree_witness:
  "\<exists>s' ns P. sensors_round demo_hw (replicate 30 0) (ascii (config_text 2 1 240 60) @ [0]) demo_sampler = Some s' \<and>
    notified s' = ns @ [Some (sizeof_state 2, serialise 2 P)] \<and>
    build_request ''host.com'' ''tok'' ''P66631'' (config_text 2 1 240 60) (packets s') [] =
    build_request ''host.com'' ''tok'' ''P66631'' (config_text 2 1 240 60) ((packets s')\<lparr>sensors_state4 := P\<rparr>) []"
proof -
  have "\<exists>u. meter_stage demo_hw config t = Some u" for config t
    using meter_answers_round by (simp add: meter_stage_def demo_hw_def)
  moreover have "convert_err demo_hw = 0" by (simp add: demo_hw_def)
  ultimately obtain s' where s': "sensors_round demo_hw (replicate 30 0) (ascii (config_text 2 1 240 60) @ [0]) demo_sampler = Some s'"
    by (fastforce simp: sensors_round_def Let_def)
  have m: "(1, 240, 60, [uUei3, iUei3]) \<in> set missing_phases" by (simp add: missing_phases_def)
  have r: "\<not> str_is (replicate 30 0) ''reset_pulse!''" by code_simp
  have a: "agree (- meter_fields) (packets demo_sampler)" by (simp add: agree_def demo_sampler_def init_sensors_def)
  show ?thesis using app_and_server_agree [OF s' _ m r a, of "''host.com''" "''tok''" "''P66631''" "[]"] s' by auto
qed

end
