(* ===== verification/Configuration.thy ===== *)
theory Configuration
  imports Uplink Reconnect
begin

text \<open>
  The equipment configuration, from the line the app sends to the tasks that use it: the command line keeps it, the storage task stores it and copies
  it to where the sensors task and the client task read it, and a restart reads it back.
\<close>

section \<open>The line\<close>

definition config_line :: "nat \<Rightarrow> nat \<Rightarrow> nat \<Rightarrow> nat \<Rightarrow> u8 list" where
  "config_line k p v q = ascii (config_text k p v q)"

lemma length_config_line [simp]: "length (config_line k p v q) = 48"
  by (simp add: config_line_def config_text_def digits3_def ascii_def)

lemma config_line_head: "\<exists>r. config_line k p v q = ascii ''config'' @ r"
  by (simp add: config_line_def config_text_def ascii_def)

lemma config_line_plain: "plain 48 (config_line k p v q)"
  using length_config_line [of k p v q] by (auto simp: plain_def config_line_def config_text_def digits3_def ascii_def)

lemmas config_line_0 = plain_0 [OF config_line_plain]

text \<open>It goes where the configuration is kept, with whatever lies behind it in the buffer.\<close>

lemma config_command:
  assumes "cmd_inv s"
  shows "\<exists>c. run_line tk text (config_line k p v q) s = Inr c \<and> cmd_inv c \<and> buf_len c = 0 \<and> same_requests s c \<and>
    config_string c = config_line k p v q @ drop 48 (take 240 (buf_p s))"
proof -
  let ?l = "config_line k p v q"
  note sizes = assms [unfolded inv_defs, simplified]
  define u where "u = s\<lparr>buf_p := overwrite 0 ?l (buf_p s), buf_len := 48, times_count := times_count s + 1\<rparr>"
  obtain r where r: "?l = ascii ''config'' @ r" using config_line_head by blast
  have buf: "buf_p u = ascii ''config'' @ r @ drop 48 (buf_p s)"
    using length_config_line [of k p v q] by (simp add: u_def overwrite_def r)
  have c: "\<not> is_cmd u 0 48 ''wifi ''" "\<not> is_cmd u 0 48 ''sensors ''" "starts u ''config''"
    unfolding is_cmd_def starts_def cmd_cmp_def buf by (simp_all add: ascii_def)
  have m: "memcpy (config_string u) (buf_p u) 240 = Inr (take 240 (buf_p u))"
    using sizes by (simp add: memcpy_def u_def overwrite_def)
  have t: "take 240 (buf_p u) = ?l @ drop 48 (take 240 (buf_p s))"
    by (simp add: u_def overwrite_def drop_take)
  have "cmd_parse tk text 48 (s\<lparr>buf_p := overwrite 0 ?l (buf_p s), buf_len := 48\<rparr>) = Inr (u\<lparr>config_string := take 240 (buf_p u)\<rparr>)"
    using c m by (simp add: cmd_parse_def u_def Let_def)
  then have "run_line tk text ?l s = Inr (u\<lparr>config_string := take 240 (buf_p u), buf_len := 0\<rparr>)"
    by (simp add: run_line_def)
  then show ?thesis using sizes t by (auto simp: u_def inv_defs same_requests_def)
qed

lemma feed_config:
  assumes "cmd_inv s" "buf_len s = 0"
  obtains c where "cmd_feed tk text (config_line k p v q @ [0x0A]) s = Inr (0, c)" "cmd_inv c" "same_requests s c"
    "config_string c = config_line k p v q @ drop 48 (take 240 (buf_p s))"
proof -
  have line: "\<forall>l \<in> set [config_line k p v q]. is_line l" using config_line_plain [of k p v q] by (auto simp: is_line_def plain_def)
  show ?thesis
    using config_command [OF assms(1), of tk "text" k p v q] feed_lines [OF line assms(2), of tk "text"] assms(1) that
    by (auto simp: inv_defs)
qed

section \<open>A round of the storage task\<close>

lemma run_bind_Inr: "run_bind r f = Inr t \<longleftrightarrow> (\<exists>u. r = Inr u \<and> f u = Inr t)"
  by (cases r) simp_all

lemma of_res_Inr: "of_res r = Inr t \<longleftrightarrow> r = Inr t"
  by (cases r) simp_all

definition keeps_config :: "store \<Rightarrow> store \<Rightarrow> bool" where
  "keeps_config s t \<longleftrightarrow> config_string1 t = config_string1 s \<and> config_string (Storage.cmd t) = config_string (Storage.cmd s)"

lemma keeps_config_trans: "keeps_config s t \<Longrightarrow> keeps_config t u \<Longrightarrow> keeps_config s u"
  by (simp add: keeps_config_def)

lemma fs_keeps:
  "fs_write env a src n s = Inr t \<Longrightarrow> config_string1 t = config_string1 s \<and> Storage.cmd t = Storage.cmd s"
  "fs_erase env a n s = Inr t \<Longrightarrow> config_string1 t = config_string1 s \<and> Storage.cmd t = Storage.cmd s"
  by (auto simp: fs_write_def fs_erase_def Let_def split: if_splits)

lemmas step_keeps = keeps_config_def run_bind_Inr of_res_Inr res_bind_Inr note_ev_def with_cmd_def

lemma steps_keep:
  "test_internet_step s = Inr t \<Longrightarrow> keeps_config s t" "restart_step s = Inr t \<Longrightarrow> keeps_config s t"
  "token_step env s = Inr t \<Longrightarrow> keeps_config s t" "link_step env s = Inr t \<Longrightarrow> keeps_config s t"
  "ssid_step env s = Inr t \<Longrightarrow> keeps_config s t" "key_step env s = Inr t \<Longrightarrow> keeps_config s t"
  "internet_step env s = Inr t \<Longrightarrow> keeps_config s t" "ip_step env s = Inr t \<Longrightarrow> keeps_config s t"
  "dhcp_step env s = Inr t \<Longrightarrow> keeps_config s t" "update_step s = Inr t \<Longrightarrow> keeps_config s t"
  unfolding test_internet_step_def restart_step_def token_step_def link_step_def ssid_step_def key_step_def internet_step_def ip_step_def
    dhcp_step_def update_step_def
  by (auto simp: step_keeps Let_def dest!: fs_keeps split: if_splits)

lemma config_step_copies:
  assumes "config_step env s = Inr t" "c_str (config_string (Storage.cmd s)) \<noteq> ascii ''z''" "48 \<le> length (config_string (Storage.cmd s))"
    and "48 \<le> length (config_string1 s)"
  shows "config_string1 t = overwrite 0 (take 48 (config_string (Storage.cmd s))) (config_string1 s)"
  using assms by (auto simp: config_step_def step_keeps memcpy_def dest!: fs_keeps split: if_splits)

lemma round_copies_config:
  assumes "storage_round env s = Inr t" "c_str (config_string (Storage.cmd s)) \<noteq> ascii ''z''" "length (config_string (Storage.cmd s)) = 240"
    and "length (config_string1 s) = 240"
  shows "config_string1 t = overwrite 0 (take 48 (config_string (Storage.cmd s))) (config_string1 s)"
proof -
  obtain a b where ab: "keeps_config s a" "config_step env a = Inr b" "keeps_config b t"
  proof -
    obtain s1 s2 s3 s4 s5 s6 s7 s8 s9 s10 where r: "test_internet_step s = Inr s1" "restart_step s1 = Inr s2" "token_step env s2 = Inr s3"
      "link_step env s3 = Inr s4" "ssid_step env s4 = Inr s5" "key_step env s5 = Inr s6" "internet_step env s6 = Inr s7"
      "config_step env s7 = Inr s8" "ip_step env s8 = Inr s9" "dhcp_step env s9 = Inr s10" "update_step s10 = Inr t"
      using assms(1) by (simp add: storage_round_def run_bind_Inr) blast
    have "keeps_config s s7"
      using steps_keep(1) [OF r(1)] steps_keep(2) [OF r(2)] steps_keep(3) [OF r(3)] steps_keep(4) [OF r(4)] steps_keep(5) [OF r(5)]
        steps_keep(6) [OF r(6)] steps_keep(7) [OF r(7)] by (simp add: keeps_config_def)
    moreover have "keeps_config s8 t"
      using steps_keep(8) [OF r(9)] steps_keep(9) [OF r(10)] steps_keep(10) [OF r(11)] by (simp add: keeps_config_def)
    ultimately show ?thesis using that r(8) by blast
  qed
  then show ?thesis using config_step_copies [OF ab(2)] assms(2-4) by (simp add: keeps_config_def)
qed

section \<open>Its effect\<close>

text \<open>What the readers of the array make of it.\<close>

lemma config_readers:
  assumes "config = config_line k p v q @ 0 # r" "k \<in> {1..4}" "(p, v, q, missing) \<in> set missing_phases"
  shows "\<not> str_is reset ''reset_pulse!'' \<longrightarrow>
      fst (ble_sensors_update reset config S) = Some (sizeof_state k, serialise k (state_of k (set_state k (blank missing) S)))"
    and "ascii t = c_str config \<longrightarrow> body_parts t = Some (expected_parts k missing)"
proof -
  show "\<not> str_is reset ''reset_pulse!'' \<longrightarrow>
      fst (ble_sensors_update reset config S) = Some (sizeof_state k, serialise k (state_of k (set_state k (blank missing) S)))"
    using update_selected [OF config_no_nul, of reset k p v q r S] config_selected [OF assms(2,3)]
    by (simp add: assms(1) config_line_def notify_def Let_def)
  have "c_str config = ascii (config_text k p v q)" using c_str_end [OF config_line_0] by (simp add: assms(1) config_line_def)
  then show "ascii t = c_str config \<longrightarrow> body_parts t = Some (expected_parts k missing)"
    using body_parts_config [OF assms(2,3)] by (auto simp: ascii_inj)
qed

lemma config_taken:
  assumes "store_sizes s" "config_string1 s ! 48 = 0" "storage_round env s = Inr s'" "flash_mem b = flash_mem s'"
    and "config_string (Storage.cmd s) = config_line k p v q @ x" "config_string1 b = replicate 240 0"
  shows "\<exists>r. config_string1 s' = config_line k p v q @ 0 # r"
    and "\<exists>r. config_string1 (storage_read (\<lambda>_. True) uicr b) = config_line k p v q @ 0 # r"
proof -
  let ?c = "Storage.cmd s"
  have inv: "cmd_inv ?c" "length (config_string1 s) = 240" "length (config_string ?c) = 240"
    using assms(1) by (simp_all add: store_sizes_def inv_defs)
  have head: "c_str (config_string ?c) \<noteq> ascii ''z''"
    by (simp add: assms(5) config_line_def config_text_def ascii_def c_str_def)
  have t: "take 48 (config_string ?c) = config_line k p v q" by (simp add: assms(5))
  have "drop 48 (config_string1 s) = 0 # drop 49 (config_string1 s)"
    using Cons_nth_drop_Suc [of 48 "config_string1 s"] inv(2) assms(2) by simp
  then show "\<exists>r. config_string1 s' = config_line k p v q @ 0 # r"
    using round_copies_config [OF assms(3) head inv(3,2)] by (simp add: t overwrite_def)
  have "flash_read 0xed000 48 (flash_mem b) = config_line k p v q"
    unfolding assms(4) round_flash [OF assms(1,3)] using served_read(1) [OF inv(1), of "flash_mem s"] head t by simp
  then have "config_string1 (storage_read (\<lambda>_. True) uicr b) = config_line k p v q @ replicate 192 0"
    by (simp add: storage_read_def read_into_def Let_def overwrite_def assms(6))
  moreover have "replicate 192 (0 :: u8) = 0 # replicate 191 0" by (simp flip: replicate_Suc)
  ultimately show "\<exists>r. config_string1 (storage_read (\<lambda>_. True) uicr b) = config_line k p v q @ 0 # r" by auto
qed

text \<open>
  C3: A configuration takes effect: the configuration line of the app, fed to the command line, is after the next round of the storage task, and again
  after a restart from the flash that round leaves, the configuration the sensors task and the client task work with. Under it the sensors service
  notifies the state of the line's circuit with the missing phases left out (unless a pulse reset is due), and the request to the server carries
  exactly that circuit's values without those of the missing phases.
\<close>

theorem configuration_takes_effect:
  assumes "store_sizes s" "buf_len (Storage.cmd s) = 0" "config_string1 s ! 48 = 0"
    and "k \<in> {1..4}" "(p, v, q, missing) \<in> set missing_phases"
    and "cmd_feed tk text (config_line k p v q @ [0x0A]) (Storage.cmd s) = Inr (x, c)"
    and "storage_round env (s\<lparr>Storage.cmd := c\<rparr>) = Inr s'" "flash_mem b = flash_mem s'" "config_string1 b = replicate 240 0"
    and "config = config_string1 s' \<or> config = config_string1 (storage_read (\<lambda>_. True) uicr b)"
  shows "(\<not> str_is reset ''reset_pulse!'' \<longrightarrow>
      fst (ble_sensors_update reset config S) = Some (sizeof_state k, serialise k (state_of k (set_state k (blank missing) S)))) \<and>
    (ascii t = c_str config \<longrightarrow> body_parts t = Some (expected_parts k missing))"
proof -
  have inv: "cmd_inv (Storage.cmd s)" using assms(1) by (simp add: store_sizes_def)
  obtain c' where c': "cmd_feed tk text (config_line k p v q @ [0x0A]) (Storage.cmd s) = Inr (0, c')" "cmd_inv c'"
    "same_requests (Storage.cmd s) c'" "config_string c' = config_line k p v q @ drop 48 (take 240 (buf_p (Storage.cmd s)))"
    using feed_config [OF inv assms(2), of tk "text" k p v q] .
  then have [simp]: "c' = c" using assms(6) by simp
  let ?s = "s\<lparr>Storage.cmd := c\<rparr>"
  have "store_sizes ?s" using assms(1) c' by (simp add: store_sizes_def)
  from config_taken [OF this _ assms(7,8) _ assms(9), of k p v q] obtain r where "config = config_line k p v q @ 0 # r"
    using assms(3,10) c'(4) by auto
  from config_readers [OF this assms(4,5)] show ?thesis by blast
qed

lemma configuration_takes_effect_witness:
  "\<exists>c s'. cmd_feed 0 [] (config_line 4 1 240 60 @ [0x0A]) init_cmd = Inr (0, c) \<and> storage_round (\<lambda>_. 0) (init_store\<lparr>Storage.cmd := c\<rparr>) = Inr s' \<and>
     fst (ble_sensors_update (replicate 30 0) (config_string1 s') init_sensors) =
       Some (sizeof_state 4, serialise 4 (state_of 4 (set_state 4 (blank [uUei3, iUei3]) init_sensors)))"
proof -
  have b: "buf_len init_cmd = 0" by (simp add: init_cmd_def)
  obtain c where c: "cmd_feed 0 [] (config_line 4 1 240 60 @ [0x0A]) init_cmd = Inr (0, c)" "cmd_inv c" "same_requests init_cmd c"
    "config_string c = config_line 4 1 240 60 @ drop 48 (take 240 (buf_p init_cmd))"
    using feed_config [OF init_inv b] .
  have i: "store_inv init_store" "store_sizes init_store"
    by (simp_all add: store_inv_def store_sizes_def all_request init_store_def init_cmd_def inv_defs array_of_def requested_def)
  let ?s = "init_store\<lparr>Storage.cmd := c\<rparr>"
  have si: "store_inv ?s" using i c(2,3) by (simp add: store_inv_def store_sizes_def all_request same_requests_def init_store_def)
  have "array_of 6 ''false'' = ascii ''false'' @ [0]" by (simp add: array_of_def)
  then have "undisturbed (\<lambda>_. 0) ?s" using c(3)
    by (simp add: undisturbed_def init_store_def same_requests_def init_cmd_def ascii_inj)
  then obtain s' where s': "storage_round (\<lambda>_. 0) ?s = Inr s'" by (rule round_ends [OF si])
  have s0: "Storage.cmd init_store = init_cmd" "config_string1 init_store = replicate 240 0" by (simp_all add: init_store_def)
  have m: "(1, 240, 60, [uUei3, iUei3]) \<in> set missing_phases" by (simp add: missing_phases_def)
  have r: "\<not> str_is (replicate 30 0) ''reset_pulse!''" by code_simp
  show ?thesis
    using configuration_takes_effect [OF i(2) _ _ _ m _ s', where k = 4 and b = "init_store\<lparr>flash_mem := flash_mem s'\<rparr>"] b c(1) s' s0 r by auto
qed

end
