(* ===== verification/Crc7.thy ===== *)
theory Crc7
  imports Prelude
begin

text \<open>
  The check byte of the commands to the WiFi chip, nmspi.c: the table, the division it stands for, and what a changed byte does to it.
\<close>

section \<open>The table\<close>

definition crc7_syndrome_table :: "u8 list" where
  "crc7_syndrome_table =
    [0x00, 0x09, 0x12, 0x1b, 0x24, 0x2d, 0x36, 0x3f, 0x48, 0x41, 0x5a, 0x53, 0x6c, 0x65, 0x7e, 0x77,
     0x19, 0x10, 0x0b, 0x02, 0x3d, 0x34, 0x2f, 0x26, 0x51, 0x58, 0x43, 0x4a, 0x75, 0x7c, 0x67, 0x6e,
     0x32, 0x3b, 0x20, 0x29, 0x16, 0x1f, 0x04, 0x0d, 0x7a, 0x73, 0x68, 0x61, 0x5e, 0x57, 0x4c, 0x45,
     0x2b, 0x22, 0x39, 0x30, 0x0f, 0x06, 0x1d, 0x14, 0x63, 0x6a, 0x71, 0x78, 0x47, 0x4e, 0x55, 0x5c,
     0x64, 0x6d, 0x76, 0x7f, 0x40, 0x49, 0x52, 0x5b, 0x2c, 0x25, 0x3e, 0x37, 0x08, 0x01, 0x1a, 0x13,
     0x7d, 0x74, 0x6f, 0x66, 0x59, 0x50, 0x4b, 0x42, 0x35, 0x3c, 0x27, 0x2e, 0x11, 0x18, 0x03, 0x0a,
     0x56, 0x5f, 0x44, 0x4d, 0x72, 0x7b, 0x60, 0x69, 0x1e, 0x17, 0x0c, 0x05, 0x3a, 0x33, 0x28, 0x21,
     0x4f, 0x46, 0x5d, 0x54, 0x6b, 0x62, 0x79, 0x70, 0x07, 0x0e, 0x15, 0x1c, 0x23, 0x2a, 0x31, 0x38,
     0x41, 0x48, 0x53, 0x5a, 0x65, 0x6c, 0x77, 0x7e, 0x09, 0x00, 0x1b, 0x12, 0x2d, 0x24, 0x3f, 0x36,
     0x58, 0x51, 0x4a, 0x43, 0x7c, 0x75, 0x6e, 0x67, 0x10, 0x19, 0x02, 0x0b, 0x34, 0x3d, 0x26, 0x2f,
     0x73, 0x7a, 0x61, 0x68, 0x57, 0x5e, 0x45, 0x4c, 0x3b, 0x32, 0x29, 0x20, 0x1f, 0x16, 0x0d, 0x04,
     0x6a, 0x63, 0x78, 0x71, 0x4e, 0x47, 0x5c, 0x55, 0x22, 0x2b, 0x30, 0x39, 0x06, 0x0f, 0x14, 0x1d,
     0x25, 0x2c, 0x37, 0x3e, 0x01, 0x08, 0x13, 0x1a, 0x6d, 0x64, 0x7f, 0x76, 0x49, 0x40, 0x5b, 0x52,
     0x3c, 0x35, 0x2e, 0x27, 0x18, 0x11, 0x0a, 0x03, 0x74, 0x7d, 0x66, 0x6f, 0x50, 0x59, 0x42, 0x4b,
     0x17, 0x1e, 0x05, 0x0c, 0x33, 0x3a, 0x21, 0x28, 0x5f, 0x56, 0x4d, 0x44, 0x7b, 0x72, 0x69, 0x60,
     0x0e, 0x07, 0x1c, 0x15, 0x2a, 0x23, 0x38, 0x31, 0x46, 0x4f, 0x54, 0x5d, 0x62, 0x6b, 0x70, 0x79]"

text \<open>The index is an \<open>int\<close> of C: a \<open>crc\<close> above 127 would lead behind the table.\<close>

definition crc7_index :: "u8 \<Rightarrow> u8 \<Rightarrow> nat" where
  "crc7_index crc d = unat (push_bit 1 (ucast crc :: u16) XOR ucast d)"

definition crc7_byte :: "u8 \<Rightarrow> u8 \<Rightarrow> u8" where
  "crc7_byte crc d = crc7_syndrome_table ! crc7_index crc d"

fun crc7 :: "u8 \<Rightarrow> u8 list \<Rightarrow> u8" where
  "crc7 crc [] = crc"
| "crc7 crc (b # bs) = crc7 (crc7_byte crc b) bs"

section \<open>The check byte\<close>

text \<open>The remainder modulo \<open>x^7 + x^3 + 1\<close>, bit by bit, in the upper seven bits of a byte.\<close>

definition crc7_shift :: "u8 \<Rightarrow> u8" where
  "crc7_shift r = (if bit r 7 then push_bit 1 r XOR 0x12 else push_bit 1 r)"

definition crc7_bits :: "u8 \<Rightarrow> u8 \<Rightarrow> u8" where
  "crc7_bits crc d = drop_bit 1 ((crc7_shift ^^ 8) (push_bit 1 crc XOR d))"

lemma crc7_shift_xor: "crc7_shift (a XOR b) = crc7_shift a XOR crc7_shift b"
proof -
  have p: "push_bit 1 (a XOR b) = push_bit 1 a XOR push_bit 1 (b :: u8)" by (rule push_bit_xor)
  show ?thesis unfolding crc7_shift_def p bit_xor_iff by (auto simp: ac_simps simp del: push_bit_Suc)
qed

lemma crc7_shifts_xor: "(crc7_shift ^^ n) (a XOR b) = (crc7_shift ^^ n) a XOR (crc7_shift ^^ n) b"
  by (induction n) (simp_all add: crc7_shift_xor)

text \<open>The table is linear in the same way, which makes checking it quick.\<close>

definition table_step :: "nat \<Rightarrow> bool" where
  "table_step i \<longleftrightarrow> (let t = crc7_syndrome_table; e = t ! (2 * i)
     in push_bit 1 e = crc7_shift (push_bit 1 (t ! i)) \<and> t ! Suc (2 * i) = e XOR 9 \<and> e < 128 \<and> t ! Suc (2 * i) < 128)"

lemma table_steps: "list_all table_step [0..<128]"
  by code_simp

lemma crc7_table:
  "i < 256 \<Longrightarrow> (crc7_shift ^^ 8) (of_nat i) = push_bit 1 (crc7_syndrome_table ! i) \<and> crc7_syndrome_table ! i < 128"
proof (induction i rule: less_induct)
  case (less i)
  show ?case
  proof (cases "i = 0")
    case True
    have "(crc7_shift ^^ 8) 0 = 0" "crc7_syndrome_table ! 0 = 0" by code_simp+
    then show ?thesis using True by simp
  next
    case False
    define j where "j = i div 2"
    have j: "j < i" "j < 128" "i = 2 * j \<or> i = Suc (2 * j)" using less.prems False by (auto simp: j_def)
    have t: "table_step j" using table_steps j(2) by (simp add: list_all_iff)
    have ih: "(crc7_shift ^^ 8) (of_nat j) = push_bit 1 (crc7_syndrome_table ! j)" using less.IH [OF j(1)] j(2) by simp
    have "\<not> bit (of_nat j :: u8) 7" using j(2) by (simp add: bit_of_nat_iff bit_iff_odd [of j])
    then have "crc7_shift (of_nat j) = of_nat (2 * j)" by (simp add: crc7_shift_def)
    then have e: "(crc7_shift ^^ 8) (of_nat (2 * j)) = push_bit 1 (crc7_syndrome_table ! (2 * j))"
      using t ih funpow_swap1 [of crc7_shift 8 "of_nat j"] by (simp add: table_step_def Let_def del: funpow.simps)
    have "of_nat (Suc (2 * j)) = of_nat (2 * j) XOR (1 :: u8)" by (simp add: xor_one_eq)
    moreover have "(crc7_shift ^^ 8) 1 = push_bit 1 9" by code_simp
    ultimately have "(crc7_shift ^^ 8) (of_nat (Suc (2 * j))) = push_bit 1 (crc7_syndrome_table ! Suc (2 * j))"
      using t e by (simp only: crc7_shifts_xor table_step_def Let_def push_bit_xor)
    then show ?thesis using j(3) e t by (auto simp: table_step_def Let_def)
  qed
qed

lemma unat_u8: "unat (x :: u8) < 256"
  by (rule less_le_trans [OF unsigned_less]) simp

lemma below_128: "c < 128 \<Longrightarrow> 7 \<le> n \<Longrightarrow> \<not> bit (c :: u8) n"
  by (rule high_bits [of _ 7]) (simp_all add: word_less_nat_alt)

lemma halves: "c < 128 \<Longrightarrow> drop_bit 1 (push_bit 1 c) = (c :: u8)"
proof (rule bit_word_eqI)
  fix n assume "c < 128" "n < LENGTH(8)"
  then show "bit (drop_bit 1 (push_bit 1 c)) n = bit c n"
    using below_128 [of c n] by (cases "7 \<le> n") (auto simp: bit_simps simp del: push_bit_Suc)
qed

lemma crc7_index_less:
  assumes "crc < 128"
  shows "crc7_index crc d < 256" "of_nat (crc7_index crc d) = push_bit 1 crc XOR d"
proof -
  let ?w = "push_bit 1 (ucast crc :: u16) XOR ucast d"
  have w: "?w = ucast (push_bit 1 crc XOR d)"
  proof (rule bit_word_eqI)
    fix n assume "n < LENGTH(16)"
    then show "bit ?w n = bit (ucast (push_bit 1 crc XOR d) :: u16) n"
      using below_128 [OF assms, of "n - 1"] by (cases "7 \<le> n - 1") (auto simp: bit_simps simp del: push_bit_Suc dest: bit_imp_le_length)
  qed
  have "unat (push_bit 1 crc XOR d) < 2 ^ 8" using unat_u8 [of "push_bit 1 crc XOR d"] by simp
  then have "unat (push_bit 1 crc XOR d) < 2 ^ 16" by simp
  then have u: "unat ?w = unat (push_bit 1 crc XOR d)" unfolding w by (simp add: unsigned_ucast_eq take_bit_nat_eq_self)
  show "crc7_index crc d < 256" unfolding crc7_index_def u using unat_u8 [of "push_bit 1 crc XOR d"] by simp
  show "of_nat (crc7_index crc d) = push_bit 1 crc XOR d" unfolding crc7_index_def u by simp
qed

lemma crc7_byte_bits:
  assumes "crc < 128"
  shows "crc7_byte crc d = crc7_bits crc d" "crc7_byte crc d < 128"
proof -
  note i = crc7_index_less [OF assms, of d]
  note t = crc7_table [OF i(1)]
  show "crc7_byte crc d < 128" using t by (simp add: crc7_byte_def)
  have "drop_bit 1 (push_bit 1 (crc7_byte crc d)) = crc7_byte crc d"
    using \<open>crc7_byte crc d < 128\<close> by (rule halves)
  then show "crc7_byte crc d = crc7_bits crc d" using t unfolding crc7_byte_def crc7_bits_def i(2) by simp
qed

lemma crc7_small: "crc < 128 \<Longrightarrow> crc7 crc bs < 128"
  by (induction crc bs rule: crc7.induct) (simp_all add: crc7_byte_bits(2))

text \<open>What the check byte does not see: the generator polynomial itself.\<close>

lemma crc7_zero: "list_all (\<lambda>i. crc7_syndrome_table ! i = 0 \<longleftrightarrow> i = 0 \<or> i = 137) [0..<256]"
  by code_simp

lemma xor_eq_0: "a XOR b = 0 \<longleftrightarrow> a = (b :: u8)"
  by (metis xor.assoc xor.left_neutral xor.right_neutral xor_self_eq)

lemma xor_cancel_u8: "a XOR d = b XOR d \<longleftrightarrow> a = (b :: u8)" "a XOR d = b XOR d XOR k \<longleftrightarrow> a = b XOR k"
proof -
  show c: "a XOR d = b XOR d \<longleftrightarrow> a = b" for a b :: u8
    by (metis xor.assoc xor.right_neutral xor_self_eq)
  have "b XOR d XOR k = (b XOR k) XOR d" by (simp only: ac_simps)
  then show "a XOR d = b XOR d XOR k \<longleftrightarrow> a = b XOR k" using c [of a "b XOR k"] by simp
qed

lemma crc7_byte_eq:
  assumes "a < 128" "b < 128"
  shows "crc7_byte a d = crc7_byte b e \<longleftrightarrow> push_bit 1 a XOR d = push_bit 1 b XOR e \<or> push_bit 1 a XOR d = push_bit 1 b XOR e XOR 0x89"
proof -
  define v where "v = push_bit 1 a XOR d"
  define w where "w = push_bit 1 b XOR e"
  define T :: "u8 \<Rightarrow> u8" where "T = crc7_shift ^^ 8"
  have T: "T x = 0 \<longleftrightarrow> x = 0 \<or> x = 0x89" for x
  proof -
    have u: "unat x < 256" by (rule unat_u8)
    have "T x = push_bit 1 (crc7_syndrome_table ! unat x)" "crc7_syndrome_table ! unat x < 128"
      using crc7_table [OF u] by (simp_all add: T_def)
    then have "T x = 0 \<longleftrightarrow> crc7_syndrome_table ! unat x = 0" using halves [of "crc7_syndrome_table ! unat x"] by auto
    also have "\<dots> \<longleftrightarrow> unat x = 0 \<or> unat x = 137" using crc7_zero u by (simp add: list_all_iff)
    also have "\<dots> \<longleftrightarrow> x = 0 \<or> x = 0x89" by (simp add: word_unat_eq_iff)
    finally show ?thesis .
  qed
  have x: "T (v XOR w) = T v XOR T w" unfolding T_def by (rule crc7_shifts_xor)
  have "push_bit 1 (crc7_byte a d) = T v" "push_bit 1 (crc7_byte b e) = T w"
    using crc7_table [OF crc7_index_less(1)] crc7_index_less(2) assms by (simp_all add: crc7_byte_def T_def v_def w_def)
  then have "crc7_byte a d = crc7_byte b e \<longleftrightarrow> T v = T w"
    using halves [OF crc7_byte_bits(2) [OF assms(1)]] halves [OF crc7_byte_bits(2) [OF assms(2)]] by metis
  also have "\<dots> \<longleftrightarrow> v XOR w = 0 \<or> v XOR w = 0x89" using x T [of "v XOR w"] by (simp add: xor_eq_0)
  also have "\<dots> \<longleftrightarrow> v = w \<or> v = w XOR 0x89"
    using xor_cancel_u8(1) [of "v XOR w" w 0] xor_cancel_u8(1) [of "v XOR w" w "0x89"] by (simp add: xor.assoc xor.commute [of w])
  finally show ?thesis by (simp add: v_def w_def xor.assoc)
qed

lemma crc7_injective: "a < 128 \<Longrightarrow> b < 128 \<Longrightarrow> crc7 a bs = crc7 b bs \<Longrightarrow> a = b"
proof (induction bs arbitrary: a b)
  case (Cons d bs)
  have "crc7_byte a d = crc7_byte b d"
    using Cons.IH [OF crc7_byte_bits(2) crc7_byte_bits(2), of a b d d] Cons.prems by simp
  then have "push_bit 1 a = push_bit 1 b \<or> push_bit 1 a = push_bit 1 b XOR 0x89"
    unfolding crc7_byte_eq [OF Cons.prems(1,2)] xor_cancel_u8 .
  moreover have "push_bit 1 a \<noteq> push_bit 1 b XOR 0x89"
  proof
    assume "push_bit 1 a = push_bit 1 b XOR 0x89"
    then have "bit (push_bit 1 a) 0 = bit (push_bit 1 b XOR 0x89) 0" by simp
    then show False by (simp add: bit_simps del: push_bit_Suc)
  qed
  ultimately show ?case using halves [OF Cons.prems(1)] halves [OF Cons.prems(2)] by metis
qed simp

text \<open>
  C29: The table driven check byte of the bus commands is the remainder modulo \<open>x^7 + x^3 + 1\<close>, computed bit by bit; the table is never indexed behind its
  end; and of two commands that differ in one byte the check bytes differ, unless the difference is the polynomial itself.
\<close>

theorem crc7_reference:
  assumes "crc < 128"
  shows "crc7 crc bs = foldl crc7_bits crc bs \<and> (\<forall>n. crc7_index (crc7 crc (take n bs)) d < length crc7_syndrome_table) \<and>
    (crc7 crc (ps @ x # xs) = crc7 crc (ps @ y # xs) \<longleftrightarrow> x = y \<or> x = y XOR 0x89)"
proof (intro conjI)
  show "crc7 crc bs = foldl crc7_bits crc bs"
    using assms
  proof (induction bs arbitrary: crc)
    case (Cons b bs)
    then show ?case using crc7_byte_bits [OF Cons.prems, of b] Cons.IH [of "crc7_byte crc b"] by simp
  qed simp
  have "length crc7_syndrome_table = 256" by code_simp
  then show "\<forall>n. crc7_index (crc7 crc (take n bs)) d < length crc7_syndrome_table"
    using crc7_index_less(1) [OF crc7_small [OF assms]] by simp
  have a: "crc7 c (ps @ z) = crc7 (crc7 c ps) z" for c z by (induction ps arbitrary: c) simp_all
  define k where "k = crc7 crc ps"
  have k: "k < 128" using crc7_small [OF assms] by (simp add: k_def)
  have "crc7 crc (ps @ x # xs) = crc7 crc (ps @ y # xs) \<longleftrightarrow> crc7_byte k x = crc7_byte k y"
    using crc7_injective [OF crc7_byte_bits(2) [OF k] crc7_byte_bits(2) [OF k], of x xs y] by (auto simp: a k_def)
  also have "\<dots> \<longleftrightarrow> x = y \<or> x = y XOR 0x89"
    unfolding crc7_byte_eq [OF k k] xor.assoc [of "push_bit 1 k" y] xor.commute [of "push_bit 1 k"] xor_cancel_u8 ..
  finally show "crc7 crc (ps @ x # xs) = crc7 crc (ps @ y # xs) \<longleftrightarrow> x = y \<or> x = y XOR 0x89" .
qed

lemma crc7_reference_witness:
  "crc7 0x7f [0xc9, 0, 0x10, 0x78] = foldl crc7_bits 0x7f [0xc9, 0, 0x10, 0x78] \<and>
   crc7 0x7f ([0xc9, 0] @ 0x10 # [0x78]) \<noteq> crc7 0x7f ([0xc9, 0] @ 0x11 # [0x78])"
proof -
  have "(0x7f :: u8) < 128" by simp
  from crc7_reference [OF this, of "[0xc9, 0, 0x10, 0x78]" 0 "[0xc9, 0]" "0x10" "[0x78]" "0x11"]
  have a: "crc7 0x7f [0xc9, 0, 0x10, 0x78] = foldl crc7_bits 0x7f [0xc9, 0, 0x10, 0x78]"
    and b: "crc7 0x7f ([0xc9, 0] @ 0x10 # [0x78]) = crc7 0x7f ([0xc9, 0] @ 0x11 # [0x78]) \<longleftrightarrow> (0x10 :: u8) = 0x11 \<or> (0x10 :: u8) = 0x11 XOR 0x89"
    by blast+
  have "(0x10 :: u8) \<noteq> 0x11" "(0x10 :: u8) \<noteq> 0x11 XOR 0x89" by simp_all
  with a b show ?thesis by blast
qed

end
