(* ===== verification/Nm_Spi.thy ===== *)
theory Nm_Spi
  imports Crc7
begin

text \<open>
  The bus to the WiFi chip: nmspi.c, the SPI protocol of the WINC1500, over the bus wrapper nm_bus_wrapper_nrf52.c and the pins of nm_bsp_nrf52.c, and
  nmbus.c, which cuts blocks into transfers. What goes over the wire, and what else the host does to the chip, is a log; what the chip clocks out is a parameter,
  a function of the log. A transfer itself does not fail, as \<open>spi_rw\<close> does not look at the result of the SPI driver.
\<close>

section \<open>The wire\<close>

datatype wpin = ChipEnable | ResetN

text \<open>A transfer with the bytes sent and received, a pin, the configuration of a pin, a tick of \<open>nm_bsp_sleep\<close>.\<close>

datatype wev = Xfer "u8 list" "u8 list" | PinSet wpin bool | CfgOutput wpin | CfgDefault wpin | Tick | SpimInit | SpimUninit

type_synonym wenv = "wev list \<Rightarrow> nat \<Rightarrow> u8"

record nmspi =
  slog :: "wev list"
  gu8Crc_off :: bool
  clk_status_reg_adr :: u32

definition put_ev :: "wev \<Rightarrow> nmspi \<Rightarrow> nmspi" where
  "put_ev e s = s\<lparr>slog := slog s @ [e]\<rparr>"

abbreviation "M2M_SUCCESS \<equiv> (0 :: int)"
abbreviation "M2M_ERR_SEND \<equiv> (-1 :: int)"
abbreviation "M2M_ERR_RCV \<equiv> (-2 :: int)"
abbreviation "M2M_ERR_MEM_ALLOC \<equiv> (-3 :: int)"
abbreviation "M2M_ERR_BUS_FAIL \<equiv> (-6 :: int)"
abbreviation "M2M_ERR_FAIL \<equiv> (-12 :: int)"
abbreviation "M2M_ERR_INVALID_ARG \<equiv> (-15 :: int)"

definition spi_rw :: "wenv \<Rightarrow> u8 list option \<Rightarrow> bool \<Rightarrow> nat \<Rightarrow> nmspi \<Rightarrow> int \<times> u8 list \<times> nmspi" where
  "spi_rw env mosi miso n s =
     (if (\<not> miso \<and> mosi = None) \<or> n = 0 then (M2M_ERR_INVALID_ARG, [], s)
      else let tx = (case mosi of None \<Rightarrow> [] | Some b \<Rightarrow> take n b);
               rx = (if miso then map (env (slog s)) [0..<n] else [])
           in (M2M_SUCCESS, rx, put_ev (Xfer tx rx) s))"

definition nmi_spi_read :: "wenv \<Rightarrow> nat \<Rightarrow> nmspi \<Rightarrow> bool \<times> u8 list \<times> nmspi" where
  "nmi_spi_read env n s = (case spi_rw env None True n s of (r, rx, s1) \<Rightarrow> (r = M2M_SUCCESS, rx, s1))"

definition nmi_spi_write :: "wenv \<Rightarrow> u8 list \<Rightarrow> nmspi \<Rightarrow> bool \<times> nmspi" where
  "nmi_spi_write env bs s = (case spi_rw env (Some bs) False (length bs) s of (r, rx, s1) \<Rightarrow> (r = M2M_SUCCESS, s1))"

section \<open>Commands\<close>

abbreviation "CMD_DMA_WRITE \<equiv> (0xc1 :: u8)"
abbreviation "CMD_DMA_READ \<equiv> (0xc2 :: u8)"
abbreviation "CMD_INTERNAL_WRITE \<equiv> (0xc3 :: u8)"
abbreviation "CMD_INTERNAL_READ \<equiv> (0xc4 :: u8)"
abbreviation "CMD_TERMINATE \<equiv> (0xc5 :: u8)"
abbreviation "CMD_REPEAT \<equiv> (0xc6 :: u8)"
abbreviation "CMD_DMA_EXT_WRITE \<equiv> (0xc7 :: u8)"
abbreviation "CMD_DMA_EXT_READ \<equiv> (0xc8 :: u8)"
abbreviation "CMD_SINGLE_WRITE \<equiv> (0xc9 :: u8)"
abbreviation "CMD_SINGLE_READ \<equiv> (0xca :: u8)"
abbreviation "CMD_RESET \<equiv> (0xcf :: u8)"

text \<open>Byte \<open>k\<close> of a word, the least significant first.\<close>

definition byte :: "nat \<Rightarrow> u32 \<Rightarrow> u8" where
  "byte k w = ucast (drop_bit (8 * k) w)"

text \<open>The bytes in front of the check byte.\<close>

definition cmd_body :: "u8 \<Rightarrow> u32 \<Rightarrow> u32 \<Rightarrow> u32 \<Rightarrow> bool \<Rightarrow> u8 list option" where
  "cmd_body c adr d sz clockless =
     (let hi = byte 1 adr; ihi = (if clockless then hi OR 0x80 else hi)
      in if c = CMD_SINGLE_READ then Some [c, byte 2 adr, hi, byte 0 adr]
         else if c = CMD_INTERNAL_READ then Some [c, ihi, byte 0 adr, 0]
         else if c = CMD_TERMINATE \<or> c = CMD_REPEAT then Some [c, 0, 0, 0]
         else if c = CMD_RESET then Some [c, 0xff, 0xff, 0xff]
         else if c = CMD_DMA_WRITE \<or> c = CMD_DMA_READ then Some [c, byte 2 adr, hi, byte 0 adr, byte 1 sz, byte 0 sz]
         else if c = CMD_DMA_EXT_WRITE \<or> c = CMD_DMA_EXT_READ
           then Some [c, byte 2 adr, hi, byte 0 adr, byte 2 sz, byte 1 sz, byte 0 sz]
         else if c = CMD_INTERNAL_WRITE then Some [c, ihi, byte 0 adr, byte 3 d, byte 2 d, byte 1 d, byte 0 d]
         else if c = CMD_SINGLE_WRITE then Some [c, byte 2 adr, hi, byte 0 adr, byte 3 d, byte 2 d, byte 1 d, byte 0 d]
         else None)"

definition spi_cmd :: "wenv \<Rightarrow> u8 \<Rightarrow> u32 \<Rightarrow> u32 \<Rightarrow> u32 \<Rightarrow> bool \<Rightarrow> nmspi \<Rightarrow> bool \<times> nmspi" where
  "spi_cmd env c adr d sz clockless s =
     (case cmd_body c adr d sz clockless of
        None \<Rightarrow> (False, s)
      | Some bc \<Rightarrow> nmi_spi_write env (if gu8Crc_off s then bc else bc @ [push_bit 1 (crc7 0x7f bc)]) s)"

text \<open>Reading until a byte appears: up to \<open>n + 1\<close> times. That it never does is not an error.\<close>

fun rsp_loop :: "wenv \<Rightarrow> u8 \<Rightarrow> nat \<Rightarrow> nmspi \<Rightarrow> bool \<times> nmspi" where
  "rsp_loop env want n s =
     (case nmi_spi_read env 1 s of (ok, rx, s1) \<Rightarrow>
        if \<not> ok then (False, s1)
        else if hd rx = want then (True, s1)
        else case n of 0 \<Rightarrow> (True, s1) | Suc m \<Rightarrow> rsp_loop env want m s1)"

declare rsp_loop.simps [simp del]

definition spi_cmd_rsp :: "wenv \<Rightarrow> u8 \<Rightarrow> nmspi \<Rightarrow> bool \<times> nmspi" where
  "spi_cmd_rsp env c s =
     (let (ok0, s0) = (if c = CMD_RESET \<or> c = CMD_TERMINATE \<or> c = CMD_REPEAT
                       then (case nmi_spi_read env 1 s of (ok, rx, s1) \<Rightarrow> (ok, s1)) else (True, s))
      in if \<not> ok0 then (False, s0)
         else let (ok1, s1) = rsp_loop env c 10 s0
              in if \<not> ok1 then (False, s1) else rsp_loop env 0 10 s1)"

section \<open>Data\<close>

abbreviation "DATA_PKT_SZ \<equiv> (8192 :: nat)"

text \<open>The header of a data packet. When it comes with the last of the eleven reads, the counter is zero and the code takes it for a failure.\<close>

fun header_loop :: "wenv \<Rightarrow> nat \<Rightarrow> nmspi \<Rightarrow> bool \<times> nmspi" where
  "header_loop env n s =
     (case nmi_spi_read env 1 s of (ok, rx, s1) \<Rightarrow>
        if \<not> ok then (False, s1)
        else if drop_bit 4 (hd rx) = 0xf then (0 < n, s1)
        else case n of 0 \<Rightarrow> (False, s1) | Suc m \<Rightarrow> header_loop env m s1)"

declare header_loop.simps [simp del]

text \<open>The bytes read so far are returned with the result. The index is 16 bits wide; nmbus.c asks for at most 248 bytes.\<close>

function spi_data_read :: "wenv \<Rightarrow> nat \<Rightarrow> bool \<Rightarrow> nmspi \<Rightarrow> bool \<times> u8 list \<times> nmspi" where
  "spi_data_read env sz clockless s =
     (let n = min sz DATA_PKT_SZ; (ok, s1) = header_loop env 10 s
      in if \<not> ok then (False, [], s1)
         else case nmi_spi_read env n s1 of (ok2, bs, s2) \<Rightarrow>
           if \<not> ok2 then (False, [], s2)
           else let (ok3, s3) = (if \<not> clockless \<and> \<not> gu8Crc_off s2 then (case nmi_spi_read env 2 s2 of (ok, rx, u) \<Rightarrow> (ok, u)) else (True, s2))
                in if \<not> ok3 then (False, bs, s3)
                   else if sz \<le> n then (True, bs, s3)
                   else case spi_data_read env (sz - n) clockless s3 of (ok4, bs', s4) \<Rightarrow> (ok4, bs @ bs', s4))"
  by pat_completeness auto

termination
  by (relation "measure (\<lambda>(env, sz, c, s). sz)") (auto simp: nmi_spi_read_def spi_rw_def)

declare spi_data_read.simps [simp del]

definition packet_order :: "bool \<Rightarrow> nat \<Rightarrow> u8" where
  "packet_order first sz = (if sz \<le> DATA_PKT_SZ then 3 else if first then 1 else 2)"

function spi_data_write :: "wenv \<Rightarrow> bool \<Rightarrow> u8 list \<Rightarrow> nmspi \<Rightarrow> bool \<times> nmspi" where
  "spi_data_write env first b s =
     (let n = min (length b) DATA_PKT_SZ; (ok, s1) = nmi_spi_write env [0xf0 OR packet_order first (length b)] s
      in if \<not> ok then (False, s1)
         else case nmi_spi_write env (take n b) s1 of (ok2, s2) \<Rightarrow>
           if \<not> ok2 then (False, s2)
           else let (ok3, s3) = (if gu8Crc_off s2 then (True, s2) else nmi_spi_write env [0, 0] s2)
                in if \<not> ok3 then (False, s3)
                   else if length b \<le> n then (True, s3)
                   else spi_data_write env False (drop n b) s3)"
  by pat_completeness auto

termination
  by (relation "measure (\<lambda>(env, f, b, s). length b)") (auto simp: nmi_spi_write_def spi_rw_def)

declare spi_data_write.simps [simp del]

section \<open>Registers and blocks\<close>

text \<open>After an error the protocol is reset.\<close>

definition reset_cmd :: "wenv \<Rightarrow> nmspi \<Rightarrow> nmspi" where
  "reset_cmd env s = snd (spi_cmd env CMD_RESET 0 0 0 False s)"

definition spi_write_reg :: "wenv \<Rightarrow> u32 \<Rightarrow> u32 \<Rightarrow> nmspi \<Rightarrow> bool \<times> nmspi" where
  "spi_write_reg env addr d s =
     (let clockless = addr \<le> 0x30; c = (if clockless then CMD_INTERNAL_WRITE else CMD_SINGLE_WRITE);
          (ok, s1) = spi_cmd env c addr d 4 clockless s
      in if \<not> ok then (False, s1)
         else let (ok2, s2) = spi_cmd_rsp env c s1 in if \<not> ok2 then (False, reset_cmd env s2) else (True, s2))"

text \<open>A failing data phase resets the protocol, and the result is success.\<close>

definition nm_spi_write :: "wenv \<Rightarrow> u32 \<Rightarrow> u8 list \<Rightarrow> nmspi \<Rightarrow> bool \<times> nmspi" where
  "nm_spi_write env addr b s =
     (let c = CMD_DMA_EXT_WRITE; (ok, s1) = spi_cmd env c addr 0 (of_nat (length b)) False s
      in if \<not> ok then (False, s1)
         else let (ok2, s2) = spi_cmd_rsp env c s1
              in if \<not> ok2 then (False, reset_cmd env s2)
                 else let (ok3, s3) = spi_data_write env True b s2 in (True, if ok3 then s3 else reset_cmd env s3))"

definition word_le :: "u8 list \<Rightarrow> u32" where
  "word_le t = ucast (t ! 0) OR push_bit 8 (ucast (t ! 1)) OR push_bit 16 (ucast (t ! 2)) OR push_bit 24 (ucast (t ! 3))"

text \<open>The value is there in case of success.\<close>

definition spi_read_reg :: "wenv \<Rightarrow> u32 \<Rightarrow> nmspi \<Rightarrow> u32 option \<times> nmspi" where
  "spi_read_reg env addr s =
     (let clockless = addr \<le> 0xff; c = (if clockless then CMD_INTERNAL_READ else CMD_SINGLE_READ);
          (ok, s1) = spi_cmd env c addr 0 4 clockless s
      in if \<not> ok then (None, s1)
         else let (ok2, s2) = spi_cmd_rsp env c s1
              in if \<not> ok2 then (None, reset_cmd env s2)
                 else case spi_data_read env 4 clockless s2 of (ok3, tmp, s3) \<Rightarrow>
                   if ok3 then (Some (word_le tmp), s3) else (None, reset_cmd env s3))"

definition nm_spi_read :: "wenv \<Rightarrow> u32 \<Rightarrow> nat \<Rightarrow> nmspi \<Rightarrow> bool \<times> u8 list \<times> nmspi" where
  "nm_spi_read env addr n s =
     (let c = CMD_DMA_EXT_READ; (ok, s1) = spi_cmd env c addr 0 (of_nat n) False s
      in if \<not> ok then (False, [], s1)
         else let (ok2, s2) = spi_cmd_rsp env c s1
              in if \<not> ok2 then (False, [], reset_cmd env s2)
                 else case spi_data_read env n False s2 of (ok3, bs, s3) \<Rightarrow>
                   if ok3 then (True, bs, s3) else (False, bs, reset_cmd env s3))"

definition bus_result :: "bool \<Rightarrow> int" where
  "bus_result ok = (if ok then M2M_SUCCESS else M2M_ERR_BUS_FAIL)"

definition nm_spi_read_reg_with_ret :: "wenv \<Rightarrow> u32 \<Rightarrow> nmspi \<Rightarrow> int \<times> u32 option \<times> nmspi" where
  "nm_spi_read_reg_with_ret env addr s = (case spi_read_reg env addr s of (v, s1) \<Rightarrow> (bus_result (v \<noteq> None), v, s1))"

definition nm_spi_write_reg :: "wenv \<Rightarrow> u32 \<Rightarrow> u32 \<Rightarrow> nmspi \<Rightarrow> int \<times> nmspi" where
  "nm_spi_write_reg env addr v s = (case spi_write_reg env addr v s of (ok, s1) \<Rightarrow> (bus_result ok, s1))"

definition nm_spi_read_block :: "wenv \<Rightarrow> u32 \<Rightarrow> nat \<Rightarrow> nmspi \<Rightarrow> int \<times> u8 list \<times> nmspi" where
  "nm_spi_read_block env addr n s = (case nm_spi_read env addr n s of (ok, bs, s1) \<Rightarrow> (bus_result ok, bs, s1))"

definition nm_spi_write_block :: "wenv \<Rightarrow> u32 \<Rightarrow> u8 list \<Rightarrow> nmspi \<Rightarrow> int \<times> nmspi" where
  "nm_spi_write_block env addr b s = (case nm_spi_write env addr b s of (ok, s1) \<Rightarrow> (bus_result ok, s1))"

text \<open>\<open>nm_spi_read_reg\<close> returns a variable that is not set when the read fails; what is in it is \<open>junk\<close>.\<close>

definition nm_spi_read_reg :: "wenv \<Rightarrow> u32 \<Rightarrow> u32 \<Rightarrow> nmspi \<Rightarrow> u32 \<times> nmspi" where
  "nm_spi_read_reg env junk addr s = (case spi_read_reg env addr s of (v, s1) \<Rightarrow> (case v of None \<Rightarrow> junk | Some w \<Rightarrow> w, s1))"

abbreviation "PROTOCOL_CONFIG \<equiv> (0xe824 :: u32)"

definition spi_init_pkt_sz :: "wenv \<Rightarrow> u32 \<Rightarrow> nmspi \<Rightarrow> nmspi" where
  "spi_init_pkt_sz env junk s =
     (case nm_spi_read_reg env junk PROTOCOL_CONFIG s of (v, s1) \<Rightarrow>
        snd (nm_spi_write_reg env PROTOCOL_CONFIG (v AND NOT 0x70 OR 0x50) s1))"

text \<open>The result 0 of the two early returns is \<open>M2M_SUCCESS\<close>.\<close>

definition nm_spi_init :: "wenv \<Rightarrow> u32 \<Rightarrow> nmspi \<Rightarrow> int \<times> nmspi" where
  "nm_spi_init env junk s0 =
     (let (r1, s1) = spi_read_reg env PROTOCOL_CONFIG (s0\<lparr>gu8Crc_off := False\<rparr>);
          (r2, s2) = (if r1 = None then spi_read_reg env PROTOCOL_CONFIG (s1\<lparr>gu8Crc_off := True\<rparr>) else (r1, s1))
      in case r2 of
           None \<Rightarrow> (0, s2)
         | Some reg \<Rightarrow>
             let (ok, s3) = (if gu8Crc_off s2 then (True, s2)
                             else spi_write_reg env PROTOCOL_CONFIG (reg AND NOT 0xc AND NOT 0x70 OR 0x50) s2)
             in if \<not> ok then (0, s3)
                else let s4 = s3\<lparr>gu8Crc_off := True\<rparr>; (r5, s5) = spi_read_reg env 0x1000 s4
                     in if r5 = None then (M2M_ERR_BUS_FAIL, s5) else (M2M_SUCCESS, spi_init_pkt_sz env junk s5))"

definition nm_spi_deinit :: "nmspi \<Rightarrow> int \<times> nmspi" where
  "nm_spi_deinit s = (M2M_SUCCESS, s\<lparr>gu8Crc_off := False\<rparr>)"

section \<open>Blocks in transfers\<close>

abbreviation "MAX_TRX \<equiv> (248 :: nat)"

function nm_read_block :: "wenv \<Rightarrow> u32 \<Rightarrow> nat \<Rightarrow> nmspi \<Rightarrow> int \<times> u8 list \<times> nmspi" where
  "nm_read_block env a n s =
     (if n \<le> MAX_TRX then nm_spi_read_block env a n s
      else case nm_spi_read_block env a MAX_TRX s of (r, bs, s1) \<Rightarrow>
        if r \<noteq> M2M_SUCCESS then (r, bs, s1)
        else case nm_read_block env (a + of_nat MAX_TRX) (n - MAX_TRX) s1 of (r2, bs2, s2) \<Rightarrow> (r2, bs @ bs2, s2))"
  by pat_completeness auto

termination
  by (relation "measure (\<lambda>(env, a, n, s). n)") auto

declare nm_read_block.simps [simp del]

function nm_write_block :: "wenv \<Rightarrow> u32 \<Rightarrow> u8 list \<Rightarrow> nmspi \<Rightarrow> int \<times> nmspi" where
  "nm_write_block env a b s =
     (if length b \<le> MAX_TRX then nm_spi_write_block env a b s
      else case nm_spi_write_block env a (take MAX_TRX b) s of (r, s1) \<Rightarrow>
        if r \<noteq> M2M_SUCCESS then (r, s1) else nm_write_block env (a + of_nat MAX_TRX) (drop MAX_TRX b) s1)"
  by pat_completeness auto

termination
  by (relation "measure (\<lambda>(env, a, b, s). length b)") auto

declare nm_write_block.simps [simp del]

section \<open>Pins, start and waking\<close>

definition nm_bsp_sleep :: "nat \<Rightarrow> nmspi \<Rightarrow> nmspi" where
  "nm_bsp_sleep n s = s\<lparr>slog := slog s @ replicate n Tick\<rparr>"

definition nm_bsp_reset :: "nmspi \<Rightarrow> nmspi" where
  "nm_bsp_reset s =
     nm_bsp_sleep 30 (put_ev (PinSet ResetN True) (nm_bsp_sleep 10 (put_ev (PinSet ChipEnable True)
       (nm_bsp_sleep 1 (put_ev (PinSet ResetN False) (put_ev (PinSet ChipEnable False) s))))))"

definition init_chip_pins :: "nmspi \<Rightarrow> nmspi" where
  "init_chip_pins s =
     put_ev (PinSet ResetN True) (put_ev (PinSet ChipEnable True) (put_ev (CfgOutput ChipEnable) (put_ev (CfgOutput ResetN) s)))"

definition nm_bsp_init :: "nmspi \<Rightarrow> int \<times> nmspi" where
  "nm_bsp_init s = (M2M_SUCCESS, nm_bsp_reset (init_chip_pins s))"

definition nm_bsp_deinit :: "nmspi \<Rightarrow> int \<times> nmspi" where
  "nm_bsp_deinit s = (M2M_SUCCESS, put_ev (CfgDefault ChipEnable) (put_ev (CfgDefault ResetN) s))"

text \<open>The error handler behind \<open>nrfx_spim_init\<close> does not return: \<open>None\<close>.\<close>

definition nm_bus_init :: "int \<Rightarrow> nmspi \<Rightarrow> (int \<times> nmspi) option" where
  "nm_bus_init spim_err s =
     (if spim_err \<noteq> 0 then None else Some (spim_err, nm_bsp_sleep 1 (nm_bsp_reset (put_ev SpimInit s))))"

definition nm_bus_deinit :: "nmspi \<Rightarrow> int \<times> nmspi" where
  "nm_bus_deinit s = (M2M_SUCCESS, put_ev SpimUninit s)"

text \<open>
  \<open>nm_clkless_wake\<close>. The inner loop turns at most once, as it asks for every third trial. The outer loop has no bound: \<open>None\<close> when
  the clocks stay off.
\<close>

definition read_or :: "wenv \<Rightarrow> u32 \<Rightarrow> u32 \<Rightarrow> nmspi \<Rightarrow> int \<times> u32 \<times> nmspi" where
  "read_or env a old s = (case nm_spi_read_reg_with_ret env a s of (r, v, s1) \<Rightarrow> (r, case v of None \<Rightarrow> old | Some w \<Rightarrow> w, s1))"

definition clock_status :: "wenv \<Rightarrow> u32 \<Rightarrow> nmspi \<Rightarrow> int \<times> u32 \<times> nmspi" where
  "clock_status env old s =
     (case read_or env (clk_status_reg_adr s) old (nm_bsp_sleep 1 s) of (r1, c1, s1) \<Rightarrow>
        if r1 = M2M_SUCCESS \<and> c1 \<noteq> 0 then (r1, c1, s1)
        else let t1 = s1\<lparr>clk_status_reg_adr := 0xe\<rparr> in
          case read_or env 0xe c1 (nm_bsp_sleep 1 t1) of (r2, c2, s2) \<Rightarrow>
            if r2 = M2M_SUCCESS \<and> c2 \<noteq> 0 then (r2, c2, s2)
            else let t2 = s2\<lparr>clk_status_reg_adr := 0x13\<rparr> in read_or env 0x13 c2 (nm_bsp_sleep 1 t2))"

definition clock_wait :: "wenv \<Rightarrow> u32 \<Rightarrow> nat \<Rightarrow> nmspi \<Rightarrow> u32 \<times> nat \<times> nmspi" where
  "clock_wait env c trials s =
     (if c AND 4 = 0 then
        if Suc trials mod 3 = 0 then
          (case read_or env (clk_status_reg_adr s) c (nm_bsp_sleep 2 s) of (_, c1, s1) \<Rightarrow>
             (c1, if c1 AND 4 = 0 then Suc (Suc trials) else Suc trials, s1))
        else (c, Suc trials, s)
      else (c, trials, s))"

partial_function (option) wake_loop :: "wenv \<Rightarrow> u32 \<Rightarrow> u32 \<Rightarrow> nat \<Rightarrow> nmspi \<Rightarrow> (int \<times> nmspi) option" where
  "wake_loop env reg c trials s =
     (let s1 = snd (nm_spi_write_reg env 1 (reg OR 2) s); (r, c1, s2) = clock_status env c s1
      in if r \<noteq> M2M_SUCCESS then Some (r, s2)
         else let (c2, trials2, s3) = clock_wait env c1 trials s2
              in if c2 AND 4 = 0 then wake_loop env reg c2 trials2 (snd (nm_spi_write_reg env 1 (reg OR 2) s3))
                 else Some (r, s3))"

definition nm_clkless_wake :: "wenv \<Rightarrow> u32 \<Rightarrow> nmspi \<Rightarrow> (int \<times> nmspi) option" where
  "nm_clkless_wake env junk s =
     (case nm_spi_read_reg_with_ret env 1 (nm_bsp_sleep 1 s) of (r, v, s1) \<Rightarrow>
        (case v of None \<Rightarrow> Some (r, s1) | Some reg \<Rightarrow> wake_loop env reg junk 0 s1))"

end
