(* ===== verification/Winc_Chip.thy ===== *)
theory Winc_Chip
  imports Nm_Spi
begin

text \<open>
  The WINC1500 at the other end of the bus, as an observer of the transfers: it takes commands, with or without check bytes, and answers them after a few
  filler bytes. What its registers and its memory hold is up to its firmware, a parameter that knows the operations so far. The functions of nmspi.c and nmbus.c
  are shown to be these operations.
\<close>

section \<open>The chip\<close>

datatype bus_op = ReadReg u32 | WriteReg u32 u32 | ReadBlock u32 nat | WriteBlock u32 "u8 list"

text \<open>Fillers come before the echo of a command, before its state byte and before the header of data.\<close>

record firmware =
  reg_value :: "bus_op list \<Rightarrow> u32 \<Rightarrow> u32"
  mem_value :: "bus_op list \<Rightarrow> u32 \<Rightarrow> u8"
  fill_echo :: "bus_op list \<Rightarrow> u8 list"
  fill_state :: "bus_op list \<Rightarrow> u8 list"
  fill_data :: "bus_op list \<Rightarrow> u8 list"

definition polite :: "firmware \<Rightarrow> bool" where
  "polite fw \<longleftrightarrow> (\<forall>os. length (fill_echo fw os) \<le> 10 \<and> (\<forall>b \<in> set (fill_echo fw os). b < 0xc0) \<and>
     length (fill_state fw os) \<le> 10 \<and> 0 \<notin> set (fill_state fw os) \<and>
     length (fill_data fw os) \<le> 9 \<and> (\<forall>b \<in> set (fill_data fw os). drop_bit 4 b \<noteq> 0xf))"

datatype pend = Idle | NeedHead u32 nat | NeedData u32 nat | NeedCrc

record wchip =
  ops :: "bus_op list"
  outq :: "u8 list"
  pend :: pend
  crc_on :: bool

definition be3 :: "u8 \<Rightarrow> u8 \<Rightarrow> u8 \<Rightarrow> u32" where
  "be3 x y z = push_bit 16 (ucast x) OR push_bit 8 (ucast y) OR ucast z"

definition be4 :: "u8 \<Rightarrow> u8 \<Rightarrow> u8 \<Rightarrow> u8 \<Rightarrow> u32" where
  "be4 w x y z = push_bit 24 (ucast w) OR be3 x y z"

definition reply :: "firmware \<Rightarrow> u8 \<Rightarrow> u8 list \<Rightarrow> bus_op list \<Rightarrow> wchip \<Rightarrow> wchip" where
  "reply fw cm payload new c =
     c\<lparr>outq := fill_echo fw (ops c) @ cm # fill_state fw (ops c) @ 0 # payload, ops := ops c @ new\<rparr>"

definition data_packet :: "firmware \<Rightarrow> bool \<Rightarrow> u8 list \<Rightarrow> wchip \<Rightarrow> u8 list" where
  "data_packet fw with_crc bs c = fill_data fw (ops c) @ 0xf3 # bs @ (if with_crc then [0, 0] else [])"

definition word_bytes :: "u32 \<Rightarrow> u8 list" where
  "word_bytes w = [byte 0 w, byte 1 w, byte 2 w, byte 3 w]"

definition block :: "firmware \<Rightarrow> bus_op list \<Rightarrow> u32 \<Rightarrow> nat \<Rightarrow> u8 list" where
  "block fw os a n = map (\<lambda>i. mem_value fw os (a + of_nat i)) [0..<n]"

definition note_write :: "u32 \<Rightarrow> u32 \<Rightarrow> wchip \<Rightarrow> wchip" where
  "note_write a v c = (if a = PROTOCOL_CONFIG then c\<lparr>crc_on := v AND 0xc \<noteq> 0\<rparr> else c)"

definition obey :: "firmware \<Rightarrow> u8 list \<Rightarrow> wchip \<Rightarrow> wchip" where
  "obey fw b c =
     (let cm = b ! 0; a = be3 (b ! 1) (b ! 2) (b ! 3); ia = be3 0 (b ! 1 AND 0x7f) (b ! 2); n = unat (be3 (b ! 4) (b ! 5) (b ! 6))
      in if cm = CMD_SINGLE_READ \<and> length b = 4
           then reply fw cm (data_packet fw (crc_on c) (word_bytes (reg_value fw (ops c) a)) c) [ReadReg a] c
         else if cm = CMD_INTERNAL_READ \<and> length b = 4
           then reply fw cm (data_packet fw False (word_bytes (reg_value fw (ops c) ia)) c) [ReadReg ia] c
         else if cm = CMD_SINGLE_WRITE \<and> length b = 8
           then let v = be4 (b ! 4) (b ! 5) (b ! 6) (b ! 7) in note_write a v (reply fw cm [] [WriteReg a v] c)
         else if cm = CMD_INTERNAL_WRITE \<and> length b = 7
           then let v = be4 (b ! 3) (b ! 4) (b ! 5) (b ! 6) in reply fw cm [] [WriteReg ia v] c
         else if cm = CMD_DMA_EXT_READ \<and> length b = 7
           then reply fw cm (data_packet fw (crc_on c) (block fw (ops c) a n) c) [ReadBlock a n] c
         else if cm = CMD_DMA_EXT_WRITE \<and> length b = 7 then (reply fw cm [] [] c)\<lparr>pend := NeedHead a n\<rparr>
         else c\<lparr>outq := []\<rparr>)"

text \<open>A command with a wrong check byte is not obeyed.\<close>

definition command :: "firmware \<Rightarrow> u8 list \<Rightarrow> wchip \<Rightarrow> wchip" where
  "command fw bs c =
     (if \<not> crc_on c then obey fw bs c
      else if last bs = push_bit 1 (crc7 0x7f (butlast bs)) then obey fw (butlast bs) c
      else c\<lparr>outq := []\<rparr>)"

fun take_bytes :: "firmware \<Rightarrow> u8 list \<Rightarrow> pend \<Rightarrow> wchip \<Rightarrow> wchip" where
  "take_bytes fw bs Idle c = command fw bs c"
| "take_bytes fw bs (NeedHead a n) c = (if bs = [0xf3] then c\<lparr>pend := NeedData a n\<rparr> else c\<lparr>pend := Idle\<rparr>)"
| "take_bytes fw bs (NeedData a n) c =
     (if length bs = n then c\<lparr>pend := (if crc_on c then NeedCrc else Idle), ops := ops c @ [WriteBlock a bs]\<rparr> else c\<lparr>pend := Idle\<rparr>)"
| "take_bytes fw bs NeedCrc c = c\<lparr>pend := Idle\<rparr>"

fun chip_step :: "firmware \<Rightarrow> wev \<Rightarrow> wchip \<Rightarrow> wchip" where
  "chip_step fw (Xfer tx rx) c = (if tx = [] then c\<lparr>outq := drop (length rx) (outq c)\<rparr> else take_bytes fw tx (pend c) c)"
| "chip_step fw (PinSet p b) c = (if b then c else c\<lparr>outq := [], pend := Idle, crc_on := True\<rparr>)"
| "chip_step fw e c = c"

definition chip_of :: "firmware \<Rightarrow> wchip \<Rightarrow> nmspi \<Rightarrow> wchip" where
  "chip_of fw c0 s = fold (chip_step fw) (slog s) c0"

definition answers :: "firmware \<Rightarrow> wchip \<Rightarrow> wenv" where
  "answers fw c0 log i = (let q = outq (fold (chip_step fw) log c0) in if i < length q then q ! i else 0)"

text \<open>Chip and driver wait for each other and agree on the check bytes; the driver's operations so far.\<close>

definition sync :: "firmware \<Rightarrow> wchip \<Rightarrow> nmspi \<Rightarrow> bool" where
  "sync fw c0 s \<longleftrightarrow> pend (chip_of fw c0 s) = Idle \<and> outq (chip_of fw c0 s) = [] \<and> crc_on (chip_of fw c0 s) = (\<not> gu8Crc_off s)"

abbreviation done_ops :: "firmware \<Rightarrow> wchip \<Rightarrow> nmspi \<Rightarrow> bus_op list" where
  "done_ops fw c0 s \<equiv> ops (chip_of fw c0 s)"

section \<open>Bytes of words\<close>

lemma byte_bit: "bit (ucast (byte k w) :: u32) n \<longleftrightarrow> n < 8 \<and> bit w (8 * k + n)"
  by (auto simp: byte_def bit_simps)

lemma shifted_byte: "bit (push_bit m (ucast (byte k w)) :: u32) n \<longleftrightarrow> n < 32 \<and> m \<le> n \<and> n < m + 8 \<and> bit w (8 * k + (n - m))"
  unfolding bit_push_bit_iff byte_bit by (auto dest: bit_imp_le_length)

lemma be4_bytes: "be4 (byte 3 v) (byte 2 v) (byte 1 v) (byte 0 v) = v"
proof (rule bit_word_eqI)
  fix n assume "n < LENGTH(32)"
  then have "n < 8 \<or> 8 \<le> n \<and> n < 16 \<or> 16 \<le> n \<and> n < 24 \<or> 24 \<le> n \<and> n < 32" by auto
  then show "bit (be4 (byte 3 v) (byte 2 v) (byte 1 v) (byte 0 v)) n = bit v n"
    unfolding be4_def be3_def bit_or_iff shifted_byte byte_bit by auto
qed

lemma word_le_bytes: "word_le (word_bytes v) = v"
proof -
  have "word_le (word_bytes v) = be4 (byte 3 v) (byte 2 v) (byte 1 v) (byte 0 v)"
    by (simp add: word_le_def word_bytes_def be4_def be3_def ac_simps)
  then show ?thesis by (simp only: be4_bytes)
qed

lemma be3_bytes: "a < 2 ^ 24 \<Longrightarrow> be3 (byte 2 a) (byte 1 a) (byte 0 a) = a"
proof -
  assume "a < 2 ^ 24"
  then have a: "unat a < 2 ^ 24" by (simp add: word_less_nat_alt)
  have "byte 3 a = 0" using high_bits [OF a] by (intro bit_word_eqI) (simp add: byte_def bit_simps)
  then show ?thesis using be4_bytes [of a] by (simp add: be4_def)
qed

lemma size_bytes: "n < 2 ^ 24 \<Longrightarrow> unat (be3 (byte 2 (of_nat n)) (byte 1 (of_nat n)) (byte 0 (of_nat n))) = n"
proof -
  assume n: "n < 2 ^ 24"
  then have u: "unat (of_nat n :: u32) = n" by (simp add: unsigned_of_nat take_bit_nat_eq_self)
  then have "(of_nat n :: u32) < 2 ^ 24" using n by (simp add: word_less_nat_alt)
  from be3_bytes [OF this] u show ?thesis by simp
qed

lemma clockless_bytes: "a \<le> 0xff \<Longrightarrow> be3 0 ((byte 1 a OR 0x80) AND 0x7f) (byte 0 a) = a"
proof -
  assume "a \<le> 0xff"
  then have a: "unat a < 2 ^ 8" by (simp add: word_le_nat_alt)
  have "byte 1 a = 0" "byte 2 a = 0" using high_bits [OF a] by (auto intro!: bit_word_eqI simp: byte_def bit_simps)
  moreover have "a < 2 ^ 24" using a by (simp add: word_less_nat_alt)
  ultimately show ?thesis using be3_bytes [of a] by simp
qed
section \<open>Transfers\<close>

lemma winc_chip_of_put [simp]: "chip_of fw c0 (put_ev e s) = chip_step fw e (chip_of fw c0 s)"
  by (simp add: chip_of_def put_ev_def)

lemma put_ev_fields [simp]:
  "gu8Crc_off (put_ev e s) = gu8Crc_off s" "clk_status_reg_adr (put_ev e s) = clk_status_reg_adr s"
  by (simp_all add: put_ev_def)

text \<open>From \<open>s\<close> to \<open>s'\<close> only the log has grown, and it led the chip to \<open>c\<close>.\<close>

definition leads :: "firmware \<Rightarrow> wchip \<Rightarrow> nmspi \<Rightarrow> wchip \<Rightarrow> nmspi \<Rightarrow> bool" where
  "leads fw c0 s c s' \<longleftrightarrow> chip_of fw c0 s' = c \<and> gu8Crc_off s' = gu8Crc_off s \<and> clk_status_reg_adr s' = clk_status_reg_adr s"

lemma leads_trans: "leads fw c0 s c t \<Longrightarrow> leads fw c0 t d u \<Longrightarrow> leads fw c0 s d u"
  by (simp add: leads_def)

lemma leads_chip: "leads fw c0 s c t \<Longrightarrow> chip_of fw c0 t = c"
  by (simp add: leads_def)

lemma read_bytes:
  assumes "0 < n" "n \<le> length (outq (chip_of fw c0 s))"
  shows "\<exists>s'. nmi_spi_read (answers fw c0) n s = (True, take n (outq (chip_of fw c0 s)), s') \<and>
    leads fw c0 s ((chip_of fw c0 s)\<lparr>outq := drop n (outq (chip_of fw c0 s))\<rparr>) s'"
proof -
  have "map (answers fw c0 (slog s)) [0..<n] = take n (outq (chip_of fw c0 s))"
    using assms(2) by (intro nth_equalityI) (auto simp: answers_def chip_of_def Let_def)
  then show ?thesis using assms by (simp add: nmi_spi_read_def spi_rw_def leads_def Let_def)
qed

lemma write_bytes:
  "bs \<noteq> [] \<Longrightarrow> \<exists>s'. nmi_spi_write env bs s = (True, s') \<and> leads fw c0 s (take_bytes fw bs (pend (chip_of fw c0 s)) (chip_of fw c0 s)) s'"
  by (simp add: nmi_spi_write_def spi_rw_def leads_def Let_def)

lemma rsp_loop_finds:
  assumes "outq (chip_of fw c0 s) = f @ w # r" "length f \<le> n" "w \<notin> set f"
  shows "\<exists>s'. rsp_loop (answers fw c0) w n s = (True, s') \<and> leads fw c0 s ((chip_of fw c0 s)\<lparr>outq := r\<rparr>) s'"
  using assms
proof (induction n arbitrary: f s)
  case 0
  obtain s' where "nmi_spi_read (answers fw c0) 1 s = (True, [w], s')" "leads fw c0 s ((chip_of fw c0 s)\<lparr>outq := r\<rparr>) s'"
    using read_bytes [of 1 fw c0 s] 0 by auto
  then show ?case by (simp add: rsp_loop.simps [of _ w 0])
next
  case (Suc n)
  show ?case
  proof (cases f)
    case Nil
    obtain s' where "nmi_spi_read (answers fw c0) 1 s = (True, [w], s')" "leads fw c0 s ((chip_of fw c0 s)\<lparr>outq := r\<rparr>) s'"
      using read_bytes [of 1 fw c0 s] Suc.prems Nil by auto
    then show ?thesis by (simp add: rsp_loop.simps [of _ w "Suc n"])
  next
    case (Cons b g)
    obtain t where t: "nmi_spi_read (answers fw c0) 1 s = (True, [b], t)" "leads fw c0 s ((chip_of fw c0 s)\<lparr>outq := g @ w # r\<rparr>) t"
      using read_bytes [of 1 fw c0 s] Suc.prems Cons by auto
    obtain s' where s': "rsp_loop (answers fw c0) w n t = (True, s')" "leads fw c0 t ((chip_of fw c0 t)\<lparr>outq := r\<rparr>) s'"
      using Suc.IH [of t g] Suc.prems Cons leads_chip [OF t(2)] by auto
    have "rsp_loop (answers fw c0) w (Suc n) s = (True, s')"
      using t(1) s'(1) Suc.prems(3) Cons by (auto simp: rsp_loop.simps [of _ w "Suc n"])
    moreover have "leads fw c0 s ((chip_of fw c0 s)\<lparr>outq := r\<rparr>) s'"
      using leads_trans [OF t(2) s'(2)] leads_chip [OF t(2)] by simp
    ultimately show ?thesis by blast
  qed
qed

lemma header_loop_finds:
  assumes "outq (chip_of fw c0 s) = f @ w # r" "length f < n" "drop_bit 4 w = 0xf" "\<forall>b \<in> set f. drop_bit 4 b \<noteq> 0xf"
  shows "\<exists>s'. header_loop (answers fw c0) n s = (True, s') \<and> leads fw c0 s ((chip_of fw c0 s)\<lparr>outq := r\<rparr>) s'"
  using assms
proof (induction n arbitrary: f s)
  case (Suc n)
  show ?case
  proof (cases f)
    case Nil
    obtain s' where "nmi_spi_read (answers fw c0) 1 s = (True, [w], s')" "leads fw c0 s ((chip_of fw c0 s)\<lparr>outq := r\<rparr>) s'"
      using read_bytes [of 1 fw c0 s] Suc.prems Nil by auto
    then show ?thesis using Suc.prems(3) by (simp add: header_loop.simps [of _ "Suc n"])
  next
    case (Cons b g)
    obtain t where t: "nmi_spi_read (answers fw c0) 1 s = (True, [b], t)" "leads fw c0 s ((chip_of fw c0 s)\<lparr>outq := g @ w # r\<rparr>) t"
      using read_bytes [of 1 fw c0 s] Suc.prems Cons by auto
    obtain s' where s': "header_loop (answers fw c0) n t = (True, s')" "leads fw c0 t ((chip_of fw c0 t)\<lparr>outq := r\<rparr>) s'"
      using Suc.IH [of t g] Suc.prems Cons leads_chip [OF t(2)] by auto
    have "header_loop (answers fw c0) (Suc n) s = (True, s')"
      using t(1) s'(1) Suc.prems(4) Cons by (simp add: header_loop.simps [of _ "Suc n"])
    moreover have "leads fw c0 s ((chip_of fw c0 s)\<lparr>outq := r\<rparr>) s'"
      using leads_trans [OF t(2) s'(2)] leads_chip [OF t(2)] by simp
    ultimately show ?thesis by blast
  qed
qed simp

section \<open>Commands\<close>

lemma command_obeys:
  assumes "cmd_body cm a d n cl = Some bc" "bc \<noteq> []" "sync fw c0 s"
  shows "\<exists>s'. spi_cmd env cm a d n cl s = (True, s') \<and> leads fw c0 s (obey fw bc (chip_of fw c0 s)) s'"
proof -
  define bs where "bs = (if gu8Crc_off s then bc else bc @ [push_bit 1 (crc7 0x7f bc)])"
  have "bs \<noteq> []" using assms(2) by (simp add: bs_def)
  from write_bytes [OF this] obtain s' where s': "nmi_spi_write env bs s = (True, s')"
    "leads fw c0 s (take_bytes fw bs (pend (chip_of fw c0 s)) (chip_of fw c0 s)) s'" by blast
  have "take_bytes fw bs (pend (chip_of fw c0 s)) (chip_of fw c0 s) = obey fw bc (chip_of fw c0 s)"
    using assms(3) by (simp add: sync_def command_def bs_def)
  then show ?thesis using s' assms(1) by (auto simp: spi_cmd_def bs_def)
qed

lemma polite_fill:
  assumes "polite fw"
  shows "length (fill_echo fw os) \<le> 10" "0xc0 \<le> cm \<Longrightarrow> cm \<notin> set (fill_echo fw os)"
    "length (fill_state fw os) \<le> 10" "0 \<notin> set (fill_state fw os)"
    "length (fill_data fw os) < 10" "\<forall>b \<in> set (fill_data fw os). drop_bit 4 b \<noteq> 0xf"
proof -
  have p: "length (fill_echo fw os) \<le> 10 \<and> (\<forall>b \<in> set (fill_echo fw os). b < 0xc0) \<and>
     length (fill_state fw os) \<le> 10 \<and> 0 \<notin> set (fill_state fw os) \<and>
     length (fill_data fw os) \<le> 9 \<and> (\<forall>b \<in> set (fill_data fw os). drop_bit 4 b \<noteq> 0xf)"
    using assms by (simp add: polite_def)
  then show "length (fill_echo fw os) \<le> 10" "length (fill_state fw os) \<le> 10" "0 \<notin> set (fill_state fw os)"
    "length (fill_data fw os) < 10" "\<forall>b \<in> set (fill_data fw os). drop_bit 4 b \<noteq> 0xf" by auto
  show "0xc0 \<le> cm \<Longrightarrow> cm \<notin> set (fill_echo fw os)" using p by auto
qed

lemma response_read:
  assumes "polite fw" "cm \<in> {CMD_SINGLE_READ, CMD_INTERNAL_READ, CMD_SINGLE_WRITE, CMD_INTERNAL_WRITE, CMD_DMA_EXT_READ, CMD_DMA_EXT_WRITE}"
    and "outq (chip_of fw c0 s) = fill_echo fw os @ cm # fill_state fw os @ 0 # r"
  shows "\<exists>s'. spi_cmd_rsp (answers fw c0) cm s = (True, s') \<and> leads fw c0 s ((chip_of fw c0 s)\<lparr>outq := r\<rparr>) s'"
proof -
  have "0xc0 \<le> cm" using assms(2) by auto
  note f = polite_fill [OF assms(1), where os = os]
  obtain t where t: "rsp_loop (answers fw c0) cm 10 s = (True, t)"
    "leads fw c0 s ((chip_of fw c0 s)\<lparr>outq := fill_state fw os @ 0 # r\<rparr>) t"
    using rsp_loop_finds [OF assms(3) f(1) f(2) [OF \<open>0xc0 \<le> cm\<close>]] by blast
  have "outq (chip_of fw c0 t) = fill_state fw os @ 0 # r" using leads_chip [OF t(2)] by simp
  from rsp_loop_finds [OF this f(3,4)] obtain s' where s': "rsp_loop (answers fw c0) 0 10 t = (True, s')"
    "leads fw c0 t ((chip_of fw c0 t)\<lparr>outq := r\<rparr>) s'" by blast
  have "leads fw c0 s ((chip_of fw c0 s)\<lparr>outq := r\<rparr>) s'"
    using leads_trans [OF t(2) s'(2)] leads_chip [OF t(2)] by simp
  moreover have "cm \<noteq> CMD_RESET \<and> cm \<noteq> CMD_TERMINATE \<and> cm \<noteq> CMD_REPEAT" using assms(2) by auto
  ultimately show ?thesis using t(1) s'(1) by (auto simp: spi_cmd_rsp_def)
qed

lemma data_read:
  assumes "polite fw" "0 < n" "n \<le> DATA_PKT_SZ" "length bs = n"
    and "outq (chip_of fw c0 s) = fill_data fw os @ 0xf3 # bs @ (if \<not> cl \<and> \<not> gu8Crc_off s then [0, 0] else [])"
  shows "\<exists>s'. spi_data_read (answers fw c0) n cl s = (True, bs, s') \<and> leads fw c0 s ((chip_of fw c0 s)\<lparr>outq := []\<rparr>) s'"
proof -
  define tail where "tail = (if \<not> cl \<and> \<not> gu8Crc_off s then [0, 0] else [] :: u8 list)"
  note f = polite_fill [OF assms(1), where os = os]
  have h: "drop_bit 4 0xf3 = (0xf :: u8)" by simp
  obtain t where t: "header_loop (answers fw c0) 10 s = (True, t)" "leads fw c0 s ((chip_of fw c0 s)\<lparr>outq := bs @ tail\<rparr>) t"
    using header_loop_finds [OF assms(5) f(5) h f(6)] unfolding tail_def by blast
  obtain u where u: "nmi_spi_read (answers fw c0) n t = (True, bs, u)" "leads fw c0 s ((chip_of fw c0 s)\<lparr>outq := tail\<rparr>) u"
    using read_bytes [of n fw c0 t] assms(2,4) leads_chip [OF t(2)] leads_trans [OF t(2)] by auto
  have e: "spi_data_read (answers fw c0) n cl s =
    (let (ok3, s3) = (if \<not> cl \<and> \<not> gu8Crc_off u then (case nmi_spi_read (answers fw c0) 2 u of (ok, rx, v) \<Rightarrow> (ok, v)) else (True, u))
     in if \<not> ok3 then (False, bs, s3) else (True, bs, s3))"
    using t(1) u(1) assms(3) by (simp add: spi_data_read.simps [of _ n] min_absorb1 split: prod.splits)
  show ?thesis
  proof (cases "tail = []")
    case True
    then have "cl \<or> gu8Crc_off u" using u(2) by (auto simp: tail_def leads_def split: if_splits)
    then show ?thesis using e u(2) True by auto
  next
    case False
    then have tail: "tail = [0, 0]" "\<not> cl" "\<not> gu8Crc_off u" using u(2) by (auto simp: tail_def leads_def split: if_splits)
    obtain v where v: "nmi_spi_read (answers fw c0) 2 u = (True, [0, 0], v)" "leads fw c0 s ((chip_of fw c0 s)\<lparr>outq := []\<rparr>) v"
      using read_bytes [of 2 fw c0 u] tail leads_chip [OF u(2)] leads_trans [OF u(2)] by auto
    then show ?thesis using e tail by auto
  qed
qed

section \<open>The operations of nmspi.c\<close>

definition does :: "firmware \<Rightarrow> wchip \<Rightarrow> nmspi \<Rightarrow> bus_op list \<Rightarrow> nmspi \<Rightarrow> bool" where
  "does fw c0 s os s' \<longleftrightarrow> sync fw c0 s' \<and> done_ops fw c0 s' = done_ops fw c0 s @ os \<and>
     gu8Crc_off s' = gu8Crc_off s \<and> clk_status_reg_adr s' = clk_status_reg_adr s"

lemma does_trans: "does fw c0 s os t \<Longrightarrow> does fw c0 t os' u \<Longrightarrow> does fw c0 s (os @ os') u"
  by (simp add: does_def)

text \<open>A command, its answer and, where the chip has some, the data.\<close>

lemma command_answered:
  assumes "polite fw" "sync fw c0 s" "cmd_body cm a d n cl = Some bc" "bc \<noteq> []"
    and "cm \<in> {CMD_SINGLE_READ, CMD_INTERNAL_READ, CMD_SINGLE_WRITE, CMD_INTERNAL_WRITE, CMD_DMA_EXT_READ, CMD_DMA_EXT_WRITE}"
    and "outq (obey fw bc (chip_of fw c0 s)) = fill_echo fw os @ cm # fill_state fw os @ 0 # r"
  shows "\<exists>s1 s2. spi_cmd (answers fw c0) cm a d n cl s = (True, s1) \<and> spi_cmd_rsp (answers fw c0) cm s1 = (True, s2) \<and>
    leads fw c0 s ((obey fw bc (chip_of fw c0 s))\<lparr>outq := r\<rparr>) s2"
proof -
  obtain s1 where s1: "spi_cmd (answers fw c0) cm a d n cl s = (True, s1)" "leads fw c0 s (obey fw bc (chip_of fw c0 s)) s1"
    using command_obeys [OF assms(3,4,2)] by blast
  have q: "outq (chip_of fw c0 s1) = fill_echo fw os @ cm # fill_state fw os @ 0 # r" using leads_chip [OF s1(2)] assms(6) by simp
  obtain s2 where s2: "spi_cmd_rsp (answers fw c0) cm s1 = (True, s2)" "leads fw c0 s1 ((chip_of fw c0 s1)\<lparr>outq := r\<rparr>) s2"
    using response_read [OF assms(1,5) q] by blast
  have "leads fw c0 s ((obey fw bc (chip_of fw c0 s))\<lparr>outq := r\<rparr>) s2"
    using leads_trans [OF s1(2) s2(2)] leads_chip [OF s1(2)] by simp
  then show ?thesis using s1(1) s2(1) by blast
qed

lemma reg_read:
  assumes "polite fw" "sync fw c0 s" "a < 2 ^ 24"
  shows "\<exists>s'. spi_read_reg (answers fw c0) a s = (Some (reg_value fw (done_ops fw c0 s) a), s') \<and> does fw c0 s [ReadReg a] s'"
proof -
  define cl where "cl \<longleftrightarrow> a \<le> 0xff"
  define cm where "cm = (if cl then CMD_INTERNAL_READ else CMD_SINGLE_READ)"
  define c where "c = chip_of fw c0 s"
  define bc where "bc = (if cl then [cm, byte 1 a OR 0x80, byte 0 a, 0] else [cm, byte 2 a, byte 1 a, byte 0 a])"
  define bs where "bs = word_bytes (reg_value fw (ops c) a)"
  define p where "p = data_packet fw (\<not> cl \<and> crc_on c) bs c"
  have body: "cmd_body cm a 0 4 cl = Some bc" by (simp add: cmd_body_def bc_def cm_def Let_def)
  have ne: "bc \<noteq> []" by (simp add: bc_def)
  have k: "cm \<in> {CMD_SINGLE_READ, CMD_INTERNAL_READ, CMD_SINGLE_WRITE, CMD_INTERNAL_WRITE, CMD_DMA_EXT_READ, CMD_DMA_EXT_WRITE}"
    by (simp add: cm_def)
  have o: "obey fw bc c = reply fw cm p [ReadReg a] c"
    using clockless_bytes [of a] be3_bytes [OF assms(3)] by (simp add: obey_def bc_def cm_def Let_def cl_def p_def bs_def)
  have "outq (obey fw bc (chip_of fw c0 s)) = fill_echo fw (ops c) @ cm # fill_state fw (ops c) @ 0 # p"
    using o by (simp add: c_def reply_def)
  from command_answered [OF assms(1,2) body ne k this] obtain s1 s2 where s2: "spi_cmd (answers fw c0) cm a 0 4 cl s = (True, s1)"
    "spi_cmd_rsp (answers fw c0) cm s1 = (True, s2)" "leads fw c0 s ((obey fw bc (chip_of fw c0 s))\<lparr>outq := p\<rparr>) s2"
    by blast
  have q: "outq (chip_of fw c0 s2) = fill_data fw (ops c) @ 0xf3 # bs @ (if \<not> cl \<and> \<not> gu8Crc_off s2 then [0, 0] else [])"
    using leads_chip [OF s2(3)] s2(3) assms(2) by (simp add: p_def data_packet_def leads_def sync_def c_def)
  have l: "length bs = 4" by (simp add: bs_def word_bytes_def)
  obtain s3 where s3: "spi_data_read (answers fw c0) 4 cl s2 = (True, bs, s3)" "leads fw c0 s2 ((chip_of fw c0 s2)\<lparr>outq := []\<rparr>) s3"
    using data_read [OF assms(1) _ _ l q] by auto
  have "leads fw c0 s ((obey fw bc c)\<lparr>outq := []\<rparr>) s3"
    using leads_trans [OF s2(3) s3(2)] leads_chip [OF s2(3)] by (simp add: c_def)
  then have "does fw c0 s [ReadReg a] s3" using assms(2) by (simp add: does_def sync_def leads_def o [unfolded c_def] reply_def c_def)
  moreover have "spi_read_reg (answers fw c0) a s = (Some (reg_value fw (ops c) a), s3)"
    using s2(1,2) s3(1) by (simp add: spi_read_reg_def Let_def cl_def cm_def bs_def word_le_bytes)
  ultimately show ?thesis by (auto simp: c_def)
qed

text \<open>A write to the protocol register may change whether check bytes are used; the driver follows in \<open>nm_spi_init\<close>.\<close>

lemma reg_write:
  assumes "polite fw" "sync fw c0 s" "a < 2 ^ 24"
  shows "\<exists>s'. spi_write_reg (answers fw c0) a v s = (True, s') \<and>
    leads fw c0 s (note_write a v ((chip_of fw c0 s)\<lparr>ops := done_ops fw c0 s @ [WriteReg a v]\<rparr>)) s'"
proof -
  define cl where "cl \<longleftrightarrow> a \<le> 0x30"
  define cm where "cm = (if cl then CMD_INTERNAL_WRITE else CMD_SINGLE_WRITE)"
  define c where "c = chip_of fw c0 s"
  define vs where "vs = [byte 3 v, byte 2 v, byte 1 v, byte 0 v]"
  define bc where "bc = (if cl then [cm, byte 1 a OR 0x80, byte 0 a] else [cm, byte 2 a, byte 1 a, byte 0 a]) @ vs"
  have body: "cmd_body cm a v 4 cl = Some bc" by (simp add: cmd_body_def bc_def cm_def Let_def vs_def)
  have ne: "bc \<noteq> []" by (simp add: bc_def)
  have k: "cm \<in> {CMD_SINGLE_READ, CMD_INTERNAL_READ, CMD_SINGLE_WRITE, CMD_INTERNAL_WRITE, CMD_DMA_EXT_READ, CMD_DMA_EXT_WRITE}"
    by (simp add: cm_def)
  have le: "a \<le> 0xff" if cl using that unfolding cl_def by (rule order_trans) simp
  have np: "a \<noteq> PROTOCOL_CONFIG" if cl using that by (auto simp: cl_def)
  have o: "obey fw bc c = note_write a v (reply fw cm [] [WriteReg a v] c)"
    using clockless_bytes [of a] be3_bytes [OF assms(3)] le np
    by (auto simp: obey_def bc_def cm_def vs_def Let_def be4_bytes [simplified] note_write_def)
  have "outq (obey fw bc (chip_of fw c0 s)) = fill_echo fw (ops c) @ cm # fill_state fw (ops c) @ 0 # []"
    using o by (simp add: c_def reply_def note_write_def)
  from command_answered [OF assms(1,2) body ne k this] obtain s1 s2 where s2: "spi_cmd (answers fw c0) cm a v 4 cl s = (True, s1)"
    "spi_cmd_rsp (answers fw c0) cm s1 = (True, s2)" "leads fw c0 s ((obey fw bc (chip_of fw c0 s))\<lparr>outq := []\<rparr>) s2"
    by blast
  have e: "(obey fw bc c)\<lparr>outq := []\<rparr> = note_write a v (c\<lparr>ops := ops c @ [WriteReg a v]\<rparr>)"
    using assms(2) by (intro wchip.equality) (simp_all add: o [unfolded c_def] reply_def note_write_def c_def sync_def)
  have "spi_write_reg (answers fw c0) a v s = (True, s2)"
    using s2(1,2) by (simp add: spi_write_reg_def Let_def cl_def cm_def)
  then show ?thesis using s2(3) e by (auto simp: c_def)
qed

lemma reg_write_does:
  assumes "polite fw" "sync fw c0 s" "a < 2 ^ 24" "a \<noteq> PROTOCOL_CONFIG"
  shows "\<exists>s'. spi_write_reg (answers fw c0) a v s = (True, s') \<and> does fw c0 s [WriteReg a v] s'"
  using reg_write [OF assms(1-3), of v] assms(2,4) by (auto simp: does_def sync_def leads_def note_write_def)

lemma block_read:
  assumes "polite fw" "sync fw c0 s" "a < 2 ^ 24" "0 < n" "n \<le> DATA_PKT_SZ"
  shows "\<exists>s'. nm_spi_read (answers fw c0) a n s = (True, block fw (done_ops fw c0 s) a n, s') \<and> does fw c0 s [ReadBlock a n] s'"
proof -
  define c where "c = chip_of fw c0 s"
  define bc where "bc = [CMD_DMA_EXT_READ, byte 2 a, byte 1 a, byte 0 a, byte 2 (of_nat n), byte 1 (of_nat n), byte 0 (of_nat n)]"
  define bs where "bs = block fw (ops c) a n"
  define p where "p = data_packet fw (crc_on c) bs c"
  have body: "cmd_body CMD_DMA_EXT_READ a 0 (of_nat n) False = Some bc" by (simp add: cmd_body_def bc_def Let_def)
  have n: "unat (be3 (byte 2 (of_nat n)) (byte 1 (of_nat n)) (byte 0 (of_nat n))) = n" by (rule size_bytes) (use assms(5) in simp)
  have o: "obey fw bc c = reply fw CMD_DMA_EXT_READ p [ReadBlock a n] c"
    using n be3_bytes [OF assms(3)] by (simp add: obey_def bc_def Let_def p_def bs_def)
  have "outq (obey fw bc (chip_of fw c0 s)) = fill_echo fw (ops c) @ CMD_DMA_EXT_READ # fill_state fw (ops c) @ 0 # p"
    using o by (simp add: c_def reply_def)
  from command_answered [OF assms(1,2) body _ _ this] obtain s1 s2 where
    s2: "spi_cmd (answers fw c0) CMD_DMA_EXT_READ a 0 (of_nat n) False s = (True, s1)"
    "spi_cmd_rsp (answers fw c0) CMD_DMA_EXT_READ s1 = (True, s2)" "leads fw c0 s ((obey fw bc (chip_of fw c0 s))\<lparr>outq := p\<rparr>) s2"
    by (auto simp: bc_def)
  have q: "outq (chip_of fw c0 s2) = fill_data fw (ops c) @ 0xf3 # bs @ (if \<not> False \<and> \<not> gu8Crc_off s2 then [0, 0] else [])"
    using leads_chip [OF s2(3)] s2(3) assms(2) by (simp add: p_def data_packet_def leads_def sync_def c_def)
  have l: "length bs = n" by (simp add: bs_def block_def)
  obtain s3 where s3: "spi_data_read (answers fw c0) n False s2 = (True, bs, s3)" "leads fw c0 s2 ((chip_of fw c0 s2)\<lparr>outq := []\<rparr>) s3"
    using data_read [OF assms(1,4,5) l q] by auto
  have "leads fw c0 s ((obey fw bc c)\<lparr>outq := []\<rparr>) s3"
    using leads_trans [OF s2(3) s3(2)] leads_chip [OF s2(3)] by (simp add: c_def)
  then have "does fw c0 s [ReadBlock a n] s3" using assms(2) by (simp add: does_def sync_def leads_def o [unfolded c_def] reply_def c_def)
  moreover have "nm_spi_read (answers fw c0) a n s = (True, bs, s3)" using s2(1,2) s3(1) by (simp add: nm_spi_read_def Let_def)
  ultimately show ?thesis by (auto simp: c_def bs_def)
qed

lemma pend_ops: "c\<lparr>ops := x, pend := y\<rparr> = c\<lparr>pend := y, ops := x\<rparr>" for c :: wchip
  by simp

lemma data_write:
  assumes "pend (chip_of fw c0 s) = NeedHead a (length b)" "0 < length b" "length b \<le> DATA_PKT_SZ" "crc_on (chip_of fw c0 s) = (\<not> gu8Crc_off s)"
  shows "\<exists>s'. spi_data_write env True b s = (True, s') \<and>
    leads fw c0 s ((chip_of fw c0 s)\<lparr>pend := Idle, ops := done_ops fw c0 s @ [WriteBlock a b]\<rparr>) s'"
proof -
  define c where "c = chip_of fw c0 s"
  obtain t where t: "nmi_spi_write env [0xf3] s = (True, t)" "leads fw c0 s (c\<lparr>pend := NeedData a (length b)\<rparr>) t"
    using write_bytes [of "[0xf3]" env s fw c0] assms(1) by (auto simp: c_def)
  have "b \<noteq> []" using assms(2) by auto
  from write_bytes [OF this, of env t fw c0] obtain u where u: "nmi_spi_write env b t = (True, u)"
    "leads fw c0 t (take_bytes fw b (pend (chip_of fw c0 t)) (chip_of fw c0 t)) u" by blast
  have u2: "leads fw c0 s (c\<lparr>pend := (if crc_on c then NeedCrc else Idle), ops := ops c @ [WriteBlock a b]\<rparr>) u"
    using leads_trans [OF t(2) u(2)] leads_chip [OF t(2)] by simp
  have e: "spi_data_write env True b s =
    (let (ok3, s3) = (if gu8Crc_off u then (True, u) else nmi_spi_write env [0, 0] u) in if \<not> ok3 then (False, s3) else (True, s3))"
    using t(1) u(1) assms(3) by (simp add: spi_data_write.simps [of _ _ b] min_absorb1 packet_order_def split: prod.splits)
  show ?thesis
  proof (cases "gu8Crc_off u")
    case True
    then have "\<not> crc_on c" using u2 assms(4) by (simp add: c_def leads_def)
    then show ?thesis using e True u2 by (auto simp: c_def)
  next
    case False
    then have "crc_on c" using u2 assms(4) by (simp add: c_def leads_def)
    obtain v where v: "nmi_spi_write env [0, 0] u = (True, v)" "leads fw c0 u (take_bytes fw [0, 0] (pend (chip_of fw c0 u)) (chip_of fw c0 u)) v"
      using write_bytes [of "[0, 0]" env u fw c0] by auto
    have "leads fw c0 s (c\<lparr>pend := Idle, ops := ops c @ [WriteBlock a b]\<rparr>) v"
      using leads_trans [OF u2 v(2)] leads_chip [OF u2] \<open>crc_on c\<close> by (simp add: pend_ops)
    then show ?thesis using e False v(1) by (auto simp: c_def)
  qed
qed

lemma block_write:
  assumes "polite fw" "sync fw c0 s" "a < 2 ^ 24" "0 < length b" "length b \<le> DATA_PKT_SZ"
  shows "\<exists>s'. nm_spi_write (answers fw c0) a b s = (True, s') \<and> does fw c0 s [WriteBlock a b] s'"
proof -
  define c where "c = chip_of fw c0 s"
  define n where "n = length b"
  define bc where "bc = [CMD_DMA_EXT_WRITE, byte 2 a, byte 1 a, byte 0 a, byte 2 (of_nat n), byte 1 (of_nat n), byte 0 (of_nat n)]"
  have body: "cmd_body CMD_DMA_EXT_WRITE a 0 (of_nat n) False = Some bc" by (simp add: cmd_body_def bc_def Let_def)
  have n: "unat (be3 (byte 2 (of_nat n)) (byte 1 (of_nat n)) (byte 0 (of_nat n))) = n"
    by (rule size_bytes) (use assms(5) in \<open>simp add: n_def\<close>)
  have o: "obey fw bc c = (reply fw CMD_DMA_EXT_WRITE [] [] c)\<lparr>pend := NeedHead a n\<rparr>"
    using n be3_bytes [OF assms(3)] by (simp add: obey_def bc_def Let_def)
  have "outq (obey fw bc (chip_of fw c0 s)) = fill_echo fw (ops c) @ CMD_DMA_EXT_WRITE # fill_state fw (ops c) @ 0 # []"
    using o by (simp add: c_def reply_def)
  from command_answered [OF assms(1,2) body _ _ this] obtain s1 s2 where
    s2: "spi_cmd (answers fw c0) CMD_DMA_EXT_WRITE a 0 (of_nat n) False s = (True, s1)"
    "spi_cmd_rsp (answers fw c0) CMD_DMA_EXT_WRITE s1 = (True, s2)" "leads fw c0 s ((obey fw bc (chip_of fw c0 s))\<lparr>outq := []\<rparr>) s2"
    by (auto simp: bc_def)
  have c2: "chip_of fw c0 s2 = c\<lparr>pend := NeedHead a n\<rparr>"
    using leads_chip [OF s2(3)] o assms(2) by (simp add: reply_def c_def sync_def)
  have "gu8Crc_off s2 = gu8Crc_off s" using s2(3) by (simp add: leads_def)
  then have r: "crc_on (chip_of fw c0 s2) = (\<not> gu8Crc_off s2)" unfolding c2 using assms(2) by (simp add: sync_def c_def)
  obtain s3 where s3: "spi_data_write (answers fw c0) True b s2 = (True, s3)"
    "leads fw c0 s2 ((chip_of fw c0 s2)\<lparr>pend := Idle, ops := done_ops fw c0 s2 @ [WriteBlock a b]\<rparr>) s3"
    using data_write [OF _ assms(4,5) r] c2 by (auto simp: n_def)
  have "does fw c0 s [WriteBlock a b] s3"
    using leads_trans [OF s2(3) s3(2)] c2 assms(2) by (simp add: does_def sync_def leads_def c_def)
  moreover have "nm_spi_write (answers fw c0) a b s = (True, s3)" using s2(1,2) s3(1) by (simp add: nm_spi_write_def Let_def n_def)
  ultimately show ?thesis by blast
qed

section \<open>The bus\<close>

text \<open>The operations that cutting into transfers of at most 248 bytes makes of a block.\<close>

function read_ops :: "u32 \<Rightarrow> nat \<Rightarrow> bus_op list" where
  "read_ops a n = (if n \<le> MAX_TRX then [ReadBlock a n] else ReadBlock a MAX_TRX # read_ops (a + of_nat MAX_TRX) (n - MAX_TRX))"
  by pat_completeness auto
termination by (relation "measure snd") auto

function write_ops :: "u32 \<Rightarrow> u8 list \<Rightarrow> bus_op list" where
  "write_ops a b = (if length b \<le> MAX_TRX then [WriteBlock a b] else WriteBlock a (take MAX_TRX b) # write_ops (a + of_nat MAX_TRX) (drop MAX_TRX b))"
  by pat_completeness auto
termination by (relation "measure (\<lambda>(a, b). length b)") auto

declare read_ops.simps [simp del] write_ops.simps [simp del]

text \<open>The memory does not change because it is read.\<close>

definition quiet :: "firmware \<Rightarrow> bool" where
  "quiet fw \<longleftrightarrow> (\<forall>os a n. mem_value fw (os @ [ReadBlock a n]) = mem_value fw os)"

lemma block_append: "block fw os a (m + n) = block fw os a m @ block fw os (a + of_nat m) n"
  by (rule nth_equalityI) (auto simp: block_def nth_append add.assoc of_nat_diff)

lemma next_address:
  fixes a :: u32
  assumes "unat a + n \<le> 2 ^ 24" "m < n"
  shows "a < 2 ^ 24" "unat (a + of_nat m) = unat a + m"
proof -
  show "a < 2 ^ 24" using assms by (simp add: word_less_nat_alt)
  have "unat a + m < 2 ^ 32" using assms by simp
  then show "unat (a + of_nat m) = unat a + m" using assms by (simp add: unat_word_ariths unsigned_of_nat take_bit_nat_eq_self)
qed

lemma bus_read_block:
  assumes "polite fw" "quiet fw" "sync fw c0 s" "0 < n" "unat a + n \<le> 2 ^ 24"
  shows "\<exists>s'. nm_read_block (answers fw c0) a n s = (M2M_SUCCESS, block fw (done_ops fw c0 s) a n, s') \<and> does fw c0 s (read_ops a n) s'"
  using assms(3-)
proof (induction n arbitrary: a s rule: less_induct)
  case (less n)
  have a: "a < 2 ^ 24" using less.prems(2,3) by (simp add: word_less_nat_alt)
  show ?case
  proof (cases "n \<le> MAX_TRX")
    case True
    then show ?thesis using block_read [OF assms(1) less.prems(1) a less.prems(2)]
      by (auto simp: nm_read_block.simps [of _ _ n] read_ops.simps [of _ n] nm_spi_read_block_def bus_result_def)
  next
    case False
    obtain t where t: "nm_spi_read (answers fw c0) a MAX_TRX s = (True, block fw (done_ops fw c0 s) a MAX_TRX, t)" "does fw c0 s [ReadBlock a MAX_TRX] t"
      using block_read [OF assms(1) less.prems(1) a, of MAX_TRX] by auto
    have u: "unat (a + of_nat MAX_TRX) = unat a + MAX_TRX" using next_address(2) [OF less.prems(3), of MAX_TRX] False by simp
    obtain s' where s': "nm_read_block (answers fw c0) (a + of_nat MAX_TRX) (n - MAX_TRX) t =
        (M2M_SUCCESS, block fw (done_ops fw c0 t) (a + of_nat MAX_TRX) (n - MAX_TRX), s')" "does fw c0 t (read_ops (a + of_nat MAX_TRX) (n - MAX_TRX)) s'"
      using less.IH [of "n - MAX_TRX" t "a + of_nat MAX_TRX"] t(2) False less.prems u by (auto simp: does_def)
    have m: "block fw (done_ops fw c0 t) b k = block fw (done_ops fw c0 s) b k" for b k
      using t(2) assms(2) by (simp add: does_def quiet_def block_def)
    have "block fw (done_ops fw c0 s) a n = block fw (done_ops fw c0 s) a MAX_TRX @ block fw (done_ops fw c0 s) (a + of_nat MAX_TRX) (n - MAX_TRX)"
      using block_append [of fw "done_ops fw c0 s" a MAX_TRX "n - MAX_TRX"] False by simp
    then have "nm_read_block (answers fw c0) a n s = (M2M_SUCCESS, block fw (done_ops fw c0 s) a n, s')"
      using False t(1) s'(1) m by (simp add: nm_read_block.simps [of _ _ n] nm_spi_read_block_def bus_result_def)
    moreover have "does fw c0 s (read_ops a n) s'"
      using does_trans [OF t(2) s'(2)] False by (simp add: read_ops.simps [of _ n])
    ultimately show ?thesis by blast
  qed
qed

lemma bus_write_block:
  assumes "polite fw" "sync fw c0 s" "0 < length b" "unat a + length b \<le> 2 ^ 24"
  shows "\<exists>s'. nm_write_block (answers fw c0) a b s = (M2M_SUCCESS, s') \<and> does fw c0 s (write_ops a b) s'"
  using assms(2-)
proof (induction "length b" arbitrary: a b s rule: less_induct)
  case less
  have a: "a < 2 ^ 24" using less.prems(2,3) by (cases b) (simp_all add: word_less_nat_alt)
  show ?case
  proof (cases "length b \<le> MAX_TRX")
    case True
    then show ?thesis using block_write [OF assms(1) less.prems(1) a less.prems(2)]
      by (auto simp: nm_write_block.simps [of _ _ b] write_ops.simps [of _ b] nm_spi_write_block_def bus_result_def)
  next
    case False
    obtain t where t: "nm_spi_write (answers fw c0) a (take MAX_TRX b) s = (True, t)" "does fw c0 s [WriteBlock a (take MAX_TRX b)] t"
      using block_write [OF assms(1) less.prems(1) a, of "take MAX_TRX b"] False by auto
    have u: "unat (a + of_nat MAX_TRX) = unat a + MAX_TRX" using next_address(2) [OF less.prems(3), of MAX_TRX] False by simp
    obtain s' where s': "nm_write_block (answers fw c0) (a + of_nat MAX_TRX) (drop MAX_TRX b) t = (M2M_SUCCESS, s')"
        "does fw c0 t (write_ops (a + of_nat MAX_TRX) (drop MAX_TRX b)) s'"
      using less.hyps [of "drop MAX_TRX b" t "a + of_nat MAX_TRX"] t(2) False less.prems u by (auto simp: does_def)
    have "nm_write_block (answers fw c0) a b s = (M2M_SUCCESS, s')"
      using False t(1) s'(1) by (simp add: nm_write_block.simps [of _ _ b] nm_spi_write_block_def bus_result_def)
    moreover have "does fw c0 s (write_ops a b) s'"
      using does_trans [OF t(2) s'(2)] False by (simp add: write_ops.simps [of _ b])
    ultimately show ?thesis by blast
  qed
qed

section \<open>Start\<close>

lemma protocol_bits:
  fixes x :: u32
  shows "(x AND NOT 0xc AND NOT 0x70 OR 0x50) AND 0xc = 0" "((x AND NOT 0xc AND NOT 0x70 OR 0x50) AND NOT 0x70 OR 0x50) AND 0xc = 0"
  by (simp_all add: bit.conj_disj_distrib2 and.assoc)

lemma chip_of_crc_off [simp]: "chip_of fw c0 (s\<lparr>gu8Crc_off := b\<rparr>) = chip_of fw c0 s"
  by (simp add: chip_of_def)

lemma chip_of_sleep [simp]: "chip_of fw c0 (nm_bsp_sleep n s) = chip_of fw c0 s"
proof -
  have "fold (chip_step fw) (replicate n Tick) c = c" for c by (induction n) simp_all
  then show ?thesis by (simp add: chip_of_def nm_bsp_sleep_def)
qed

lemma reset_wakes_chip: "chip_of fw c0 (nm_bsp_reset s) = (chip_of fw c0 s)\<lparr>outq := [], pend := Idle, crc_on := True\<rparr>"
  by (simp add: nm_bsp_reset_def)

text \<open>The register keeps what is written to it.\<close>

definition keeps_protocol :: "firmware \<Rightarrow> bool" where
  "keeps_protocol fw \<longleftrightarrow> (\<forall>os v. reg_value fw (os @ [WriteReg PROTOCOL_CONFIG v, ReadReg 0x1000]) PROTOCOL_CONFIG = v)"

text \<open>The start of the protocol with a chip that waits and wants check bytes.\<close>

lemma spi_init_sync:
  assumes "polite fw" "keeps_protocol fw" "outq (chip_of fw c0 s) = []" "pend (chip_of fw c0 s) = Idle" "crc_on (chip_of fw c0 s)"
    and cfg: "cfg = reg_value fw (done_ops fw c0 s) PROTOCOL_CONFIG AND NOT 0xc AND NOT 0x70 OR 0x50"
  shows "\<exists>s'. nm_spi_init (answers fw c0) junk s = (M2M_SUCCESS, s') \<and> sync fw c0 s' \<and> gu8Crc_off s' \<and>
    done_ops fw c0 s' = done_ops fw c0 s @ [ReadReg PROTOCOL_CONFIG, WriteReg PROTOCOL_CONFIG cfg, ReadReg 0x1000,
      ReadReg PROTOCOL_CONFIG, WriteReg PROTOCOL_CONFIG (cfg AND NOT 0x70 OR 0x50)]"
proof -
  let ?os = "done_ops fw c0 s"
  let ?t = "s\<lparr>gu8Crc_off := False\<rparr>"
  have t: "sync fw c0 ?t" "done_ops fw c0 ?t = ?os" using assms(3-5) by (simp_all add: sync_def)
  obtain s1 where s1: "spi_read_reg (answers fw c0) PROTOCOL_CONFIG ?t = (Some (reg_value fw ?os PROTOCOL_CONFIG), s1)"
    "does fw c0 ?t [ReadReg PROTOCOL_CONFIG] s1"
    using reg_read [OF assms(1) t(1), of PROTOCOL_CONFIG] t(2) by auto
  have y1: "sync fw c0 s1" "done_ops fw c0 s1 = ?os @ [ReadReg PROTOCOL_CONFIG]" "\<not> gu8Crc_off s1" using s1(2) t(2) by (simp_all add: does_def)
  obtain s3 where s3: "spi_write_reg (answers fw c0) PROTOCOL_CONFIG cfg s1 = (True, s3)"
    "leads fw c0 s1 (note_write PROTOCOL_CONFIG cfg ((chip_of fw c0 s1)\<lparr>ops := done_ops fw c0 s1 @ [WriteReg PROTOCOL_CONFIG cfg]\<rparr>)) s3"
    using reg_write [OF assms(1) y1(1), of PROTOCOL_CONFIG cfg] by auto
  let ?s4 = "s3\<lparr>gu8Crc_off := True\<rparr>"
  have y4: "sync fw c0 ?s4" "done_ops fw c0 ?s4 = ?os @ [ReadReg PROTOCOL_CONFIG, WriteReg PROTOCOL_CONFIG cfg]"
    using leads_chip [OF s3(2)] y1 protocol_bits(1) by (simp_all add: sync_def note_write_def cfg)
  obtain v s5 where s5: "spi_read_reg (answers fw c0) 0x1000 ?s4 = (Some v, s5)" "does fw c0 ?s4 [ReadReg 0x1000] s5"
    using reg_read [OF assms(1) y4(1), of "0x1000"] by auto
  have y5: "sync fw c0 s5" "done_ops fw c0 s5 = ?os @ [ReadReg PROTOCOL_CONFIG, WriteReg PROTOCOL_CONFIG cfg, ReadReg 0x1000]" "gu8Crc_off s5"
    using s5(2) y4(2) by (simp_all add: does_def)
  have k: "reg_value fw (done_ops fw c0 s5) PROTOCOL_CONFIG = cfg"
    using assms(2) [unfolded keeps_protocol_def, rule_format, of "?os @ [ReadReg PROTOCOL_CONFIG]" cfg] y5(2) by simp
  obtain s6 where s6: "spi_read_reg (answers fw c0) PROTOCOL_CONFIG s5 = (Some cfg, s6)" "does fw c0 s5 [ReadReg PROTOCOL_CONFIG] s6"
    using reg_read [OF assms(1) y5(1), of PROTOCOL_CONFIG] k by auto
  have y6: "sync fw c0 s6" "gu8Crc_off s6" "done_ops fw c0 s6 = done_ops fw c0 s5 @ [ReadReg PROTOCOL_CONFIG]"
    using s6(2) y5(3) by (simp_all add: does_def)
  let ?w = "cfg AND NOT 0x70 OR 0x50"
  obtain s7 where s7: "spi_write_reg (answers fw c0) PROTOCOL_CONFIG ?w s6 = (True, s7)"
    "leads fw c0 s6 (note_write PROTOCOL_CONFIG ?w ((chip_of fw c0 s6)\<lparr>ops := done_ops fw c0 s6 @ [WriteReg PROTOCOL_CONFIG ?w]\<rparr>)) s7"
    using reg_write [OF assms(1) y6(1), of PROTOCOL_CONFIG ?w] by auto
  have y7: "sync fw c0 s7" "gu8Crc_off s7" "done_ops fw c0 s7 = done_ops fw c0 s6 @ [WriteReg PROTOCOL_CONFIG ?w]"
    using leads_chip [OF s7(2)] s7(2) y6 protocol_bits(2) by (simp_all add: sync_def note_write_def cfg leads_def)
  have "nm_spi_init (answers fw c0) junk s = (M2M_SUCCESS, s7)"
    using s1(1) s3(1) s5(1) s6(1) s7(1) y1(3)
    by (simp add: nm_spi_init_def spi_init_pkt_sz_def nm_spi_read_reg_def nm_spi_write_reg_def Let_def cfg)
  then show ?thesis using y7 y6(3) y5(2) by simp
qed

text \<open>
  The start of the bus: after the reset of the chip by its pins, whatever state it was in, and the start of the protocol, check bytes are off on both
  sides, the packets have 8 kilobytes, and driver and chip wait for each other. Until then every command has carried a check byte the chip accepted.
\<close>

lemma bus_starts:
  assumes "polite fw" "keeps_protocol fw" "nm_bus_init 0 s0 = Some (r, s)"
    and cfg: "cfg = reg_value fw (done_ops fw c0 s0) PROTOCOL_CONFIG AND NOT 0xc AND NOT 0x70 OR 0x50"
  shows "r = M2M_SUCCESS \<and> (\<exists>s'. nm_spi_init (answers fw c0) junk s = (M2M_SUCCESS, s') \<and> sync fw c0 s' \<and> gu8Crc_off s' \<and>
    done_ops fw c0 s' = done_ops fw c0 s0 @ [ReadReg PROTOCOL_CONFIG, WriteReg PROTOCOL_CONFIG cfg, ReadReg 0x1000,
      ReadReg PROTOCOL_CONFIG, WriteReg PROTOCOL_CONFIG (cfg AND NOT 0x70 OR 0x50)])"
proof -
  have r: "r = M2M_SUCCESS" and s: "chip_of fw c0 s = (chip_of fw c0 s0)\<lparr>outq := [], pend := Idle, crc_on := True\<rparr>"
    using assms(3) by (auto simp: nm_bus_init_def reset_wakes_chip)
  have "outq (chip_of fw c0 s) = []" "pend (chip_of fw c0 s) = Idle" "crc_on (chip_of fw c0 s)" "done_ops fw c0 s = done_ops fw c0 s0"
    by (simp_all add: s)
  then show ?thesis using r spi_init_sync [OF assms(1,2), of c0 s cfg junk] cfg by simp
qed

text \<open>A firmware whose registers keep what is written, behind a few fillers, and a chip in some state.\<close>

definition written :: "u32 \<Rightarrow> bus_op list \<Rightarrow> u32" where
  "written a os = foldl (\<lambda>v e. case e of WriteReg b w \<Rightarrow> if b = a then w else v | _ \<Rightarrow> v) 0x7c os"

definition demo_fw :: firmware where
  "demo_fw = \<lparr>reg_value = (\<lambda>os a. written a os), mem_value = (\<lambda>os a. ucast a + 1),
     fill_echo = (\<lambda>os. [0, 0x55]), fill_state = (\<lambda>os. [1]), fill_data = (\<lambda>os. [0x10, 0x20])\<rparr>"

definition demo_chip :: wchip where
  "demo_chip = \<lparr>ops = [], outq = [1, 2, 3], pend = NeedCrc, crc_on = False\<rparr>"

definition demo_spi :: nmspi where
  "demo_spi = \<lparr>slog = [], gu8Crc_off = True, clk_status_reg_adr = 0xf\<rparr>"

lemma demo_firmware: "polite demo_fw" "quiet demo_fw" "keeps_protocol demo_fw"
  by (simp_all add: polite_def quiet_def keeps_protocol_def demo_fw_def written_def)

lemma bus_starts_witness:
  "\<exists>s s'. nm_bus_init 0 demo_spi = Some (M2M_SUCCESS, s) \<and> nm_spi_init (answers demo_fw demo_chip) 5 s = (M2M_SUCCESS, s') \<and>
     sync demo_fw demo_chip s' \<and> gu8Crc_off s'"
proof -
  obtain s where s: "nm_bus_init 0 demo_spi = Some (M2M_SUCCESS, s)" by (simp add: nm_bus_init_def)
  show ?thesis using bus_starts [OF demo_firmware(1,3) s refl, of demo_chip 5] s by auto
qed

text \<open>
  C17: Once started, the functions of nmbus.c are operations on the chip's registers and memory, with or without check bytes and whatever fillers the chip sends
  within the limits of the retries: a register is read or written once, a block is read or written in order in transfers of at most 248 bytes, the bytes
  arrive unchanged, the result is success, and driver and chip are ready for the next call.
\<close>

theorem bus_refines:
  assumes "polite fw" "quiet fw" "sync fw c0 s" "a < 2 ^ 24"
  shows "(\<exists>s'. nm_spi_read_reg_with_ret (answers fw c0) a s = (M2M_SUCCESS, Some (reg_value fw (done_ops fw c0 s) a), s') \<and> does fw c0 s [ReadReg a] s') \<and>
    (a \<noteq> PROTOCOL_CONFIG \<longrightarrow> (\<exists>s'. nm_spi_write_reg (answers fw c0) a v s = (M2M_SUCCESS, s') \<and> does fw c0 s [WriteReg a v] s')) \<and>
    (0 < n \<and> unat a + n \<le> 2 ^ 24 \<longrightarrow> (\<exists>s'. nm_read_block (answers fw c0) a n s = (M2M_SUCCESS, block fw (done_ops fw c0 s) a n, s') \<and>
       does fw c0 s (read_ops a n) s')) \<and>
    (b \<noteq> [] \<and> unat a + length b \<le> 2 ^ 24 \<longrightarrow> (\<exists>s'. nm_write_block (answers fw c0) a b s = (M2M_SUCCESS, s') \<and> does fw c0 s (write_ops a b) s'))"
  using reg_read [OF assms(1,3,4)] reg_write_does [OF assms(1,3,4), of v] bus_read_block [OF assms(1-3), of n a] bus_write_block [OF assms(1,3), of b a]
  by (auto simp: nm_spi_read_reg_with_ret_def nm_spi_write_reg_def bus_result_def)

lemma bus_refines_witness:
  "\<exists>s' t'. nm_spi_read_reg_with_ret (answers demo_fw (demo_chip\<lparr>outq := [], pend := Idle\<rparr>)) 0x1070 demo_spi = (M2M_SUCCESS, Some 0x7c, s') \<and>
     nm_read_block (answers demo_fw (demo_chip\<lparr>outq := [], pend := Idle\<rparr>)) 0x30000 300 demo_spi =
       (M2M_SUCCESS, map (\<lambda>i. ucast (0x30000 + of_nat i :: u32) + 1) [0..<300], t') \<and>
     done_ops demo_fw (demo_chip\<lparr>outq := [], pend := Idle\<rparr>) t' = [ReadBlock 0x30000 248, ReadBlock 0x300f8 52]"
proof -
  let ?c = "demo_chip\<lparr>outq := [], pend := Idle\<rparr>"
  have y: "sync demo_fw ?c demo_spi" "done_ops demo_fw ?c demo_spi = []"
    by (simp_all add: sync_def chip_of_def demo_spi_def demo_chip_def)
  have o: "read_ops 0x30000 300 = [ReadBlock 0x30000 248, ReadBlock 0x300f8 52]"
    by (simp add: read_ops.simps [of _ 300] read_ops.simps [of _ 52])
  have b: "block demo_fw [] 0x30000 300 = map (\<lambda>i. ucast (0x30000 + of_nat i :: u32) + 1) [0..<300]"
    by (simp add: block_def demo_fw_def)
  have r: "reg_value demo_fw [] 0x1070 = 0x7c" by (simp add: demo_fw_def written_def)
  from bus_refines [OF demo_firmware(1,2) y(1), of "0x1070" 0 0 "[]"] bus_refines [OF demo_firmware(1,2) y(1), of "0x30000" 0 300 "[]"]
  show ?thesis unfolding does_def y(2) o b r by auto
qed

end
