(* ===== verification/Hif.thy ===== *)
theory Hif
  imports Winc_Chip
begin

text \<open>
  m2m_hif.c: the host interface, by which host and WiFi chip exchange messages through the chip's registers and memory. The bus below it is the
  interface of nmbus.c, chosen in C by a macro, and here a record of its functions; \<open>spi_bus\<close> is the one the firmware uses. The callbacks are clients: the
  state holds which one is registered for a group, and what a client does is a parameter. Log output and the interrupt control, whose body is commented out, are left out.
\<close>

section \<open>The bus and the state\<close>

record 's bus =
  nm_read_reg_with_ret :: "u32 \<Rightarrow> 's \<Rightarrow> int \<times> u32 option \<times> 's"
  nm_write_reg :: "u32 \<Rightarrow> u32 \<Rightarrow> 's \<Rightarrow> int \<times> 's"
  read_block :: "u32 \<Rightarrow> nat \<Rightarrow> 's \<Rightarrow> int \<times> u8 list \<times> 's"
  write_block :: "u32 \<Rightarrow> u8 list \<Rightarrow> 's \<Rightarrow> int \<times> 's"
  clkless_wake :: "'s \<Rightarrow> (int \<times> 's) option"

definition spi_bus :: "wenv \<Rightarrow> u32 \<Rightarrow> nmspi bus" where
  "spi_bus env junk = \<lparr>nm_read_reg_with_ret = nm_spi_read_reg_with_ret env, nm_write_reg = nm_spi_write_reg env,
     read_block = nm_read_block env, write_block = nm_write_block env, clkless_wake = nm_clkless_wake env junk\<rparr>"

abbreviation "WIFI_HOST_RCV_CTRL_0 \<equiv> (0x1070 :: u32)"
abbreviation "WIFI_HOST_RCV_CTRL_1 \<equiv> (0x1084 :: u32)"
abbreviation "WIFI_HOST_RCV_CTRL_2 \<equiv> (0x1078 :: u32)"
abbreviation "WIFI_HOST_RCV_CTRL_3 \<equiv> (0x106c :: u32)"
abbreviation "NMI_STATE_REG \<equiv> (0x108c :: u32)"
abbreviation "WAKE_REG \<equiv> (0x1074 :: u32)"
abbreviation "M2M_HIF_HDR_OFFSET \<equiv> (8 :: nat)"

abbreviation "M2M_PS_DEEP_AUTOMATIC \<equiv> (3 :: u8)"
abbreviation "M2M_PS_MANUAL \<equiv> (4 :: u8)"

text \<open>The callbacks by group; the numbers name the functions that were registered.\<close>

record 's hif =
  bus_st :: 's
  gu8ChipMode :: u8
  gu8ChipSleep :: u8
  gu8HifSizeDone :: bool
  gu8Interrupt :: u8
  callback :: "u8 \<Rightarrow> nat option"

abbreviation "GROUP_WIFI \<equiv> (1 :: u8)"
abbreviation "GROUP_IP \<equiv> (2 :: u8)"
abbreviation "GROUP_HIF \<equiv> (3 :: u8)"
abbreviation "GROUP_OTA \<equiv> (4 :: u8)"
abbreviation "GROUP_CRYPTO \<equiv> (6 :: u8)"
abbreviation "GROUP_SIGMA \<equiv> (7 :: u8)"

definition rd :: "'s bus \<Rightarrow> u32 \<Rightarrow> ('s, 'm) hif_scheme \<Rightarrow> int \<times> u32 option \<times> ('s, 'm) hif_scheme" where
  "rd B a s = (case nm_read_reg_with_ret B a (bus_st s) of (r, v, t) \<Rightarrow> (r, v, s\<lparr>bus_st := t\<rparr>))"

definition wr :: "'s bus \<Rightarrow> u32 \<Rightarrow> u32 \<Rightarrow> ('s, 'm) hif_scheme \<Rightarrow> int \<times> ('s, 'm) hif_scheme" where
  "wr B a v s = (case nm_write_reg B a v (bus_st s) of (r, t) \<Rightarrow> (r, s\<lparr>bus_st := t\<rparr>))"

definition rdb :: "'s bus \<Rightarrow> u32 \<Rightarrow> nat \<Rightarrow> ('s, 'm) hif_scheme \<Rightarrow> int \<times> u8 list \<times> ('s, 'm) hif_scheme" where
  "rdb B a n s = (case read_block B a n (bus_st s) of (r, bs, t) \<Rightarrow> (r, bs, s\<lparr>bus_st := t\<rparr>))"

definition wrb :: "'s bus \<Rightarrow> u32 \<Rightarrow> u8 list \<Rightarrow> ('s, 'm) hif_scheme \<Rightarrow> int \<times> ('s, 'm) hif_scheme" where
  "wrb B a b s = (case write_block B a b (bus_st s) of (r, t) \<Rightarrow> (r, s\<lparr>bus_st := t\<rparr>))"

section \<open>Waking and sleeping\<close>

definition deep :: "('s, 'm) hif_scheme \<Rightarrow> bool" where
  "deep s \<longleftrightarrow> gu8ChipMode s = M2M_PS_DEEP_AUTOMATIC \<or> gu8ChipMode s = M2M_PS_MANUAL"

definition hif_chip_wake :: "'s bus \<Rightarrow> ('s, 'm) hif_scheme \<Rightarrow> (int \<times> ('s, 'm) hif_scheme) option" where
  "hif_chip_wake B s =
     (if gu8ChipSleep s = 0 \<and> deep s then
        (case clkless_wake B (bus_st s) of
           None \<Rightarrow> None
         | Some (r, t) \<Rightarrow>
             let s1 = s\<lparr>bus_st := t\<rparr>
             in if r \<noteq> M2M_SUCCESS then Some (r, s1)
                else let (r2, s2) = wr B WAKE_REG 0x5678 s1
                     in if r2 \<noteq> M2M_SUCCESS then Some (r2, s2) else Some (r2, s2\<lparr>gu8ChipSleep := gu8ChipSleep s2 + 1\<rparr>))
      else Some (M2M_SUCCESS, s\<lparr>gu8ChipSleep := gu8ChipSleep s + 1\<rparr>))"

definition hif_chip_sleep :: "'s bus \<Rightarrow> ('s, 'm) hif_scheme \<Rightarrow> int \<times> ('s, 'm) hif_scheme" where
  "hif_chip_sleep B s0 =
     (let s = (if 1 \<le> gu8ChipSleep s0 then s0\<lparr>gu8ChipSleep := gu8ChipSleep s0 - 1\<rparr> else s0)
      in if gu8ChipSleep s = 0 \<and> deep s then
           let (r1, s1) = wr B WAKE_REG 0x4321 s
           in if r1 \<noteq> M2M_SUCCESS then (r1, s1)
              else case rd B 1 s1 of (r2, v, s2) \<Rightarrow>
                if r2 \<noteq> M2M_SUCCESS then (r2, s2)
                else (case v of
                        Some reg \<Rightarrow> if reg AND 2 \<noteq> 0 then wr B 1 (reg AND NOT 2) s2 else (r2, s2)
                      | None \<Rightarrow> (r2, s2))
         else (M2M_SUCCESS, s))"

definition hif_set_sleep_mode :: "u8 \<Rightarrow> ('s, 'm) hif_scheme \<Rightarrow> ('s, 'm) hif_scheme" where
  "hif_set_sleep_mode m s = s\<lparr>gu8ChipMode := m\<rparr>"

definition hif_get_sleep_mode :: "('s, 'm) hif_scheme \<Rightarrow> u8" where
  "hif_get_sleep_mode s = gu8ChipMode s"

section \<open>Start and callbacks\<close>

definition hif_register_cb :: "u8 \<Rightarrow> nat option \<Rightarrow> ('s, 'm) hif_scheme \<Rightarrow> int \<times> ('s, 'm) hif_scheme" where
  "hif_register_cb g f s =
     (if g \<in> {GROUP_IP, GROUP_WIFI, GROUP_OTA, GROUP_HIF, GROUP_CRYPTO, GROUP_SIGMA} then (M2M_SUCCESS, s\<lparr>callback := (callback s)(g := f)\<rparr>)
      else (M2M_ERR_FAIL, s))"

text \<open>The function \<open>m2m_hif_cb\<close>, which does nothing, has the number 0.\<close>

definition hif_init :: "('s, 'm) hif_scheme \<Rightarrow> int \<times> ('s, 'm) hif_scheme" where
  "hif_init s =
     (let s1 = s\<lparr>callback := (callback s)(GROUP_WIFI := None, GROUP_IP := None), gu8ChipSleep := 0, gu8ChipMode := 0, gu8Interrupt := 0\<rparr>
      in (M2M_SUCCESS, snd (hif_register_cb GROUP_HIF (Some 0) s1)))"

definition hif_deinit :: "'s bus \<Rightarrow> ('s, 'm) hif_scheme \<Rightarrow> (int \<times> ('s, 'm) hif_scheme) option" where
  "hif_deinit B s =
     (case hif_chip_wake B s of
        None \<Rightarrow> None
      | Some (r, s1) \<Rightarrow> Some (r, s1\<lparr>gu8ChipMode := 0, gu8ChipSleep := 0, gu8HifSizeDone := False, gu8Interrupt := 0,
          callback := (callback s1)(GROUP_WIFI := None, GROUP_IP := None, GROUP_OTA := None, GROUP_HIF := None)\<rparr>))"

definition isr :: "('s, 'm) hif_scheme \<Rightarrow> ('s, 'm) hif_scheme" where
  "isr s = s\<lparr>gu8Interrupt := gu8Interrupt s + 1\<rparr>"

section \<open>Sending\<close>

text \<open>
  Waiting for the chip to give a place in its memory: the address, or 0. The counter \<open>n\<close> is the number of polls left.
\<close>

fun dma_loop :: "'s bus \<Rightarrow> nat \<Rightarrow> ('s, 'm) hif_scheme \<Rightarrow> u32 \<times> ('s, 'm) hif_scheme" where
  "dma_loop B 0 s = (0, s)"
| "dma_loop B (Suc n) s =
     (case rd B WIFI_HOST_RCV_CTRL_2 s of (r, v, s1) \<Rightarrow>
        (case v of
           Some reg \<Rightarrow>
             if r \<noteq> M2M_SUCCESS then (0, s1)
             else if reg AND 2 = 0 then
               (case rd B 0x150400 s1 of (r2, d, s2) \<Rightarrow> (if r2 \<noteq> M2M_SUCCESS then 0 else case d of Some a \<Rightarrow> a | None \<Rightarrow> 0, s2))
             else dma_loop B n s1
         | None \<Rightarrow> (0, s1)))"

text \<open>The header has four bytes; the eight that are written reach into what lies \<open>behind\<close> it on the stack.\<close>

definition hif_header :: "u8 \<Rightarrow> u8 \<Rightarrow> u16 \<Rightarrow> u8 list \<Rightarrow> u8 list" where
  "hif_header gid opcode len behind = [gid, opcode AND NOT 0x80, ucast len, ucast (drop_bit 8 len)] @ take 4 behind"

definition send_length :: "u8 list option \<Rightarrow> u8 list option \<Rightarrow> u16 \<Rightarrow> u16" where
  "send_length ctrl data off =
     (case data of Some d \<Rightarrow> 8 + off + of_nat (length d) | None \<Rightarrow> 8 + (case ctrl of None \<Rightarrow> 0 | Some c \<Rightarrow> of_nat (length c)))"

text \<open>Header, control buffer and data into the chip's memory, then the request.\<close>

definition write_parts :: "'s bus \<Rightarrow> u32 \<Rightarrow> u8 list \<Rightarrow> u8 list option \<Rightarrow> u8 list option \<Rightarrow> u16 \<Rightarrow> ('s, 'm) hif_scheme \<Rightarrow> int \<times> ('s, 'm) hif_scheme" where
  "write_parts B dma hdr ctrl data off s =
     (let csize = (case ctrl of None \<Rightarrow> 0 | Some c \<Rightarrow> length c); a1 = dma + of_nat M2M_HIF_HDR_OFFSET; (r1, s1) = wrb B dma hdr s
      in if r1 \<noteq> M2M_SUCCESS then (r1, s1)
         else let (r2, s2) = (case ctrl of None \<Rightarrow> (M2M_SUCCESS, s1) | Some c \<Rightarrow> wrb B a1 c s1);
                  a2 = a1 + of_nat csize + (ucast off - of_nat csize)
              in if r2 \<noteq> M2M_SUCCESS then (r2, s2)
                 else let (r3, s3) = (case data of None \<Rightarrow> (M2M_SUCCESS, s2) | Some d \<Rightarrow> wrb B a2 d s2)
                      in if r3 \<noteq> M2M_SUCCESS then (r3, s3) else wr B WIFI_HOST_RCV_CTRL_3 (push_bit 2 dma OR 2) s3)"

definition hif_send ::
  "'s bus \<Rightarrow> u8 list \<Rightarrow> u8 \<Rightarrow> u8 \<Rightarrow> u8 list option \<Rightarrow> u8 list option \<Rightarrow> u16 \<Rightarrow> ('s, 'm) hif_scheme \<Rightarrow> (int \<times> ('s, 'm) hif_scheme) option" where
  "hif_send B behind gid opcode ctrl data off s =
     (let len = send_length ctrl data off in
      case hif_chip_wake B s of
        None \<Rightarrow> None
      | Some (r0, s0) \<Rightarrow>
          if r0 \<noteq> M2M_SUCCESS then Some (r0, s0)
          else let (r1, s1) = wr B NMI_STATE_REG (ucast gid OR push_bit 8 (ucast opcode) OR push_bit 16 (ucast len)) s0
               in if r1 \<noteq> M2M_SUCCESS then Some (r1, s1)
                  else let (r2, s2) = wr B WIFI_HOST_RCV_CTRL_2 2 s1
                       in if r2 \<noteq> M2M_SUCCESS then Some (r2, s2)
                          else let (dma, s3) = dma_loop B 1000 s2
                               in if dma = 0 then Some (M2M_ERR_MEM_ALLOC, s3)
                                  else Some (write_parts B dma (hif_header gid opcode len behind) ctrl data off s3))"

section \<open>Receiving\<close>

definition hif_set_rx_done :: "'s bus \<Rightarrow> ('s, 'm) hif_scheme \<Rightarrow> int \<times> ('s, 'm) hif_scheme" where
  "hif_set_rx_done B s =
     (case rd B WIFI_HOST_RCV_CTRL_0 s of (r, v, s1) \<Rightarrow>
        (case v of Some reg \<Rightarrow> if r \<noteq> M2M_SUCCESS then (r, s1) else wr B WIFI_HOST_RCV_CTRL_0 (reg OR 2) s1 | None \<Rightarrow> (r, s1)))"

definition reg_size :: "u32 \<Rightarrow> u16" where
  "reg_size reg = ucast (drop_bit 2 reg AND 0xfff)"

text \<open>The bytes that were put in the buffer come with the result.\<close>

definition hif_receive :: "'s bus \<Rightarrow> u32 \<Rightarrow> bool \<Rightarrow> u16 \<Rightarrow> bool \<Rightarrow> ('s, 'm) hif_scheme \<Rightarrow> int \<times> u8 list \<times> ('s, 'm) hif_scheme" where
  "hif_receive B addr null sz isDone s =
     (if addr = 0 \<or> null \<or> sz = 0 then
        if isDone then let (r, s1) = hif_set_rx_done B (s\<lparr>gu8HifSizeDone := True\<rparr>) in (r, [], s1) else (M2M_ERR_FAIL, [], s)
      else case rd B WIFI_HOST_RCV_CTRL_0 s of (r1, v1, s1) \<Rightarrow>
        case v1 of
          None \<Rightarrow> (r1, [], s1)
        | Some reg \<Rightarrow>
            if r1 \<noteq> M2M_SUCCESS then (r1, [], s1)
            else case rd B WIFI_HOST_RCV_CTRL_1 s1 of (r2, v2, s2) \<Rightarrow>
              case v2 of
                None \<Rightarrow> (r2, [], s2)
              | Some address \<Rightarrow>
                  let sze = reg_size reg
                  in if r2 \<noteq> M2M_SUCCESS then (r2, [], s2)
                     else if sze < sz then (M2M_ERR_FAIL, [], s2)
                     else if addr < address \<or> address + ucast sze < addr + ucast sz then (M2M_ERR_FAIL, [], s2)
                     else case rdb B addr (unat sz) s2 of (r3, bs, s3) \<Rightarrow>
                       if r3 \<noteq> M2M_SUCCESS then (r3, bs, s3)
                       else if address + ucast sze - (addr + ucast sz) = 0 \<or> isDone
                         then let (r4, s4) = hif_set_rx_done B (s3\<lparr>gu8HifSizeDone := True\<rparr>) in (r4, bs, s4)
                         else (r3, bs, s3))"

section \<open>The interrupt\<close>

type_synonym ('s, 'm) client = "nat \<Rightarrow> u8 \<Rightarrow> u16 \<Rightarrow> u32 \<Rightarrow> ('s, 'm) hif_scheme \<Rightarrow> ('s, 'm) hif_scheme res"

text \<open>The callback of a group that is one of the five, called if there is one; another group is an error.\<close>

definition dispatch :: "('s, 'm) client \<Rightarrow> u8 \<Rightarrow> u8 \<Rightarrow> u16 \<Rightarrow> u32 \<Rightarrow> ('s, 'm) hif_scheme \<Rightarrow> (bool \<times> ('s, 'm) hif_scheme) res" where
  "dispatch cl gid opcode len address s =
     (if gid \<in> {GROUP_WIFI, GROUP_IP, GROUP_OTA, GROUP_CRYPTO, GROUP_SIGMA} then
        (case callback s gid of
           None \<Rightarrow> Inr (True, s)
         | Some f \<Rightarrow> res_bind (cl f opcode (len - 8) (address + 8) s) (\<lambda>s1. Inr (True, s1)))
      else Inr (False, s))"

text \<open>The message behind an interrupt of the given size: its header is read and the callback called.\<close>

definition handle_message :: "'s bus \<Rightarrow> ('s, 'm) client \<Rightarrow> u16 \<Rightarrow> ('s, 'm) hif_scheme \<Rightarrow> (int \<times> ('s, 'm) hif_scheme) res" where
  "handle_message B cl sze s =
     (case rd B WIFI_HOST_RCV_CTRL_1 s of (r1, v1, s1) \<Rightarrow>
        (case v1 of
           None \<Rightarrow> Inr (r1, s1)
         | Some address \<Rightarrow>
             if r1 \<noteq> M2M_SUCCESS then Inr (r1, s1)
             else case rdb B address 4 s1 of (r2, h, s2) \<Rightarrow>
               if r2 \<noteq> M2M_SUCCESS then Inr (r2, s2)
               else let len = ucast (h ! 2) OR push_bit 8 (ucast (h ! 3)) :: u16
                    in if len \<noteq> sze \<and> 4 < int (unat sze) - int (unat len) then Inr (M2M_ERR_BUS_FAIL, s2)
                       else res_bind (dispatch cl (h ! 0) (h ! 1) len address s2) (\<lambda>(ok, s3).
                         if \<not> ok then Inr (M2M_ERR_BUS_FAIL, s3)
                         else if \<not> gu8HifSizeDone s3 then Inr (hif_set_rx_done B s3) else Inr (M2M_SUCCESS, s3))))"

text \<open>With the result comes the size; \<open>None\<close> when the chip does not wake.\<close>

definition hif_isr :: "'s bus \<Rightarrow> ('s, 'm) client \<Rightarrow> ('s, 'm) hif_scheme \<Rightarrow> (int \<times> u16 \<times> ('s, 'm) hif_scheme) res option" where
  "hif_isr B cl s =
     (case hif_chip_wake B s of
        None \<Rightarrow> None
      | Some (r0, s0) \<Rightarrow>
          Some (if r0 \<noteq> M2M_SUCCESS then Inr (r0, 0, s0)
                else case rd B WIFI_HOST_RCV_CTRL_0 s0 of (r1, v1, s1) \<Rightarrow>
                  case v1 of
                    None \<Rightarrow> Inr (r1, 0, s1)
                  | Some reg \<Rightarrow>
                      if r1 \<noteq> M2M_SUCCESS then Inr (r1, 0, s1)
                      else if reg AND 1 = 0 then Inr (M2M_SUCCESS, 0, s1)
                      else let reg1 = reg AND NOT 1; (r2, s2) = wr B WIFI_HOST_RCV_CTRL_0 reg1 s1
                           in if r2 \<noteq> M2M_SUCCESS then Inr (r2, 0, s2)
                              else let s3 = s2\<lparr>gu8HifSizeDone := False\<rparr>; sze = reg_size reg1
                                   in if sze = 0 then Inr (M2M_ERR_RCV, 0, s3)
                                      else res_bind (handle_message B cl sze s3) (\<lambda>(r, t). Inr (r, sze, t))))"

text \<open>\<open>hif_handle_isr\<close>: every counted interrupt is handled until that succeeds.\<close>

partial_function (option) isr_retry :: "'s bus \<Rightarrow> ('s, 'm) client \<Rightarrow> ('s, 'm) hif_scheme \<Rightarrow> ('s, 'm) hif_scheme res option" where
  "isr_retry B cl s =
     (case hif_isr B cl s of
        None \<Rightarrow> None
      | Some x \<Rightarrow> (case x of Inl e \<Rightarrow> Some (Inl e) | Inr (r, sz, t) \<Rightarrow> if r = M2M_SUCCESS then Some (Inr t) else isr_retry B cl t))"

partial_function (option) hif_handle_isr :: "'s bus \<Rightarrow> ('s, 'm) client \<Rightarrow> ('s, 'm) hif_scheme \<Rightarrow> ('s, 'm) hif_scheme res option" where
  "hif_handle_isr B cl s =
     (if gu8Interrupt s = 0 then Some (Inr s)
      else case isr_retry B cl (s\<lparr>gu8Interrupt := gu8Interrupt s - 1\<rparr>) of
             None \<Rightarrow> None
           | Some x \<Rightarrow> (case x of Inl e \<Rightarrow> Some (Inl e) | Inr t \<Rightarrow> hif_handle_isr B cl t))"

section \<open>The contract of the bus\<close>

text \<open>
  What the host interface relies on: in a ready state every operation below 16 MB succeeds, leaves a ready state, and what is read is what the chip shows at that time.
\<close>

locale host_bus =
  fixes B :: "'s bus" and ready :: "'s \<Rightarrow> bool" and dn :: "'s \<Rightarrow> bus_op list"
    and reg :: "bus_op list \<Rightarrow> u32 \<Rightarrow> u32" and mem :: "bus_op list \<Rightarrow> u32 \<Rightarrow> nat \<Rightarrow> u8 list"
  assumes read_law: "ready s \<Longrightarrow> a < 2 ^ 24 \<Longrightarrow>
      \<exists>t. nm_read_reg_with_ret B a s = (M2M_SUCCESS, Some (reg (dn s) a), t) \<and> ready t \<and> dn t = dn s @ [ReadReg a]"
    and write_law: "ready s \<Longrightarrow> a < 2 ^ 24 \<Longrightarrow> a \<noteq> PROTOCOL_CONFIG \<Longrightarrow>
      \<exists>t. nm_write_reg B a v s = (M2M_SUCCESS, t) \<and> ready t \<and> dn t = dn s @ [WriteReg a v]"
    and read_block_law: "ready s \<Longrightarrow> 0 < n \<Longrightarrow> unat a + n \<le> 2 ^ 24 \<Longrightarrow>
      \<exists>t. read_block B a n s = (M2M_SUCCESS, mem (dn s) a n, t) \<and> ready t \<and> dn t = dn s @ read_ops a n"
    and write_block_law: "ready s \<Longrightarrow> b \<noteq> [] \<Longrightarrow> unat a + length b \<le> 2 ^ 24 \<Longrightarrow>
      \<exists>t. write_block B a b s = (M2M_SUCCESS, t) \<and> ready t \<and> dn t = dn s @ write_ops a b"

lemma below_16M: "unat a + n \<le> 2 ^ 24 \<Longrightarrow> 0 < n \<Longrightarrow> (a :: u32) < 2 ^ 24"
  by (simp add: word_less_nat_alt)

interpretation winc_spi: host_bus "spi_bus (answers fw c0) junk" "\<lambda>s. polite fw \<and> quiet fw \<and> sync fw c0 s" "done_ops fw c0"
  "reg_value fw" "block fw" for fw c0 junk
proof (unfold_locales, goal_cases)
  case (1 s a)
  then show ?case using reg_read [of fw c0 s a] by (auto simp: spi_bus_def nm_spi_read_reg_with_ret_def bus_result_def does_def)
next
  case (2 s a v)
  then show ?case using reg_write_does [of fw c0 s a v] by (auto simp: spi_bus_def nm_spi_write_reg_def bus_result_def does_def)
next
  case (3 s n a)
  then show ?case using bus_read_block [of fw c0 s n a] by (auto simp: spi_bus_def does_def)
next
  case (4 s b a)
  then show ?case using bus_write_block [of fw c0 s b a] by (auto simp: spi_bus_def does_def)
qed

text \<open>
  From \<open>s\<close> to \<open>t\<close> the bus has moved by the operations \<open>os\<close>, and of the rest of the state at most the flag \<open>gu8HifSizeDone\<close> has changed, or not even that.
\<close>

definition took :: "('s \<Rightarrow> bool) \<Rightarrow> ('s \<Rightarrow> bus_op list) \<Rightarrow> ('s, 'm) hif_scheme \<Rightarrow> bus_op list \<Rightarrow> ('s, 'm) hif_scheme \<Rightarrow> bool" where
  "took ready dn s os t \<longleftrightarrow> ready (bus_st t) \<and> dn (bus_st t) = dn (bus_st s) @ os \<and> gu8ChipMode t = gu8ChipMode s \<and>
     gu8ChipSleep t = gu8ChipSleep s \<and> gu8Interrupt t = gu8Interrupt s \<and> callback t = callback s \<and> hif.more t = hif.more s"

definition moved :: "('s \<Rightarrow> bool) \<Rightarrow> ('s \<Rightarrow> bus_op list) \<Rightarrow> ('s, 'm) hif_scheme \<Rightarrow> bus_op list \<Rightarrow> ('s, 'm) hif_scheme \<Rightarrow> bool" where
  "moved ready dn s os t \<longleftrightarrow> took ready dn s os t \<and> gu8HifSizeDone t = gu8HifSizeDone s"

lemma took_trans: "took ready dn s os t \<Longrightarrow> took ready dn t os' u \<Longrightarrow> took ready dn s (os @ os') u"
  by (simp add: took_def)

lemma moved_trans: "moved ready dn s os t \<Longrightarrow> moved ready dn t os' u \<Longrightarrow> moved ready dn s (os @ os') u"
  by (auto simp: moved_def intro: took_trans)

lemma moved_took: "moved ready dn s os t \<Longrightarrow> took ready dn s os t" and moved_flag: "moved ready dn s os t \<Longrightarrow> gu8HifSizeDone t = gu8HifSizeDone s"
  by (simp_all add: moved_def)

lemma took_set_flag: "took ready dn s os t \<Longrightarrow> took ready dn s os (t\<lparr>gu8HifSizeDone := b\<rparr>)"
  by (simp add: took_def)

text \<open>What the chip offers: a message at an address, with its size in the register, until the host says that it has taken it.\<close>

definition still :: "bus_op list \<Rightarrow> bool" where
  "still os \<longleftrightarrow> (\<forall>v. WriteReg WIFI_HOST_RCV_CTRL_0 v \<in> set os \<longrightarrow> v AND 2 = 0)"

definition offers ::
  "(bus_op list \<Rightarrow> u32 \<Rightarrow> u32) \<Rightarrow> (bus_op list \<Rightarrow> u32 \<Rightarrow> nat \<Rightarrow> u8 list) \<Rightarrow> bus_op list \<Rightarrow> u32 \<Rightarrow> u8 list \<Rightarrow> bool" where
  "offers reg mem os a msg \<longleftrightarrow> 0 < a \<and> unat a + length msg \<le> 2 ^ 24 \<and> length msg < 4096 \<and>
     (\<forall>os'. still os' \<longrightarrow> unat (reg_size (reg (os @ os') WIFI_HOST_RCV_CTRL_0)) = length msg \<and> reg (os @ os') WIFI_HOST_RCV_CTRL_1 = a \<and>
        (\<forall>i n. i + n \<le> length msg \<longrightarrow> mem (os @ os') (a + of_nat i) n = take n (drop i msg)))"

lemma offers_later: "offers reg mem os a msg \<Longrightarrow> still os' \<Longrightarrow> offers reg mem (os @ os') a msg"
  unfolding offers_def by (auto simp: still_def)

lemma still_append [simp]: "still (os @ os') \<longleftrightarrow> still os \<and> still os'"
  by (auto simp: still_def)

lemma still_simps [simp]: "still []" "still (ReadReg a # os) \<longleftrightarrow> still os"
  by (auto simp: still_def)

lemma still_read_ops [simp]: "still (read_ops a n)"
proof (induction a n rule: read_ops.induct)
  case (1 a n)
  then show ?case by (auto simp: still_def read_ops.simps [of a n])
qed

context host_bus
begin

abbreviation go where "go \<equiv> moved ready dn"

lemma rd_ok:
  assumes "ready (bus_st s)" "a < 2 ^ 24"
  shows "\<exists>t. rd B a s = (M2M_SUCCESS, Some (reg (dn (bus_st s)) a), t) \<and> go s [ReadReg a] t"
  using read_law [OF assms] by (auto simp: rd_def moved_def took_def)

lemma wr_ok:
  assumes "ready (bus_st s)" "a < 2 ^ 24" "a \<noteq> PROTOCOL_CONFIG"
  shows "\<exists>t. wr B a v s = (M2M_SUCCESS, t) \<and> go s [WriteReg a v] t"
  using write_law [OF assms, of v] by (auto simp: wr_def moved_def took_def)

lemma rdb_ok:
  assumes "ready (bus_st s)" "0 < n" "unat a + n \<le> 2 ^ 24"
  shows "\<exists>t. rdb B a n s = (M2M_SUCCESS, mem (dn (bus_st s)) a n, t) \<and> go s (read_ops a n) t"
  using read_block_law [OF assms] by (auto simp: rdb_def moved_def took_def)

lemma wrb_ok:
  assumes "ready (bus_st s)" "b \<noteq> []" "unat a + length b \<le> 2 ^ 24"
  shows "\<exists>t. wrb B a b s = (M2M_SUCCESS, t) \<and> go s (write_ops a b) t"
  using write_block_law [OF assms] by (auto simp: wrb_def moved_def took_def)

lemma rx_done_ok:
  assumes "ready (bus_st s)"
  shows "\<exists>t v. hif_set_rx_done B s = (M2M_SUCCESS, t) \<and> go s [ReadReg WIFI_HOST_RCV_CTRL_0, WriteReg WIFI_HOST_RCV_CTRL_0 (v OR 2)] t"
proof -
  obtain u where u: "rd B WIFI_HOST_RCV_CTRL_0 s = (M2M_SUCCESS, Some (reg (dn (bus_st s)) WIFI_HOST_RCV_CTRL_0), u)"
    "go s [ReadReg WIFI_HOST_RCV_CTRL_0] u"
    using rd_ok [OF assms, of WIFI_HOST_RCV_CTRL_0] by auto
  let ?v = "reg (dn (bus_st s)) WIFI_HOST_RCV_CTRL_0"
  obtain t where t: "wr B WIFI_HOST_RCV_CTRL_0 (?v OR 2) u = (M2M_SUCCESS, t)" "go u [WriteReg WIFI_HOST_RCV_CTRL_0 (?v OR 2)] t"
    using wr_ok [of u WIFI_HOST_RCV_CTRL_0 "?v OR 2"] u(2) by (auto simp: moved_def took_def)
  show ?thesis using u(1) t(1) moved_trans [OF u(2) t(2)] by (auto simp: hif_set_rx_done_def)
qed


end

lemma reg_size_less: "unat (reg_size r) < 4096"
proof -
  have "reg_size r = ucast (take_bit 12 (drop_bit 2 r))" by (simp add: reg_size_def take_bit_eq_mask mask_numeral)
  then have "unat (reg_size r) = take_bit 12 (unat (drop_bit 2 r))"
    by (simp add: unsigned_ucast_eq unsigned_take_bit_eq)
  then show ?thesis using take_bit_nat_less_exp [of 12 "unat (drop_bit 2 r)"] by simp
qed

lemma unat_u16_u32: "unat (ucast (x :: u16) :: u32) = unat x"
proof -
  have "unat x < 2 ^ 16" by (rule less_le_trans [OF unsigned_less]) simp
  then have "unat x < 2 ^ 32" by simp
  then show ?thesis by (simp add: unsigned_ucast_eq take_bit_nat_eq_self)
qed

text \<open>Telling the chip that its message has been taken.\<close>

definition rx_done_ops :: "bus_op list \<Rightarrow> bool" where
  "rx_done_ops os \<longleftrightarrow> (\<exists>v. os = [ReadReg WIFI_HOST_RCV_CTRL_0, WriteReg WIFI_HOST_RCV_CTRL_0 (v OR 2)])"

context host_bus
begin

lemma rx_done_done:
  assumes "ready (bus_st s)"
  shows "\<exists>t os. hif_set_rx_done B s = (M2M_SUCCESS, t) \<and> go s os t \<and> rx_done_ops os"
  using rx_done_ok [OF assms] by (auto simp: rx_done_ops_def)

lemma moved_ready: "go s os t \<Longrightarrow> ready (bus_st t)"
  by (simp add: moved_def took_def)

text \<open>
  \<open>hif_receive\<close> looks at the two registers, and then either refuses or reads exactly the bytes asked for, all of them inside the message the registers
  announce; when they end it, or when told to, it reports the message as taken.
\<close>

lemma receive_cases:
  assumes "ready (bus_st s)" "addr \<noteq> 0" "sz \<noteq> 0" "unat addr + unat sz < 2 ^ 32"
  defines "os \<equiv> dn (bus_st s)"
  defines "sze \<equiv> reg_size (reg os WIFI_HOST_RCV_CTRL_0)" and "a \<equiv> reg (os @ [ReadReg WIFI_HOST_RCV_CTRL_0]) WIFI_HOST_RCV_CTRL_1"
  assumes "unat a + 4096 \<le> 2 ^ 24"
  shows "(\<exists>t. hif_receive B addr False sz isDone s = (M2M_ERR_FAIL, [], t) \<and> go s [ReadReg WIFI_HOST_RCV_CTRL_0, ReadReg WIFI_HOST_RCV_CTRL_1] t \<and>
       \<not> (a \<le> addr \<and> unat addr + unat sz \<le> unat a + unat sze)) \<or>
    (\<exists>t fin. hif_receive B addr False sz isDone s =
         (M2M_SUCCESS, mem (os @ [ReadReg WIFI_HOST_RCV_CTRL_0, ReadReg WIFI_HOST_RCV_CTRL_1]) addr (unat sz), t) \<and>
       a \<le> addr \<and> unat addr + unat sz \<le> unat a + unat sze \<and>
       took ready dn s ([ReadReg WIFI_HOST_RCV_CTRL_0, ReadReg WIFI_HOST_RCV_CTRL_1] @ read_ops addr (unat sz) @ fin) t \<and>
       (if unat addr + unat sz = unat a + unat sze \<or> isDone then rx_done_ops fin \<and> gu8HifSizeDone t
        else fin = [] \<and> gu8HifSizeDone t = gu8HifSizeDone s))"
proof -
  obtain s1 where s1: "rd B WIFI_HOST_RCV_CTRL_0 s = (M2M_SUCCESS, Some (reg os WIFI_HOST_RCV_CTRL_0), s1)" "go s [ReadReg WIFI_HOST_RCV_CTRL_0] s1"
    using rd_ok [OF assms(1), of WIFI_HOST_RCV_CTRL_0] by (auto simp: os_def)
  obtain s2 where s2: "rd B WIFI_HOST_RCV_CTRL_1 s1 = (M2M_SUCCESS, Some a, s2)" "go s1 [ReadReg WIFI_HOST_RCV_CTRL_1] s2"
    using rd_ok [OF moved_ready [OF s1(2)], of WIFI_HOST_RCV_CTRL_1] s1(2) by (auto simp: os_def a_def moved_def took_def)
  have m2: "go s [ReadReg WIFI_HOST_RCV_CTRL_0, ReadReg WIFI_HOST_RCV_CTRL_1] s2" using moved_trans [OF s1(2) s2(2)] by simp
  have n: "unat sze < 4096" unfolding sze_def by (rule reg_size_less)
  note us = unat_u16_u32 [of sze] unat_u16_u32 [of sz]
  have u: "unat (a + ucast sze) = unat a + unat sze" "unat (addr + ucast sz) = unat addr + unat sz"
    using assms(4,8) n us by (simp_all add: unat_word_ariths)
  show ?thesis
  proof (cases "a \<le> addr \<and> unat addr + unat sz \<le> unat a + unat sze")
    case False
    then have "sze < sz \<or> addr < a \<or> a + ucast sze < addr + ucast sz" by (auto simp: word_less_nat_alt u not_le)
    then have "hif_receive B addr False sz isDone s = (M2M_ERR_FAIL, [], s2)"
      using s1(1) s2(1) assms(2,3) by (auto simp: hif_receive_def sze_def Let_def)
    then show ?thesis using m2 False by blast
  next
    case True
    then have le: "\<not> sze < sz" "\<not> addr < a" "\<not> a + ucast sze < addr + ucast sz" by (auto simp: word_less_nat_alt word_le_nat_alt u)
    have pos: "0 < unat sz" using assms(3) by (simp add: unat_gt_0)
    have top: "unat addr + unat sz \<le> 2 ^ 24" using True n assms(8) by simp
    obtain s3 where s3: "rdb B addr (unat sz) s2 = (M2M_SUCCESS, mem (os @ [ReadReg WIFI_HOST_RCV_CTRL_0, ReadReg WIFI_HOST_RCV_CTRL_1]) addr (unat sz), s3)"
      "go s2 (read_ops addr (unat sz)) s3"
      using rdb_ok [OF moved_ready [OF m2] pos top] m2 by (auto simp: os_def moved_def took_def)
    have z: "a + ucast sze - (addr + ucast sz) = 0 \<longleftrightarrow> unat addr + unat sz = unat a + unat sze"
      using u by (metis eq_iff_diff_eq_0 word_unat_eq_iff)
    show ?thesis
    proof (cases "unat addr + unat sz = unat a + unat sze \<or> isDone")
      case fin: True
      let ?s3 = "s3\<lparr>gu8HifSizeDone := True\<rparr>"
      have "ready (bus_st ?s3)" using moved_ready [OF s3(2)] by simp
      from rx_done_done [OF this] obtain s4 os4 where s4: "hif_set_rx_done B ?s3 = (M2M_SUCCESS, s4)" "go ?s3 os4 s4" "rx_done_ops os4" by blast
      have "hif_receive B addr False sz isDone s =
          (M2M_SUCCESS, mem (os @ [ReadReg WIFI_HOST_RCV_CTRL_0, ReadReg WIFI_HOST_RCV_CTRL_1]) addr (unat sz), s4)"
        using s1(1) s2(1) s3(1) s4(1) assms(2,3) le z fin by (simp add: hif_receive_def sze_def Let_def)
      moreover have "gu8HifSizeDone s4" using moved_flag [OF s4(2)] by simp
      moreover have "took ready dn s ([ReadReg WIFI_HOST_RCV_CTRL_0, ReadReg WIFI_HOST_RCV_CTRL_1] @ read_ops addr (unat sz) @ os4) s4"
        using took_trans [OF took_set_flag [OF moved_took [OF moved_trans [OF m2 s3(2)]]] moved_took [OF s4(2)]] by simp
      ultimately show ?thesis using True fin s4(3) by auto
    next
      case fin: False
      have "hif_receive B addr False sz isDone s =
          (M2M_SUCCESS, mem (os @ [ReadReg WIFI_HOST_RCV_CTRL_0, ReadReg WIFI_HOST_RCV_CTRL_1]) addr (unat sz), s3)"
        using s1(1) s2(1) s3(1) assms(2,3) le z fin by (simp add: hif_receive_def sze_def Let_def)
      moreover have "took ready dn s ([ReadReg WIFI_HOST_RCV_CTRL_0, ReadReg WIFI_HOST_RCV_CTRL_1] @ read_ops addr (unat sz)) s3"
        "gu8HifSizeDone s3 = gu8HifSizeDone s"
        using moved_took [OF moved_trans [OF m2 s3(2)]] moved_flag [OF moved_trans [OF m2 s3(2)]] by simp_all
      ultimately show ?thesis using True fin by (intro disjI2 exI [of _ s3] exI [of _ "[]"]) simp
    qed
  qed
qed

end

end
