(* ===== verification/Hif_Send.thy ===== *)
theory Hif_Send
  imports Hif
begin

text \<open>
  What \<open>hif_send\<close> does to a chip that keeps the contract of the bus: the announcement of the request, the polls for a place in its memory, the bytes that then lie there, and
  the request itself; and what happens when the chip never gives a place.
\<close>

section \<open>The memory after a list of operations\<close>

definition put_bytes :: "u32 \<Rightarrow> u8 list \<Rightarrow> (u32 \<Rightarrow> u8) \<Rightarrow> u32 \<Rightarrow> u8" where
  "put_bytes a b m = (\<lambda>x. if a \<le> x \<and> unat x < unat a + length b then b ! (unat x - unat a) else m x)"

fun stored :: "bus_op list \<Rightarrow> (u32 \<Rightarrow> u8) \<Rightarrow> u32 \<Rightarrow> u8" where
  "stored [] m = m"
| "stored (WriteBlock a b # os) m = stored os (put_bytes a b m)"
| "stored (e # os) m = stored os m"

lemma stored_append [simp]: "stored (os @ os') m = stored os' (stored os m)"
  by (induction os m rule: stored.induct) simp_all

lemma put_bytes_append:
  assumes "unat (a + of_nat (length b)) = unat a + length b"
  shows "put_bytes (a + of_nat (length b)) b' (put_bytes a b m) = put_bytes a (b @ b') m"
  using assms by (auto simp: put_bytes_def word_le_nat_alt nth_append fun_eq_iff)

lemma stored_write_ops: "unat a + length b \<le> 2 ^ 24 \<Longrightarrow> stored (write_ops a b) m = put_bytes a b m"
proof (induction a b arbitrary: m rule: write_ops.induct)
  case (1 a b)
  show ?case
  proof (cases "length b \<le> MAX_TRX")
    case True
    then show ?thesis by (simp add: write_ops.simps [of a b])
  next
    case False
    then have u: "unat (a + of_nat MAX_TRX) = unat a + MAX_TRX" using next_address(2) [OF 1(2), of MAX_TRX] by simp
    have "stored (write_ops a b) m = put_bytes (a + of_nat MAX_TRX) (drop MAX_TRX b) (put_bytes a (take MAX_TRX b) m)"
      using 1(1) [OF False, of "put_bytes a (take MAX_TRX b) m"] 1(2) False u by (simp add: write_ops.simps [of a b])
    also have "\<dots> = put_bytes a b m"
      using put_bytes_append [of a "take MAX_TRX b" "drop MAX_TRX b" m] u False by (simp add: min_def)
    finally show ?thesis .
  qed
qed

section \<open>Asking for a place\<close>

abbreviation polls :: "nat \<Rightarrow> bus_op list" where
  "polls k \<equiv> replicate k (ReadReg WIFI_HOST_RCV_CTRL_2)"

definition announce :: "u8 \<Rightarrow> u8 \<Rightarrow> u16 \<Rightarrow> bus_op list" where
  "announce gid opcode len =
     [WriteReg NMI_STATE_REG (ucast gid OR push_bit 8 (ucast opcode) OR push_bit 16 (ucast len)), WriteReg WIFI_HOST_RCV_CTRL_2 2]"

definition awake :: "('s, 'm) hif_scheme \<Rightarrow> bool" where
  "awake s \<longleftrightarrow> gu8ChipSleep s \<noteq> 0 \<or> \<not> deep s"

lemma awake_wakes: "awake s \<Longrightarrow> hif_chip_wake B s = Some (M2M_SUCCESS, s\<lparr>gu8ChipSleep := gu8ChipSleep s + 1\<rparr>)"
  by (auto simp: hif_chip_wake_def awake_def)

text \<open>Where the parts of a message lie.\<close>

definition part :: "u32 \<Rightarrow> u8 list option \<Rightarrow> (u32 \<Rightarrow> u8) \<Rightarrow> u32 \<Rightarrow> u8" where
  "part a b m = (case b of None \<Rightarrow> m | Some c \<Rightarrow> put_bytes a c m)"

definition part_fits :: "u32 \<Rightarrow> nat \<Rightarrow> u8 list option \<Rightarrow> bool" where
  "part_fits a k b \<longleftrightarrow> (case b of None \<Rightarrow> True | Some c \<Rightarrow> c \<noteq> [] \<and> unat a + k + length c \<le> 2 ^ 24)"

definition part_ops :: "u32 \<Rightarrow> u8 list option \<Rightarrow> bus_op list" where
  "part_ops a b = (case b of None \<Rightarrow> [] | Some c \<Rightarrow> write_ops a c)"

lemma stored_part:
  assumes "part_fits a k b" "unat a' = unat a + k"
  shows "stored (part_ops a' b) m = part a' b m"
  using assms by (auto simp: part_fits_def part_ops_def part_def stored_write_ops split: option.splits)

context host_bus
begin

lemma poll_grant:
  assumes "ready (bus_st s)" "k < n" "\<forall>i < k. reg (dn (bus_st s) @ polls i) WIFI_HOST_RCV_CTRL_2 AND 2 \<noteq> 0"
    and "reg (dn (bus_st s) @ polls k) WIFI_HOST_RCV_CTRL_2 AND 2 = 0"
  shows "\<exists>t. dma_loop B n s = (reg (dn (bus_st s) @ polls (Suc k)) 0x150400, t) \<and> go s (polls (Suc k) @ [ReadReg 0x150400]) t"
  using assms
proof (induction k arbitrary: n s)
  case 0
  then obtain n' where n: "n = Suc n'" by (cases n) auto
  obtain s1 where s1: "rd B WIFI_HOST_RCV_CTRL_2 s = (M2M_SUCCESS, Some (reg (dn (bus_st s)) WIFI_HOST_RCV_CTRL_2), s1)"
    "go s [ReadReg WIFI_HOST_RCV_CTRL_2] s1" using rd_ok [OF 0(1), where a = WIFI_HOST_RCV_CTRL_2] by auto
  obtain s2 where s2: "rd B 0x150400 s1 = (M2M_SUCCESS, Some (reg (dn (bus_st s1)) 0x150400), s2)" "go s1 [ReadReg 0x150400] s2"
    using rd_ok [OF moved_ready [OF s1(2)], of "0x150400"] by auto
  have "dn (bus_st s1) = dn (bus_st s) @ polls 1" using s1(2) by (simp add: moved_def took_def)
  then show ?case using s1(1) s2(1) moved_trans [OF s1(2) s2(2)] 0(4) n by simp
next
  case (Suc k)
  then obtain n' where n: "n = Suc n'" by (cases n) auto
  obtain s1 where s1: "rd B WIFI_HOST_RCV_CTRL_2 s = (M2M_SUCCESS, Some (reg (dn (bus_st s)) WIFI_HOST_RCV_CTRL_2), s1)"
    "go s [ReadReg WIFI_HOST_RCV_CTRL_2] s1" using rd_ok [OF Suc.prems(1), of WIFI_HOST_RCV_CTRL_2] by auto
  have d: "dn (bus_st s1) @ polls i = dn (bus_st s) @ polls (Suc i)" for i using s1(2) by (simp add: moved_def took_def)
  have "reg (dn (bus_st s)) WIFI_HOST_RCV_CTRL_2 AND 2 \<noteq> 0" using Suc.prems(3) by (metis append_Nil2 replicate_0 zero_less_Suc)
  then have eq: "dma_loop B n s = dma_loop B n' s1" using s1(1) n by simp
  have "\<exists>t. dma_loop B n' s1 = (reg (dn (bus_st s1) @ polls (Suc k)) 0x150400, t) \<and> go s1 (polls (Suc k) @ [ReadReg 0x150400]) t"
  proof (rule Suc.IH [OF moved_ready [OF s1(2)]])
    show "k < n'" using Suc.prems(2) n by simp
    show "\<forall>i<k. reg (dn (bus_st s1) @ polls i) WIFI_HOST_RCV_CTRL_2 AND 2 \<noteq> 0" using Suc.prems(3) unfolding d by auto
    show "reg (dn (bus_st s1) @ polls k) WIFI_HOST_RCV_CTRL_2 AND 2 = 0" using Suc.prems(4) unfolding d .
  qed
  then obtain t where t: "dma_loop B n' s1 = (reg (dn (bus_st s1) @ polls (Suc k)) 0x150400, t)" "go s1 (polls (Suc k) @ [ReadReg 0x150400]) t" by blast
  then show ?case using eq moved_trans [OF s1(2) t(2)] unfolding d by simp
qed

lemma poll_refused:
  assumes "ready (bus_st s)" "\<forall>i < n. reg (dn (bus_st s) @ polls i) WIFI_HOST_RCV_CTRL_2 AND 2 \<noteq> 0"
  shows "\<exists>t. dma_loop B n s = (0, t) \<and> go s (polls n) t"
  using assms
proof (induction n arbitrary: s)
  case 0
  then show ?case by (simp add: moved_def took_def)
next
  case (Suc n)
  obtain s1 where s1: "rd B WIFI_HOST_RCV_CTRL_2 s = (M2M_SUCCESS, Some (reg (dn (bus_st s)) WIFI_HOST_RCV_CTRL_2), s1)"
    "go s [ReadReg WIFI_HOST_RCV_CTRL_2] s1" using rd_ok [OF Suc.prems(1), of WIFI_HOST_RCV_CTRL_2] by auto
  have d: "dn (bus_st s1) @ polls i = dn (bus_st s) @ polls (Suc i)" for i using s1(2) by (simp add: moved_def took_def)
  have "\<exists>t. dma_loop B n s1 = (0, t) \<and> go s1 (polls n) t"
    by (rule Suc.IH [OF moved_ready [OF s1(2)]]) (use Suc.prems(2) d in auto)
  then obtain t where t: "dma_loop B n s1 = (0, t)" "go s1 (polls n) t" by blast
  have "reg (dn (bus_st s)) WIFI_HOST_RCV_CTRL_2 AND 2 \<noteq> 0" using Suc.prems(2) by (metis append_Nil2 replicate_0 zero_less_Suc)
  then show ?case using s1(1) t(1) moved_trans [OF s1(2) t(2)] by simp
qed

lemma part_ok:
  assumes "ready (bus_st s)" "part_fits a k b" "unat a' = unat a + k"
  shows "\<exists>t. (case b of None \<Rightarrow> (M2M_SUCCESS, s) | Some c \<Rightarrow> wrb B a' c s) = (M2M_SUCCESS, t) \<and> go s (part_ops a' b) t"
proof (cases b)
  case None
  then show ?thesis using assms(1) by (simp add: part_ops_def moved_def took_def)
next
  case (Some c)
  then show ?thesis using assms wrb_ok [of s c a'] by (auto simp: part_fits_def part_ops_def)
qed

lemma write_parts_ok:
  assumes "ready (bus_st s)" "unat dma + length hdr \<le> 2 ^ 24" "hdr \<noteq> []" "part_fits dma 8 ctrl" "part_fits dma (8 + unat off) data" "unat dma + 8 + unat off \<le> 2 ^ 24"
  shows "\<exists>t. write_parts B dma hdr ctrl data off s = (M2M_SUCCESS, t) \<and>
    go s (write_ops dma hdr @ part_ops (dma + 8) ctrl @ part_ops (dma + 8 + ucast off) data @ [WriteReg WIFI_HOST_RCV_CTRL_3 (push_bit 2 dma OR 2)]) t"
proof -
  have off: "unat (ucast off :: u32) = unat off" by (rule unat_u16_u32)
  have u: "unat (dma + 8) = unat dma + 8" "unat (dma + 8 + ucast off) = unat dma + (8 + unat off)"
    using assms(6) off by (simp_all add: unat_word_ariths)
  obtain s1 where s1: "wrb B dma hdr s = (M2M_SUCCESS, s1)" "go s (write_ops dma hdr) s1" using wrb_ok [OF assms(1,3,2)] by blast
  obtain s2 where s2: "(case ctrl of None \<Rightarrow> (M2M_SUCCESS, s1) | Some c \<Rightarrow> wrb B (dma + 8) c s1) = (M2M_SUCCESS, s2)" "go s1 (part_ops (dma + 8) ctrl) s2"
    using part_ok [OF moved_ready [OF s1(2)] assms(4) u(1)] by blast
  obtain s3 where s3: "(case data of None \<Rightarrow> (M2M_SUCCESS, s2) | Some d \<Rightarrow> wrb B (dma + 8 + ucast off) d s2) = (M2M_SUCCESS, s3)"
    "go s2 (part_ops (dma + 8 + ucast off) data) s3"
    using part_ok [OF moved_ready [OF s2(2)] assms(5) u(2)] by blast
  obtain s4 where s4: "wr B WIFI_HOST_RCV_CTRL_3 (push_bit 2 dma OR 2) s3 = (M2M_SUCCESS, s4)" "go s3 [WriteReg WIFI_HOST_RCV_CTRL_3 (push_bit 2 dma OR 2)] s4"
    using wr_ok [OF moved_ready [OF s3(2)], of WIFI_HOST_RCV_CTRL_3] by auto
  have "write_parts B dma hdr ctrl data off s = (M2M_SUCCESS, s4)"
    using s1(1) s2(1) s3(1) s4(1) by (simp add: write_parts_def Let_def add.assoc)
  then show ?thesis using moved_trans [OF moved_trans [OF moved_trans [OF s1(2) s2(2)] s3(2)] s4(2)] by auto
qed

lemma announced:
  assumes "ready (bus_st s)"
  shows "\<exists>s1 t. wr B NMI_STATE_REG v s = (M2M_SUCCESS, s1) \<and> wr B WIFI_HOST_RCV_CTRL_2 2 s1 = (M2M_SUCCESS, t) \<and>
    go s [WriteReg NMI_STATE_REG v, WriteReg WIFI_HOST_RCV_CTRL_2 2] t"
proof -
  obtain s1 where s1: "wr B NMI_STATE_REG v s = (M2M_SUCCESS, s1)" "go s [WriteReg NMI_STATE_REG v] s1"
    using wr_ok [OF assms, of NMI_STATE_REG v] by auto
  obtain t where t: "wr B WIFI_HOST_RCV_CTRL_2 2 s1 = (M2M_SUCCESS, t)" "go s1 [WriteReg WIFI_HOST_RCV_CTRL_2 2] t"
    using wr_ok [OF moved_ready [OF s1(2)], of WIFI_HOST_RCV_CTRL_2 2] by auto
  show ?thesis using s1(1) t(1) moved_trans [OF s1(2) t(2)] by auto
qed

text \<open>The operations of a request that has been served, and of one that has not.\<close>

lemma send_ok:
  fixes s :: "('s, 'm) hif_scheme" and gid opcode :: u8 and ctrl data :: "u8 list option" and off :: u16
  defines "os \<equiv> dn (bus_st s) @ announce gid opcode (send_length ctrl data off)"
  fixes k :: nat
  defines "dma \<equiv> reg (os @ polls (Suc k)) 0x150400"
  assumes "ready (bus_st s)" "awake s" "k < 1000" "\<forall>i < k. reg (os @ polls i) WIFI_HOST_RCV_CTRL_2 AND 2 \<noteq> 0" "reg (os @ polls k) WIFI_HOST_RCV_CTRL_2 AND 2 = 0"
    and "dma \<noteq> 0" "part_fits dma 8 ctrl" "part_fits dma (8 + unat off) data" "unat dma + 8 + unat off \<le> 2 ^ 24"
  shows "\<exists>t parts. hif_send B behind gid opcode ctrl data off s = Some (M2M_SUCCESS, t) \<and> ready (bus_st t) \<and>
    dn (bus_st t) = os @ polls (Suc k) @ [ReadReg 0x150400] @ parts @ [WriteReg WIFI_HOST_RCV_CTRL_3 (push_bit 2 dma OR 2)] \<and>
    stored parts m = part (dma + 8 + ucast off) data (part (dma + 8) ctrl (put_bytes dma (hif_header gid opcode (send_length ctrl data off) behind) m)) \<and>
    t = s\<lparr>bus_st := bus_st t, gu8ChipSleep := gu8ChipSleep s + 1\<rparr>"
proof -
  let ?len = "send_length ctrl data off"
  let ?s = "s\<lparr>gu8ChipSleep := gu8ChipSleep s + 1\<rparr>"
  let ?hdr = "hif_header gid opcode ?len behind"
  have hdr: "?hdr \<noteq> []" "unat dma + length ?hdr \<le> 2 ^ 24" using assms(11) by (simp_all add: hif_header_def)
  obtain s1 s2 where s2: "wr B NMI_STATE_REG (ucast gid OR push_bit 8 (ucast opcode) OR push_bit 16 (ucast ?len)) ?s = (M2M_SUCCESS, s1)"
    "wr B WIFI_HOST_RCV_CTRL_2 2 s1 = (M2M_SUCCESS, s2)" "go ?s (announce gid opcode ?len) s2"
    using announced [of ?s "ucast gid OR push_bit 8 (ucast opcode) OR push_bit 16 (ucast ?len)"] assms(3) unfolding announce_def by auto
  have d2: "dn (bus_st s2) = os" using s2(3) by (simp add: moved_def took_def os_def)
  obtain s3 where s3: "dma_loop B 1000 s2 = (dma, s3)" "go s2 (polls (Suc k) @ [ReadReg 0x150400]) s3"
    using poll_grant [OF moved_ready [OF s2(3)] assms(5)] assms(6,7) unfolding d2 dma_def by blast
  obtain t where t: "write_parts B dma ?hdr ctrl data off s3 = (M2M_SUCCESS, t)"
    "go s3 (write_ops dma ?hdr @ part_ops (dma + 8) ctrl @ part_ops (dma + 8 + ucast off) data @ [WriteReg WIFI_HOST_RCV_CTRL_3 (push_bit 2 dma OR 2)]) t"
    using write_parts_ok [OF moved_ready [OF s3(2)] hdr(2,1) assms(9-11)] by blast
  have u: "unat (dma + 8) = unat dma + 8" "unat (dma + 8 + ucast off) = unat dma + (8 + unat off)"
    using assms(11) unat_u16_u32 [of off] by (simp_all add: unat_word_ariths)
  have "hif_send B behind gid opcode ctrl data off s = Some (M2M_SUCCESS, t)"
    using awake_wakes [OF assms(4), of B] s2(1,2) s3(1) t(1) assms(8) by (simp add: hif_send_def Let_def)
  moreover have m: "go ?s (announce gid opcode ?len @ (polls (Suc k) @ [ReadReg 0x150400]) @ (write_ops dma ?hdr @ part_ops (dma + 8) ctrl @
      part_ops (dma + 8 + ucast off) data @ [WriteReg WIFI_HOST_RCV_CTRL_3 (push_bit 2 dma OR 2)])) t"
    using moved_trans [OF moved_trans [OF s2(3) s3(2)] t(2)] by simp
  moreover have "dn (bus_st t) = os @ polls (Suc k) @ [ReadReg 0x150400] @ (write_ops dma ?hdr @ part_ops (dma + 8) ctrl @
      part_ops (dma + 8 + ucast off) data) @ [WriteReg WIFI_HOST_RCV_CTRL_3 (push_bit 2 dma OR 2)]"
    using m by (simp add: moved_def took_def os_def)
  moreover have "t = s\<lparr>bus_st := bus_st t, gu8ChipSleep := gu8ChipSleep s + 1\<rparr>"
    using m by (cases t; cases s) (simp add: moved_def took_def)
  moreover have "stored (write_ops dma ?hdr @ part_ops (dma + 8) ctrl @ part_ops (dma + 8 + ucast off) data) m =
      part (dma + 8 + ucast off) data (part (dma + 8) ctrl (put_bytes dma ?hdr m))"
    using stored_write_ops [OF hdr(2)] stored_part [OF assms(9) u(1)] stored_part [OF assms(10) u(2)] by simp
  ultimately show ?thesis using moved_ready [OF m] by blast
qed

lemma send_refused:
  fixes s :: "('s, 'm) hif_scheme" and gid opcode :: u8 and ctrl data :: "u8 list option" and off :: u16
  defines "os \<equiv> dn (bus_st s) @ announce gid opcode (send_length ctrl data off)"
  assumes "ready (bus_st s)" "awake s" "\<forall>i < 1000. reg (os @ polls i) WIFI_HOST_RCV_CTRL_2 AND 2 \<noteq> 0"
  shows "\<exists>t. hif_send B behind gid opcode ctrl data off s = Some (M2M_ERR_MEM_ALLOC, t) \<and> ready (bus_st t) \<and>
    dn (bus_st t) = os @ polls 1000 \<and> t = s\<lparr>bus_st := bus_st t, gu8ChipSleep := gu8ChipSleep s + 1\<rparr>"
proof -
  let ?len = "send_length ctrl data off"
  let ?s = "s\<lparr>gu8ChipSleep := gu8ChipSleep s + 1\<rparr>"
  obtain s1 s2 where s2: "wr B NMI_STATE_REG (ucast gid OR push_bit 8 (ucast opcode) OR push_bit 16 (ucast ?len)) ?s = (M2M_SUCCESS, s1)"
    "wr B WIFI_HOST_RCV_CTRL_2 2 s1 = (M2M_SUCCESS, s2)" "go ?s (announce gid opcode ?len) s2"
    using announced [of ?s "ucast gid OR push_bit 8 (ucast opcode) OR push_bit 16 (ucast ?len)"] assms(2) unfolding announce_def by auto
  have d2: "dn (bus_st s2) = os" using s2(3) by (simp add: moved_def took_def os_def)
  obtain t where t: "dma_loop B 1000 s2 = (0, t)" "go s2 (polls 1000) t"
    using poll_refused [OF moved_ready [OF s2(3)], of 1000] assms(4) unfolding d2 by blast
  have "hif_send B behind gid opcode ctrl data off s = Some (M2M_ERR_MEM_ALLOC, t)"
    using awake_wakes [OF assms(3), of B] s2(1,2) t(1) by (simp add: hif_send_def Let_def del: dma_loop.simps)
  moreover have m: "go ?s (announce gid opcode ?len @ polls 1000) t" using moved_trans [OF s2(3) t(2)] .
  moreover have "dn (bus_st t) = os @ polls 1000" using m by (simp add: moved_def took_def os_def)
  moreover have "t = s\<lparr>bus_st := bus_st t, gu8ChipSleep := gu8ChipSleep s + 1\<rparr>"
    using m by (cases t; cases s) (simp add: moved_def took_def)
  ultimately show ?thesis using moved_ready [OF m] by blast
qed

end

section \<open>Requests to the WINC1500\<close>

text \<open>
  C20: \<open>hif_send\<close> announces group, opcode and length, asks for a place until the chip gives one, and then exactly the header, the control buffer and the data lie in the
  chip's memory, each where the protocol wants it, before the request is made; the result is success. If the chip is busy a thousand times the result is an error and nothing
  has been written to its memory. Beside the bus only the counter of wake requests changes.
\<close>

theorem hif_send_serves:
  fixes s :: "(nmspi, 'm) hif_scheme" and ctrl data :: "u8 list option"
  assumes "polite fw" "quiet fw" "sync fw c0 (bus_st s)" "awake s"
  shows "let os = done_ops fw c0 (bus_st s) @ announce gid opcode (send_length ctrl data off);
             busy = (\<lambda>i. reg_value fw (os @ polls i) WIFI_HOST_RCV_CTRL_2 AND 2 \<noteq> 0);
             dma = reg_value fw (os @ polls (Suc k)) 0x150400
         in (k < 1000 \<and> (\<forall>i < k. busy i) \<and> \<not> busy k \<and> dma \<noteq> 0 \<and> part_fits dma 8 ctrl \<and> part_fits dma (8 + unat off) data \<and>
               unat dma + 8 + unat off \<le> 2 ^ 24 \<longrightarrow>
             (\<exists>t parts. hif_send (spi_bus (answers fw c0) junk) behind gid opcode ctrl data off s = Some (M2M_SUCCESS, t) \<and> sync fw c0 (bus_st t) \<and>
                done_ops fw c0 (bus_st t) = os @ polls (Suc k) @ [ReadReg 0x150400] @ parts @ [WriteReg WIFI_HOST_RCV_CTRL_3 (push_bit 2 dma OR 2)] \<and>
                stored parts m = part (dma + 8 + ucast off) data (part (dma + 8) ctrl
                  (put_bytes dma (hif_header gid opcode (send_length ctrl data off) behind) m)) \<and>
                t = s\<lparr>bus_st := bus_st t, gu8ChipSleep := gu8ChipSleep s + 1\<rparr>)) \<and>
            ((\<forall>i < 1000. busy i) \<longrightarrow>
             (\<exists>t. hif_send (spi_bus (answers fw c0) junk) behind gid opcode ctrl data off s = Some (M2M_ERR_MEM_ALLOC, t) \<and> sync fw c0 (bus_st t) \<and>
                done_ops fw c0 (bus_st t) = os @ polls 1000 \<and> t = s\<lparr>bus_st := bus_st t, gu8ChipSleep := gu8ChipSleep s + 1\<rparr>))"
proof -
  have r: "polite fw \<and> quiet fw \<and> sync fw c0 (bus_st s)" using assms by blast
  show ?thesis
    using winc_spi.send_ok [OF r assms(4), of k gid opcode ctrl data off junk behind m] winc_spi.send_refused [OF r assms(4), of gid opcode ctrl data off junk behind]
    unfolding Let_def not_not by blast
qed

text \<open>A chip that gives a place at the address \<open>dma\<close> after so many polls.\<close>

definition giving_fw :: "nat \<Rightarrow> u32 \<Rightarrow> firmware" where
  "giving_fw k dma = demo_fw\<lparr>reg_value := (\<lambda>os a. if a = WIFI_HOST_RCV_CTRL_2 then (if count_list os (ReadReg WIFI_HOST_RCV_CTRL_2) < k then 2 else 0)
     else if a = 0x150400 then dma else 0)\<rparr>"

definition start_hif :: "nmspi hif" where
  "start_hif = \<lparr>bus_st = demo_spi, gu8ChipMode = 0, gu8ChipSleep = 0, gu8HifSizeDone = False, gu8Interrupt = 0, callback = (\<lambda>_. None)\<rparr>"

lemma giving_firmware: "polite (giving_fw k dma)" "quiet (giving_fw k dma)" "sync (giving_fw k dma) (demo_chip\<lparr>outq := [], pend := Idle\<rparr>) (bus_st start_hif)"
  "done_ops (giving_fw k dma) (demo_chip\<lparr>outq := [], pend := Idle\<rparr>) (bus_st start_hif) = []" "awake start_hif"
  by (simp_all add: polite_def quiet_def giving_fw_def demo_fw_def sync_def chip_of_def demo_spi_def demo_chip_def start_hif_def awake_def deep_def)

lemma count_polls: "count_list (polls i) (ReadReg WIFI_HOST_RCV_CTRL_2) = i"
  by (induction i) simp_all

lemma hif_send_serves_witness:
  "(\<exists>t parts. hif_send (spi_bus (answers (giving_fw 2 0x30000) (demo_chip\<lparr>outq := [], pend := Idle\<rparr>)) 0) [9, 9, 9, 9] 1 16 (Some [5, 0, 0, 0]) None 0 start_hif =
      Some (M2M_SUCCESS, t) \<and> stored parts (\<lambda>_. 0) = put_bytes 0x30008 [5, 0, 0, 0] (put_bytes 0x30000 [1, 16, 12, 0, 9, 9, 9, 9] (\<lambda>_. 0)) \<and>
      done_ops (giving_fw 2 0x30000) (demo_chip\<lparr>outq := [], pend := Idle\<rparr>) (bus_st t) =
        [WriteReg 0x108c 0xc1001, WriteReg 0x1078 2, ReadReg 0x1078, ReadReg 0x1078, ReadReg 0x1078, ReadReg 0x150400] @ parts @ [WriteReg 0x106c 0xc0002]) \<and>
   (\<exists>t. hif_send (spi_bus (answers (giving_fw 5000 0x30000) (demo_chip\<lparr>outq := [], pend := Idle\<rparr>)) 0) [9, 9, 9, 9] 1 16 (Some [5, 0, 0, 0]) None 0 start_hif =
      Some (M2M_ERR_MEM_ALLOC, t))"
proof -
  let ?c = "demo_chip\<lparr>outq := [], pend := Idle\<rparr>"
  have a: "announce 1 16 12 = [WriteReg 0x108c 0xc1001, WriteReg 0x1078 2]" by (simp add: announce_def)
  have l: "send_length (Some [5, 0, 0, 0]) None 0 = 12" by (simp add: send_length_def)
  have h: "hif_header 1 16 12 [9, 9, 9, 9] = [1, 16, 12, 0, 9, 9, 9, 9]" by (simp add: hif_header_def)
  have r: "reg_value (giving_fw n d) (announce 1 16 12 @ polls i) WIFI_HOST_RCV_CTRL_2 = (if i < n then 2 else 0)"
    "reg_value (giving_fw n d) (announce 1 16 12 @ polls i) 0x150400 = d" for n d i
    by (simp_all add: giving_fw_def a count_polls)
  note S = hif_send_serves [OF giving_firmware(1-3,5), where gid = 1 and opcode = 16 and ctrl = "Some [5, 0, 0, 0]" and data = None and off = 0 and
      behind = "[9, 9, 9, 9]" and junk = 0 and m = "\<lambda>_. 0", unfolded giving_firmware(4) l append_Nil Let_def r h]
  have p: "polls (Suc 2) = [ReadReg 0x1078, ReadReg 0x1078, ReadReg 0x1078]" by (simp add: numeral_3_eq_3)
  have "2 < (1000 :: nat) \<and> (\<forall>i < 2. (if i < 2 then 2 else 0 :: u32) AND 2 \<noteq> 0) \<and> \<not> (if 2 < (2 :: nat) then 2 else 0 :: u32) AND 2 \<noteq> 0 \<and>
      (0x30000 :: u32) \<noteq> 0 \<and> part_fits 0x30000 8 (Some [5, 0, 0, 0]) \<and> part_fits 0x30000 (8 + unat (0 :: u16)) None \<and> unat (0x30000 :: u32) + 8 + unat (0 :: u16) \<le> 2 ^ 24"
    by (simp add: part_fits_def)
  from S [THEN conjunct1, THEN mp, OF this, unfolded p]
  obtain t parts where t: "hif_send (spi_bus (answers (giving_fw 2 0x30000) ?c) 0) [9, 9, 9, 9] 1 16 (Some [5, 0, 0, 0]) None 0 start_hif = Some (M2M_SUCCESS, t)"
    "done_ops (giving_fw 2 0x30000) ?c (bus_st t) = announce 1 16 12 @ [ReadReg 0x1078, ReadReg 0x1078, ReadReg 0x1078] @ [ReadReg 0x150400] @ parts @
       [WriteReg WIFI_HOST_RCV_CTRL_3 (push_bit 2 0x30000 OR 2)]"
    "stored parts (\<lambda>_. 0) = part (0x30000 + 8 + ucast (0 :: u16)) None (part (0x30000 + 8) (Some [5, 0, 0, 0]) (put_bytes 0x30000 [1, 16, 12, 0, 9, 9, 9, 9] (\<lambda>_. 0)))"
    by blast
  have "\<forall>i < 1000. (if i < (5000 :: nat) then 2 else 0 :: u32) AND 2 \<noteq> 0" by simp
  from S [THEN conjunct2, THEN mp, OF this] t show ?thesis unfolding a by (auto simp: part_def)
qed

end
