(* ===== verification/M2m_Wifi.thy ===== *)
theory M2m_Wifi
  imports Hif_Send Winc_Netif
begin

text \<open>
  m2m_wifi.c, the WiFi layer of the chip's driver above m2m_hif.c: the callback that takes the chip's messages, Ethernet frames in pieces among them, and the requests. The state of
  the host interface is extended by the variables of m2m_wifi.c, the chip's number that nmasic.c keeps, and the lwIP glue, whose callback is called for every piece of a frame. A struct that goes to the chip is its bytes;
  what the code leaves unset of it, padding above all, is a parameter. The management of WiFi frames (CONF_MGMT) and the server mode (_PS_SERVER_) are not part of the build.
\<close>

section \<open>Messages and state\<close>

abbreviation "M2M_WIFI_RESP_CURRENT_RSSI \<equiv> (4 :: u8)"
abbreviation "M2M_WIFI_RESP_CONN_INFO \<equiv> (6 :: u8)"
abbreviation "M2M_WIFI_RESP_PROVISION_INFO \<equiv> (9 :: u8)"
abbreviation "M2M_WIFI_RESP_MEMORY_RECOVER \<equiv> (14 :: u8)"
abbreviation "M2M_WIFI_RESP_SCAN_DONE \<equiv> (17 :: u8)"
abbreviation "M2M_WIFI_RESP_SCAN_RESULT \<equiv> (19 :: u8)"
abbreviation "M2M_WIFI_RESP_GET_SYS_TIME \<equiv> (27 :: u8)"
abbreviation "M2M_WIFI_RESP_ETHERNET_RX_PACKET \<equiv> (29 :: u8)"
abbreviation "M2M_WIFI_RESP_GET_PRNG \<equiv> (32 :: u8)"
abbreviation "M2M_WIFI_RESP_DEFAULT_CONNECT \<equiv> (42 :: u8)"
abbreviation "M2M_WIFI_RESP_CON_STATE_CHANGED \<equiv> (44 :: u8)"
abbreviation "M2M_WIFI_REQ_WPS \<equiv> (47 :: u8)"
abbreviation "M2M_WIFI_REQ_DHCP_CONF \<equiv> (50 :: u8)"
abbreviation "M2M_WIFI_RESP_IP_CONFLICT \<equiv> (52 :: u8)"
abbreviation "M2M_WIFI_RESP_CLIENT_INFO \<equiv> (101 :: u8)"

text \<open>A call of the application's callback, without an argument for an address conflict; and the bytes that are written where the chip's answer points to.\<close>

datatype app_ev = AppWifiCb u8 "u8 list option" | RandomBytes u32 "u8 list"

record 's wifi = "'s hif" +
  app_wifi_cb :: bool
  app_eth_cb :: bool
  gu8scanInProgress :: bool
  gu8ChNum :: u8
  netif :: winc
  app_evs :: "app_ev list"
  chipid :: u32

definition tell :: "u8 \<Rightarrow> u8 list option \<Rightarrow> 's wifi \<Rightarrow> 's wifi" where
  "tell op arg s = (if app_wifi_cb s then s\<lparr>app_evs := app_evs s @ [AppWifiCb op arg]\<rparr> else s)"

section \<open>The callback\<close>

text \<open>A message of a fixed size goes to the application if it could be read.\<close>

definition pass_on :: "'s bus \<Rightarrow> u8 \<Rightarrow> u32 \<Rightarrow> u16 \<Rightarrow> bool \<Rightarrow> 's wifi \<Rightarrow> 's wifi" where
  "pass_on B op addr sz isDone s = (case hif_receive B addr False sz isDone s of (r, bs, s1) \<Rightarrow> if r = M2M_SUCCESS then tell op (Some bs) s1 else s1)"

definition u16_at :: "nat \<Rightarrow> u8 list \<Rightarrow> u16" where
  "u16_at i bs = ucast (bs ! i) OR push_bit 8 (ucast (bs ! (i + 1)))"

definition u32_at :: "nat \<Rightarrow> u8 list \<Rightarrow> u32" where
  "u32_at i bs = ucast (bs ! i) OR push_bit 8 (ucast (bs ! (i + 1))) OR push_bit 16 (ucast (bs ! (i + 2))) OR push_bit 24 (ucast (bs ! (i + 3)))"

definition scan_done :: "'s bus \<Rightarrow> u32 \<Rightarrow> 's wifi \<Rightarrow> 's wifi" where
  "scan_done B addr s =
     (case hif_receive B addr False 4 False (s\<lparr>gu8scanInProgress := False\<rparr>) of (r, bs, s1) \<Rightarrow>
        if r = M2M_SUCCESS then tell M2M_WIFI_RESP_SCAN_DONE (Some bs) (s1\<lparr>gu8ChNum := bs ! 0\<rparr>) else s1)"

definition ip_conflict :: "'s bus \<Rightarrow> u32 \<Rightarrow> 's wifi \<Rightarrow> 's wifi" where
  "ip_conflict B addr s = (case hif_receive B addr False 4 False s of (r, bs, s1) \<Rightarrow> if r = M2M_SUCCESS then tell M2M_WIFI_RESP_IP_CONFLICT None s1 else s1)"

text \<open>The random bytes go to the address that is in the answer.\<close>

definition random_bytes :: "'s bus \<Rightarrow> u32 \<Rightarrow> 's wifi \<Rightarrow> 's wifi" where
  "random_bytes B addr s =
     (case hif_receive B addr False 8 False s of (r, bs, s1) \<Rightarrow>
        if r \<noteq> M2M_SUCCESS then s1
        else let p = u32_at 0 bs in
          case hif_receive B (addr + 8) (p = 0) (u16_at 4 bs) True s1 of (r2, rnd, s2) \<Rightarrow>
            let s3 = s2\<lparr>app_evs := app_evs s2 @ [RandomBytes p rnd]\<rparr>
            in if r2 = M2M_SUCCESS then tell M2M_WIFI_RESP_GET_PRNG (Some bs) s3 else s3)"

text \<open>
  A frame, piece by piece, to where the glue wants it. The loop ends because a turn that takes nothing while something remains is an error of
  \<open>hif_receive\<close>.
\<close>

lemma unat_u16_less: "unat (x :: u16) < 65536"
  by (rule less_le_trans [OF unsigned_less]) simp

lemma receive_nothing: "hif_receive B addr null 0 False s = (M2M_ERR_FAIL, [], s)"
  by (simp add: hif_receive_def)

function eth_packet_loop :: "pool \<Rightarrow> (heap \<Rightarrow> nat \<Rightarrow> bool) \<Rightarrow> 's bus \<Rightarrow> u32 \<Rightarrow> u16 \<Rightarrow> u16 \<Rightarrow> 's wifi \<Rightarrow> 's wifi res" where
  "eth_packet_loop pool input_ok B addr off remaining s =
     (let more = rcv_size (netif s) < unat remaining; sz = (if more then of_nat (rcv_size (netif s)) else remaining); rest = remaining - sz
      in case hif_receive B (addr + ucast off) False sz (\<not> more) s of (r, bs, s1) \<Rightarrow>
        let s2 = s1\<lparr>netif := land_bytes bs (netif s1)\<rparr>
        in if r \<noteq> M2M_SUCCESS then Inr s2
           else (case winc_netif_rx_callback pool input_ok (unat sz) (unat rest) (netif s2) of
                   Inl e \<Rightarrow> Inl e
                 | Inr w \<Rightarrow> if rest = 0 then Inr (s2\<lparr>netif := w\<rparr>) else eth_packet_loop pool input_ok B addr (off + sz) rest (s2\<lparr>netif := w\<rparr>)))"
  by pat_completeness auto
termination
proof (relation "measure (\<lambda>(_, _, _, _, _, remaining, _). unat remaining)", simp, goal_cases)
  case (1 pool input_ok B addr off remaining s more sz rest r rbs bs s1 s2 w)
  then have sz: "sz = (if rcv_size (netif s) < unat remaining then of_nat (rcv_size (netif s)) else remaining)" by simp
  have lt: "rcv_size (netif s) < unat remaining \<Longrightarrow> unat (of_nat (rcv_size (netif s)) :: u16) = rcv_size (netif s)"
    using unat_u16_less [of remaining] by (simp add: unsigned_of_nat take_bit_nat_eq_self)
  then have le: "sz \<le> remaining" unfolding sz by (auto simp: word_le_nat_alt)
  have "sz \<noteq> 0"
  proof
    assume z: "sz = 0"
    then have "remaining \<noteq> 0" using 1 by auto
    then have "rcv_size (netif s) < unat remaining" using z sz by (auto split: if_splits)
    then show False using 1 z by (auto simp: receive_nothing)
  qed
  then have "0 < unat sz" by (simp add: unat_gt_0)
  then have "unat (remaining - sz) < unat remaining" using le by (simp add: unat_sub word_le_nat_alt)
  then show ?case using 1 by simp
qed

declare eth_packet_loop.simps [simp del]

definition eth_packet :: "pool \<Rightarrow> (heap \<Rightarrow> nat \<Rightarrow> bool) \<Rightarrow> 's bus \<Rightarrow> u32 \<Rightarrow> 's wifi \<Rightarrow> 's wifi res" where
  "eth_packet pool input_ok B addr s =
     (case hif_receive B addr False 4 False s of (r, bs, s1) \<Rightarrow>
        if r = M2M_SUCCESS \<and> app_eth_cb s1 \<and> 0 < rcv_size (netif s1)
        then eth_packet_loop pool input_ok B addr (u16_at 2 bs) (u16_at 0 bs) s1 else Inr s1)"

definition m2m_wifi_cb :: "pool \<Rightarrow> (heap \<Rightarrow> nat \<Rightarrow> bool) \<Rightarrow> 's bus \<Rightarrow> u8 \<Rightarrow> u16 \<Rightarrow> u32 \<Rightarrow> 's wifi \<Rightarrow> 's wifi res" where
  "m2m_wifi_cb pool input_ok B op sz addr s =
     (if op = M2M_WIFI_RESP_CON_STATE_CHANGED then Inr (pass_on B op addr 4 False s)
      else if op = M2M_WIFI_RESP_GET_SYS_TIME then Inr (pass_on B op addr 8 False s)
      else if op = M2M_WIFI_RESP_CONN_INFO then Inr (pass_on B op addr 48 True s)
      else if op = M2M_WIFI_RESP_MEMORY_RECOVER then Inr s
      else if op = M2M_WIFI_REQ_DHCP_CONF then Inr (pass_on B op addr 16 False s)
      else if op = M2M_WIFI_REQ_WPS then Inr (pass_on B op addr 100 False s)
      else if op = M2M_WIFI_RESP_IP_CONFLICT then Inr (ip_conflict B addr s)
      else if op = M2M_WIFI_RESP_SCAN_DONE then Inr (scan_done B addr s)
      else if op = M2M_WIFI_RESP_SCAN_RESULT then Inr (pass_on B op addr 44 False s)
      else if op = M2M_WIFI_RESP_CURRENT_RSSI then Inr (pass_on B op addr 4 False s)
      else if op = M2M_WIFI_RESP_CLIENT_INFO then Inr (pass_on B op addr 4 False s)
      else if op = M2M_WIFI_RESP_PROVISION_INFO then Inr (pass_on B op addr 100 True s)
      else if op = M2M_WIFI_RESP_DEFAULT_CONNECT then Inr (pass_on B op addr 4 True s)
      else if op = M2M_WIFI_RESP_GET_PRNG then Inr (random_bytes B addr s)
      else if op = M2M_WIFI_RESP_ETHERNET_RX_PACKET then eth_packet pool input_ok B addr s
      else Inr s)"

text \<open>The client of the host interface: m2m_wifi.c has the number 1, the empty callback 0.\<close>

definition wifi_client :: "pool \<Rightarrow> (heap \<Rightarrow> nat \<Rightarrow> bool) \<Rightarrow> 's bus \<Rightarrow> nat \<Rightarrow> u8 \<Rightarrow> u16 \<Rightarrow> u32 \<Rightarrow> 's wifi \<Rightarrow> 's wifi res" where
  "wifi_client pool input_ok B f op sz addr s = (if f = 1 then m2m_wifi_cb pool input_ok B op sz addr s else Inr s)"

text \<open>A driver that has been started.\<close>

definition demo_wifi :: "nmspi wifi" where
  "demo_wifi = \<lparr>bus_st = demo_spi, gu8ChipMode = 0, gu8ChipSleep = 0, gu8HifSizeDone = False, gu8Interrupt = 0, callback = (\<lambda>_. None)(GROUP_WIFI := Some 1),
     app_wifi_cb = True, app_eth_cb = True, gu8scanInProgress = False, gu8ChNum = 0, netif = init_winc\<lparr>rcv_buf := RxBuf, rcv_size := 254\<rparr>, app_evs = [], chipid = 0\<rparr>"

end
