(* ===== verification/Wifi_Path.thy ===== *)
theory Wifi_Path
  imports M2m_Wifi
begin

text \<open>
  From the interrupt of the WiFi chip to lwIP: a message that the chip offers is read by \<open>hif_isr\<close>, \<open>m2m_wifi_cb\<close> and the glue of winc1500netif.c. On a bus that keeps
  its contract the loop over the pieces of a frame is the one of Winc_Netif, so a frame in the chip's memory reaches lwIP unchanged.
\<close>

section \<open>What a step leaves alone\<close>

definition carried :: "('s \<Rightarrow> bool) \<Rightarrow> ('s \<Rightarrow> bus_op list) \<Rightarrow> 's wifi \<Rightarrow> bus_op list \<Rightarrow> 's wifi \<Rightarrow> bool" where
  "carried ready dn s os t \<longleftrightarrow> ready (bus_st t) \<and> dn (bus_st t) = dn (bus_st s) @ os \<and> gu8ChipMode t = gu8ChipMode s \<and>
     gu8ChipSleep t = gu8ChipSleep s \<and> gu8Interrupt t = gu8Interrupt s \<and> callback t = callback s \<and>
     app_wifi_cb t = app_wifi_cb s \<and> app_eth_cb t = app_eth_cb s \<and> gu8scanInProgress t = gu8scanInProgress s \<and> gu8ChNum t = gu8ChNum s \<and> app_evs t = app_evs s"

lemma carried_trans: "carried ready dn s os t \<Longrightarrow> carried ready dn t os' u \<Longrightarrow> carried ready dn s (os @ os') u"
  by (simp add: carried_def)

lemma more_wifi:
  assumes "hif.more t = hif.more s"
  shows "netif t = netif s" "app_wifi_cb t = app_wifi_cb s" "app_eth_cb t = app_eth_cb s" "gu8scanInProgress t = gu8scanInProgress s"
    "gu8ChNum t = gu8ChNum s" "app_evs t = app_evs s"
  using assms by (cases s; cases t; simp)+

lemma took_carried: "took ready dn s os t \<Longrightarrow> carried ready dn s os t \<and> netif t = netif s"
  using more_wifi [of t s] by (simp add: took_def carried_def)

lemma carried_netif: "carried ready dn s os t \<Longrightarrow> carried ready dn s os (t\<lparr>netif := w\<rparr>)"
  by (simp add: carried_def)

section \<open>A piece of the message\<close>

lemma unat_small_u16: "n < 65536 \<Longrightarrow> unat (of_nat n :: u16) = n"
  by (simp add: unsigned_of_nat take_bit_nat_eq_self)

lemma offers_mem: "offers reg mem os a msg \<Longrightarrow> still os' \<Longrightarrow> i + n \<le> length msg \<Longrightarrow> mem (os @ os') (a + of_nat i) n = take n (drop i msg)"
  by (simp add: offers_def)

context host_bus
begin

lemma receive_piece:
  assumes "ready (bus_st s)" "offers reg mem (dn (bus_st s)) a msg" "unat a + 4096 \<le> 2 ^ 24" "0 < n" "i + n \<le> length msg"
  shows "\<exists>t os fin. hif_receive B (a + of_nat i) False (of_nat n) isDone s = (M2M_SUCCESS, take n (drop i msg), t) \<and>
    took ready dn s (os @ fin) t \<and> still os \<and>
    (if i + n = length msg \<or> isDone then rx_done_ops fin \<and> gu8HifSizeDone t else fin = [] \<and> gu8HifSizeDone t = gu8HifSizeDone s)"
proof -
  let ?os = "dn (bus_st s)"
  let ?looks = "[ReadReg WIFI_HOST_RCV_CTRL_0, ReadReg WIFI_HOST_RCV_CTRL_1]"
  have o: "0 < a" "length msg < 4096" "\<And>os'. still os' \<Longrightarrow> unat (reg_size (reg (?os @ os') WIFI_HOST_RCV_CTRL_0)) = length msg"
    "\<And>os'. still os' \<Longrightarrow> reg (?os @ os') WIFI_HOST_RCV_CTRL_1 = a"
    "\<And>os' i n. still os' \<Longrightarrow> i + n \<le> length msg \<Longrightarrow> mem (?os @ os') (a + of_nat i) n = take n (drop i msg)"
    using assms(2) unfolding offers_def by blast+
  have i: "i < 4096" "n < 65536" using assms(4,5) o(2) by simp_all
  then have ui: "unat (a + of_nat i) = unat a + i" using assms(3) by (simp add: unat_word_ariths unsigned_of_nat take_bit_nat_eq_self)
  have un: "unat (of_nat n :: u16) = n" using i(2) by (rule unat_small_u16)
  have nz: "a + of_nat i \<noteq> 0" using o(1) ui by (metis add_is_0 unat_eq_zero unsigned_0 word_gt_0)
  have n0: "(of_nat n :: u16) \<noteq> 0" using un assms(4) by auto
  have s0: "unat (reg_size (reg ?os WIFI_HOST_RCV_CTRL_0)) = length msg" "reg (?os @ [ReadReg WIFI_HOST_RCV_CTRL_0]) WIFI_HOST_RCV_CTRL_1 = a"
    using o(3) [of "[]"] o(4) [of "[ReadReg WIFI_HOST_RCV_CTRL_0]"] by simp_all
  have le: "a \<le> a + of_nat i" "unat a + i + n \<le> unat a + length msg" using ui assms(5) by (simp_all add: word_le_nat_alt)
  have big: "unat (a + of_nat i) + unat (of_nat n :: u16) < 2 ^ 32" using ui un i assms(3) by simp
  have m: "mem (?os @ ?looks) (a + of_nat i) n = take n (drop i msg)" by (rule o(5)) (simp_all add: assms(5))
  have st: "still (?looks @ read_ops (a + of_nat i) n)" by simp
  obtain t fin where t: "hif_receive B (a + of_nat i) False (of_nat n) isDone s = (M2M_SUCCESS, take n (drop i msg), t)"
    "took ready dn s (?looks @ read_ops (a + of_nat i) n @ fin) t"
    "if unat a + i + n = unat a + length msg \<or> isDone then rx_done_ops fin \<and> gu8HifSizeDone t else fin = [] \<and> gu8HifSizeDone t = gu8HifSizeDone s"
    using receive_cases [OF assms(1) nz n0 big, of isDone] assms(3) le unfolding s0 un ui m by blast
  then show ?thesis using st by (intro exI [of _ t] exI [of _ "?looks @ read_ops (a + of_nat i) n"] exI [of _ fin]) (simp add: add.assoc)
qed

end

section \<open>The loop over a frame\<close>

lemma eth_loop_step:
  "eth_loop pool input_ok (\<lambda>_. True) (Suc fuel) data w =
    (let n = min (length data) (rcv_size w)
     in case winc_netif_rx_callback pool input_ok n (length data - n) (land_bytes (take n data) w) of
          Inl e \<Rightarrow> Inl e
        | Inr w1 \<Rightarrow> if length data - n = 0 then Inr w1 else eth_loop pool input_ok (\<lambda>_. True) fuel (drop n data) w1)"
  by (simp add: Let_def split: sum.split)

lemma eth_packet_turn:
  assumes "sz = (if rcv_size (netif s) < unat remaining then of_nat (rcv_size (netif s)) else remaining)"
    and "hif_receive B (addr + ucast off) False sz (\<not> rcv_size (netif s) < unat remaining) s = (M2M_SUCCESS, bs, t)"
    and "winc_netif_rx_callback pool input_ok (unat sz) (unat (remaining - sz)) (land_bytes bs (netif t)) = Inr w"
  shows "eth_packet_loop pool input_ok B addr off remaining s =
    (if remaining - sz = 0 then Inr (t\<lparr>netif := w\<rparr>) else eth_packet_loop pool input_ok B addr (off + sz) (remaining - sz) (t\<lparr>netif := w\<rparr>))"
  unfolding eth_packet_loop.simps [of _ _ _ _ _ _ s] Let_def assms(1) [symmetric] using assms(2,3) by simp

lemma winc_ok_size: "winc_ok w \<Longrightarrow> 0 < rcv_size w \<and> rcv_size w \<le> 256"
  by (auto simp: winc_ok_def split: option.splits)

lemma callback_keeps:
  assumes "winc_ok w" "pool_ok pool" "n \<le> rcv_size w" "length bs = n"
  shows "\<exists>w1. winc_netif_rx_callback pool input_ok n rest (land_bytes bs w) = Inr w1 \<and> winc_ok w1"
proof -
  have "rcv_size (land_bytes bs w) = rcv_size w" by (simp add: land_bytes_def set_block_def split: place.splits)
  then show ?thesis using callback_ok [OF winc_ok_hif [OF assms(1)] assms(2), of bs n input_ok rest] assms(3,4) by simp
qed

context host_bus
begin

text \<open>A turn of the loop is a turn of the loop of Winc_Netif, and a piece that is read.\<close>

lemma frame_turn:
  fixes s :: "'s wifi"
  assumes "ready (bus_st s)" "offers reg mem (dn (bus_st s)) a msg" "unat a + 4096 \<le> 2 ^ 24" "winc_ok (netif s)" "pool_ok pool"
    and "data \<noteq> []" "i + length data \<le> length msg" "take (length data) (drop i msg) = data" "8 \<le> i"
  obtains t os fin w1 where "carried ready dn s (os @ fin) t" "netif t = netif s" "still os" "winc_ok w1"
    "if i + min (length data) (rcv_size (netif s)) = length msg \<or> length data - min (length data) (rcv_size (netif s)) = 0 then rx_done_ops fin \<and> gu8HifSizeDone t else fin = [] \<and> gu8HifSizeDone t = gu8HifSizeDone s"
    "eth_packet_loop pool input_ok B (a + 8) (of_nat (i - 8)) (of_nat (length data)) s =
      (if length data - min (length data) (rcv_size (netif s)) = 0 then Inr (t\<lparr>netif := w1\<rparr>)
       else eth_packet_loop pool input_ok B (a + 8) (of_nat (i - 8) + of_nat (min (length data) (rcv_size (netif s)))) (of_nat (length data - min (length data) (rcv_size (netif s)))) (t\<lparr>netif := w1\<rparr>))"
    "\<And>fuel. eth_loop pool input_ok (\<lambda>_. True) (Suc fuel) data (netif s) =
      (if length data - min (length data) (rcv_size (netif s)) = 0 then Inr w1 else eth_loop pool input_ok (\<lambda>_. True) fuel (drop (min (length data) (rcv_size (netif s))) data) w1)"
proof -
  let ?n = "min (length data) (rcv_size (netif s))"
  have len: "length data < 4096" "i < 4096" using assms(2,6,7) by (auto simp: offers_def)
  have rs: "0 < rcv_size (netif s)" "rcv_size (netif s) \<le> 256" using winc_ok_size [OF assms(4)] by simp_all
  have n: "0 < ?n" "i + ?n \<le> length msg" using rs assms(6,7) by simp_all
  have ud: "unat (of_nat (length data) :: u16) = length data" "unat (of_nat ?n :: u16) = ?n" by (rule unat_small_u16; use len in simp)+
  have piece: "take ?n (drop i msg) = take ?n data" using assms(8) by (metis min.cobounded1 take_take min.absorb1)
  have addr: "a + 8 + ucast (of_nat (i - 8) :: u16) = a + of_nat i"
  proof -
    have "(ucast (of_nat (i - 8) :: u16) :: u32) = of_nat (i - 8)"
      using len by (simp add: word_eq_iff_unsigned unsigned_ucast_eq unsigned_of_nat take_bit_nat_eq_self)
    then show ?thesis using assms(9) by (simp add: of_nat_diff)
  qed
  have sz: "(if rcv_size (netif s) < unat (of_nat (length data) :: u16) then of_nat (rcv_size (netif s)) else of_nat (length data)) = (of_nat ?n :: u16)"
    unfolding ud by (simp add: min_def)
  have more: "rcv_size (netif s) < length data \<longleftrightarrow> length data - ?n \<noteq> 0" by (simp add: min_def)
  have rest: "(of_nat (length data) :: u16) - of_nat ?n = of_nat (length data - ?n)" by (simp add: of_nat_diff)
  have ur: "unat (of_nat (length data - ?n) :: u16) = length data - ?n" by (rule unat_small_u16) (use len in simp)
  have rest0: "(of_nat (length data - ?n) :: u16) = 0 \<longleftrightarrow> length data - ?n = 0" using ur by (metis of_nat_0 unat_eq_zero)
  obtain t os fin where t: "hif_receive B (a + of_nat i) False (of_nat ?n) (\<not> length data - ?n \<noteq> 0) s = (M2M_SUCCESS, take ?n data, t)"
    "took ready dn s (os @ fin) t" "still os"
    "if i + ?n = length msg \<or> length data - ?n = 0 then rx_done_ops fin \<and> gu8HifSizeDone t else fin = [] \<and> gu8HifSizeDone t = gu8HifSizeDone s"
    using receive_piece [OF assms(1,2) assms(3) n, of "\<not> length data - ?n \<noteq> 0"] unfolding piece by auto
  have tr: "carried ready dn s (os @ fin) t" "netif t = netif s" using took_carried [OF t(2)] by simp_all
  obtain w1 where w1: "winc_netif_rx_callback pool input_ok ?n (length data - ?n) (land_bytes (take ?n data) (netif s)) = Inr w1" "winc_ok w1"
    using callback_keeps [OF assms(4) assms(5), of ?n "take ?n data"] by auto
  let ?t = "t\<lparr>netif := w1\<rparr>"
  have step: "eth_packet_loop pool input_ok B (a + 8) (of_nat (i - 8)) (of_nat (length data)) s =
      (if length data - ?n = 0 then Inr ?t
       else eth_packet_loop pool input_ok B (a + 8) (of_nat (i - 8) + of_nat ?n) (of_nat (length data - ?n)) ?t)"
    using eth_packet_turn [OF sz [symmetric], of B "a + 8" "of_nat (i - 8)" "take ?n data" t pool input_ok w1] w1(1) t(1) tr(2)
    unfolding addr ud rest ur rest0 more by simp
  have spec: "eth_loop pool input_ok (\<lambda>_. True) (Suc fuel) data (netif s) =
      (if length data - ?n = 0 then Inr w1 else eth_loop pool input_ok (\<lambda>_. True) fuel (drop ?n data) w1)" for fuel
    unfolding eth_loop_step Let_def w1(1) by simp
  show thesis by (rule that [OF tr t(3) w1(2) t(4) step spec])
qed

lemma frame_loop:
  assumes "ready (bus_st s)" "offers reg mem (dn (bus_st s)) a msg" "unat a + 4096 \<le> 2 ^ 24" "winc_ok (netif s)" "pool_ok pool"
    and "data \<noteq> []" "i + length data \<le> length msg" "take (length data) (drop i msg) = data" "length data < fuel" "8 \<le> i"
  shows "\<exists>w t os fin. eth_loop pool input_ok (\<lambda>_. True) fuel data (netif s) = Inr w \<and>
    eth_packet_loop pool input_ok B (a + 8) (of_nat (i - 8)) (of_nat (length data)) s = Inr t \<and> netif t = w \<and>
    carried ready dn s (os @ fin) t \<and> still os \<and> rx_done_ops fin \<and> gu8HifSizeDone t"
  using assms(1,2,4,6-)
proof (induction fuel arbitrary: s data i)
  case (Suc fuel)
  let ?n = "min (length data) (rcv_size (netif s))"
  obtain t os fin w1 where tr: "carried ready dn s (os @ fin) t" "netif t = netif s" and os: "still os" and w1: "winc_ok w1"
    and fin: "if i + ?n = length msg \<or> length data - ?n = 0 then rx_done_ops fin \<and> gu8HifSizeDone t else fin = [] \<and> gu8HifSizeDone t = gu8HifSizeDone s"
    and step: "eth_packet_loop pool input_ok B (a + 8) (of_nat (i - 8)) (of_nat (length data)) s =
      (if length data - ?n = 0 then Inr (t\<lparr>netif := w1\<rparr>)
       else eth_packet_loop pool input_ok B (a + 8) (of_nat (i - 8) + of_nat ?n) (of_nat (length data - ?n)) (t\<lparr>netif := w1\<rparr>))"
    and spec: "\<And>fuel. eth_loop pool input_ok (\<lambda>_. True) (Suc fuel) data (netif s) =
      (if length data - ?n = 0 then Inr w1 else eth_loop pool input_ok (\<lambda>_. True) fuel (drop ?n data) w1)"
    by (rule frame_turn [OF Suc.prems(1,2) assms(3) Suc.prems(3) assms(5) Suc.prems(4,5,6,8), where input_ok = input_ok]) (rule that)
  let ?t = "t\<lparr>netif := w1\<rparr>"
  have n: "0 < ?n" "i + ?n \<le> length msg" using winc_ok_size [OF Suc.prems(3)] Suc.prems(4,5) by simp_all
  show ?case
  proof (cases "length data - ?n = 0")
    case True
    then show ?thesis using step spec os fin carried_netif [OF tr(1)] by (intro exI [of _ w1] exI [of _ ?t] exI [of _ os] exI [of _ fin]) simp
  next
    case False
    then have f: "fin = []" "i + ?n < length msg" using fin n(2) Suc.prems(5) by (auto split: if_splits)
    have off: "(of_nat (i - 8) + of_nat ?n :: u16) = of_nat (i + ?n - 8)" using Suc.prems(8) by (simp add: of_nat_diff)
    have dl: "length (drop ?n data) = length data - ?n" by simp
    have "\<exists>w u os2 fin2. eth_loop pool input_ok (\<lambda>_. True) fuel (drop ?n data) (netif ?t) = Inr w \<and>
        eth_packet_loop pool input_ok B (a + 8) (of_nat (i + ?n - 8)) (of_nat (length (drop ?n data))) ?t = Inr u \<and> netif u = w \<and>
        carried ready dn ?t (os2 @ fin2) u \<and> still os2 \<and> rx_done_ops fin2 \<and> gu8HifSizeDone u"
    proof (rule Suc.IH)
      show "ready (bus_st ?t)" using tr(1) by (simp add: carried_def)
      have "dn (bus_st ?t) = dn (bus_st s) @ os" using tr(1) f(1) by (simp add: carried_def)
      then show "offers reg mem (dn (bus_st ?t)) a msg" using offers_later [OF Suc.prems(2) os] by simp
      show "take (length (drop ?n data)) (drop (i + ?n) msg) = drop ?n data"
      proof -
        have "drop ?n data = drop ?n (take (length data) (drop i msg))" using Suc.prems(6) by simp
        also have "\<dots> = take (length data - ?n) (drop (i + ?n) msg)" by (simp only: drop_take drop_drop add.commute)
        finally show ?thesis unfolding dl by (rule sym)
      qed
    qed (use False w1 Suc.prems n in auto)
    then obtain w u os2 fin2 where u: "eth_loop pool input_ok (\<lambda>_. True) fuel (drop ?n data) w1 = Inr w"
      "eth_packet_loop pool input_ok B (a + 8) (of_nat (i + ?n - 8)) (of_nat (length data - ?n)) ?t = Inr u" "netif u = w"
      "carried ready dn ?t (os2 @ fin2) u" "still os2" "rx_done_ops fin2" "gu8HifSizeDone u" unfolding dl by auto
    have "carried ready dn s (os @ os2 @ fin2) u"
      using carried_trans [OF carried_netif [OF tr(1)] u(4)] f(1) by simp
    then show ?thesis using step spec False u off os
      by (intro exI [of _ w] exI [of _ u] exI [of _ "os @ os2"] exI [of _ fin2]) simp
  qed
qed simp

end

section \<open>The interrupt\<close>

text \<open>A message with an Ethernet frame: the header of the host interface, size and offset of the frame, and the frame somewhere behind them.\<close>

definition eth_message :: "u8 list \<Rightarrow> u8 list \<Rightarrow> bool" where
  "eth_message msg frame \<longleftrightarrow> (\<exists>off. 4 \<le> off \<and> frame \<noteq> [] \<and> 8 + off + length frame \<le> length msg \<and>
     msg ! 0 = GROUP_WIFI \<and> msg ! 1 = M2M_WIFI_RESP_ETHERNET_RX_PACKET \<and> u16_at 2 msg = of_nat (length msg) \<and>
     u16_at 8 msg = of_nat (length frame) \<and> u16_at 10 msg = of_nat off \<and> take (length frame) (drop (8 + off) msg) = frame)"

lemma reg_size_flag: "reg_size (v AND NOT 1) = reg_size v"
proof -
  have "drop_bit 2 (v AND NOT 1) = drop_bit 2 v"
    by (rule bit_word_eqI)
      (auto simp only: bit_drop_bit_eq comp_apply bit_and_iff bit_not_iff bit_1_iff possible_bit_word dest: bit_imp_le_length)
  then show ?thesis by (simp add: reg_size_def)
qed

lemma flag_bits:
  assumes "v AND 3 = (1 :: u32)"
  shows "v AND 1 \<noteq> 0" "(v AND NOT 1) AND 2 = 0"
proof -
  have b: "bit (v AND 3) n = bit (1 :: u32) n" for n using assms by simp
  have b0: "bit v 0" using b [of 0] by (simp add: bit_simps)
  have b1: "\<not> bit v 1" using b [of 1] by (simp add: bit_simps)
  have "bit (v AND 1) 0" using b0 by (simp add: bit_simps)
  then show "v AND 1 \<noteq> 0" by (metis bit_0_eq bot2E bot_fun_def)
  show "(v AND NOT 1) AND 2 = 0"
  proof (rule bit_word_eqI)
    fix n
    have "bit (2 :: u32) n \<longleftrightarrow> n = 1" if "n < 32" for n using that by (simp add: bit_2_iff)
    then show "bit ((v AND NOT 1) AND 2) n = bit 0 n" if "n < LENGTH(32)" for n using that b1 by (auto simp: bit_simps)
  qed
qed

lemma u16_at_take: "i + 1 < n \<Longrightarrow> n \<le> length m \<Longrightarrow> u16_at i (take n m) = u16_at i m"
  by (simp add: u16_at_def)

lemma u16_at_drop: "k + i + 1 < length m \<Longrightarrow> u16_at i (drop k m) = u16_at (k + i) m"
  by (simp add: u16_at_def add.assoc)

lemma rcv_room: "winc_ok w \<Longrightarrow> 0 < rcv_size w"
  using winc_ok_size by blast

context host_bus
begin

lemma eth_packet_ok:
  assumes "ready (bus_st s)" "offers reg mem (dn (bus_st s)) a msg" "unat a + 4096 \<le> 2 ^ 24" "winc_ok (netif s)" "pool_ok pool"
    and "eth_message msg frame" "app_eth_cb s"
  shows "\<exists>w t os fin. receive_packet pool input_ok (\<lambda>_. True) frame (netif s) = Inr w \<and> eth_packet pool input_ok B (a + 8) s = Inr t \<and> netif t = w \<and>
    carried ready dn s (os @ fin) t \<and> still os \<and> rx_done_ops fin \<and> gu8HifSizeDone t"
proof -
  obtain off where m: "4 \<le> off" "frame \<noteq> []" "8 + off + length frame \<le> length msg" "u16_at 8 msg = of_nat (length frame)" "u16_at 10 msg = of_nat off"
    "take (length frame) (drop (8 + off) msg) = frame" using assms(6) unfolding eth_message_def by blast
  have "1 \<le> length frame" using m(2) by (cases frame) simp_all
  then have "12 < length msg" using m(1,3) by linarith
  then have i: "8 + 4 \<le> length msg" "\<not> (8 + 4 = length msg \<or> False)" by simp_all
  obtain t os fin where t: "hif_receive B (a + of_nat 8) False (of_nat 4) False s = (M2M_SUCCESS, take 4 (drop 8 msg), t)"
    "took ready dn s (os @ fin) t" "still os" "fin = []"
    using receive_piece [OF assms(1-3), of 4 8 False] i by auto
  have tr: "carried ready dn s os t" "netif t = netif s" using took_carried [OF t(2)] t(4) by simp_all
  have flds: "u16_at 0 (take 4 (drop 8 msg)) = of_nat (length frame)" "u16_at 2 (take 4 (drop 8 msg)) = of_nat (8 + off - 8)"
    using m(4,5) i by (simp_all add: u16_at_take u16_at_drop)
  have "offers reg mem (dn (bus_st t)) a msg" using offers_later [OF assms(2) t(3)] tr(1) by (simp add: carried_def)
  then obtain w u os2 fin2 where u: "eth_loop pool input_ok (\<lambda>_. True) (Suc (length frame)) frame (netif t) = Inr w"
    "eth_packet_loop pool input_ok B (a + 8) (of_nat (8 + off - 8)) (of_nat (length frame)) t = Inr u" "netif u = w"
    "carried ready dn t (os2 @ fin2) u" "still os2" "rx_done_ops fin2" "gu8HifSizeDone u"
    using frame_loop [of t a msg pool frame "8 + off" "Suc (length frame)" input_ok] tr assms(3-5) m(2,3,6) by (auto simp: carried_def)
  have eth: "app_eth_cb t" "0 < rcv_size (netif t)" using tr assms(4,7) rcv_room by (simp_all add: carried_def)
  have "eth_packet pool input_ok B (a + 8) s = Inr u"
    using t(1) eth u(2) by (simp add: eth_packet_def flds del: take_drop)
  then show ?thesis using u t(3) tr carried_trans [OF tr(1) u(4)] unfolding receive_packet_def
    by (intro exI [of _ w] exI [of _ u] exI [of _ "os @ os2"] exI [of _ fin2]) simp
qed

lemma isr_delivers:
  assumes "ready (bus_st s)" "awake s" "callback s GROUP_WIFI = Some 1" "app_eth_cb s" "winc_ok (netif s)" "pool_ok pool"
    and "offers reg mem (dn (bus_st s)) a msg" "unat a + 4096 \<le> 2 ^ 24" "reg (dn (bus_st s)) WIFI_HOST_RCV_CTRL_0 AND 3 = 1" "eth_message msg frame"
  shows "\<exists>w t os fin. receive_packet pool input_ok (\<lambda>_. True) frame (netif s) = Inr w \<and>
    hif_isr B (wifi_client pool input_ok B) s = Some (Inr (M2M_SUCCESS, of_nat (length msg), t)) \<and> netif t = w \<and>
    carried ready dn (s\<lparr>gu8ChipSleep := gu8ChipSleep s + 1\<rparr>) (os @ fin) t \<and> still os \<and> rx_done_ops fin"
proof -
  let ?s0 = "s\<lparr>gu8ChipSleep := gu8ChipSleep s + 1\<rparr>"
  let ?v = "reg (dn (bus_st s)) WIFI_HOST_RCV_CTRL_0"
  let ?c = "[ReadReg WIFI_HOST_RCV_CTRL_0, WriteReg WIFI_HOST_RCV_CTRL_0 (?v AND NOT 1)]"
  note fl = flag_bits [OF assms(9)]
  obtain s1 where s1: "rd B WIFI_HOST_RCV_CTRL_0 ?s0 = (M2M_SUCCESS, Some ?v, s1)" "go ?s0 [ReadReg WIFI_HOST_RCV_CTRL_0] s1"
    using rd_ok [of ?s0 WIFI_HOST_RCV_CTRL_0] assms(1) by auto
  obtain s2 where s2: "wr B WIFI_HOST_RCV_CTRL_0 (?v AND NOT 1) s1 = (M2M_SUCCESS, s2)" "go s1 [WriteReg WIFI_HOST_RCV_CTRL_0 (?v AND NOT 1)] s2"
    using wr_ok [OF moved_ready [OF s1(2)], of WIFI_HOST_RCV_CTRL_0 "?v AND NOT 1"] by auto
  let ?s3 = "s2\<lparr>gu8HifSizeDone := False\<rparr>"
  have r3: "took ready dn ?s0 ?c ?s3" using took_set_flag [OF moved_took [OF moved_trans [OF s1(2) s2(2)]]] by simp
  have stc: "still ?c" using fl(2) by (simp add: still_def)
  have o3: "offers reg mem (dn (bus_st ?s3)) a msg" using offers_later [OF assms(7) stc] r3 by (simp add: took_def)
  have len: "length msg < 4096" "unat (reg_size ?v) = length msg" "0 < a"
    using assms(7) unfolding offers_def by (auto dest: spec [of _ "[]"])
  obtain off where m: "4 \<le> off" "frame \<noteq> []" "8 + off + length frame \<le> length msg" "msg ! 0 = GROUP_WIFI" "msg ! 1 = M2M_WIFI_RESP_ETHERNET_RX_PACKET"
    "u16_at 2 msg = of_nat (length msg)" using assms(10) unfolding eth_message_def by blast
  have sz: "reg_size (?v AND NOT 1) = of_nat (length msg)"
    unfolding reg_size_flag word_unat_eq_iff using len unat_small_u16 [of "length msg"] by simp
  have nz: "(of_nat (length msg) :: u16) \<noteq> 0" using m(1,3) len(1) unat_small_u16 [of "length msg"] by auto
  obtain s4 where s4: "rd B WIFI_HOST_RCV_CTRL_1 ?s3 = (M2M_SUCCESS, Some a, s4)" "go ?s3 [ReadReg WIFI_HOST_RCV_CTRL_1] s4"
    using rd_ok [of ?s3 WIFI_HOST_RCV_CTRL_1] r3 o3 unfolding offers_def took_def by (auto dest: spec [of _ "[]"])
  have d4: "dn (bus_st s4) = dn (bus_st ?s3) @ [ReadReg WIFI_HOST_RCV_CTRL_1]" using s4(2) by (simp add: moved_def took_def)
  have "mem (dn (bus_st s4)) a 4 = take 4 msg"
  proof -
    have "mem (dn (bus_st ?s3) @ [ReadReg WIFI_HOST_RCV_CTRL_1]) (a + of_nat 0) 4 = take 4 (drop 0 msg)"
      by (rule offers_mem [OF o3]) (use m(1,3) in simp_all)
    then show ?thesis by (simp add: d4)
  qed
  then obtain s5 where s5: "rdb B a 4 s4 = (M2M_SUCCESS, take 4 msg, s5)" "go s4 (read_ops a 4) s5"
    using rdb_ok [OF moved_ready [OF s4(2)], of 4 a] assms(8) by auto
  let ?os = "?c @ [ReadReg WIFI_HOST_RCV_CTRL_1] @ read_ops a 4"
  have r5: "took ready dn ?s0 ?os s5" using took_trans [OF r3 moved_took [OF moved_trans [OF s4(2) s5(2)]]] by simp
  have "still ([ReadReg WIFI_HOST_RCV_CTRL_1] @ read_ops a 4)" by simp
  then have st5: "still ?os" using stc unfolding still_append by blast
  have c5: "ready (bus_st s5)" "callback s5 GROUP_WIFI = Some 1" "app_eth_cb s5" "netif s5 = netif s"
    using r5 took_carried [OF r5] assms(3,4) by (simp_all add: took_def carried_def)
  have "offers reg mem (dn (bus_st s5)) a msg" using offers_later [OF assms(7) st5] r5 by (simp add: took_def)
  then obtain w t os fin where t: "receive_packet pool input_ok (\<lambda>_. True) frame (netif s5) = Inr w" "eth_packet pool input_ok B (a + 8) s5 = Inr t"
    "netif t = w" "carried ready dn s5 (os @ fin) t" "still os" "rx_done_ops fin" "gu8HifSizeDone t"
    using eth_packet_ok [OF c5(1) _ assms(8) _ assms(6,10) c5(3), where input_ok = input_ok] assms(5) c5(4) by auto
  have h: "take 4 msg ! 0 = GROUP_WIFI" "take 4 msg ! 1 = M2M_WIFI_RESP_ETHERNET_RX_PACKET"
    "ucast (take 4 msg ! 2) OR push_bit 8 (ucast (take 4 msg ! 3)) = (of_nat (length msg) :: u16)"
    using m(4-6) by (simp_all add: u16_at_def)
  have d: "dispatch (wifi_client pool input_ok B) GROUP_WIFI M2M_WIFI_RESP_ETHERNET_RX_PACKET (of_nat (length msg)) a s5 = Inr (True, t)"
    using c5(2) t(2) by (simp add: dispatch_def wifi_client_def m2m_wifi_cb_def)
  have hm: "handle_message B (wifi_client pool input_ok B) (of_nat (length msg)) ?s3 = Inr (M2M_SUCCESS, t)"
    unfolding handle_message_def s4(1) prod.case option.case s5(1) Let_def h d using t(7) by simp
  have "hif_isr B (wifi_client pool input_ok B) s = Some (Inr (M2M_SUCCESS, of_nat (length msg), t))"
    unfolding hif_isr_def awake_wakes [OF assms(2)] option.case prod.case s1(1) Let_def s2(1) sz using fl(1) nz hm by simp
  moreover have "carried ready dn ?s0 ((?os @ os) @ fin) t" using carried_trans [OF conjunct1 [OF took_carried [OF r5]] t(4)] by simp
  moreover have "still (?os @ os)" using st5 t(5) unfolding still_append by blast
  ultimately show ?thesis using t c5(4) by metis
qed

end

section \<open>From the chip to lwIP\<close>

lemma glue_ready_ok: "glue_ready w \<Longrightarrow> winc_ok w"
  by (auto simp: glue_ready_def winc_ok_def waiting_def building_def pad_def)

lemma plenty_ok: "plenty pool \<Longrightarrow> pool_ok pool"
  unfolding plenty_def pool_ok_def by (metis option.inject)

text \<open>
  C2: Every frame after the first is delivered. The premises are: the glue works with its own buffers (\<open>glue_ready\<close>, which holds from the end of the first frame that got
  a buffer on and is kept here; network.c starts with another buffer, and what becomes of the first frame then is stated in Winc_Netif), the pool has a buffer for every piece
  (\<open>plenty\<close>), the chip keeps the SPI contract, the driver is awake and the callbacks are registered. When the WiFi chip then interrupts with an Ethernet frame in its memory, one
  call of \<open>hif_isr\<close> hands exactly the bytes of the frame to lwIP, in one chain of buffers whose lengths agree; the chip is told that its message has been taken once, after the last
  byte has been read and not before; and bus, driver and glue are ready for the next message.
\<close>

theorem wifi_interrupt_delivers:
  fixes s :: "nmspi wifi"
  assumes "polite fw" "quiet fw" "sync fw c0 (bus_st s)" "awake s" "callback s GROUP_WIFI = Some 1" "app_eth_cb s" "glue_ready (netif s)" "plenty pool"
    and "offers (reg_value fw) (block fw) (done_ops fw c0 (bus_st s)) a msg" "unat a + 4096 \<le> 2 ^ 24"
    and "reg_value fw (done_ops fw c0 (bus_st s)) WIFI_HOST_RCV_CTRL_0 AND 3 = 1" "eth_message msg frame"
  shows "\<exists>t e os fin. hif_isr (spi_bus (answers fw c0) junk) (wifi_client pool input_ok (spi_bus (answers fw c0) junk)) s =
      Some (Inr (M2M_SUCCESS, of_nat (length msg), t)) \<and>
    wevs (netif t) = wevs (netif s) @ [e] \<and> delivers input_ok frame e \<and> glue_ready (netif t) \<and>
    sync fw c0 (bus_st t) \<and> done_ops fw c0 (bus_st t) = done_ops fw c0 (bus_st s) @ os @ fin \<and> still os \<and> rx_done_ops fin \<and>
    awake (t\<lparr>gu8ChipSleep := gu8ChipSleep s\<rparr>) \<and> callback t = callback s \<and> app_eth_cb t \<and> app_evs t = app_evs s"
proof -
  have r: "polite fw \<and> quiet fw \<and> sync fw c0 (bus_st s)" using assms(1-3) by blast
  obtain w t os fin where t: "receive_packet pool input_ok (\<lambda>_. True) frame (netif s) = Inr w"
    "hif_isr (spi_bus (answers fw c0) junk) (wifi_client pool input_ok (spi_bus (answers fw c0) junk)) s = Some (Inr (M2M_SUCCESS, of_nat (length msg), t))"
    "netif t = w" "carried (\<lambda>s. polite fw \<and> quiet fw \<and> sync fw c0 s) (done_ops fw c0) (s\<lparr>gu8ChipSleep := gu8ChipSleep s + 1\<rparr>) (os @ fin) t"
    "still os" "rx_done_ops fin"
    using winc_spi.isr_delivers [OF r assms(4-6) glue_ready_ok [OF assms(7)] plenty_ok [OF assms(8)] assms(9-12), of input_ok junk] by blast
  have "length frame + 2 < 65536" using assms(9,12) unfolding offers_def eth_message_def by auto
  from receive_framed [OF assms(7,8) this, of input_ok] have "framed input_ok (netif s) w (length frame + 2) frame" using t(1) by auto
  from framed_delivers [OF this] obtain e where e: "wevs w = wevs (netif s) @ [e]" "delivers input_ok frame e" "glue_ready w" by blast
  have c: "sync fw c0 (bus_st t)" "done_ops fw c0 (bus_st t) = done_ops fw c0 (bus_st s) @ os @ fin" "callback t = callback s" "app_eth_cb t"
    "app_evs t = app_evs s" "gu8ChipMode t = gu8ChipMode s" using t(4) assms(6) by (simp_all add: carried_def)
  then have "awake (t\<lparr>gu8ChipSleep := gu8ChipSleep s\<rparr>)" using assms(4) by (simp add: awake_def deep_def)
  then show ?thesis using t(2,3,5,6) e c by blast
qed

text \<open>A chip that offers one message.\<close>

definition offering_fw :: "u32 \<Rightarrow> u8 list \<Rightarrow> firmware" where
  "offering_fw a msg = demo_fw\<lparr>reg_value := (\<lambda>os r. if r = WIFI_HOST_RCV_CTRL_0 then push_bit 2 (of_nat (length msg)) OR 1 else if r = WIFI_HOST_RCV_CTRL_1 then a else 0),
     mem_value := (\<lambda>os x. if unat (x - a) < length msg then msg ! unat (x - a) else 0)\<rparr>"

definition demo_msg :: "u8 list" where
  "demo_msg = [1, 29, 72, 0, 0, 0, 0, 0, 60, 0, 4, 0] @ replicate 60 7"

lemma offered_bytes:
  assumes "i + n \<le> length msg" "length msg < 4096"
  shows "block (offering_fw a msg) os (a + of_nat i) n = take n (drop i msg)"
proof (rule nth_equalityI)
  fix j
  assume "j < length (block (offering_fw a msg) os (a + of_nat i) n)"
  then have j: "j < n" by (simp add: block_def)
  have "i + j < 2 ^ 32" using j assms by simp
  then have "unat (of_nat (i + j) :: u32) = i + j" by (simp only: unsigned_of_nat take_bit_nat_eq_self len_num1 len_bit0 len_num0 mult_numeral_1_right) (simp add: take_bit_nat_eq_self)
  then show "block (offering_fw a msg) os (a + of_nat i) n ! j = take n (drop i msg) ! j"
    using j assms by (simp add: block_def offering_fw_def add.assoc)
qed (use assms in \<open>simp add: block_def\<close>)

lemma demo_offer: "offers (reg_value (offering_fw 0x30000 demo_msg)) (block (offering_fw 0x30000 demo_msg)) os 0x30000 demo_msg"
  using offered_bytes [of _ _ demo_msg "0x30000"] unfolding offers_def by (simp add: offering_fw_def demo_msg_def reg_size_def)

lemma wifi_interrupt_delivers_witness:
  "\<exists>t e. hif_isr (spi_bus (answers (offering_fw 0x30000 demo_msg) (demo_chip\<lparr>outq := [], pend := Idle\<rparr>)) 0)
      (wifi_client (\<lambda>_. Some (replicate 256 7)) (\<lambda>_ _. True) (spi_bus (answers (offering_fw 0x30000 demo_msg) (demo_chip\<lparr>outq := [], pend := Idle\<rparr>)) 0)) demo_wifi =
      Some (Inr (M2M_SUCCESS, 72, t)) \<and> wevs (netif t) = [e] \<and> delivers (\<lambda>_ _. True) (replicate 60 7) e"
proof -
  let ?c = "demo_chip\<lparr>outq := [], pend := Idle\<rparr>" and ?fw = "offering_fw 0x30000 demo_msg"
  have p: "polite ?fw" "quiet ?fw" "sync ?fw ?c (bus_st demo_wifi)" "awake demo_wifi" "callback demo_wifi GROUP_WIFI = Some 1" "app_eth_cb demo_wifi"
    by (simp_all add: polite_def quiet_def offering_fw_def demo_fw_def sync_def chip_of_def demo_spi_def demo_chip_def demo_wifi_def awake_def deep_def)
  have g: "glue_ready (netif demo_wifi)" "plenty (\<lambda>_. Some (replicate 256 7))" "wevs (netif demo_wifi) = []"
    by (simp_all add: demo_wifi_def glue_ready_def init_winc_def plenty_def)
  have v: "reg_value ?fw (done_ops ?fw ?c (bus_st demo_wifi)) WIFI_HOST_RCV_CTRL_0 AND 3 = 1" by (simp add: offering_fw_def demo_msg_def)
  have m: "eth_message demo_msg (replicate 60 7)" "of_nat (length demo_msg) = (72 :: u16)"
    by (auto simp: eth_message_def demo_msg_def u16_at_def intro: exI [of _ 4])
  have a: "unat (0x30000 :: u32) + 4096 \<le> 2 ^ 24" by simp
  from wifi_interrupt_delivers [OF p g(1,2) demo_offer a v m(1), of 0 "\<lambda>_ _. True"] show ?thesis unfolding m(2) g(3) by auto
qed

end
