(* ===== verification/M2m_Requests.thy ===== *)
theory M2m_Requests
  imports M2m_Wifi
begin

text \<open>
  m2m_wifi.c, the requests of the application to the WiFi chip: each checks its arguments, lays out a struct and sends it with \<open>hif_send\<close>. Pointers are byte lists up to the end of the
  object they point into, or \<open>None\<close>; \<open>junk\<close> is what the stack holds where a struct has not been set, and \<open>behind\<close> what lies behind the header in \<open>hif_send\<close>.
\<close>

section \<open>Sending a request\<close>

abbreviation "M2M_REQ_DATA_PKT \<equiv> (0x80 :: u8)"
abbreviation "M2M_ERR_SCAN_IN_PROGRESS \<equiv> (-14 :: int)"

abbreviation "M2M_WIFI_SEC_OPEN \<equiv> (1 :: u8)"
abbreviation "M2M_WIFI_SEC_WPA_PSK \<equiv> (2 :: u8)"
abbreviation "M2M_WIFI_SEC_WEP \<equiv> (3 :: u8)"
abbreviation "M2M_WIFI_SEC_802_1X \<equiv> (4 :: u8)"

type_synonym 's sent = "(int \<times> 's wifi) option"

definition send_none :: "'s bus \<Rightarrow> u8 list \<Rightarrow> u8 \<Rightarrow> u8 \<Rightarrow> 's wifi \<Rightarrow> 's sent" where
  "send_none B behind gid op s = hif_send B behind gid op None None 0 s"

definition send_struct :: "'s bus \<Rightarrow> u8 list \<Rightarrow> u8 \<Rightarrow> u8 \<Rightarrow> u8 list \<Rightarrow> 's wifi \<Rightarrow> 's sent" where
  "send_struct B behind gid op ctrl s = hif_send B behind gid op (Some ctrl) None 0 s"

definition refuse :: "int \<Rightarrow> 's wifi \<Rightarrow> 's sent" where
  "refuse r s = Some (r, s)"

definition le2 :: "u16 \<Rightarrow> u8 list" where
  "le2 v = [ucast v, ucast (drop_bit 8 v)]"

section \<open>Connecting\<close>

text \<open>\<open>m2m_strlen\<close> runs behind the object when there is no zero in it; its counter has 16 bits.\<close>

definition m2m_strlen :: "u8 list \<Rightarrow> u16 res" where
  "m2m_strlen m = (if 0 \<in> set m then Inr (of_nat (length (c_str m))) else Inl Overread)"

definition not_hex :: "u8 \<Rightarrow> bool" where
  "not_hex b \<longleftrightarrow> b < 48 \<or> (57 < b \<and> b < 65) \<or> (70 < b \<and> b < 97) \<or> 102 < b"

text \<open>The checks of the key before anything is copied; \<open>Some\<close> is the result of a refusal.\<close>

definition check_key :: "u8 \<Rightarrow> u8 list option \<Rightarrow> int option res" where
  "check_key sec auth =
     (if sec = M2M_WIFI_SEC_OPEN then Inr None
      else case auth of
             None \<Rightarrow> Inr (Some M2M_ERR_FAIL)
           | Some key \<Rightarrow>
               if sec = M2M_WIFI_SEC_WPA_PSK
               then res_bind (m2m_strlen key) (\<lambda>n. Inr (if n = 64 \<and> (\<exists>b \<in> set (take 64 key). not_hex b) then Some M2M_ERR_FAIL else None))
               else Inr None)"

text \<open>The struct tstrM2mWifiConnect: a union of 65 bytes, the kind of security, two bytes of padding, the channel, 33 bytes for the name, a flag and four bytes of padding.\<close>

definition connect_struct :: "u8 list \<Rightarrow> u8 list \<Rightarrow> u8 \<Rightarrow> u16 \<Rightarrow> u8 list \<Rightarrow> bool \<Rightarrow> u8 list" where
  "connect_struct junk auth sec ch name nosave =
     overwrite 0 auth (take 65 junk) @ sec # take 2 (drop 66 junk) @ le2 ch @ name @ (if nosave then 1 else 0) # take 4 (drop 104 junk)"

definition connect_name :: "u8 list \<Rightarrow> u8 list \<Rightarrow> u8 \<Rightarrow> u8 list res" where
  "connect_name junk ssid n =
     res_bind (memcpy (take 33 (drop 70 junk)) ssid (int (unat n))) (\<lambda>a. Inr (a[unat n := 0]))"

text \<open>A WEP key: index and size, both counted down, and the key, whose terminating zero may lie one behind its array, in the padding.\<close>

definition wep_auth :: "u8 list \<Rightarrow> u8 list option res" where
  "wep_auth p =
     (if length p < 32 then Inl Overread
      else let indx = p ! 0 - 1; sz = p ! 1 - 1
           in if 4 \<le> indx then Inr None
              else if sz \<noteq> 10 \<and> sz \<noteq> 26 then Inr None
              else Inr (Some ([indx, sz] @ take (unat (p ! 1)) (drop 2 p) @ [0])))"

text \<open>The bytes that go into the union, or \<open>None\<close> for a refusal.\<close>

definition auth_bytes :: "u8 \<Rightarrow> u8 list option \<Rightarrow> u8 list option res" where
  "auth_bytes sec auth =
     (let p = (case auth of None \<Rightarrow> [] | Some p \<Rightarrow> p) in
      if sec = M2M_WIFI_SEC_WEP then wep_auth p
      else if sec = M2M_WIFI_SEC_WPA_PSK
      then res_bind (m2m_strlen p) (\<lambda>n. Inr (if n = 0 \<or> 65 \<le> n then None else Some (take (unat n + 1) p)))
      else if sec = M2M_WIFI_SEC_802_1X then (if length p < 62 then Inl Overread else Inr (Some (take 62 p)))
      else if sec = M2M_WIFI_SEC_OPEN then Inr (Some [])
      else Inr None)"

definition m2m_wifi_connect_sc ::
  "'s bus \<Rightarrow> u8 list \<Rightarrow> u8 list \<Rightarrow> u8 list \<Rightarrow> u8 \<Rightarrow> u8 \<Rightarrow> u8 list option \<Rightarrow> u16 \<Rightarrow> u8 \<Rightarrow> 's wifi \<Rightarrow> 's sent res" where
  "m2m_wifi_connect_sc B behind junk ssid ssid_len sec auth ch nosave s =
     res_bind (check_key sec auth) (\<lambda>bad.
       case bad of
         Some r \<Rightarrow> Inr (refuse r s)
       | None \<Rightarrow>
           if ssid_len = 0 \<or> 33 \<le> ssid_len then Inr (refuse M2M_ERR_FAIL s)
           else if 13 < ch \<and> ch \<noteq> 255 then Inr (refuse M2M_ERR_FAIL s)
           else res_bind (connect_name junk ssid ssid_len) (\<lambda>name.
             res_bind (auth_bytes sec auth) (\<lambda>a.
               case a of
                 None \<Rightarrow> Inr (refuse M2M_ERR_FAIL s)
               | Some bs \<Rightarrow> Inr (send_struct B behind GROUP_WIFI 40 (connect_struct junk bs sec ch name (nosave \<noteq> 0)) s))))"

definition m2m_wifi_connect :: "'s bus \<Rightarrow> u8 list \<Rightarrow> u8 list \<Rightarrow> u8 list \<Rightarrow> u8 \<Rightarrow> u8 \<Rightarrow> u8 list option \<Rightarrow> u16 \<Rightarrow> 's wifi \<Rightarrow> 's sent res" where
  "m2m_wifi_connect B behind junk ssid ssid_len sec auth ch s = m2m_wifi_connect_sc B behind junk ssid ssid_len sec auth ch 0 s"

definition m2m_wifi_default_connect :: "'s bus \<Rightarrow> u8 list \<Rightarrow> 's wifi \<Rightarrow> 's sent" where
  "m2m_wifi_default_connect B behind s = send_none B behind GROUP_WIFI 41 s"

definition m2m_wifi_disconnect :: "'s bus \<Rightarrow> u8 list \<Rightarrow> 's wifi \<Rightarrow> 's sent" where
  "m2m_wifi_disconnect B behind s = send_none B behind GROUP_WIFI 43 s"

section \<open>Addresses and times\<close>

definition m2m_wifi_set_mac_address :: "'s bus \<Rightarrow> u8 list \<Rightarrow> u8 list \<Rightarrow> u8 list \<Rightarrow> 's wifi \<Rightarrow> 's sent" where
  "m2m_wifi_set_mac_address B behind junk mac s = send_struct B behind GROUP_WIFI 2 (take 6 mac @ take 2 junk) s"

definition m2m_wifi_set_static_ip :: "'s bus \<Rightarrow> u8 list \<Rightarrow> u32 \<Rightarrow> u32 \<Rightarrow> u32 \<Rightarrow> u32 \<Rightarrow> 's wifi \<Rightarrow> 's sent" where
  "m2m_wifi_set_static_ip B behind ip gateway dns subnet s =
     send_struct B behind GROUP_IP 10 (word_bytes ip @ word_bytes gateway @ word_bytes dns @ word_bytes subnet) s"

definition m2m_wifi_enable_dhcp :: "'s bus \<Rightarrow> u8 list \<Rightarrow> bool \<Rightarrow> 's wifi \<Rightarrow> 's sent" where
  "m2m_wifi_enable_dhcp B behind en s = send_none B behind GROUP_IP (if en then 11 else 12) s"

definition m2m_wifi_set_lsn_int :: "'s bus \<Rightarrow> u8 list \<Rightarrow> u8 list \<Rightarrow> 's wifi \<Rightarrow> 's sent" where
  "m2m_wifi_set_lsn_int B behind p s = send_struct B behind GROUP_WIFI 57 (take 4 p) s"

definition m2m_wifi_set_cust_InfoElement :: "'s bus \<Rightarrow> u8 list \<Rightarrow> u8 list option \<Rightarrow> 's wifi \<Rightarrow> 's sent res" where
  "m2m_wifi_set_cust_InfoElement B behind p s =
     (case p of
        None \<Rightarrow> Inr (refuse M2M_ERR_FAIL s)
      | Some e \<Rightarrow>
          if e = [] then Inl Overread
          else if unat (e ! 0) + 1 < 252
          then (if length e < unat (e ! 0) + 1 then Inl Overread else Inr (send_struct B behind GROUP_WIFI (15 OR M2M_REQ_DATA_PKT) (take (unat (e ! 0) + 1) e) s))
          else Inr (refuse M2M_ERR_FAIL s))"

text \<open>The struct's four bytes. A null pointer is reported and used all the same.\<close>

definition m2m_validate_scan_options :: "u8 list option \<Rightarrow> int res" where
  "m2m_validate_scan_options p =
     (case p of
        None \<Rightarrow> Inl Overread
      | Some o' \<Rightarrow>
          if length o' < 4 then Inl Overread
          else Inr (if o' ! 0 < 1 \<or> o' ! 1 < 1 \<or> 2 < o' ! 2 \<or> sint (o' ! 3) < -99 \<or> 0 \<le> sint (o' ! 3) then M2M_ERR_FAIL else M2M_SUCCESS))"

definition m2m_wifi_set_scan_options :: "'s bus \<Rightarrow> u8 list \<Rightarrow> u8 list option \<Rightarrow> 's wifi \<Rightarrow> 's sent res" where
  "m2m_wifi_set_scan_options B behind p s =
     res_bind (m2m_validate_scan_options p) (\<lambda>r.
       Inr (if r = M2M_SUCCESS then send_struct B behind GROUP_WIFI 20 (take 4 (the p)) s else refuse M2M_ERR_FAIL s))"

definition m2m_wifi_set_scan_region :: "'s bus \<Rightarrow> u8 list \<Rightarrow> u8 list \<Rightarrow> u16 \<Rightarrow> 's wifi \<Rightarrow> 's sent" where
  "m2m_wifi_set_scan_region B behind junk region s = send_struct B behind GROUP_WIFI 21 (le2 region @ take 2 (drop 2 junk)) s"

text \<open>A struct of one byte and three of padding.\<close>

definition byte_struct :: "u8 \<Rightarrow> u8 list \<Rightarrow> u8 list" where
  "byte_struct b junk = b # take 3 (drop 1 junk)"

definition m2m_wifi_request_scan :: "'s bus \<Rightarrow> u8 list \<Rightarrow> u8 list \<Rightarrow> u8 \<Rightarrow> 's wifi \<Rightarrow> 's sent" where
  "m2m_wifi_request_scan B behind junk ch s =
     (if gu8scanInProgress s then refuse M2M_ERR_SCAN_IN_PROGRESS s
      else if ch \<le> 13 \<or> ch = 255
      then map_option (\<lambda>(r, t). (r, if r = M2M_SUCCESS then t\<lparr>gu8scanInProgress := True\<rparr> else t)) (send_struct B behind GROUP_WIFI 16 (byte_struct ch junk) s)
      else refuse M2M_ERR_INVALID_ARG s)"

definition m2m_wifi_wps :: "'s bus \<Rightarrow> u8 list \<Rightarrow> u8 list \<Rightarrow> u8 \<Rightarrow> u8 list \<Rightarrow> 's wifi \<Rightarrow> 's sent" where
  "m2m_wifi_wps B behind junk trigger pin s =
     send_struct B behind GROUP_WIFI 47 (trigger # (if trigger = 0 then take 8 pin else take 8 (drop 1 junk)) @ take 3 (drop 9 junk)) (s\<lparr>gu8scanInProgress := False\<rparr>)"

definition m2m_wifi_wps_disable :: "'s bus \<Rightarrow> u8 list \<Rightarrow> 's wifi \<Rightarrow> 's sent" where
  "m2m_wifi_wps_disable B behind s = send_none B behind GROUP_WIFI 49 s"

definition m2m_wifi_p2p :: "'s bus \<Rightarrow> u8 list \<Rightarrow> u8 list \<Rightarrow> u8 \<Rightarrow> 's wifi \<Rightarrow> 's sent" where
  "m2m_wifi_p2p B behind junk ch s =
     (if ch = 0 \<or> ch = 5 \<or> ch = 10 then send_struct B behind GROUP_WIFI 91 (byte_struct ch junk) s else refuse M2M_ERR_FAIL s)"

definition m2m_wifi_p2p_disconnect :: "'s bus \<Rightarrow> u8 list \<Rightarrow> 's wifi \<Rightarrow> 's sent" where
  "m2m_wifi_p2p_disconnect B behind s = send_none B behind GROUP_WIFI 92 s"

section \<open>Access point mode\<close>

text \<open>
  The struct tstrM2MAPConfig is its 72 bytes: name, channel (33), key index (34), key size (35), key (36), kind of security (63), a flag and the address of the DHCP server (65). A name or key
  without a zero is read on into the fields behind it.
\<close>

definition m2m_validate_ap_parameters :: "u8 list option \<Rightarrow> int res" where
  "m2m_validate_ap_parameters p =
     (case p of
        None \<Rightarrow> Inr M2M_ERR_FAIL
      | Some c \<Rightarrow>
          if length c < 72 then Inl Overread
          else res_bind (m2m_strlen c) (\<lambda>n.
            if n = 0 \<or> 33 \<le> n then Inr M2M_ERR_FAIL
            else if 13 < c ! 33 then Inr M2M_ERR_FAIL
            else if c ! 65 = 0 \<and> c ! 66 = 0 \<and> c ! 67 = 0 then Inr M2M_ERR_FAIL
            else if c ! 63 = M2M_WIFI_SEC_OPEN then Inr M2M_SUCCESS
            else if c ! 63 = M2M_WIFI_SEC_WEP
            then (if c ! 34 = 0 \<or> 4 < c ! 34 then Inr M2M_ERR_FAIL
                  else if c ! 35 \<noteq> 10 \<and> c ! 35 \<noteq> 26 then Inr M2M_ERR_FAIL
                  else res_bind (m2m_strlen (drop 36 c)) (\<lambda>k. Inr (if k = 0 \<or> 26 < k then M2M_ERR_FAIL else M2M_SUCCESS)))
            else Inr M2M_ERR_FAIL))"

definition m2m_wifi_enable_ap :: "'s bus \<Rightarrow> u8 list \<Rightarrow> u8 list option \<Rightarrow> 's wifi \<Rightarrow> 's sent res" where
  "m2m_wifi_enable_ap B behind p s =
     res_bind (m2m_validate_ap_parameters p) (\<lambda>r.
       Inr (if r = M2M_SUCCESS then send_struct B behind GROUP_WIFI 70 (take 72 (the p)) s else refuse M2M_ERR_FAIL s))"

definition m2m_wifi_disable_ap :: "'s bus \<Rightarrow> u8 list \<Rightarrow> 's wifi \<Rightarrow> 's sent" where
  "m2m_wifi_disable_ap B behind s = send_none B behind GROUP_WIFI 71 s"

definition m2m_wifi_req_curr_rssi :: "'s bus \<Rightarrow> u8 list \<Rightarrow> 's wifi \<Rightarrow> 's sent" where
  "m2m_wifi_req_curr_rssi B behind s = send_none B behind GROUP_WIFI 3 s"

text \<open>The domain name is tested for being null after its length has been taken.\<close>

definition m2m_wifi_start_provision_mode :: "'s bus \<Rightarrow> u8 list \<Rightarrow> u8 list \<Rightarrow> u8 list option \<Rightarrow> u8 list option \<Rightarrow> u8 \<Rightarrow> 's wifi \<Rightarrow> 's sent res" where
  "m2m_wifi_start_provision_mode B behind junk p domain redirect s =
     (case p of
        None \<Rightarrow> Inr (refuse M2M_ERR_FAIL s)
      | Some c \<Rightarrow> res_bind (m2m_validate_ap_parameters p) (\<lambda>r.
          if r \<noteq> M2M_SUCCESS then Inr (refuse M2M_ERR_FAIL s)
          else case domain of
                 None \<Rightarrow> Inl Overread
               | Some d \<Rightarrow> res_bind (m2m_strlen d) (\<lambda>n.
                   if n = 0 then Inr (refuse M2M_ERR_FAIL s)
                   else if length d < 64 then Inl Overread
                   else Inr (send_struct B behind GROUP_WIFI (8 OR M2M_REQ_DATA_PKT)
                          (take 72 c @ take 64 d @ redirect # take 3 (drop 137 junk)) (s\<lparr>gu8scanInProgress := False\<rparr>)))))"

definition m2m_wifi_stop_provision_mode :: "'s bus \<Rightarrow> u8 list \<Rightarrow> 's wifi \<Rightarrow> 's sent" where
  "m2m_wifi_stop_provision_mode B behind s = send_none B behind GROUP_WIFI 10 s"

section \<open>Frames and scan results\<close>

definition m2m_wifi_send_ethernet_pkt :: "'s bus \<Rightarrow> u8 list \<Rightarrow> u8 list option \<Rightarrow> u16 \<Rightarrow> 's wifi \<Rightarrow> 's sent res" where
  "m2m_wifi_send_ethernet_pkt B behind packet sz s =
     (case packet of
        None \<Rightarrow> Inr (refuse (-1) s)
      | Some d \<Rightarrow>
          if sz = 0 then Inr (refuse (-1) s)
          else if length d < unat sz then Inl Overread
          else Inr (hif_send B behind GROUP_WIFI (28 OR M2M_REQ_DATA_PKT) (Some (le2 sz @ le2 14)) (Some (take (unat sz) d)) (34 - 8) s))"

definition m2m_wifi_req_scan_result :: "'s bus \<Rightarrow> u8 list \<Rightarrow> u8 list \<Rightarrow> u8 \<Rightarrow> 's wifi \<Rightarrow> 's sent" where
  "m2m_wifi_req_scan_result B behind junk index s = send_struct B behind GROUP_WIFI 18 (byte_struct index junk) s"

definition m2m_wifi_get_num_ap_found :: "'s wifi \<Rightarrow> u8" where
  "m2m_wifi_get_num_ap_found s = gu8ChNum s"

definition m2m_wifi_get_connection_info :: "'s bus \<Rightarrow> u8 list \<Rightarrow> 's wifi \<Rightarrow> 's sent" where
  "m2m_wifi_get_connection_info B behind s = send_none B behind GROUP_WIFI 5 s"

definition m2m_wifi_enable_mac_mcast :: "'s bus \<Rightarrow> u8 list \<Rightarrow> u8 list \<Rightarrow> u8 list option \<Rightarrow> u8 \<Rightarrow> 's wifi \<Rightarrow> 's sent" where
  "m2m_wifi_enable_mac_mcast B behind junk mac add s =
     (case mac of None \<Rightarrow> refuse M2M_ERR_FAIL s
      | Some m \<Rightarrow> send_struct B behind GROUP_WIFI 30 (take 6 m @ add # take 1 (drop 7 junk)) s)"

definition m2m_wifi_set_receive_buffer :: "place option \<Rightarrow> nat \<Rightarrow> 's wifi \<Rightarrow> int \<times> 's wifi" where
  "m2m_wifi_set_receive_buffer p n s =
     (case p of None \<Rightarrow> (M2M_ERR_FAIL, s) | Some b \<Rightarrow> (M2M_SUCCESS, s\<lparr>netif := set_receive_buffer b n (netif s)\<rparr>))"

section \<open>Power, name, time and random bytes\<close>

definition m2m_wifi_set_sleep_mode :: "'s bus \<Rightarrow> u8 list \<Rightarrow> u8 list \<Rightarrow> u8 \<Rightarrow> u8 \<Rightarrow> 's wifi \<Rightarrow> 's sent" where
  "m2m_wifi_set_sleep_mode B behind junk ps bcast s =
     map_option (\<lambda>(r, t). (r, hif_set_sleep_mode ps t)) (send_struct B behind GROUP_WIFI 45 ([ps, bcast] @ take 2 (drop 2 junk)) s)"

definition m2m_wifi_get_sleep_mode :: "'s wifi \<Rightarrow> u8" where
  "m2m_wifi_get_sleep_mode s = hif_get_sleep_mode s"

definition m2m_wifi_request_sleep :: "'s bus \<Rightarrow> u8 list \<Rightarrow> u32 \<Rightarrow> 's wifi \<Rightarrow> 's sent" where
  "m2m_wifi_request_sleep B behind time s =
     (if hif_get_sleep_mode s = M2M_PS_MANUAL then send_struct B behind GROUP_WIFI 58 (word_bytes time) s else refuse M2M_SUCCESS s)"

text \<open>The length is limited to the 48 bytes of the struct, and then one more is copied.\<close>

definition m2m_wifi_set_device_name :: "'s bus \<Rightarrow> u8 list \<Rightarrow> u8 list \<Rightarrow> u8 list \<Rightarrow> u8 \<Rightarrow> 's wifi \<Rightarrow> 's sent res" where
  "m2m_wifi_set_device_name B behind junk name len s =
     res_bind (memcpy (take 48 junk) name (int (unat ((if 48 \<le> len then 48 else len) + 1)))) (\<lambda>bs. Inr (send_struct B behind GROUP_WIFI 7 bs s))"

text \<open>Eight bytes are sent from a variable of four: the others are what lies \<open>beside\<close> it.\<close>

definition m2m_wifi_set_sytem_time :: "'s bus \<Rightarrow> u8 list \<Rightarrow> u8 list \<Rightarrow> u32 \<Rightarrow> 's wifi \<Rightarrow> 's sent" where
  "m2m_wifi_set_sytem_time B behind beside secs s = send_struct B behind GROUP_WIFI 11 (word_bytes secs @ take 4 beside) s"

definition m2m_wifi_get_sytem_time :: "'s bus \<Rightarrow> u8 list \<Rightarrow> 's wifi \<Rightarrow> 's sent" where
  "m2m_wifi_get_sytem_time B behind s = send_none B behind GROUP_WIFI 26 s"

definition m2m_wifi_enable_sntp :: "'s bus \<Rightarrow> u8 list \<Rightarrow> bool \<Rightarrow> 's wifi \<Rightarrow> 's sent" where
  "m2m_wifi_enable_sntp B behind en s = send_none B behind GROUP_WIFI (if en then 12 else 13) s"

definition m2m_wifi_set_power_profile :: "'s bus \<Rightarrow> u8 list \<Rightarrow> u8 list \<Rightarrow> u8 \<Rightarrow> 's wifi \<Rightarrow> 's sent" where
  "m2m_wifi_set_power_profile B behind junk mode s = send_struct B behind GROUP_WIFI 22 (byte_struct mode junk) s"

definition m2m_wifi_set_tx_power :: "'s bus \<Rightarrow> u8 list \<Rightarrow> u8 list \<Rightarrow> u8 \<Rightarrow> 's wifi \<Rightarrow> 's sent" where
  "m2m_wifi_set_tx_power B behind junk level s = send_struct B behind GROUP_WIFI 23 (byte_struct level junk) s"

definition m2m_wifi_enable_firmware_logs :: "'s bus \<Rightarrow> u8 list \<Rightarrow> u8 list \<Rightarrow> u8 \<Rightarrow> 's wifi \<Rightarrow> 's sent" where
  "m2m_wifi_enable_firmware_logs B behind junk en s = send_struct B behind GROUP_WIFI 25 (byte_struct en junk) s"

definition m2m_wifi_set_battery_voltage :: "'s bus \<Rightarrow> u8 list \<Rightarrow> u16 \<Rightarrow> 's wifi \<Rightarrow> 's sent" where
  "m2m_wifi_set_battery_voltage B behind v s = send_struct B behind GROUP_WIFI 24 (le2 v @ [0, 0]) s"

definition m2m_wifi_prng_get_random_bytes :: "'s bus \<Rightarrow> u8 list \<Rightarrow> u32 \<Rightarrow> u16 \<Rightarrow> 's wifi \<Rightarrow> 's sent" where
  "m2m_wifi_prng_get_random_bytes B behind p n s =
     (if unat n < 1588 \<and> p \<noteq> 0 then send_struct B behind GROUP_WIFI (31 OR M2M_REQ_DATA_PKT) (word_bytes p @ le2 n @ [0, 0]) s
      else refuse M2M_ERR_FAIL s)"

section \<open>What arrives at the chip\<close>

text \<open>The chip refuses a place \<open>k\<close> times and then gives the one at \<open>dma\<close>.\<close>

definition grants :: "firmware \<Rightarrow> bus_op list \<Rightarrow> nat \<Rightarrow> u32 \<Rightarrow> bool" where
  "grants fw os k dma \<longleftrightarrow> k < 1000 \<and> (\<forall>i < k. reg_value fw (os @ polls i) WIFI_HOST_RCV_CTRL_2 AND 2 \<noteq> 0) \<and>
     reg_value fw (os @ polls k) WIFI_HOST_RCV_CTRL_2 AND 2 = 0 \<and> reg_value fw (os @ polls (Suc k)) 0x150400 = dma \<and> dma \<noteq> 0"

lemma send_granted:
  fixes s :: "nmspi wifi"
  assumes "polite fw" "quiet fw" "sync fw c0 (bus_st s)" "awake s"
    and "grants fw (done_ops fw c0 (bus_st s) @ announce gid opcode (send_length ctrl data off)) k dma"
    and "part_fits dma 8 ctrl" "part_fits dma (8 + unat off) data" "unat dma + 8 + unat off \<le> 2 ^ 24"
  shows "\<exists>t parts. hif_send (spi_bus (answers fw c0) junk) behind gid opcode ctrl data off s = Some (M2M_SUCCESS, t) \<and> sync fw c0 (bus_st t) \<and>
    done_ops fw c0 (bus_st t) = done_ops fw c0 (bus_st s) @ announce gid opcode (send_length ctrl data off) @ polls (Suc k) @ [ReadReg 0x150400] @ parts @
      [WriteReg WIFI_HOST_RCV_CTRL_3 (push_bit 2 dma OR 2)] \<and>
    stored parts m = part (dma + 8 + ucast off) data (part (dma + 8) ctrl (put_bytes dma (hif_header gid opcode (send_length ctrl data off) behind) m)) \<and>
    t = s\<lparr>bus_st := bus_st t, gu8ChipSleep := gu8ChipSleep s + 1\<rparr>"
proof -
  have r: "polite fw \<and> quiet fw \<and> sync fw c0 (bus_st s)" using assms(1-3) by blast
  note g = assms(5) [unfolded grants_def]
  have d: "reg_value fw ((done_ops fw c0 (bus_st s) @ announce gid opcode (send_length ctrl data off)) @ polls (Suc k)) 0x150400 = dma" using g by blast
  show ?thesis using winc_spi.send_ok [OF r assms(4), of k gid opcode ctrl data off junk behind m] g assms(6-8) unfolding d append_assoc by blast
qed

text \<open>The fields of the struct of a connection.\<close>

lemma c_str_append_zero: "0 \<notin> set xs \<Longrightarrow> c_str (xs @ 0 # ys) = xs"
  by (induction xs) (auto simp: c_str_def)

lemma c_str_upto: "0 \<in> set m \<Longrightarrow> take (length (c_str m) + 1) m = c_str m @ [0]"
  unfolding c_str_def by (induction m) auto

lemma c_str_nonzero: "0 \<notin> set (c_str m)"
  by (auto simp: c_str_def dest: set_takeWhileD)

lemma le2_at: "i + 1 < length (xs @ le2 v @ ys) \<Longrightarrow> length xs = i \<Longrightarrow> u16_at i (xs @ le2 v @ ys) = v"
proof -
  assume "length xs = i"
  then have "u16_at i (xs @ le2 v @ ys) = ucast (ucast v :: u8) OR push_bit 8 (ucast (ucast (drop_bit 8 v) :: u8))"
    by (auto simp: u16_at_def le2_def nth_append)
  also have "\<dots> = v" by (rule bit_word_eqI) (auto simp: bit_simps)
  finally show ?thesis .
qed

lemma named:
  assumes "unat n \<le> 32" "unat n \<le> length ssid" "length junk = 108"
  shows "\<exists>rest. connect_name junk ssid n = Inr (take (unat n) ssid @ 0 # rest) \<and> length rest = 32 - unat n"
proof -
  have "uint n = int (unat n)" by simp
  then have "uint n \<le> 32" "uint n \<le> int (length ssid)" using assms(1,2) by linarith+
  then have "memcpy (take 33 (drop 70 junk)) ssid (int (unat n)) = Inr (overwrite 0 (take (unat n) ssid) (take 33 (drop 70 junk)))"
    using assms(3) by (auto simp: memcpy_def)
  moreover have "(overwrite 0 (take (unat n) ssid) (take 33 (drop 70 junk)))[unat n := 0] =
      take (unat n) ssid @ 0 # drop (unat n + 1) (take 33 (drop 70 junk))"
    using assms by (simp add: overwrite_def list_update_append min_def)
      (simp add: Cons_nth_drop_Suc [symmetric] drop_take take_Cons' del: drop_drop)
  ultimately show ?thesis using assms by (simp add: connect_name_def)
qed

lemma struct_fields:
  fixes sec :: u8 and ch :: u16 and save :: bool
  assumes "length bs \<le> 65" "length name = 33" "length junk = 108"
  defines "st \<equiv> connect_struct junk bs sec ch name save"
  shows "length st = 108" "take (length bs) st = bs" "st ! 65 = sec" "u16_at 68 st = ch" "take 33 (drop 70 st) = name" "st ! 103 = (if save then 1 else 0)"
proof -
  let ?a = "overwrite 0 bs (take 65 junk)"
  have a: "length ?a = 65" using assms(1,3) by (intro trans [OF length_overwrite]) simp_all
  have ca: "?a = bs @ drop (length bs) (take 65 junk)" by (simp add: overwrite_def)
  have st: "st = (?a @ sec # take 2 (drop 66 junk)) @ le2 ch @ (name @ (if save then 1 else 0) # take 4 (drop 104 junk))"
    unfolding st_def connect_struct_def by simp
  have l68: "length (?a @ sec # take 2 (drop 66 junk)) = 68" using a assms(3) by simp
  have l2: "length (le2 ch) = 2" by (simp add: le2_def)
  show "length st = 108" unfolding st using l68 l2 assms(2,3) by simp
  show "take (length bs) st = bs" unfolding st ca by simp
  show "st ! 65 = sec" unfolding st using a by (simp add: nth_append)
  show "u16_at 68 st = ch" unfolding st by (rule le2_at) (use l68 l2 in simp_all)
  have "length ((?a @ sec # take 2 (drop 66 junk)) @ le2 ch) = 70" using l68 l2 by simp
  moreover have "((?a @ sec # take 2 (drop 66 junk)) @ le2 ch) @ (name @ (if save then 1 else 0) # take 4 (drop 104 junk)) = st"
    unfolding st by simp
  ultimately have d: "drop 70 st = name @ (if save then 1 else 0) # take 4 (drop 104 junk)" by (metis append_eq_conv_conj)
  then show "take 33 (drop 70 st) = name" using assms(2) by simp
  have "70 + 33 \<le> length st" using \<open>length st = 108\<close> by simp
  then have "st ! (70 + 33) = drop 70 st ! 33" by simp
  also have "\<dots> = (if save then 1 else 0)" unfolding d using assms(2) by (simp add: nth_append)
  finally show "st ! 103 = (if save then 1 else 0)" by simp
qed

text \<open>
  What is to be sent for each kind of security: nothing for an open network; the key with its zero for WPA, of 1 to 64 characters, 64 only when they are hexadecimal
  digits; index, size and key for WEP, the first two counted from zero; the 62 bytes of the credentials for 802.1X.
\<close>

definition credentials :: "u8 \<Rightarrow> u8 list option \<Rightarrow> u8 list \<Rightarrow> bool" where
  "credentials sec auth bs \<longleftrightarrow>
     sec = M2M_WIFI_SEC_OPEN \<and> bs = [] \<or>
     sec = M2M_WIFI_SEC_WPA_PSK \<and> (case auth of None \<Rightarrow> False | Some key \<Rightarrow> 0 \<in> set key \<and> 0 < length (c_str key) \<and> length (c_str key) \<le> 64 \<and>
       (length (c_str key) = 64 \<longrightarrow> (\<forall>b \<in> set (c_str key). \<not> not_hex b)) \<and> bs = c_str key @ [0]) \<or>
     sec = M2M_WIFI_SEC_WEP \<and> (case auth of None \<Rightarrow> False | Some p \<Rightarrow> 32 \<le> length p \<and> p ! 0 \<in> {1, 2, 3, 4} \<and> p ! 1 \<in> {11, 27} \<and>
       bs = [p ! 0 - 1, p ! 1 - 1] @ take (unat (p ! 1)) (drop 2 p) @ [0]) \<or>
     sec = M2M_WIFI_SEC_802_1X \<and> (case auth of None \<Rightarrow> False | Some p \<Rightarrow> 62 \<le> length p \<and> bs = take 62 p)"

lemma credentials_psk:
  assumes "credentials M2M_WIFI_SEC_WPA_PSK auth bs"
  obtains key where "auth = Some key" "bs = c_str key @ [0]"
    "check_key M2M_WIFI_SEC_WPA_PSK auth = Inr None" "auth_bytes M2M_WIFI_SEC_WPA_PSK auth = Inr (Some bs)" "length bs \<le> 65"
proof -
  obtain key where key: "auth = Some key" "bs = c_str key @ [0]" "0 \<in> set key" "0 < length (c_str key)" "length (c_str key) \<le> 64"
    "length (c_str key) = 64 \<Longrightarrow> \<forall>b \<in> set (c_str key). \<not> not_hex b"
    using assms by (auto simp: credentials_def split: option.splits)
  have sl: "m2m_strlen key = Inr (of_nat (length (c_str key)))" using key(3) by (simp add: m2m_strlen_def)
  have ul: "unat (of_nat (length (c_str key)) :: u16) = length (c_str key)" using key(5) by (simp add: unsigned_of_nat take_bit_nat_eq_self)
  have "take 64 key = c_str key" if "length (c_str key) = 64"
    using arg_cong [OF c_str_upto [OF key(3)], of "take 64"] that by simp
  moreover have "(of_nat (length (c_str key)) :: u16) = 64 \<longleftrightarrow> length (c_str key) = 64" using ul by (auto simp: word_unat_eq_iff)
  ultimately have ck: "check_key M2M_WIFI_SEC_WPA_PSK auth = Inr None" using sl key(1,6) by (auto simp: check_key_def)
  have "(of_nat (length (c_str key)) :: u16) \<noteq> 0" "\<not> 65 \<le> (of_nat (length (c_str key)) :: u16)"
    using ul key(4,5) by (auto simp: word_unat_eq_iff word_le_nat_alt)
  then have "auth_bytes M2M_WIFI_SEC_WPA_PSK auth = Inr (Some bs)"
    unfolding key(2) using sl ul by (simp add: auth_bytes_def key(1) c_str_upto [OF key(3), simplified])
  then show thesis using that key ck by simp
qed

lemma credentials_pass:
  assumes "credentials sec auth bs"
  shows "check_key sec auth = Inr None" "auth_bytes sec auth = Inr (Some bs)" "length bs \<le> 65"
proof -
  have all: "check_key sec auth = Inr None \<and> auth_bytes sec auth = Inr (Some bs) \<and> length bs \<le> 65"
  proof (cases "sec = M2M_WIFI_SEC_WPA_PSK")
    case True
    then show ?thesis using assms credentials_psk [of auth bs] by blast
  next
    case False
    then consider "sec = M2M_WIFI_SEC_OPEN" "bs = []"
      | p where "sec = M2M_WIFI_SEC_WEP" "auth = Some p" "32 \<le> length p" "p ! 0 \<in> {1, 2, 3, 4}" "p ! 1 \<in> {11, 27}"
          "bs = [p ! 0 - 1, p ! 1 - 1] @ take (unat (p ! 1)) (drop 2 p) @ [0]"
      | p where "sec = M2M_WIFI_SEC_802_1X" "auth = Some p" "62 \<le> length p" "bs = take 62 p"
      using assms by (auto simp: credentials_def split: option.splits)
    then show ?thesis
    proof cases
      case 2
      have i: "\<not> 4 \<le> p ! 0 - 1" using 2(4) by (auto simp: word_le_nat_alt)
      have z: "p ! 1 - 1 = 10 \<or> p ! 1 - 1 = 26" "unat (p ! 1) \<le> 27" using 2(5) by auto
      have "\<not> length p < 32" using 2(3) by simp
      then have "wep_auth p = Inr (Some bs)" using i z(1) 2(6) by (auto simp: wep_auth_def Let_def)
      then show ?thesis using 2(1-3,6) z(2) by (simp add: check_key_def auth_bytes_def)
    qed (simp_all add: check_key_def auth_bytes_def)
  qed
  then show "check_key sec auth = Inr None" "auth_bytes sec auth = Inr (Some bs)" "length bs \<le> 65" by blast+
qed

lemma connect_sends:
  assumes "0 < n" "n \<le> 32" "unat n \<le> length ssid" "length junk = 108" "credentials sec auth bs" "ch \<le> 13 \<or> ch = 255"
  shows "\<exists>rest. length (take (unat n) ssid @ 0 # rest) = 33 \<and>
    m2m_wifi_connect B behind junk ssid n sec auth ch s =
      Inr (send_struct B behind GROUP_WIFI 40 (connect_struct junk bs sec ch (take (unat n) ssid @ 0 # rest) False) s)"
proof -
  have n: "unat n \<le> 32" using assms(2) by (simp add: word_le_nat_alt)
  obtain rest where rest: "connect_name junk ssid n = Inr (take (unat n) ssid @ 0 # rest)" "length rest = 32 - unat n"
    using named [OF n assms(3,4)] by blast
  note ok = credentials_pass [OF assms(5)]
  have g: "\<not> (n = 0 \<or> 33 \<le> n)" using assms(1) n by (auto simp: word_le_nat_alt)
  have g2: "\<not> (13 < ch \<and> ch \<noteq> 255)" using assms(6) by (auto simp: not_less)
  have "m2m_wifi_connect B behind junk ssid n sec auth ch s =
      Inr (send_struct B behind GROUP_WIFI 40 (connect_struct junk bs sec ch (take (unat n) ssid @ 0 # rest) False) s)"
    unfolding m2m_wifi_connect_def m2m_wifi_connect_sc_def ok(1,2) res_bind.simps option.case if_not_P [OF g] if_not_P [OF g2] rest(1) by simp
  moreover have "length (take (unat n) ssid @ 0 # rest) = 33" using rest(2) n assms(3) by simp
  ultimately show ?thesis by blast
qed

text \<open>
  C18: A connection with a name of 1 to 32 characters and credentials the code accepts, for an open network, WPA, WEP or 802.1X, leaves in the chip's memory a connection
  request whose fields are that name, the kind of security it was called with, the credentials of that kind and the channel, in a message of 116 bytes, and the result is success.
\<close>

theorem wifi_connect_reaches_chip:
  fixes s :: "nmspi wifi"
  assumes "polite fw" "quiet fw" "sync fw c0 (bus_st s)" "awake s"
    and "0 < n" "n \<le> 32" "unat n \<le> length ssid" "0 \<notin> set (take (unat n) ssid)" "length junk = 108"
    and "credentials sec auth bs" "ch \<le> 13 \<or> ch = 255"
    and "grants fw (done_ops fw c0 (bus_st s) @ announce GROUP_WIFI 40 116) k dma" "unat dma + 116 \<le> 2 ^ 24"
  shows "\<exists>t parts st. m2m_wifi_connect (spi_bus (answers fw c0) jw) behind junk ssid n sec auth ch s = Inr (Some (M2M_SUCCESS, t)) \<and>
    sync fw c0 (bus_st t) \<and>
    done_ops fw c0 (bus_st t) = done_ops fw c0 (bus_st s) @ announce GROUP_WIFI 40 116 @ polls (Suc k) @ [ReadReg 0x150400] @ parts @
      [WriteReg WIFI_HOST_RCV_CTRL_3 (push_bit 2 dma OR 2)] \<and>
    stored parts m = put_bytes (dma + 8) st (put_bytes dma (hif_header GROUP_WIFI 40 116 behind) m) \<and>
    length st = 108 \<and> c_str (take 33 (drop 70 st)) = take (unat n) ssid \<and> take (length bs) st = bs \<and> st ! 65 = sec \<and>
    u16_at 68 st = ch \<and> st ! 103 = 0 \<and> (sec = M2M_WIFI_SEC_WPA_PSK \<longrightarrow> c_str (take 65 st) = c_str (the auth))"
proof -
  obtain rest where rest: "length (take (unat n) ssid @ 0 # rest) = 33"
    "m2m_wifi_connect (spi_bus (answers fw c0) jw) behind junk ssid n sec auth ch s =
      Inr (send_struct (spi_bus (answers fw c0) jw) behind GROUP_WIFI 40 (connect_struct junk bs sec ch (take (unat n) ssid @ 0 # rest) False) s)"
    using connect_sends [OF assms(5-7,9-11)] by blast
  define st where "st = connect_struct junk bs sec ch (take (unat n) ssid @ 0 # rest) False"
  note f = struct_fields [OF credentials_pass(3) [OF assms(10)] rest(1) assms(9), of sec ch False, folded st_def]
  have l: "send_length (Some st) None 0 = 116" by (simp add: send_length_def f(1))
  have p: "part_fits dma 8 (Some st)" "part_fits dma (8 + unat (0 :: u16)) None" "unat dma + 8 + unat (0 :: u16) \<le> 2 ^ 24"
    using assms(13) f(1) by (auto simp: part_fits_def)
  from send_granted [OF assms(1-4), of GROUP_WIFI 40 "Some st" None 0 k dma jw behind m, unfolded l, OF assms(12) p]
  obtain t parts where t: "hif_send (spi_bus (answers fw c0) jw) behind GROUP_WIFI 40 (Some st) None 0 s = Some (M2M_SUCCESS, t)" "sync fw c0 (bus_st t)"
    "done_ops fw c0 (bus_st t) = done_ops fw c0 (bus_st s) @ announce GROUP_WIFI 40 116 @ polls (Suc k) @ [ReadReg 0x150400] @ parts @
      [WriteReg WIFI_HOST_RCV_CTRL_3 (push_bit 2 dma OR 2)]"
    "stored parts m = put_bytes (dma + 8) st (put_bytes dma (hif_header GROUP_WIFI 40 116 behind) m)" unfolding part_def by auto
  have "c_str (take 33 (drop 70 st)) = take (unat n) ssid" unfolding f(5) by (rule c_str_append_zero [OF assms(8)])
  moreover have "m2m_wifi_connect (spi_bus (answers fw c0) jw) behind junk ssid n sec auth ch s = Inr (Some (M2M_SUCCESS, t))"
    using rest(2) t(1) unfolding st_def [symmetric] send_struct_def by simp
  moreover have "c_str (take 65 st) = c_str (the auth)" if psk: "sec = M2M_WIFI_SEC_WPA_PSK"
  proof -
    obtain key where key: "auth = Some key" "bs = c_str key @ [0]" using credentials_psk assms(10) unfolding psk by metis
    have "take 65 st = bs @ take (65 - length bs) (drop (length bs) st)"
      using f(2) credentials_pass(3) [OF assms(10)] by (metis append_take_drop_id le_add_diff_inverse take_add)
    then show ?thesis unfolding key by (simp add: c_str_append_zero c_str_nonzero)
  qed
  ultimately show ?thesis using t(2-4) f(1-4,6) by (intro exI [of _ t] exI [of _ parts] exI [of _ st]) simp
qed

lemma giving_grants: "k < 1000 \<Longrightarrow> dma \<noteq> 0 \<Longrightarrow> grants (giving_fw k dma) (announce gid opcode len) k dma"
  by (auto simp: grants_def giving_fw_def announce_def count_polls)

lemma demo_ready:
  "polite (giving_fw k dma)" "quiet (giving_fw k dma)" "sync (giving_fw k dma) (demo_chip\<lparr>outq := [], pend := Idle\<rparr>) (bus_st demo_wifi)"
  "awake demo_wifi" "done_ops (giving_fw k dma) (demo_chip\<lparr>outq := [], pend := Idle\<rparr>) (bus_st demo_wifi) = []"
  using giving_firmware by (simp_all add: start_hif_def demo_wifi_def awake_def deep_def)

text \<open>A network with a key, and an open one.\<close>

lemma wifi_connect_reaches_chip_witness:
  "(\<exists>t parts st. m2m_wifi_connect (spi_bus (answers (giving_fw 2 0x30000) (demo_chip\<lparr>outq := [], pend := Idle\<rparr>)) 0) [9, 9, 9, 9] (replicate 108 0xaa) (ascii ''home'') 4
      M2M_WIFI_SEC_WPA_PSK (Some (ascii ''secret'' @ [0])) 255 demo_wifi = Inr (Some (M2M_SUCCESS, t)) \<and>
    stored parts (\<lambda>_. 0) = put_bytes 0x30008 st (put_bytes 0x30000 (hif_header GROUP_WIFI 40 116 [9, 9, 9, 9]) (\<lambda>_. 0)) \<and>
    c_str (take 33 (drop 70 st)) = ascii ''home'' \<and> c_str (take 65 st) = ascii ''secret'' \<and> u16_at 68 st = 255) \<and>
   (\<exists>t parts st. m2m_wifi_connect (spi_bus (answers (giving_fw 2 0x30000) (demo_chip\<lparr>outq := [], pend := Idle\<rparr>)) 0) [9, 9, 9, 9] (replicate 108 0xaa) (ascii ''home'') 4
      M2M_WIFI_SEC_OPEN None 255 demo_wifi = Inr (Some (M2M_SUCCESS, t)) \<and>
    stored parts (\<lambda>_. 0) = put_bytes 0x30008 st (put_bytes 0x30000 (hif_header GROUP_WIFI 40 116 [9, 9, 9, 9]) (\<lambda>_. 0)) \<and> st ! 65 = M2M_WIFI_SEC_OPEN)"
proof -
  have n: "(0 :: u8) < 4" "(4 :: u8) \<le> 32" "unat (4 :: u8) \<le> length (ascii ''home'')" "0 \<notin> set (take (unat (4 :: u8)) (ascii ''home''))"
    "length (replicate 108 (0xaa :: u8)) = 108" by (simp_all add: ascii_def)
  have k: "c_str (ascii ''secret'' @ [0]) = ascii ''secret''" by (simp add: c_str_def ascii_def)
  have psk: "credentials M2M_WIFI_SEC_WPA_PSK (Some (ascii ''secret'' @ [0])) (ascii ''secret'' @ [0])" by (simp add: credentials_def k)
  have open_net: "credentials M2M_WIFI_SEC_OPEN None []" by (simp add: credentials_def)
  have c: "(255 :: u16) \<le> 13 \<or> (255 :: u16) = 255" by simp
  have g: "grants (giving_fw 2 0x30000) (done_ops (giving_fw 2 0x30000) (demo_chip\<lparr>outq := [], pend := Idle\<rparr>) (bus_st demo_wifi) @ announce GROUP_WIFI 40 116) 2 0x30000"
    "unat (0x30000 :: u32) + 116 \<le> 2 ^ 24" using giving_grants [of 2 "0x30000"] by (simp_all add: demo_ready(5))
  have t4: "take (unat (4 :: u8)) (ascii ''home'') = ascii ''home''" by (simp add: ascii_def)
  from wifi_connect_reaches_chip [OF demo_ready(1-4) n psk c g, of 0 "[9, 9, 9, 9]" "\<lambda>_. 0"]
    wifi_connect_reaches_chip [OF demo_ready(1-4) n open_net c g, of 0 "[9, 9, 9, 9]" "\<lambda>_. 0"]
  show ?thesis unfolding option.sel k t4 by auto
qed

text \<open>
  C19: A frame given to \<open>m2m_wifi_send_ethernet_pkt\<close> lies 34 bytes behind the start of the place the chip gave, unchanged, behind a header that states its size, and the request
  states the length of the whole.
\<close>

theorem wifi_frame_sent:
  fixes s :: "nmspi wifi"
  assumes "polite fw" "quiet fw" "sync fw c0 (bus_st s)" "awake s" "frame \<noteq> []" "length frame < 65502"
    and "grants fw (done_ops fw c0 (bus_st s) @ announce GROUP_WIFI 0x9c (of_nat (34 + length frame))) k dma" "unat dma + 34 + length frame \<le> 2 ^ 24"
  shows "\<exists>t parts. m2m_wifi_send_ethernet_pkt (spi_bus (answers fw c0) jw) behind (Some frame) (of_nat (length frame)) s = Inr (Some (M2M_SUCCESS, t)) \<and>
    sync fw c0 (bus_st t) \<and>
    done_ops fw c0 (bus_st t) = done_ops fw c0 (bus_st s) @ announce GROUP_WIFI 0x9c (of_nat (34 + length frame)) @ polls (Suc k) @ [ReadReg 0x150400] @ parts @
      [WriteReg WIFI_HOST_RCV_CTRL_3 (push_bit 2 dma OR 2)] \<and>
    stored parts m = put_bytes (dma + 34) frame (put_bytes (dma + 8) (le2 (of_nat (length frame)) @ le2 14)
      (put_bytes dma ([1, 28] @ le2 (of_nat (34 + length frame)) @ take 4 behind) m))"
proof -
  have u: "unat (of_nat (length frame) :: u16) = length frame" using assms(6) by (simp add: unsigned_of_nat take_bit_nat_eq_self)
  then have nz: "(of_nat (length frame) :: u16) \<noteq> 0" using assms(5) by auto
  let ?c = "Some (le2 (of_nat (length frame)) @ le2 14)"
  have l: "send_length ?c (Some frame) (34 - 8) = of_nat (34 + length frame)" by (simp add: send_length_def)
  have p: "part_fits dma 8 ?c" "part_fits dma (8 + unat ((34 :: u16) - 8)) (Some frame)" "unat dma + 8 + unat ((34 :: u16) - 8) \<le> 2 ^ 24"
    using assms(5,8) by (auto simp: part_fits_def le2_def)
  have h: "hif_header GROUP_WIFI 0x9c (of_nat (34 + length frame)) behind = [1, 28] @ le2 (of_nat (34 + length frame)) @ take 4 behind"
    by (simp add: hif_header_def le2_def)
  have "m2m_wifi_send_ethernet_pkt (spi_bus (answers fw c0) jw) behind (Some frame) (of_nat (length frame)) s =
      Inr (hif_send (spi_bus (answers fw c0) jw) behind GROUP_WIFI 0x9c ?c (Some frame) (34 - 8) s)"
    using u nz by (simp add: m2m_wifi_send_ethernet_pkt_def)
  with send_granted [OF assms(1-4), of GROUP_WIFI "0x9c" ?c "Some frame" "34 - 8" k dma jw behind m, unfolded l, OF assms(7) p]
  show ?thesis unfolding h by (auto simp: part_def add.assoc)
qed

lemma wifi_frame_sent_witness:
  "\<exists>t parts. m2m_wifi_send_ethernet_pkt (spi_bus (answers (giving_fw 2 0x30000) (demo_chip\<lparr>outq := [], pend := Idle\<rparr>)) 0) [9, 9, 9, 9] (Some (replicate 300 7)) 300 demo_wifi =
      Inr (Some (M2M_SUCCESS, t)) \<and>
    stored parts (\<lambda>_. 0) = put_bytes 0x30022 (replicate 300 7) (put_bytes 0x30008 (le2 300 @ le2 14) (put_bytes 0x30000 ([1, 28] @ le2 334 @ [9, 9, 9, 9]) (\<lambda>_. 0)))"
proof -
  have f: "replicate 300 (7 :: u8) \<noteq> []" "length (replicate 300 (7 :: u8)) < 65502" by simp_all
  have g: "grants (giving_fw 2 0x30000) (done_ops (giving_fw 2 0x30000) (demo_chip\<lparr>outq := [], pend := Idle\<rparr>) (bus_st demo_wifi) @
      announce GROUP_WIFI 0x9c (of_nat (34 + length (replicate 300 (7 :: u8))))) 2 0x30000"
    "unat (0x30000 :: u32) + 34 + length (replicate 300 (7 :: u8)) \<le> 2 ^ 24" using giving_grants [of 2 "0x30000"] by (simp_all add: demo_ready(5))
  have l: "of_nat (length (replicate 300 (7 :: u8))) = (300 :: u16)" "of_nat (34 + length (replicate 300 (7 :: u8))) = (334 :: u16)" by simp_all
  from wifi_frame_sent [OF demo_ready(1-4) f g, of 0 "[9, 9, 9, 9]" "\<lambda>_. 0"] show ?thesis unfolding l by auto
qed

text \<open>A device name of 48 characters or more is copied beyond the struct.\<close>

lemma device_name_overflows: "48 \<le> len \<Longrightarrow> 49 \<le> length name \<Longrightarrow> length junk = 48 \<Longrightarrow> m2m_wifi_set_device_name B behind junk name len s = Inl Overwrite"
  by (simp add: m2m_wifi_set_device_name_def memcpy_def)

text \<open>A null pointer to the scan options is reported and then used.\<close>

lemma scan_options_null: "m2m_wifi_set_scan_options B behind None s = Inl Overread"
  by (simp add: m2m_wifi_set_scan_options_def m2m_validate_scan_options_def)

end
