(* ===== verification/Nm_Drv.thy ===== *)
theory Nm_Drv
  imports M2m_Requests
begin

text \<open>
  The start of the WiFi chip: the parts of nmasic.c and nmdrv.c that the firmware uses, and \<open>m2m_wifi_init\<close>. NO_HW_CHIP_EN is not defined, so the chip is reset by its pins and not
  by registers. The log is compiled in, and some of its arguments read registers: these reads are part of the model. \<open>junk\<close> is what \<open>nm_read_reg\<close> returns when it fails.
\<close>

section \<open>The board\<close>

text \<open>What nmdrv.c uses beside the bus: the start and end of bus and protocol, and the delay of the board.\<close>

record 's board =
  bus_iface_init :: "'s \<Rightarrow> (int \<times> 's) option"
  bus_iface_deinit :: "'s \<Rightarrow> int \<times> 's"
  proto_init :: "'s \<Rightarrow> int \<times> 's"
  bsp_sleep :: "nat \<Rightarrow> 's \<Rightarrow> 's"

definition spi_board :: "wenv \<Rightarrow> u32 \<Rightarrow> int \<Rightarrow> nmspi board" where
  "spi_board env junk spim_err = \<lparr>bus_iface_init = nm_bus_init spim_err, bus_iface_deinit = nm_bus_deinit, proto_init = nm_spi_init env junk, bsp_sleep = nm_bsp_sleep\<rparr>"

definition pause :: "'s board \<Rightarrow> nat \<Rightarrow> 's wifi \<Rightarrow> 's wifi" where
  "pause Z n s = s\<lparr>bus_st := bsp_sleep Z n (bus_st s)\<rparr>"

definition nm_read_reg :: "'s bus \<Rightarrow> u32 \<Rightarrow> u32 \<Rightarrow> 's wifi \<Rightarrow> u32 \<times> 's wifi" where
  "nm_read_reg B junk a s = (case rd B a s of (_, v, t) \<Rightarrow> (case v of None \<Rightarrow> junk | Some w \<Rightarrow> w, t))"

abbreviation "rNMI_GP_REG_1 \<equiv> (0x14a0 :: u32)"
abbreviation "rNMI_GP_REG_2 \<equiv> (0xc0008 :: u32)"
abbreviation "BOOTROM_REG \<equiv> (0xc000c :: u32)"
abbreviation "NMI_REV_REG \<equiv> (0x207ac :: u32)"
abbreviation "NMI_REV_REG_ATE \<equiv> (0x1048 :: u32)"
abbreviation "M2M_WAIT_FOR_HOST_REG \<equiv> (0x207bc :: u32)"
abbreviation "EFUSE_REG \<equiv> (0x1014 :: u32)"
abbreviation "NMI_PIN_MUX_0 \<equiv> (0x1408 :: u32)"
abbreviation "NMI_INTR_ENABLE \<equiv> (0x1a00 :: u32)"
abbreviation "M2M_FINISH_INIT_STATE \<equiv> (0x02532636 :: u32)"
abbreviation "M2M_FINISH_BOOT_ROM \<equiv> (0x10add09e :: u32)"
abbreviation "M2M_START_FIRMWARE \<equiv> (0xef522f61 :: u32)"
abbreviation "M2M_ATE_FW_START_VALUE \<equiv> (0x3c1cd57d :: u32)"
abbreviation "M2M_ATE_FW_IS_UP_VALUE \<equiv> (0xd75dc1c3 :: u32)"

abbreviation "M2M_WIFI_MODE_NORMAL \<equiv> (1 :: u8)"
abbreviation "M2M_WIFI_MODE_ATE_HIGH \<equiv> (2 :: u8)"
abbreviation "M2M_WIFI_MODE_ATE_LOW \<equiv> (3 :: u8)"
abbreviation "M2M_WIFI_MODE_ETHERNET \<equiv> (4 :: u8)"
abbreviation "M2M_WIFI_MODE_MAX \<equiv> (5 :: u8)"

abbreviation "M2M_ERR_INIT \<equiv> (-5 :: int)"
abbreviation "M2M_ERR_FW_VER_MISMATCH \<equiv> (-13 :: int)"

section \<open>nmasic.c\<close>

text \<open>The configuration is written until it reads back; without a bound.\<close>

partial_function (option) conf_loop :: "'s bus \<Rightarrow> u32 \<Rightarrow> 's wifi \<Rightarrow> 's wifi option" where
  "conf_loop B val s =
     (let s1 = snd (wr B rNMI_GP_REG_1 val s)
      in if val = 0 then Some s1
         else case rd B rNMI_GP_REG_1 s1 of (r, v, s2) \<Rightarrow> if r = M2M_SUCCESS \<and> v = Some val then Some s2 else conf_loop B val s2)"

definition chip_apply_conf :: "'s bus \<Rightarrow> u32 \<Rightarrow> 's wifi \<Rightarrow> 's wifi option" where
  "chip_apply_conf B conf s = conf_loop B conf s"

text \<open>Setting a bit of a register, as \<open>enable_interrupts\<close> does twice.\<close>

definition set_reg_bit :: "'s bus \<Rightarrow> u32 \<Rightarrow> u32 \<Rightarrow> 's wifi \<Rightarrow> int \<times> 's wifi" where
  "set_reg_bit B a m s =
     (case rd B a s of (r, v, s1) \<Rightarrow>
        (case v of
           None \<Rightarrow> (M2M_ERR_BUS_FAIL, s1)
         | Some w \<Rightarrow> if r \<noteq> M2M_SUCCESS then (M2M_ERR_BUS_FAIL, s1)
                     else let (r2, s2) = wr B a (w OR m) s1 in (if r2 \<noteq> M2M_SUCCESS then M2M_ERR_BUS_FAIL else M2M_SUCCESS, s2)))"

definition enable_interrupts :: "'s bus \<Rightarrow> 's wifi \<Rightarrow> int \<times> 's wifi" where
  "enable_interrupts B s =
     (let (r, s1) = set_reg_bit B NMI_PIN_MUX_0 0x100 s in if r \<noteq> M2M_SUCCESS then (r, s1) else set_reg_bit B NMI_INTR_ENABLE 0x10000 s1)"

text \<open>The chip's number is read once and kept.\<close>

definition revision :: "u32 \<Rightarrow> u32 \<Rightarrow> u32" where
  "revision nr rf =
     (if nr = 0x1002a0 then (if rf = 1 then nr else 0x1002a1)
      else if nr = 0x1002b0 then (if rf = 3 then nr else if rf = 4 then 0x1002b1 else 0x1002b2)
      else nr)"

definition with_flash :: "u32 \<Rightarrow> u32" where
  "with_flash nr = nr AND NOT 0x0f0000 OR 0x050000"

definition keep_chipid :: "u32 \<Rightarrow> 's wifi \<Rightarrow> u32 \<times> 's wifi" where
  "keep_chipid nr s = (nr, s\<lparr>chipid := nr\<rparr>)"

definition nmi_get_chipid :: "'s bus \<Rightarrow> 's wifi \<Rightarrow> u32 \<times> 's wifi" where
  "nmi_get_chipid B s =
     (if chipid s \<noteq> 0 then (chipid s, s)
      else case rd B 0x1000 s of (r1, v1, s1) \<Rightarrow>
        (case v1 of
           None \<Rightarrow> keep_chipid 0 s1
         | Some nr \<Rightarrow>
             if r1 \<noteq> M2M_SUCCESS then keep_chipid 0 s1
             else case rd B 0x13f4 s1 of (r2, v2, s2) \<Rightarrow>
               (case v2 of
                  None \<Rightarrow> keep_chipid 0 s2
                | Some rf \<Rightarrow>
                    if r2 \<noteq> M2M_SUCCESS then keep_chipid 0 s2
                    else if nr = 0x1000F0
                    then (case rd B 0x3B0000 s2 of (r3, v3, s3) \<Rightarrow>
                            (case v3 of None \<Rightarrow> keep_chipid 0 s3
                             | Some nr3 \<Rightarrow> if r3 \<noteq> M2M_SUCCESS then keep_chipid 0 s3 else keep_chipid (with_flash nr3) s3))
                    else keep_chipid (with_flash (revision nr rf)) s2)))"

text \<open>Waiting for the chip's fuses: at most 256 reads, a tick between them.\<close>

fun efuse_loop :: "'s board \<Rightarrow> 's bus \<Rightarrow> u32 \<Rightarrow> nat \<Rightarrow> 's wifi \<Rightarrow> bool \<times> 's wifi" where
  "efuse_loop Z B junk 0 s = (False, s)"
| "efuse_loop Z B junk (Suc n) s =
     (let (v, s1) = nm_read_reg B junk EFUSE_REG s
      in if v AND 0x80000000 \<noteq> 0 then (True, s1) else if n = 0 then (False, s1) else efuse_loop Z B junk n (pause Z 1 s1))"

text \<open>Waiting for the boot ROM: the 256th read fails whatever it reads.\<close>

fun bootrom_loop :: "'s board \<Rightarrow> 's bus \<Rightarrow> u32 \<Rightarrow> nat \<Rightarrow> 's wifi \<Rightarrow> bool \<times> 's wifi" where
  "bootrom_loop Z B junk 0 s = (False, s)"
| "bootrom_loop Z B junk (Suc n) s =
     (let (v, s1) = nm_read_reg B junk BOOTROM_REG (pause Z 1 s)
      in if n = 0 then (False, s1) else if v = M2M_FINISH_BOOT_ROM then (True, s1) else bootrom_loop Z B junk n s1)"

definition ate_registers :: "'s bus \<Rightarrow> u8 \<Rightarrow> 's wifi \<Rightarrow> 's wifi" where
  "ate_registers B mode s =
     (if mode = M2M_WIFI_MODE_ATE_HIGH then snd (wr B NMI_STATE_REG 0x100000 (snd (wr B NMI_REV_REG M2M_ATE_FW_START_VALUE s)))
      else if mode = M2M_WIFI_MODE_ATE_LOW then snd (wr B NMI_STATE_REG 0 (snd (wr B NMI_REV_REG M2M_ATE_FW_START_VALUE s)))
      else s)"

definition wait_for_bootrom :: "'s board \<Rightarrow> 's bus \<Rightarrow> u32 \<Rightarrow> u8 \<Rightarrow> 's wifi \<Rightarrow> (int \<times> 's wifi) option" where
  "wait_for_bootrom Z B junk mode s =
     (let (fused, s1) = efuse_loop Z B junk 256 s
      in if \<not> fused then Some (M2M_ERR_INIT, s1)
         else let (host, s2) = nm_read_reg B junk M2M_WAIT_FOR_HOST_REG s1;
                  (booted, s3) = (if host AND 1 = 0 then bootrom_loop Z B junk 256 s2 else (True, s2))
              in if \<not> booted then Some (M2M_ERR_INIT, s3)
                 else let (nr, s4) = nmi_get_chipid B (ate_registers B mode s3); conf = (if mode = M2M_WIFI_MODE_ETHERNET then 0x80 else 0)
                      in case chip_apply_conf B (if nr AND 0xfff = 0x3a0 then conf OR 2 else conf) s4 of
                           None \<Rightarrow> None
                         | Some s5 \<Rightarrow> Some (M2M_SUCCESS, snd (wr B BOOTROM_REG M2M_START_FIRMWARE s5)))"

text \<open>Waiting for the firmware: at most 255 turns, the last of which fails; each reads three more registers for the log.\<close>

fun firmware_loop :: "'s board \<Rightarrow> 's bus \<Rightarrow> u32 \<Rightarrow> u32 \<Rightarrow> u32 \<Rightarrow> nat \<Rightarrow> 's wifi \<Rightarrow> bool \<times> 's wifi" where
  "firmware_loop Z B junk a want 0 s = (False, s)"
| "firmware_loop Z B junk a want (Suc n) s =
     (let s1 = snd (nm_read_reg B junk rNMI_GP_REG_1 (snd (nm_read_reg B junk NMI_STATE_REG (snd (nm_read_reg B junk NMI_STATE_REG (pause Z 2 s))))));
          (v, s2) = nm_read_reg B junk a s1
      in if n = 0 then (False, s2) else if v = want then (True, s2) else firmware_loop Z B junk a want n s2)"

definition wait_for_firmware_start :: "'s board \<Rightarrow> 's bus \<Rightarrow> u32 \<Rightarrow> u8 \<Rightarrow> 's wifi \<Rightarrow> int \<times> 's wifi" where
  "wait_for_firmware_start Z B junk mode s =
     (let ate = (mode = M2M_WIFI_MODE_ATE_HIGH \<or> mode = M2M_WIFI_MODE_ATE_LOW);
          (up, s1) = firmware_loop Z B junk (if ate then NMI_REV_REG else NMI_STATE_REG) (if ate then M2M_ATE_FW_IS_UP_VALUE else M2M_FINISH_INIT_STATE) 255 s
      in if \<not> up then (M2M_ERR_INIT, s1) else (M2M_SUCCESS, if ate then s1 else snd (wr B NMI_STATE_REG 0 s1)))"

text \<open>The MAC address lies where two registers in the chip's memory point to.\<close>

definition nmi_get_mac_address :: "'s bus \<Rightarrow> 's wifi \<Rightarrow> int \<times> u8 list \<times> 's wifi" where
  "nmi_get_mac_address B s =
     (case rd B rNMI_GP_REG_2 s of (r1, v, s1) \<Rightarrow>
        (case v of
           None \<Rightarrow> (r1, [], s1)
         | Some p \<Rightarrow>
             if r1 \<noteq> M2M_SUCCESS then (r1, [], s1)
             else case rdb B (p OR 0x30000) 8 s1 of (r2, gp, s2) \<Rightarrow>
               if r2 \<noteq> M2M_SUCCESS then (r2, [], s2) else rdb B (u32_at 0 gp AND 0xffff OR 0x30000) 6 s2))"

definition nmi_get_otp_mac_address :: "'s bus \<Rightarrow> 's wifi \<Rightarrow> int \<times> u8 list \<times> bool \<times> 's wifi" where
  "nmi_get_otp_mac_address B s =
     (case rd B rNMI_GP_REG_2 s of (r1, v, s1) \<Rightarrow>
        (case v of
           None \<Rightarrow> (r1, [], False, s1)
         | Some p \<Rightarrow>
             if r1 \<noteq> M2M_SUCCESS then (r1, [], False, s1)
             else case rdb B (p OR 0x30000) 8 s1 of (r2, gp, s2) \<Rightarrow>
               if r2 \<noteq> M2M_SUCCESS then (r2, [], False, s2)
               else if u32_at 0 gp AND 0xffff0000 = 0 then (r2, replicate 6 0, False, s2)
               else case rdb B (drop_bit 16 (u32_at 0 gp) OR 0x30000) 6 s2 of (r3, mac, s3) \<Rightarrow> (r3, mac, True, s3)))"

section \<open>nmdrv.c\<close>

text \<open>Versions: the firmware's in the low half of the register, in the high half the lowest driver version it works with; this driver is 19.3.0.\<close>

record m2m_rev =
  u8FirmwareMajor :: u8
  u8FirmwareMinor :: u8
  u8FirmwarePatch :: u8
  u8DriverMajor :: u8
  u8DriverMinor :: u8
  u8DriverPatch :: u8
  u32Chipid :: u32

definition make_version :: "u8 \<Rightarrow> u8 \<Rightarrow> u8 \<Rightarrow> u16" where
  "make_version major minor patch = push_bit 8 (ucast major) OR push_bit 4 (ucast (minor AND 0xf)) OR ucast (patch AND 0xf)"

definition rev_of :: "u32 \<Rightarrow> u32 \<Rightarrow> m2m_rev" where
  "rev_of reg nr =
     (let fw = ucast reg :: u16; drv = ucast (drop_bit 16 reg) :: u16
      in \<lparr>u8FirmwareMajor = ucast (drop_bit 8 fw), u8FirmwareMinor = ucast (drop_bit 4 fw) AND 0xf, u8FirmwarePatch = ucast fw AND 0xf,
          u8DriverMajor = ucast (drop_bit 8 drv), u8DriverMinor = ucast (drop_bit 4 drv) AND 0xf, u8DriverPatch = ucast drv AND 0xf, u32Chipid = nr\<rparr>)"

definition check_version :: "int \<Rightarrow> m2m_rev \<Rightarrow> int" where
  "check_version ret v =
     (let firm = make_version (u8FirmwareMajor v) (u8FirmwareMinor v) (u8FirmwarePatch v);
          needed = make_version (u8DriverMajor v) (u8DriverMinor v) (u8DriverPatch v); drv = make_version 19 3 0
      in if drv < needed \<or> firm < drv then M2M_ERR_FW_VER_MISMATCH else ret)"

definition nm_get_firmware_info :: "'s bus \<Rightarrow> 's wifi \<Rightarrow> int \<times> m2m_rev \<times> 's wifi" where
  "nm_get_firmware_info B s =
     (case rd B NMI_REV_REG s of (r0, v0, s0) \<Rightarrow>
        let reg0 = (case v0 of None \<Rightarrow> 0 | Some w \<Rightarrow> w) in
        case (if reg0 = M2M_ATE_FW_IS_UP_VALUE then rd B NMI_REV_REG_ATE s0 else (r0, Some reg0, s0)) of (r1, v1, s1) \<Rightarrow>
          let reg = (case v1 of None \<Rightarrow> reg0 | Some w \<Rightarrow> w); (nr, s2) = nmi_get_chipid B s1; v = rev_of reg nr
          in (check_version r1 v, v, s2))"

definition start_chip :: "'s board \<Rightarrow> 's bus \<Rightarrow> u32 \<Rightarrow> u8 \<Rightarrow> 's wifi \<Rightarrow> (int \<times> 's wifi) option" where
  "start_chip Z B junk mode s =
     (case wait_for_bootrom Z B junk mode s of
        None \<Rightarrow> None
      | Some (r1, s1) \<Rightarrow>
          Some (if r1 \<noteq> M2M_SUCCESS then (r1, s1)
                else let (r2, s2) = wait_for_firmware_start Z B junk mode s1
                     in if r2 \<noteq> M2M_SUCCESS \<or> mode = M2M_WIFI_MODE_ATE_HIGH \<or> mode = M2M_WIFI_MODE_ATE_LOW then (r2, s2) else enable_interrupts B s2))"

text \<open>A failure after the start of the bus ends the bus again.\<close>

definition nm_drv_init :: "'s board \<Rightarrow> 's bus \<Rightarrow> u32 \<Rightarrow> u8 \<Rightarrow> 's wifi \<Rightarrow> (int \<times> 's wifi) option" where
  "nm_drv_init Z B junk mode0 s =
     (let mode = (if mode0 < M2M_WIFI_MODE_NORMAL \<or> M2M_WIFI_MODE_MAX \<le> mode0 then M2M_WIFI_MODE_NORMAL else mode0)
      in case bus_iface_init Z (bus_st s) of
           None \<Rightarrow> None
         | Some (r0, t0) \<Rightarrow>
             let s0 = s\<lparr>bus_st := t0\<rparr>
             in if r0 \<noteq> M2M_SUCCESS then Some (r0, s0)
                else let s1 = snd (nmi_get_chipid B s0); s2 = s1\<lparr>bus_st := snd (proto_init Z (bus_st s1))\<rparr>
                     in case start_chip Z B junk mode s2 of
                          None \<Rightarrow> None
                        | Some (r, s3) \<Rightarrow> Some (r, if r \<noteq> M2M_SUCCESS then s3\<lparr>bus_st := snd (bus_iface_deinit Z (bus_st s3))\<rparr> else s3))"

section \<open>m2m_wifi_init\<close>

text \<open>The parameters: whether there are callbacks, the first receive buffer, and the mode.\<close>

record wifi_init_param =
  pfAppWifiCb :: bool
  pfAppEthCb :: bool
  au8ethRcvBuf :: place
  u16ethRcvBufSize :: nat
  u8EthernetEnable :: u8

definition take_param :: "wifi_init_param \<Rightarrow> 's wifi \<Rightarrow> 's wifi" where
  "take_param p s = s\<lparr>app_wifi_cb := pfAppWifiCb p, app_eth_cb := pfAppEthCb p,
     netif := set_receive_buffer (au8ethRcvBuf p) (u16ethRcvBufSize p) (netif s), gu8scanInProgress := False\<rparr>"

definition m2m_wifi_init :: "'s board \<Rightarrow> 's bus \<Rightarrow> u32 \<Rightarrow> wifi_init_param option \<Rightarrow> 's wifi \<Rightarrow> (int \<times> 's wifi) option" where
  "m2m_wifi_init Z B junk param s =
     (case param of
        None \<Rightarrow> Some (M2M_ERR_FAIL, s)
      | Some p \<Rightarrow>
          (case nm_drv_init Z B junk (u8EthernetEnable p) (take_param p s) of
             None \<Rightarrow> None
           | Some (r1, s1) \<Rightarrow>
               if r1 \<noteq> M2M_SUCCESS then Some (r1, s1)
               else let s2 = snd (hif_register_cb GROUP_WIFI (Some 1) (snd (hif_init s1))); (r, _, s3) = nm_get_firmware_info B s2 in Some (r, s3)))"

definition m2m_wifi_get_mac_address :: "'s bus \<Rightarrow> 's wifi \<Rightarrow> (int \<times> u8 list \<times> 's wifi) option" where
  "m2m_wifi_get_mac_address B s =
     (case hif_chip_wake B s of
        None \<Rightarrow> None
      | Some (r0, s0) \<Rightarrow>
          Some (if r0 \<noteq> M2M_SUCCESS then (r0, [], s0)
                else case nmi_get_mac_address B s0 of (r1, mac, s1) \<Rightarrow>
                  if r1 \<noteq> M2M_SUCCESS then (r1, mac, s1) else let (r2, s2) = hif_chip_sleep B s1 in (r2, mac, s2)))"

definition m2m_wifi_get_otp_mac_address :: "'s bus \<Rightarrow> 's wifi \<Rightarrow> (int \<times> u8 list \<times> bool \<times> 's wifi) option" where
  "m2m_wifi_get_otp_mac_address B s =
     (case hif_chip_wake B s of
        None \<Rightarrow> None
      | Some (r0, s0) \<Rightarrow>
          Some (if r0 \<noteq> M2M_SUCCESS then (r0, [], False, s0)
                else case nmi_get_otp_mac_address B s0 of (r1, mac, valid, s1) \<Rightarrow>
                  if r1 \<noteq> M2M_SUCCESS then (r1, mac, valid, s1) else let (r2, s2) = hif_chip_sleep B s1 in (r2, mac, valid, s2)))"

end
