(* ===== verification/Chip_Boot.thy ===== *)
theory Chip_Boot
  imports Nm_Drv Wifi_Path
begin

text \<open>
  The start of the WiFi chip, against a firmware that starts: the contract of the board extends the one of the bus, and with it \<open>m2m_wifi_init\<close> ends with a chip that runs in the mode
  asked for and a driver that waits for its messages.
\<close>

section \<open>The contract of the board\<close>

text \<open>
  After the start of the bus registers can be read, though the protocol has not been set up; the protocol writes nothing but its own register.
\<close>

locale chip_boot = host_bus B ready dn reg mem
  for B :: "'s bus" and ready :: "'s \<Rightarrow> bool" and dn :: "'s \<Rightarrow> bus_op list" and reg :: "bus_op list \<Rightarrow> u32 \<Rightarrow> u32"
    and mem :: "bus_op list \<Rightarrow> u32 \<Rightarrow> nat \<Rightarrow> u8 list" +
  fixes Z :: "'s board" and early :: "'s \<Rightarrow> bool" and fresh :: "'s \<Rightarrow> bool"
  assumes sleep_law: "ready s \<Longrightarrow> ready (bsp_sleep Z n s) \<and> dn (bsp_sleep Z n s) = dn s"
    and early_law: "early s \<Longrightarrow> a < 2 ^ 24 \<Longrightarrow>
      \<exists>t. nm_read_reg_with_ret B a s = (M2M_SUCCESS, Some (reg (dn s) a), t) \<and> early t \<and> dn t = dn s @ [ReadReg a]"
    and start_law: "fresh s \<Longrightarrow> \<exists>t. bus_iface_init Z s = Some (M2M_SUCCESS, t) \<and> early t \<and> dn t = dn s"
    and proto_law: "early s \<Longrightarrow> \<exists>t os. proto_init Z s = (M2M_SUCCESS, t) \<and> ready t \<and> dn t = dn s @ os \<and> (\<forall>a v. WriteReg a v \<in> set os \<longrightarrow> a = PROTOCOL_CONFIG)"

interpretation winc_board: chip_boot "spi_bus (answers fw c0) junk" "\<lambda>s. polite fw \<and> quiet fw \<and> sync fw c0 s" "done_ops fw c0"
  "reg_value fw" "block fw" "spi_board (answers fw c0) junk2 0" "\<lambda>s. polite fw \<and> quiet fw \<and> keeps_protocol fw \<and> sync fw c0 s \<and> \<not> gu8Crc_off s"
  "\<lambda>s. polite fw \<and> quiet fw \<and> keeps_protocol fw \<and> \<not> gu8Crc_off s" for fw c0 junk junk2
proof (unfold_locales, goal_cases)
  case (1 s n)
  then show ?case by (simp add: spi_board_def sync_def nm_bsp_sleep_def chip_of_sleep [unfolded nm_bsp_sleep_def])
next
  case (2 s a)
  then show ?case using reg_read [of fw c0 s a] by (auto simp: spi_bus_def nm_spi_read_reg_with_ret_def bus_result_def does_def)
next
  case (3 s)
  have "gu8Crc_off (nm_bsp_sleep n u) = gu8Crc_off u" "gu8Crc_off (put_ev e u) = gu8Crc_off u" for n e u
    by (simp_all add: nm_bsp_sleep_def put_ev_def)
  then show ?case using 3 by (simp add: spi_board_def nm_bus_init_def sync_def reset_wakes_chip nm_bsp_reset_def)
next
  case (4 s)
  then have c: "outq (chip_of fw c0 s) = []" "pend (chip_of fw c0 s) = Idle" "crc_on (chip_of fw c0 s)" by (simp_all add: sync_def)
  from 4 spi_init_sync [of fw c0 s _ junk2, OF _ _ c refl] show ?case by (fastforce simp: spi_board_def)
qed

section \<open>What the operations command\<close>

fun commands :: "bus_op list \<Rightarrow> (u32 \<times> u32) list" where
  "commands [] = []"
| "commands (WriteReg a v # os) = (if a = PROTOCOL_CONFIG then commands os else (a, v) # commands os)"
| "commands (e # os) = commands os"

lemma commands_append [simp]: "commands (os @ os') = commands os @ commands os'"
  by (induction os rule: commands.induct) simp_all

lemma commands_mem: "WriteReg a v \<in> set os \<Longrightarrow> a \<noteq> PROTOCOL_CONFIG \<Longrightarrow> (a, v) \<in> set (commands os)"
  by (induction os rule: commands.induct) auto

lemma commands_eq: "commands os = concat (map (\<lambda>e. case e of WriteReg a v \<Rightarrow> if a = PROTOCOL_CONFIG then [] else [(a, v)] | _ \<Rightarrow> []) os)"
  by (induction os rule: commands.induct) simp_all

lemma commands_proto: "\<forall>a v. WriteReg a v \<in> set os \<longrightarrow> a = PROTOCOL_CONFIG \<Longrightarrow> commands os = []"
  by (auto simp: commands_eq split: bus_op.splits)

text \<open>A step of the start: of the state only the bus and the chip's number change.\<close>

definition boots_by :: "('s \<Rightarrow> bool) \<Rightarrow> ('s \<Rightarrow> bus_op list) \<Rightarrow> 's wifi \<Rightarrow> bus_op list \<Rightarrow> 's wifi \<Rightarrow> bool" where
  "boots_by P dn s os t \<longleftrightarrow> P (bus_st t) \<and> dn (bus_st t) = dn (bus_st s) @ os \<and> (\<exists>x c. t = s\<lparr>bus_st := x, chipid := c\<rparr>)"

lemma boots_trans: "boots_by P dn s os t \<Longrightarrow> boots_by Q dn t os' u \<Longrightarrow> boots_by Q dn s (os @ os') u"
  unfolding boots_by_def by force

lemma boots_bus: "P x \<Longrightarrow> dn x = dn (bus_st s) @ os \<Longrightarrow> boots_by P dn s os (s\<lparr>bus_st := x\<rparr>)"
  unfolding boots_by_def by (cases s) simp

lemma boots_chipid: "boots_by P dn s os t \<Longrightarrow> boots_by P dn s os (t\<lparr>chipid := v\<rparr>)"
  unfolding boots_by_def by force

lemma boots_ready: "boots_by P dn s os t \<Longrightarrow> P (bus_st t)"
  by (simp add: boots_by_def)

lemma boots_dn: "boots_by P dn s os t \<Longrightarrow> dn (bus_st t) = dn (bus_st s) @ os"
  by (simp add: boots_by_def)

text \<open>The chip's number only takes reads.\<close>

lemma chipid_reads:
  fixes s :: "'s wifi"
  assumes read: "\<And>x a. P x \<Longrightarrow> a < 2 ^ 24 \<Longrightarrow> \<exists>y. nm_read_reg_with_ret B a x = (M2M_SUCCESS, Some (reg (dn x) a), y) \<and> P y \<and> dn y = dn x @ [ReadReg a]"
    and "P (bus_st s)"
  shows "\<exists>nr t os. nmi_get_chipid B s = (nr, t) \<and> boots_by P dn s os t \<and> commands os = []"
proof (cases "chipid s = 0")
  case False
  then have "nmi_get_chipid B s = (chipid s, s\<lparr>bus_st := bus_st s\<rparr>)" by (cases s) (simp add: nmi_get_chipid_def)
  then show ?thesis using boots_bus [of P "bus_st s" dn s "[]"] assms(2) by (metis append_Nil2 commands.simps(1))
next
  case True
  have rd: "\<exists>y. rd B a u = (M2M_SUCCESS, Some (reg (dn (bus_st u)) a), u\<lparr>bus_st := y\<rparr>) \<and> boots_by P dn u [ReadReg a] (u\<lparr>bus_st := y\<rparr>)"
    if "P (bus_st u)" "a < 2 ^ 24" for u :: "'s wifi" and a
    using read [OF that] boots_bus [of P _ dn u "[ReadReg a]"] by (auto simp: rd_def)
  obtain y1 where y1: "rd B 0x1000 s = (M2M_SUCCESS, Some (reg (dn (bus_st s)) 0x1000), s\<lparr>bus_st := y1\<rparr>)" "boots_by P dn s [ReadReg 0x1000] (s\<lparr>bus_st := y1\<rparr>)"
    using rd [OF assms(2), of "0x1000"] by auto
  let ?s1 = "s\<lparr>bus_st := y1\<rparr>"
  obtain y2 where y2: "rd B 0x13f4 ?s1 = (M2M_SUCCESS, Some (reg (dn (bus_st ?s1)) 0x13f4), ?s1\<lparr>bus_st := y2\<rparr>)" "boots_by P dn ?s1 [ReadReg 0x13f4] (?s1\<lparr>bus_st := y2\<rparr>)"
    using rd [OF boots_ready [OF y1(2)], of "0x13f4"] by auto
  let ?s2 = "?s1\<lparr>bus_st := y2\<rparr>"
  obtain y3 where y3: "rd B 0x3B0000 ?s2 = (M2M_SUCCESS, Some (reg (dn (bus_st ?s2)) 0x3B0000), ?s2\<lparr>bus_st := y3\<rparr>)" "boots_by P dn ?s2 [ReadReg 0x3B0000] (?s2\<lparr>bus_st := y3\<rparr>)"
    using rd [OF boots_ready [OF y2(2)], of "0x3B0000"] by auto
  have b: "boots_by P dn s [ReadReg 0x1000, ReadReg 0x13f4] ?s2" "boots_by P dn s [ReadReg 0x1000, ReadReg 0x13f4, ReadReg 0x3B0000] (?s2\<lparr>bus_st := y3\<rparr>)"
    using boots_trans [OF y1(2) y2(2)] boots_trans [OF boots_trans [OF y1(2) y2(2)] y3(2)] by simp_all
  have n: "commands [ReadReg 0x1000, ReadReg 0x13f4] = []" "commands [ReadReg 0x1000, ReadReg 0x13f4, ReadReg 0x3B0000] = []" by simp_all
  show ?thesis
  proof (cases "reg (dn (bus_st s)) 0x1000 = 0x1000F0")
    case f0: True
    have "nmi_get_chipid B s = keep_chipid (with_flash (reg (dn (bus_st ?s2)) 0x3B0000)) (?s2\<lparr>bus_st := y3\<rparr>)"
      unfolding nmi_get_chipid_def y1(1) y2(1) y3(1) prod.case option.case using True f0 by simp
    then show ?thesis using boots_chipid [OF b(2)] n(2) unfolding keep_chipid_def by blast
  next
    case f0: False
    have "nmi_get_chipid B s = keep_chipid (with_flash (revision (reg (dn (bus_st s)) 0x1000) (reg (dn (bus_st ?s1)) 0x13f4))) ?s2"
      unfolding nmi_get_chipid_def y1(1) y2(1) prod.case option.case using True f0 by simp
    then show ?thesis using boots_chipid [OF b(1)] n(1) unfolding keep_chipid_def by blast
  qed
qed

section \<open>The waits\<close>

text \<open>A firmware that starts: after at most \<open>n\<close> reads of each register the chip is ready, and the configuration reads back.\<close>

definition starts_within :: "nat \<Rightarrow> u32 \<Rightarrow> (bus_op list \<Rightarrow> u32 \<Rightarrow> u32) \<Rightarrow> bool" where
  "starts_within n ver reg \<longleftrightarrow>
     (\<forall>os. n \<le> count_list os (ReadReg EFUSE_REG) \<longrightarrow> reg os EFUSE_REG AND 0x80000000 \<noteq> 0) \<and>
     (\<forall>os. n \<le> count_list os (ReadReg BOOTROM_REG) \<longrightarrow> reg os BOOTROM_REG = M2M_FINISH_BOOT_ROM) \<and>
     (\<forall>os. n \<le> count_list os (ReadReg NMI_STATE_REG) \<longrightarrow> WriteReg NMI_STATE_REG 0 \<notin> set os \<longrightarrow> reg os NMI_STATE_REG = M2M_FINISH_INIT_STATE) \<and>
     (\<forall>os v. reg (os @ [WriteReg rNMI_GP_REG_1 v]) rNMI_GP_REG_1 = v) \<and> (\<forall>os. reg os NMI_REV_REG = ver)"

context chip_boot
begin

abbreviation boots where "boots \<equiv> boots_by ready dn"

lemma moved_boots: "moved ready dn s os t \<Longrightarrow> boots s os t"
  unfolding moved_def took_def boots_by_def by (cases s; cases t) auto

lemma rd_boots:
  fixes s :: "'s wifi"
  assumes "ready (bus_st s)" "a < 2 ^ 24"
  shows "\<exists>t. rd B a s = (M2M_SUCCESS, Some (reg (dn (bus_st s)) a), t) \<and> boots s [ReadReg a] t"
  using rd_ok [OF assms] moved_boots by blast

lemma read_boots:
  assumes "ready (bus_st s)" "a < 2 ^ 24"
  shows "\<exists>t. nm_read_reg B junk a s = (reg (dn (bus_st s)) a, t) \<and> boots s [ReadReg a] t"
  using rd_boots [OF assms] by (auto simp: nm_read_reg_def)

lemma wr_boots:
  fixes s :: "'s wifi"
  assumes "ready (bus_st s)" "a < 2 ^ 24" "a \<noteq> PROTOCOL_CONFIG"
  shows "\<exists>t. wr B a v s = (M2M_SUCCESS, t) \<and> boots s [WriteReg a v] t"
  using wr_ok [OF assms, of v] moved_boots by blast

lemma pause_boots: "ready (bus_st s) \<Longrightarrow> boots s [] (pause Z n s)"
  using sleep_law [of "bus_st s" n] by (simp add: pause_def boots_bus)

lemma efuse_ok:
  assumes "\<forall>os. k \<le> count_list os (ReadReg EFUSE_REG) \<longrightarrow> reg os EFUSE_REG AND 0x80000000 \<noteq> 0"
    and "ready (bus_st s)" "k - count_list (dn (bus_st s)) (ReadReg EFUSE_REG) < n"
  shows "\<exists>t os. efuse_loop Z B junk n s = (True, t) \<and> boots s os t \<and> commands os = []"
  using assms(2,3)
proof (induction n arbitrary: s)
  case (Suc n)
  obtain s1 where s1: "nm_read_reg B junk EFUSE_REG s = (reg (dn (bus_st s)) EFUSE_REG, s1)" "boots s [ReadReg EFUSE_REG] s1"
    using read_boots [OF Suc.prems(1), of EFUSE_REG] by auto
  show ?case
  proof (cases "reg (dn (bus_st s)) EFUSE_REG AND 0x80000000 = 0")
    case False
    then show ?thesis using s1 by (intro exI [of _ s1] exI [of _ "[ReadReg EFUSE_REG]"]) simp
  next
    case True
    then have c: "\<not> k \<le> count_list (dn (bus_st s)) (ReadReg EFUSE_REG)" using assms(1) by blast
    then have n: "n \<noteq> 0" using Suc.prems(2) by simp
    have p: "boots s [ReadReg EFUSE_REG] (pause Z 1 s1)" using boots_trans [OF s1(2) pause_boots [OF boots_ready [OF s1(2)]]] by simp
    have "count_list (dn (bus_st (pause Z 1 s1))) (ReadReg EFUSE_REG) = count_list (dn (bus_st s)) (ReadReg EFUSE_REG) + 1"
      unfolding boots_dn [OF p] by simp
    then have "k - count_list (dn (bus_st (pause Z 1 s1))) (ReadReg EFUSE_REG) < n" using Suc.prems(2) c by linarith
    from Suc.IH [OF boots_ready [OF p] this] obtain t os
      where t: "efuse_loop Z B junk n (pause Z 1 s1) = (True, t)" "boots (pause Z 1 s1) os t" "commands os = []" by blast
    then show ?thesis using s1(1) True n boots_trans [OF p t(2)] by (intro exI [of _ t] exI [of _ "[ReadReg EFUSE_REG] @ os"]) simp
  qed
qed simp

lemma bootrom_ok:
  assumes "\<forall>os. k \<le> count_list os (ReadReg BOOTROM_REG) \<longrightarrow> reg os BOOTROM_REG = M2M_FINISH_BOOT_ROM"
    and "ready (bus_st s)" "k - count_list (dn (bus_st s)) (ReadReg BOOTROM_REG) + 1 < n"
  shows "\<exists>t os. bootrom_loop Z B junk n s = (True, t) \<and> boots s os t \<and> commands os = []"
  using assms(2,3)
proof (induction n arbitrary: s)
  case (Suc n)
  have p: "boots s [] (pause Z 1 s)" by (rule pause_boots [OF Suc.prems(1)])
  have d: "dn (bus_st (pause Z 1 s)) = dn (bus_st s)" using boots_dn [OF p] by simp
  obtain s1 where s1: "nm_read_reg B junk BOOTROM_REG (pause Z 1 s) = (reg (dn (bus_st s)) BOOTROM_REG, s1)" "boots s [ReadReg BOOTROM_REG] s1"
    using read_boots [OF boots_ready [OF p], of BOOTROM_REG] boots_trans [OF p] unfolding d by fastforce
  have n: "n \<noteq> 0" using Suc.prems(2) by simp
  show ?case
  proof (cases "reg (dn (bus_st s)) BOOTROM_REG = M2M_FINISH_BOOT_ROM")
    case True
    then show ?thesis using s1 n by (intro exI [of _ s1] exI [of _ "[ReadReg BOOTROM_REG]"]) simp
  next
    case False
    then have c: "\<not> k \<le> count_list (dn (bus_st s)) (ReadReg BOOTROM_REG)" using assms(1) by blast
    have "count_list (dn (bus_st s1)) (ReadReg BOOTROM_REG) = count_list (dn (bus_st s)) (ReadReg BOOTROM_REG) + 1"
      unfolding boots_dn [OF s1(2)] by simp
    then have "k - count_list (dn (bus_st s1)) (ReadReg BOOTROM_REG) + 1 < n" using Suc.prems(2) c by linarith
    from Suc.IH [OF boots_ready [OF s1(2)] this] obtain t os
      where t: "bootrom_loop Z B junk n s1 = (True, t)" "boots s1 os t" "commands os = []" by blast
    then show ?thesis using s1(1) False n boots_trans [OF s1(2) t(2)] by (intro exI [of _ t] exI [of _ "[ReadReg BOOTROM_REG] @ os"]) simp
  qed
qed simp

lemma log_reads:
  assumes "ready (bus_st s)"
  shows "\<exists>t. snd (nm_read_reg B junk rNMI_GP_REG_1 (snd (nm_read_reg B junk NMI_STATE_REG (snd (nm_read_reg B junk NMI_STATE_REG (pause Z 2 s)))))) = t \<and>
    boots s [ReadReg NMI_STATE_REG, ReadReg NMI_STATE_REG, ReadReg rNMI_GP_REG_1] t"
proof -
  have p: "boots s [] (pause Z 2 s)" by (rule pause_boots [OF assms])
  obtain s1 where s1: "snd (nm_read_reg B junk NMI_STATE_REG (pause Z 2 s)) = s1" "boots (pause Z 2 s) [ReadReg NMI_STATE_REG] s1"
    using read_boots [OF boots_ready [OF p], of NMI_STATE_REG junk] by auto
  obtain s2 where s2: "snd (nm_read_reg B junk NMI_STATE_REG s1) = s2" "boots s1 [ReadReg NMI_STATE_REG] s2"
    using read_boots [OF boots_ready [OF s1(2)], of NMI_STATE_REG junk] by auto
  obtain s3 where s3: "snd (nm_read_reg B junk rNMI_GP_REG_1 s2) = s3" "boots s2 [ReadReg rNMI_GP_REG_1] s3"
    using read_boots [OF boots_ready [OF s2(2)], of rNMI_GP_REG_1 junk] by auto
  show ?thesis unfolding s1(1) s2(1) s3(1) using boots_trans [OF boots_trans [OF boots_trans [OF p s1(2)] s2(2)] s3(2)] by simp
qed

lemma firmware_ok:
  assumes "\<forall>os. k \<le> count_list os (ReadReg NMI_STATE_REG) \<longrightarrow> WriteReg NMI_STATE_REG 0 \<notin> set os \<longrightarrow> reg os NMI_STATE_REG = M2M_FINISH_INIT_STATE"
    and "ready (bus_st s)" "WriteReg NMI_STATE_REG 0 \<notin> set (dn (bus_st s))" "k - count_list (dn (bus_st s)) (ReadReg NMI_STATE_REG) + 1 < n"
  shows "\<exists>t os. firmware_loop Z B junk NMI_STATE_REG M2M_FINISH_INIT_STATE n s = (True, t) \<and> boots s os t \<and> commands os = []"
  using assms(2-4)
proof (induction n arbitrary: s)
  case (Suc n)
  let ?l = "[ReadReg NMI_STATE_REG, ReadReg NMI_STATE_REG, ReadReg rNMI_GP_REG_1]"
  obtain s1 where s1: "snd (nm_read_reg B junk rNMI_GP_REG_1 (snd (nm_read_reg B junk NMI_STATE_REG (snd (nm_read_reg B junk NMI_STATE_REG (pause Z 2 s)))))) = s1"
    "boots s ?l s1" using log_reads [OF Suc.prems(1)] by blast
  obtain s2 where s2: "nm_read_reg B junk NMI_STATE_REG s1 = (reg (dn (bus_st s1)) NMI_STATE_REG, s2)" "boots s1 [ReadReg NMI_STATE_REG] s2"
    using read_boots [OF boots_ready [OF s1(2)], of NMI_STATE_REG] by auto
  have b: "boots s (?l @ [ReadReg NMI_STATE_REG]) s2" by (rule boots_trans [OF s1(2) s2(2)])
  have n: "n \<noteq> 0" using Suc.prems(3) by simp
  have w: "WriteReg NMI_STATE_REG 0 \<notin> set (dn (bus_st s1))" "WriteReg NMI_STATE_REG 0 \<notin> set (dn (bus_st s2))"
    using Suc.prems(2) unfolding boots_dn [OF s1(2)] boots_dn [OF b] by simp_all
  have c: "count_list (dn (bus_st s1)) (ReadReg NMI_STATE_REG) = count_list (dn (bus_st s)) (ReadReg NMI_STATE_REG) + 2"
    "count_list (dn (bus_st s2)) (ReadReg NMI_STATE_REG) = count_list (dn (bus_st s)) (ReadReg NMI_STATE_REG) + 3"
    unfolding boots_dn [OF s1(2)] boots_dn [OF b] by simp_all
  note step = firmware_loop.simps(2) [of Z B junk NMI_STATE_REG M2M_FINISH_INIT_STATE n s, unfolded s1(1) Let_def s2(1) prod.case]
  show ?case
  proof (cases "reg (dn (bus_st s1)) NMI_STATE_REG = M2M_FINISH_INIT_STATE")
    case True
    then show ?thesis unfolding step using n b by (intro exI [of _ s2] exI [of _ "?l @ [ReadReg NMI_STATE_REG]"]) simp
  next
    case False
    then have "\<not> k \<le> count_list (dn (bus_st s1)) (ReadReg NMI_STATE_REG)" using assms(1) w(1) by blast
    then have "k - count_list (dn (bus_st s2)) (ReadReg NMI_STATE_REG) + 1 < n" using Suc.prems(3) c by linarith
    from Suc.IH [OF boots_ready [OF s2(2)] w(2) this] obtain t os
      where t: "firmware_loop Z B junk NMI_STATE_REG M2M_FINISH_INIT_STATE n s2 = (True, t)" "boots s2 os t" "commands os = []" by blast
    then show ?thesis unfolding step using False n boots_trans [OF b t(2)]
      by (intro exI [of _ t] exI [of _ "(?l @ [ReadReg NMI_STATE_REG]) @ os"]) simp
  qed
qed simp

lemma bit_boots:
  assumes "ready (bus_st s)" "a < 2 ^ 24" "a \<noteq> PROTOCOL_CONFIG"
  shows "\<exists>t v. set_reg_bit B a m s = (M2M_SUCCESS, t) \<and> boots s [ReadReg a, WriteReg a (v OR m)] t"
proof -
  obtain s1 where s1: "rd B a s = (M2M_SUCCESS, Some (reg (dn (bus_st s)) a), s1)" "boots s [ReadReg a] s1" using rd_boots [OF assms(1,2)] by blast
  obtain t where t: "wr B a (reg (dn (bus_st s)) a OR m) s1 = (M2M_SUCCESS, t)" "boots s1 [WriteReg a (reg (dn (bus_st s)) a OR m)] t"
    using wr_boots [OF boots_ready [OF s1(2)] assms(2,3)] by blast
  then show ?thesis using s1 boots_trans [OF s1(2) t(2)] by (auto simp: set_reg_bit_def)
qed

lemma conf_ok:
  assumes "ready (bus_st s)" "\<forall>os v. reg (os @ [WriteReg rNMI_GP_REG_1 v]) rNMI_GP_REG_1 = v"
  shows "\<exists>t os. chip_apply_conf B v s = Some t \<and> boots s os t \<and> commands os = [(rNMI_GP_REG_1, v)]"
proof -
  obtain s1 where s1: "wr B rNMI_GP_REG_1 v s = (M2M_SUCCESS, s1)" "boots s [WriteReg rNMI_GP_REG_1 v] s1"
    using wr_boots [OF assms(1), of rNMI_GP_REG_1 v] by auto
  obtain s2 where s2: "rd B rNMI_GP_REG_1 s1 = (M2M_SUCCESS, Some v, s2)" "boots s1 [ReadReg rNMI_GP_REG_1] s2"
    using rd_boots [OF boots_ready [OF s1(2)], of rNMI_GP_REG_1] assms(2) unfolding boots_dn [OF s1(2)] by auto
  have "chip_apply_conf B v s = Some (if v = 0 then s1 else s2)"
    unfolding chip_apply_conf_def conf_loop.simps [of B v s] using s1(1) s2(1) by simp
  moreover have "boots s [WriteReg rNMI_GP_REG_1 v, ReadReg rNMI_GP_REG_1] s2" using boots_trans [OF s1(2) s2(2)] by simp
  ultimately show ?thesis using s1(2)
    by (cases "v = 0") (auto intro: exI [of _ "[WriteReg rNMI_GP_REG_1 v]"] exI [of _ "[WriteReg rNMI_GP_REG_1 v, ReadReg rNMI_GP_REG_1]"])
qed

lemma chipid_boots:
  fixes s :: "'s wifi"
  assumes "ready (bus_st s)"
  shows "\<exists>nr t os. nmi_get_chipid B s = (nr, t) \<and> boots s os t \<and> commands os = []"
  by (rule chipid_reads [of ready, OF read_law assms])

lemma bootrom_starts:
  assumes "ready (bus_st s)" "starts_within n ver reg" "n < 254"
  shows "\<exists>t os c. wait_for_bootrom Z B junk M2M_WIFI_MODE_ETHERNET s = Some (M2M_SUCCESS, t) \<and> boots s os t \<and>
    commands os = [(rNMI_GP_REG_1, c), (BOOTROM_REG, M2M_START_FIRMWARE)] \<and> (c = 0x80 \<or> c = 0x82)"
proof -
  have f: "\<forall>os. n \<le> count_list os (ReadReg EFUSE_REG) \<longrightarrow> reg os EFUSE_REG AND 0x80000000 \<noteq> 0"
    "\<forall>os. n \<le> count_list os (ReadReg BOOTROM_REG) \<longrightarrow> reg os BOOTROM_REG = M2M_FINISH_BOOT_ROM"
    "\<forall>os v. reg (os @ [WriteReg rNMI_GP_REG_1 v]) rNMI_GP_REG_1 = v"
    using assms(2) unfolding starts_within_def by blast+
  have "n - count_list (dn (bus_st s)) (ReadReg EFUSE_REG) < 256" using assms(3) by simp
  from efuse_ok [OF f(1) assms(1) this] obtain s1 o1 where s1: "efuse_loop Z B junk 256 s = (True, s1)" "boots s o1 s1" "commands o1 = []" by blast
  obtain host s2 where s2: "nm_read_reg B junk M2M_WAIT_FOR_HOST_REG s1 = (host, s2)" "boots s1 [ReadReg M2M_WAIT_FOR_HOST_REG] s2"
    using read_boots [OF boots_ready [OF s1(2)], of M2M_WAIT_FOR_HOST_REG junk] by auto
  have "n - count_list (dn (bus_st s2)) (ReadReg BOOTROM_REG) + 1 < 256" using assms(3) by linarith
  from bootrom_ok [OF f(2) boots_ready [OF s2(2)] this]
  obtain s3 o3 where s3: "(if host AND 1 = 0 then bootrom_loop Z B junk 256 s2 else (True, s2)) = (True, s3)" "boots s2 o3 s3" "commands o3 = []"
    using boots_bus [of ready "bus_st s2" dn s2 "[]"] boots_ready [OF s2(2)] by (cases "host AND 1 = 0") force+
  obtain nr s4 o4 where s4: "nmi_get_chipid B s3 = (nr, s4)" "boots s3 o4 s4" "commands o4 = []" using chipid_boots [OF boots_ready [OF s3(2)]] by blast
  let ?c = "if nr AND 0xfff = 0x3a0 then 0x80 OR 2 else 0x80 :: u32"
  obtain s5 o5 where s5: "chip_apply_conf B ?c s4 = Some s5" "boots s4 o5 s5" "commands o5 = [(rNMI_GP_REG_1, ?c)]"
    using conf_ok [OF boots_ready [OF s4(2)] f(3), of ?c] by blast
  obtain t where t: "wr B BOOTROM_REG M2M_START_FIRMWARE s5 = (M2M_SUCCESS, t)" "boots s5 [WriteReg BOOTROM_REG M2M_START_FIRMWARE] t"
    using wr_boots [OF boots_ready [OF s5(2)], of BOOTROM_REG M2M_START_FIRMWARE] by auto
  have a: "ate_registers B M2M_WIFI_MODE_ETHERNET s3 = s3" by (simp add: ate_registers_def)
  have "wait_for_bootrom Z B junk M2M_WIFI_MODE_ETHERNET s = Some (M2M_SUCCESS, t)"
    unfolding wait_for_bootrom_def s1(1) prod.case Let_def s2(1) s3(1) a s4(1) using s5(1) t(1) by (simp split: if_splits)
  moreover note boots_trans [OF boots_trans [OF boots_trans [OF boots_trans [OF boots_trans [OF s1(2) s2(2)] s3(2)] s4(2)] s5(2)] t(2)]
  ultimately show ?thesis using s1(3) s3(3) s4(3) s5(3)
    by (intro exI [of _ t] exI [of _ "((((o1 @ [ReadReg M2M_WAIT_FOR_HOST_REG]) @ o3) @ o4) @ o5) @ [WriteReg BOOTROM_REG M2M_START_FIRMWARE]"] exI [of _ ?c]) simp
qed

lemma firmware_starts:
  assumes "ready (bus_st s)" "starts_within n ver reg" "n < 254" "WriteReg NMI_STATE_REG 0 \<notin> set (dn (bus_st s))"
  shows "\<exists>t os. wait_for_firmware_start Z B junk M2M_WIFI_MODE_ETHERNET s = (M2M_SUCCESS, t) \<and> boots s os t \<and> commands os = [(NMI_STATE_REG, 0)]"
proof -
  have f: "\<forall>os. n \<le> count_list os (ReadReg NMI_STATE_REG) \<longrightarrow> WriteReg NMI_STATE_REG 0 \<notin> set os \<longrightarrow> reg os NMI_STATE_REG = M2M_FINISH_INIT_STATE"
    using assms(2) unfolding starts_within_def by blast
  have "n - count_list (dn (bus_st s)) (ReadReg NMI_STATE_REG) + 1 < 255" using assms(3) by linarith
  from firmware_ok [OF f assms(1,4) this] obtain s1 o1 where
    s1: "firmware_loop Z B junk NMI_STATE_REG M2M_FINISH_INIT_STATE 255 s = (True, s1)" "boots s o1 s1" "commands o1 = []" by blast
  obtain t where t: "wr B NMI_STATE_REG 0 s1 = (M2M_SUCCESS, t)" "boots s1 [WriteReg NMI_STATE_REG 0] t"
    using wr_boots [OF boots_ready [OF s1(2)], of NMI_STATE_REG 0] by auto
  have "wait_for_firmware_start Z B junk M2M_WIFI_MODE_ETHERNET s = (M2M_SUCCESS, t)"
    using s1(1) t(1) by (simp add: wait_for_firmware_start_def Let_def del: firmware_loop.simps)
  then show ?thesis using boots_trans [OF s1(2) t(2)] s1(3) by (intro exI [of _ t] exI [of _ "o1 @ [WriteReg NMI_STATE_REG 0]"]) simp
qed

lemma chip_starts:
  assumes "ready (bus_st s)" "starts_within n ver reg" "n < 254" "WriteReg NMI_STATE_REG 0 \<notin> set (dn (bus_st s))"
  shows "\<exists>t os c v w. start_chip Z B junk M2M_WIFI_MODE_ETHERNET s = Some (M2M_SUCCESS, t) \<and> boots s os t \<and> (c = 0x80 \<or> c = 0x82) \<and>
    commands os = [(rNMI_GP_REG_1, c), (BOOTROM_REG, M2M_START_FIRMWARE), (NMI_STATE_REG, 0), (NMI_PIN_MUX_0, v OR 0x100), (NMI_INTR_ENABLE, w OR 0x10000)]"
proof -
  obtain s1 o1 c where s1: "wait_for_bootrom Z B junk M2M_WIFI_MODE_ETHERNET s = Some (M2M_SUCCESS, s1)" "boots s o1 s1"
    "commands o1 = [(rNMI_GP_REG_1, c), (BOOTROM_REG, M2M_START_FIRMWARE)]" "c = 0x80 \<or> c = 0x82"
    using bootrom_starts [OF assms(1-3)] by blast
  have "WriteReg NMI_STATE_REG 0 \<notin> set o1" using commands_mem [of NMI_STATE_REG 0 o1] s1(3) by auto
  then have "WriteReg NMI_STATE_REG 0 \<notin> set (dn (bus_st s1))" using assms(4) unfolding boots_dn [OF s1(2)] by simp
  from firmware_starts [OF boots_ready [OF s1(2)] assms(2,3) this] obtain s2 o2 where
    s2: "wait_for_firmware_start Z B junk M2M_WIFI_MODE_ETHERNET s1 = (M2M_SUCCESS, s2)" "boots s1 o2 s2" "commands o2 = [(NMI_STATE_REG, 0)]" by blast
  obtain s3 v where s3: "set_reg_bit B NMI_PIN_MUX_0 0x100 s2 = (M2M_SUCCESS, s3)" "boots s2 [ReadReg NMI_PIN_MUX_0, WriteReg NMI_PIN_MUX_0 (v OR 0x100)] s3"
    using bit_boots [OF boots_ready [OF s2(2)], of NMI_PIN_MUX_0 "0x100"] by auto
  obtain t w where t: "set_reg_bit B NMI_INTR_ENABLE 0x10000 s3 = (M2M_SUCCESS, t)" "boots s3 [ReadReg NMI_INTR_ENABLE, WriteReg NMI_INTR_ENABLE (w OR 0x10000)] t"
    using bit_boots [OF boots_ready [OF s3(2)], of NMI_INTR_ENABLE "0x10000"] by auto
  have "start_chip Z B junk M2M_WIFI_MODE_ETHERNET s = Some (M2M_SUCCESS, t)"
    using s1(1) s2(1) s3(1) t(1) by (simp add: start_chip_def enable_interrupts_def)
  moreover note boots_trans [OF boots_trans [OF boots_trans [OF s1(2) s2(2)] s3(2)] t(2)]
  ultimately show ?thesis using s1(3,4) s2(3)
    by (intro exI [of _ t] exI [of _ "((o1 @ o2) @ [ReadReg NMI_PIN_MUX_0, WriteReg NMI_PIN_MUX_0 (v OR 0x100)]) @
        [ReadReg NMI_INTR_ENABLE, WriteReg NMI_INTR_ENABLE (w OR 0x10000)]"] exI [of _ c] exI [of _ v] exI [of _ w]) simp
qed

lemma driver_starts:
  assumes "fresh (bus_st s)" "starts_within n ver reg" "n < 254" "WriteReg NMI_STATE_REG 0 \<notin> set (dn (bus_st s))"
  shows "\<exists>t os c v w. nm_drv_init Z B junk M2M_WIFI_MODE_ETHERNET s = Some (M2M_SUCCESS, t) \<and> boots s os t \<and> (c = 0x80 \<or> c = 0x82) \<and>
    commands os = [(rNMI_GP_REG_1, c), (BOOTROM_REG, M2M_START_FIRMWARE), (NMI_STATE_REG, 0), (NMI_PIN_MUX_0, v OR 0x100), (NMI_INTR_ENABLE, w OR 0x10000)]"
proof -
  obtain x0 where x0: "bus_iface_init Z (bus_st s) = Some (M2M_SUCCESS, x0)" "early x0" "dn x0 = dn (bus_st s)" using start_law [OF assms(1)] by blast
  let ?s0 = "s\<lparr>bus_st := x0\<rparr>"
  have b0: "boots_by early dn s [] ?s0" using x0(2,3) by (simp add: boots_bus)
  obtain nr s1 o1 where s1: "nmi_get_chipid B ?s0 = (nr, s1)" "boots_by early dn ?s0 o1 s1" "commands o1 = []"
    using chipid_reads [of early, OF early_law boots_ready [OF b0]] by blast
  obtain x2 o2 where x2: "proto_init Z (bus_st s1) = (M2M_SUCCESS, x2)" "ready x2" "dn x2 = dn (bus_st s1) @ o2"
    "\<forall>a v. WriteReg a v \<in> set o2 \<longrightarrow> a = PROTOCOL_CONFIG" using proto_law [OF boots_ready [OF s1(2)]] by blast
  let ?s2 = "s1\<lparr>bus_st := x2\<rparr>"
  have b2: "boots_by ready dn s ((([] @ o1)) @ o2) ?s2" by (rule boots_trans [OF boots_trans [OF b0 s1(2)] boots_bus]) (use x2 in simp_all)
  have c2: "commands (([] @ o1) @ o2) = []" using s1(3) commands_proto [OF x2(4)] by simp
  then have "WriteReg NMI_STATE_REG 0 \<notin> set (([] @ o1) @ o2)" using commands_mem [of NMI_STATE_REG 0 "([] @ o1) @ o2"] by auto
  then have "WriteReg NMI_STATE_REG 0 \<notin> set (dn (bus_st ?s2))" using assms(4) unfolding boots_dn [OF b2] by simp
  from chip_starts [OF boots_ready [OF b2] assms(2,3) this] obtain t o3 c v w where
    t: "start_chip Z B junk M2M_WIFI_MODE_ETHERNET ?s2 = Some (M2M_SUCCESS, t)" "boots ?s2 o3 t" "c = 0x80 \<or> c = 0x82"
      "commands o3 = [(rNMI_GP_REG_1, c), (BOOTROM_REG, M2M_START_FIRMWARE), (NMI_STATE_REG, 0), (NMI_PIN_MUX_0, v OR 0x100), (NMI_INTR_ENABLE, w OR 0x10000)]"
    by blast
  have "nm_drv_init Z B junk M2M_WIFI_MODE_ETHERNET s = Some (M2M_SUCCESS, t)"
    using x0(1) s1(1) x2(1) t(1) by (simp add: nm_drv_init_def)
  moreover have "boots s ((([] @ o1) @ o2) @ o3) t" by (rule boots_trans [OF b2 t(2)])
  moreover have "commands ((([] @ o1) @ o2) @ o3) = commands o3" unfolding commands_append [of "([] @ o1) @ o2"] c2 by simp
  ultimately show ?thesis using t(3,4) by metis
qed

end

section \<open>The whole start\<close>

definition version_fits :: "u32 \<Rightarrow> bool" where
  "version_fits ver \<longleftrightarrow> ver \<noteq> M2M_ATE_FW_IS_UP_VALUE \<and> (ucast (drop_bit 16 ver) :: u16) \<le> 0x1330 \<and> 0x1330 \<le> (ucast ver :: u16)"

lemma version_parts: "make_version (ucast (drop_bit 8 x)) (ucast (drop_bit 4 x) AND 0xf) (ucast x AND 0xf) = (x :: u16)"
proof -
  have a: "y AND 0xf = take_bit 4 y" for y :: u8 by (simp add: take_bit_eq_mask mask_numeral)
  show ?thesis unfolding make_version_def a
  proof (rule bit_word_eqI, goal_cases)
    case (1 n)
    then show ?case by (cases "n < 8") (auto simp: bit_simps)
  qed
qed

lemma version_checked: "version_fits ver \<Longrightarrow> check_version r (rev_of ver nr) = r"
proof -
  assume v: "version_fits ver"
  have d: "make_version 19 3 0 = 0x1330" by (simp add: make_version_def)
  show ?thesis using v by (simp add: check_version_def rev_of_def version_parts d Let_def version_fits_def) (auto dest: leD)
qed

context chip_boot
begin

lemma firmware_info_ok:
  assumes "ready (bus_st s)" "starts_within n ver reg" "version_fits ver"
  shows "\<exists>t v os. nm_get_firmware_info B s = (M2M_SUCCESS, v, t) \<and> boots s os t \<and> commands os = []"
proof -
  obtain s1 where s1: "rd B NMI_REV_REG s = (M2M_SUCCESS, Some ver, s1)" "boots s [ReadReg NMI_REV_REG] s1"
    using rd_boots [OF assms(1), of NMI_REV_REG] assms(2) unfolding starts_within_def by auto
  obtain nr s2 os where s2: "nmi_get_chipid B s1 = (nr, s2)" "boots s1 os s2" "commands os = []" using chipid_boots [OF boots_ready [OF s1(2)]] by blast
  have "nm_get_firmware_info B s = (M2M_SUCCESS, rev_of ver nr, s2)"
    using s1(1) s2(1) assms(3) version_checked [OF assms(3), of 0 nr] by (simp add: nm_get_firmware_info_def version_fits_def)
  then show ?thesis using boots_trans [OF s1(2) s2(2)] s2(3) by (intro exI [of _ s2] exI [of _ "rev_of ver nr"] exI [of _ "[ReadReg NMI_REV_REG] @ os"]) simp
qed

lemma wifi_init_ok:
  assumes "fresh (bus_st s)" "starts_within n ver reg" "n < 254" "WriteReg NMI_STATE_REG 0 \<notin> set (dn (bus_st s))" "version_fits ver"
    and "u8EthernetEnable p = M2M_WIFI_MODE_ETHERNET"
  shows "\<exists>t os c v w. m2m_wifi_init Z B junk (Some p) s = Some (M2M_SUCCESS, t) \<and> ready (bus_st t) \<and> dn (bus_st t) = dn (bus_st s) @ os \<and>
    (c = 0x80 \<or> c = 0x82) \<and>
    commands os = [(rNMI_GP_REG_1, c), (BOOTROM_REG, M2M_START_FIRMWARE), (NMI_STATE_REG, 0), (NMI_PIN_MUX_0, v OR 0x100), (NMI_INTR_ENABLE, w OR 0x10000)] \<and>
    callback t GROUP_WIFI = Some 1 \<and> awake t \<and> gu8Interrupt t = 0 \<and> app_wifi_cb t = pfAppWifiCb p \<and> app_eth_cb t = pfAppEthCb p \<and>
    netif t = set_receive_buffer (au8ethRcvBuf p) (u16ethRcvBufSize p) (netif s) \<and> \<not> gu8scanInProgress t"
proof -
  let ?s = "take_param p s"
  have e: "bus_st ?s = bus_st s" by (simp add: take_param_def)
  obtain s1 o1 c v w where s1: "nm_drv_init Z B junk M2M_WIFI_MODE_ETHERNET ?s = Some (M2M_SUCCESS, s1)" "boots ?s o1 s1" "c = 0x80 \<or> c = 0x82"
      "commands o1 = [(rNMI_GP_REG_1, c), (BOOTROM_REG, M2M_START_FIRMWARE), (NMI_STATE_REG, 0), (NMI_PIN_MUX_0, v OR 0x100), (NMI_INTR_ENABLE, w OR 0x10000)]"
    using driver_starts [of ?s n ver junk] assms(1-4) unfolding e by blast
  let ?s2 = "snd (hif_register_cb GROUP_WIFI (Some 1) (snd (hif_init s1)))"
  have s2: "bus_st ?s2 = bus_st s1" "callback ?s2 GROUP_WIFI = Some 1" "gu8ChipMode ?s2 = 0" "gu8Interrupt ?s2 = 0" "hif.more ?s2 = hif.more s1"
    by (simp_all add: hif_init_def hif_register_cb_def Let_def)
  obtain t r o2 where t: "nm_get_firmware_info B ?s2 = (M2M_SUCCESS, r, t)" "boots ?s2 o2 t" "commands o2 = []"
    using firmware_info_ok [of ?s2 n ver] boots_ready [OF s1(2)] assms(2,5) unfolding s2(1) by blast
  have d: "ready (bus_st t)" "dn (bus_st t) = dn (bus_st s) @ o1 @ o2"
    using boots_ready [OF t(2)] boots_dn [OF t(2)] boots_dn [OF s1(2)] e s2(1) by simp_all
  have "m2m_wifi_init Z B junk (Some p) s = Some (M2M_SUCCESS, t)" using s1(1) t(1) assms(6) by (simp add: m2m_wifi_init_def Let_def)
  moreover have "callback t GROUP_WIFI = Some 1" "awake t" "gu8Interrupt t = 0" "app_wifi_cb t = pfAppWifiCb p" "app_eth_cb t = pfAppEthCb p"
    "netif t = set_receive_buffer (au8ethRcvBuf p) (u16ethRcvBufSize p) (netif s)" "\<not> gu8scanInProgress t"
    using t(2) s1(2) s2 more_wifi [OF s2(5)] unfolding boots_by_def by (auto simp: awake_def deep_def take_param_def)
  ultimately show ?thesis using d s1(3,4) t(3) by (intro exI [of _ t] exI [of _ "o1 @ o2"] exI [of _ c] exI [of _ v] exI [of _ w]) simp
qed

end

text \<open>
  C16: Against a firmware that starts and fits the driver, \<open>m2m_wifi_init\<close> as network.c calls it ends with success: the chip was commanded to take Ethernet mode, to start its
  firmware and to raise interrupts, in this order and nothing else; bus and driver are ready, and the driver's callback takes the chip's messages.
\<close>

theorem radio_starts:
  fixes s :: "nmspi wifi"
  assumes "polite fw" "quiet fw" "keeps_protocol fw" "\<not> gu8Crc_off (bus_st s)" "starts_within n ver (reg_value fw)" "n < 254" "version_fits ver"
    and "WriteReg NMI_STATE_REG 0 \<notin> set (done_ops fw c0 (bus_st s))" "u8EthernetEnable p = M2M_WIFI_MODE_ETHERNET"
  shows "\<exists>t os c v w. m2m_wifi_init (spi_board (answers fw c0) j1 0) (spi_bus (answers fw c0) j2) j3 (Some p) s = Some (M2M_SUCCESS, t) \<and>
    sync fw c0 (bus_st t) \<and> done_ops fw c0 (bus_st t) = done_ops fw c0 (bus_st s) @ os \<and> (c = 0x80 \<or> c = 0x82) \<and>
    commands os = [(rNMI_GP_REG_1, c), (BOOTROM_REG, M2M_START_FIRMWARE), (NMI_STATE_REG, 0), (NMI_PIN_MUX_0, v OR 0x100), (NMI_INTR_ENABLE, w OR 0x10000)] \<and>
    callback t GROUP_WIFI = Some 1 \<and> awake t \<and> gu8Interrupt t = 0 \<and> app_wifi_cb t = pfAppWifiCb p \<and> app_eth_cb t = pfAppEthCb p \<and>
    netif t = set_receive_buffer (au8ethRcvBuf p) (u16ethRcvBufSize p) (netif s) \<and> \<not> gu8scanInProgress t"
proof -
  have f: "polite fw \<and> quiet fw \<and> keeps_protocol fw \<and> \<not> gu8Crc_off (bus_st s)" using assms(1-4) by blast
  from winc_board.wifi_init_ok [OF f assms(5,6,8,7,9), of j1 j2 j3] show ?thesis by blast
qed

definition booting_fw :: "nat \<Rightarrow> u32 \<Rightarrow> firmware" where
  "booting_fw n ver = demo_fw\<lparr>reg_value := (\<lambda>os a. if a = EFUSE_REG then (if count_list os (ReadReg EFUSE_REG) < n then 0 else 0x80000000)
     else if a = BOOTROM_REG then (if count_list os (ReadReg BOOTROM_REG) < n then 0 else M2M_FINISH_BOOT_ROM)
     else if a = NMI_STATE_REG then (if count_list os (ReadReg NMI_STATE_REG) < n then 0 else M2M_FINISH_INIT_STATE)
     else if a = NMI_REV_REG then ver else written a os)\<rparr>"

lemma booting_firmware: "polite (booting_fw n ver)" "quiet (booting_fw n ver)" "keeps_protocol (booting_fw n ver)" "starts_within n ver (reg_value (booting_fw n ver))"
  by (simp_all add: polite_def quiet_def keeps_protocol_def starts_within_def booting_fw_def demo_fw_def written_def)

lemma radio_starts_witness:
  "\<exists>t. m2m_wifi_init (spi_board (answers (booting_fw 7 0x13301340) demo_chip) 0 0) (spi_bus (answers (booting_fw 7 0x13301340) demo_chip) 0) 0
      (Some \<lparr>pfAppWifiCb = True, pfAppEthCb = True, au8ethRcvBuf = EthBuffer, u16ethRcvBufSize = 2048, u8EthernetEnable = M2M_WIFI_MODE_ETHERNET\<rparr>)
      (demo_wifi\<lparr>bus_st := demo_spi\<lparr>gu8Crc_off := False\<rparr>\<rparr>) = Some (M2M_SUCCESS, t) \<and> callback t GROUP_WIFI = Some 1 \<and> rcv_size (netif t) = 2048"
proof -
  let ?p = "\<lparr>pfAppWifiCb = True, pfAppEthCb = True, au8ethRcvBuf = EthBuffer, u16ethRcvBufSize = 2048, u8EthernetEnable = M2M_WIFI_MODE_ETHERNET\<rparr>"
  let ?s = "demo_wifi\<lparr>bus_st := demo_spi\<lparr>gu8Crc_off := False\<rparr>\<rparr>"
  have a: "\<not> gu8Crc_off (bus_st ?s)" "(7 :: nat) < 254" "version_fits 0x13301340"
    "WriteReg NMI_STATE_REG 0 \<notin> set (done_ops (booting_fw 7 0x13301340) demo_chip (bus_st ?s))" "u8EthernetEnable ?p = M2M_WIFI_MODE_ETHERNET"
    by (simp_all add: version_fits_def chip_of_def demo_spi_def demo_chip_def)
  from radio_starts [OF booting_firmware(1-3) a(1) booting_firmware(4) a(2-5), of 0 0 0]
  show ?thesis by (auto simp: set_receive_buffer_def)
qed

end
