(* ===== verification/Spec2Isabelle.thy ===== *)
theory Spec2Isabelle
  imports Prelude CFloat Sensors Crc OneWire_Bus Debounce Temperature Htu21d Analog Power_Meter Cmd Ble_Serial Ble_Sensors Request Enc28j60 Enc_Chip Enc_Selftest Mchdrv Storage Socket_Task
    Network Provisioning Reconnect Sensors_Task Winc_Netif Winc_Tx OneWire_Isr Uplink Configuration Crc7 Nm_Spi Winc_Chip Hif
    Hif_Send M2m_Wifi Wifi_Path M2m_Requests Nm_Drv Chip_Boot
begin

text \<open>
  The application firmware of the PULSE sensor node (nRF52, FreeRTOS), as far as its own sources go.

  The program. \<open>main\<close> of main_app.c sets up the drivers and starts three tasks; a fourth follows.
  The sensors task (main_app.c) reads in every round the pressure channels (analog.c), eight DS18B20 thermometers (temperature.c), the thermostat
  wires and the energy meter (power_factor.c) and three HTU21D humidity sensors (htu21d.c), each into the packed structs of tcptest.h, and has the
  packet that fits the configured equipment notified over Bluetooth (ble_sensors.c).
  The client task (socket_test.c) connects to the server, and while connected prints the fourth struct as an HTTP request (tcptest.c) and sends it over TLS.
  An app talks to the device over the Bluetooth UART (ble.c); cmd.c cuts the bytes into lines and runs them. What a line changes goes to shared variables,
  which the storage task (main_app.c) writes to flash, and to a message queue, which the network task (network.c) serves: it starts the two interfaces, WiFi
  (network.c, winc1500netif.c, over the WINC1500's driver) and Ethernet (mchdrv.c over enc28j60.c over enchw.c), polls them and chooses the default one.
  The driver of the WINC1500 is in layers, of which all but the sockets are on the path of a frame: m2m_wifi.c lays out requests and takes messages, m2m_hif.c carries both through the chip's memory,
  nmasic.c and nmdrv.c start the chip and wake it, and nmbus.c and nmspi.c are its SPI bus. An interrupt runs the path upwards, from \<open>hif_isr\<close> to lwIP's input function.
  onewire.c is a second one-wire master, set up by \<open>main\<close> and otherwise not used.

  How it is modelled. A C struct with the variables a component shares is a \<open>record\<close>, an enumeration a \<open>datatype\<close>, an operation a
  function from state to state; a byte or word of the C code is a word of that width, and arrays are lists. Copies and prints that could leave an array, a format
  without its argument, a null pointer and an overlapping copy answer \<open>Inl\<close> with a \<open>fault\<close>, so that their absence is a theorem, or the exact condition of their presence. What leaves the program (a GPIO, an SPI or I2C transfer, a Bluetooth packet,
  a socket call, a flash operation, a call into lwIP or the radio's driver) is appended to a log in the state, and what comes back is a parameter, a function of the log: it can be
  any device. Waits without a bound give \<open>None\<close> or \<open>Blocked\<close> when they do not end, the error handler and a reset are values as well.
  Interrupts run where the model of their device lets an event arrive: HTU21D transfers end at any tick, the timer of onewire.c at its compare events.
  Arithmetic on \<open>float\<close> and \<open>double\<close> is CFloat: IEEE rounding to nearest on rationals.

  Where things are.
  \<^item> Prelude: types, C strings, \<open>memcpy\<close> and \<open>strcpy\<close> with faults, \<open>APP_ERROR_CHECK\<close>. CFloat: floating point and error propagation. Debounce: the
    contract of a sensor channel that counts rejected readings, a locale; the eight thermometers and both quantities of the humidity sensors interpret it.
  \<^item> Sensors (tcptest.h, \<open>init_keys\<close>), Crc (\<open>dsCRC8\<close>, \<open>checkCRC\<close>), OneWire_Bus and Temperature (temperature.c), Htu21d (htu21d.c),
    Analog (analog.c), Power_Meter (power_factor.c), OneWire_Isr (onewire.c): the drivers. Their theorems say what goes over the wire, that a reading a device
    sends is the value stored, in every struct and within a stated error of the exact formula, and what rejected readings do.
  \<^item> Sensors_Task (\<open>sensors_task_fn\<close>): one round. Its locales say what a driver may change of the packets (only its own fields, and the same in all four packets), interpreted
    on each driver; with them the notified packet holds all the readings.
  \<^item> Ble_Sensors (ble_sensors.c), Request (tcptest.c, request part of socket_test.c), Uplink: what is sent, and that app and server are told the same. The request is built
    from the arrays of link, token and pulse number with their zero bytes (\<open>make_request\<close>), and its header is printed as the format it is (\<open>printf_i\<close>).
  \<^item> Cmd (cmd.c), Ble_Serial (ble.c): the command line and the UART. Lines run once and in order however the bytes are cut; arrays are kept except in the cases listed;
    bytes leave in order, and what a failing radio or a new session costs is stated.
  \<^item> Storage (\<open>storage_task_fn\<close>): flash whose writes only clear bits; a round serves every request, unless a pending string that is to be copied does not end in its array
    (\<open>ends\<close>), which the command line does not guarantee; what it stored is read at the next start.
  \<^item> Network (network.c), Socket_Task (socket_test.c): the two other tasks as state machines with reachable states; which interface is the default, which resources are held (a socket by its
    descriptor), when data is sent.
  \<^item> Enc28j60 and Enc_Chip, Enc_Selftest (enc28j60.c, enchw.c): the Ethernet driver, and the chip of the data sheet as an observer of its SPI bus, against which its register, transmit and
    receive functions are proved. The observer keeps MAC and MII registers, of which a read shows a dummy byte first, apart from the ETH registers, the only ones the driver's reads and bit operations fit. Mchdrv (mchdrv.c): its lwIP side. Winc_Netif, Winc_Tx (winc1500netif.c, with the loop of m2m_wifi.c): frames to and from the radio in chains of packet buffers,
    from the state network.c starts with (\<open>fresh\<close>), whose receive buffer the callback does not look into, or from the one every arrived frame leaves (\<open>glue_ready\<close>).
  \<^item> Crc7, Nm_Spi (nmspi.c, nmbus.c, the board's pins and \<open>nm_clkless_wake\<close>): the WINC1500's bus. Winc_Chip is the chip as an observer of the transfers, with any number of filler bytes; the functions of
    nmspi.c and nmbus.c are shown to be its reads and writes.
  \<^item> Hif (m2m_hif.c) is written over a record of bus functions, as the C code is over the macros of nmbus.h. The locale \<open>host_bus\<close> is the contract of such a bus: a read answers what the chip's firmware
    holds, a write reaches it, nothing else happens. Nm_Spi with the chip of Winc_Chip interprets it (\<open>winc_spi\<close>). Under it Hif shows how a message is received, and Hif_Send that a message
    which is sent lies in the memory the chip assigned, and how a request that the chip does not grant ends.
  \<^item> M2m_Wifi and M2m_Requests (m2m_wifi.c): the callback, with the loop over the pieces of a frame, and the requests of the application, with the bytes of each struct. Wifi_Path: one interrupt delivers one frame, but the first after start, to lwIP
    complete; the loop refines the one of Winc_Netif (\<open>carried\<close>).
  \<^item> Nm_Drv (nmasic.c, nmdrv.c, \<open>m2m_wifi_init\<close>) and Chip_Boot: the start of the chip, over the contract \<open>chip_boot\<close>, which extends \<open>host_bus\<close> by the protocol's start and the delays, interpreted as \<open>winc_board\<close>.
  \<^item> Provisioning, Reconnect, Configuration: an app's session followed through command line, storage task, flash, restart, network task, sensors task and client task;
    for WiFi credentials also what a second setup over flash that was not erased leaves (\<open>left_in_flash\<close>).

  Bounds. Loops of the code with a bound keep it: 200 polls of an I2C transfer, 64 turns of the radio's poll, 100 attempts to send, 100 polls of the Ethernet chip's clock;
  at the WINC1500 up to 11 reads for an answer, blocks of 248 bytes, 1000 polls for a place in its memory, and the turns in which its start is awaited. Where the driver waits for that chip without a bound
  (its configuration register, its wake-up, the interrupt that is read until it succeeds) the loop is a \<open>partial_function\<close> whose \<open>None\<close> is that it does not end. Fuel is used twice.
  \<open>wait_events\<close> of OneWire_Isr takes a turn for each microsecond of the timeout, and the counter passes at least one between two events. \<open>eth_loop\<close>
  of Winc_Netif takes one turn more than the packet has bytes, and every turn takes a byte. Both are shown to be enough by the theorems about them, which give the final state. The other loops are
  structural or have a measure. Numbers: a one-wire timeout is at least 976 microseconds a tick (the kernel ticks 1024 times a second); lines of the command line have up to 255 bytes.

  Not modelled. Log output. Preemption inside an operation: the tasks run their operations as units, and the order in which they are combined is explicit in the theorems
  that span tasks. lwIP, TLS, SoftDevice and SDK are called, not translated. Of the WINC1500's driver
  the sockets, the update of its firmware, the access to its flash and its ciphers, the test mode and the download mode are left out, as nothing of the network path uses them, as well as the stop of the chip
  (\<open>nm_drv_deinit\<close>) and what the build does not contain (UART and I2C buses, CONF_MGMT, _PS_SERVER_, NO_HW_CHIP_EN). The bootloader and its serial
  transport are another program; main_test.c and cli_cmds.c test the hardware. dht22.c, f_storage.c, network_conn_check.c, pulse_uicr.c and tcptest.c from line 286 are commented out or
  not called. \<open>winc_fill_callback_info\<close> is called from nowhere.
\<close>

end
